(* ===== verification/Prelude.thy ===== *)
theory Prelude
  imports Main "HOL-Library.Monad_Syntax" "HOL-Library.Word"
begin

text \<open>
  Shared vocabulary of the development.

  \<^item> A C pointer is a natural number and \<^verbatim>\<open>NULL\<close> is 0. User data (\<^verbatim>\<open>void *\<close>) is never
    dereferenced by the containers, so it is a bare pointer too.
  \<^item> A status code is the \<^verbatim>\<open>int\<close> the C function returns: 0, or the negated \<^verbatim>\<open>errno\<close> value
    (the numbers are those of Linux).
  \<^item> A C function that dereferences pointers is a function into \<open>option\<close>: \<open>None\<close> says
    that the call has undefined behaviour (a null or dangling dereference, a double free) or
    does not return. A lemma that a call is \<open>Some\<close> of something therefore states both
    memory safety and termination.
  \<^item> A destructor (\<^verbatim>\<open>m_list_dtor\<close>, \<^verbatim>\<open>m_queue_dtor\<close>, ...) is an optional function on
    a world of any type \<open>'w\<close>: what the user's function does to the rest of the program.
  \<^item> An allocation is an argument of the operation that makes it: the address that
    \<^verbatim>\<open>memhook._malloc\<close> or \<^verbatim>\<open>memhook._calloc\<close> returned, \<open>NULL\<close> when it failed.
\<close>

type_synonym ptr = nat

abbreviation (input) NULL :: ptr where "NULL \<equiv> 0"

subsection \<open>Status codes\<close>

abbreviation (input) EPERM :: int where "EPERM \<equiv> 1"
abbreviation (input) ENOENT :: int where "ENOENT \<equiv> 2"
abbreviation (input) EAGAIN :: int where "EAGAIN \<equiv> 11"
abbreviation (input) ENOMEM :: int where "ENOMEM \<equiv> 12"
abbreviation (input) EACCES :: int where "EACCES \<equiv> 13"
abbreviation (input) EEXIST :: int where "EEXIST \<equiv> 17"
abbreviation (input) EINVAL :: int where "EINVAL \<equiv> 22"
abbreviation (input) EPIPE :: int where "EPIPE \<equiv> 32"


subsection \<open>Destructors\<close>

type_synonym 'w dtor = "(ptr \<Rightarrow> 'w \<Rightarrow> 'w) option"

definition call_dtor :: "'w dtor \<Rightarrow> ptr \<Rightarrow> 'w \<Rightarrow> 'w" where
  "call_dtor d p w = (case d of None \<Rightarrow> w | Some f \<Rightarrow> f p w)"

lemma call_dtor_simps [simp]:
  "call_dtor None p w = w"
  "call_dtor (Some f) p w = f p w"
  by (simp_all add: call_dtor_def)

definition log_dtor :: "ptr list dtor" where
  "log_dtor = Some (\<lambda>p w. w @ [p])"

lemma fold_log_dtor [simp]: "fold (call_dtor log_dtor) ps w = w @ ps"
  by (induction ps arbitrary: w) (auto simp: log_dtor_def)

subsection \<open>Lists\<close>

definition remove_nth :: "nat \<Rightarrow> 'a list \<Rightarrow> 'a list" where
  "remove_nth i xs = take i xs @ drop (Suc i) xs"

lemma remove_nth_middle [simp]: "length xs = i \<Longrightarrow> remove_nth i (xs @ a # ys) = xs @ ys"
  by (simp add: remove_nth_def)

lemma remove_nth_0 [simp]: "remove_nth 0 (a # ys) = ys"
  by (simp add: remove_nth_def)

lemma length_remove_nth: "i < length xs \<Longrightarrow> length (remove_nth i xs) = length xs - 1"
  by (simp add: remove_nth_def)

lemma map_remove_nth: "map f (remove_nth i xs) = remove_nth i (map f xs)"
  by (simp add: remove_nth_def take_map drop_map)

lemma nth_split:
  assumes "i < length as"
  obtains xs a ys where "as = xs @ a # ys" and "length xs = i" and "as ! i = a"
  using assms id_take_nth_drop [of i as] that [of "take i as" "as ! i" "drop (Suc i) as"]
  by auto

definition last_or_null :: "ptr list \<Rightarrow> ptr" where
  "last_or_null as = (if as = [] then NULL else last as)"

definition first_or_null :: "ptr list \<Rightarrow> ptr" where
  "first_or_null as = (case as of [] \<Rightarrow> NULL | a # _ \<Rightarrow> a)"

lemma first_or_null_simps [simp]: "first_or_null [] = NULL" "first_or_null (a # as) = a"
  by (simp_all add: first_or_null_def)

lemma last_or_null_snoc [simp]: "last_or_null [] = NULL" "last_or_null (as @ [a]) = a"
  by (simp_all add: last_or_null_def)

lemma takeWhile_False [simp]: "takeWhile (\<lambda>_. False) xs = []"
  by (cases xs) simp_all

lemma dropWhile_False [simp]: "dropWhile (\<lambda>_. False) xs = xs"
  by (cases xs) simp_all

subsection \<open>Callback loops\<close>

text \<open>
  What the \<^verbatim>\<open>m_*_iterate\<close> functions compute over the elements in order: a negative result of the
  callback is returned at once, a positive one stops the loop with 0.
\<close>

primrec iter_list :: "('a \<Rightarrow> 'w \<Rightarrow> int \<times> 'w) \<Rightarrow> 'a list \<Rightarrow> 'w \<Rightarrow> int \<times> 'w" where
  "iter_list fn [] w = (0, w)"
| "iter_list fn (x # xs) w =
     (case fn x w of (rc, w') \<Rightarrow>
        if rc < 0 then (rc, w') else if rc > 0 then (0, w') else iter_list fn xs w')"

text \<open>The first element on which the callback does not return 0 decides the result.\<close>

lemma iter_list_stop:
  assumes "\<And>x w. x \<in> set xs \<Longrightarrow> fst (fn x w) = 0" and "fn y (snd (iter_list fn xs w)) = (rc, w')"
    and "rc \<noteq> 0"
  shows "iter_list fn (xs @ y # ys) w = (min rc 0, w')"
  using assms
proof (induction xs arbitrary: w)
  case (Cons x xs)
  obtain v where v: "fn x w = (0, v)" using Cons.prems(1) [of x w] by (cases "fn x w") auto
  have "iter_list fn (xs @ y # ys) v = (min rc 0, w')"
    using Cons.prems v by (intro Cons.IH) auto
  with v show ?case by simp
qed (auto split: prod.splits)

end
