(* ===== verification/Chain.thy ===== *)
theory Chain
  imports Prelude
begin

text \<open>
  Singly linked nodes, as \<^verbatim>\<open>Lib/structs/list.c\<close>, \<^verbatim>\<open>stack.c\<close> and \<^verbatim>\<open>queue.c\<close> lay them out:
  each of the three files has its own \<^verbatim>\<open>struct _elem\<close> of a user pointer and one link
  (\<^verbatim>\<open>next\<close> in the list, \<^verbatim>\<open>prev\<close> in the stack and in the queue). A container owns a store of
  nodes; an iterator holds the address of the link cell that points to the current node
  (\<^verbatim>\<open>list_node **elem\<close>), which is here a \<open>slot\<close>: the container's own head pointer or the
  link field of a node. The lemmas relate a store to the list of node addresses it
  links, and say what reading and writing a slot does to that list.
\<close>

record node =
  userptr :: ptr
  link :: ptr

type_synonym nodes = "ptr \<rightharpoonup> node"

datatype slot = HeadSlot | LinkSlot ptr

definition node_at :: "nodes \<Rightarrow> ptr \<Rightarrow> node option" where
  "node_at ns p = (if p = NULL then None else ns p)"

definition free_node :: "nodes \<Rightarrow> ptr \<Rightarrow> nodes option" where
  "free_node ns p =
     (if p = NULL then Some ns else case ns p of None \<Rightarrow> None | Some _ \<Rightarrow> Some (ns(p := None)))"

fun slot_get :: "ptr \<Rightarrow> nodes \<Rightarrow> slot \<Rightarrow> ptr option" where
  "slot_get h ns HeadSlot = Some h"
| "slot_get h ns (LinkSlot a) = map_option link (node_at ns a)"

fun slot_set :: "ptr \<Rightarrow> nodes \<Rightarrow> slot \<Rightarrow> ptr \<Rightarrow> (ptr \<times> nodes) option" where
  "slot_set h ns HeadSlot q = Some (q, ns)"
| "slot_set h ns (LinkSlot a) q =
     map_option (\<lambda>n. (h, ns(a \<mapsto> n\<lparr>link := q\<rparr>))) (node_at ns a)"

definition set_userptr :: "nodes \<Rightarrow> ptr \<Rightarrow> ptr \<Rightarrow> nodes option" where
  "set_userptr ns a v = map_option (\<lambda>n. ns(a \<mapsto> n\<lparr>userptr := v\<rparr>)) (node_at ns a)"

subsection \<open>Segments of linked nodes\<close>

primrec seg :: "nodes \<Rightarrow> ptr \<Rightarrow> ptr list \<Rightarrow> ptr \<Rightarrow> bool" where
  "seg ns p [] q \<longleftrightarrow> p = q"
| "seg ns p (a # as) q \<longleftrightarrow>
     p = a \<and> (case node_at ns a of None \<Rightarrow> False | Some n \<Rightarrow> seg ns (link n) as q)"

lemma seg_Cons_iff [simp]:
  "seg ns p (a # as) q \<longleftrightarrow> p = a \<and> a \<noteq> NULL \<and> (\<exists>n. ns a = Some n \<and> seg ns (link n) as q)"
  by (auto simp: node_at_def split: option.splits)

declare seg.simps(2) [simp del]

lemma seg_NULL [simp]: "seg ns NULL as q \<longleftrightarrow> as = [] \<and> q = NULL"
  by (cases as) (auto simp: node_at_def)

lemma seg_nonnull: "a \<noteq> NULL \<Longrightarrow> seg ns a as NULL \<Longrightarrow> \<exists>bs. as = a # bs"
  by (cases as) auto

lemma seg_append: "seg ns p (xs @ ys) q \<longleftrightarrow> (\<exists>r. seg ns p xs r \<and> seg ns r ys q)"
  by (induction xs arbitrary: p) auto

lemma seg_mem: "seg ns p as q \<Longrightarrow> a \<in> set as \<Longrightarrow> a \<noteq> NULL \<and> ns a \<noteq> None"
  by (induction as arbitrary: p) auto

lemma seg_upd [simp]: "a \<notin> set as \<Longrightarrow> seg (ns(a := v)) p as q = seg ns p as q"
  by (induction as arbitrary: p) auto

lemma seg_cong:
  "(\<And>a. a \<in> set as \<Longrightarrow> map_option link (ns a) = map_option link (ns' a)) \<Longrightarrow>
   seg ns p as q = seg ns' p as q"
proof (induction as arbitrary: p)
  case (Cons a as)
  from Cons.prems [of a] have "map_option link (ns a) = map_option link (ns' a)" by simp
  moreover from Cons have "seg ns r as q = seg ns' r as q" for r by simp
  ultimately show ?case by (cases "ns a"; cases "ns' a") auto
qed simp

lemma seg_unique: "seg ns p as NULL \<Longrightarrow> seg ns p bs NULL \<Longrightarrow> as = bs"
proof (induction as arbitrary: p bs)
  case (Cons a as)
  then show ?case by (cases bs) auto
qed simp

lemma seg_distinct: "seg ns p as NULL \<Longrightarrow> distinct as"
proof (induction as arbitrary: p)
  case (Cons a as)
  then obtain n where n: "ns a = Some n" "seg ns (link n) as NULL" "a \<noteq> NULL" by auto
  have "a \<notin> set as"
  proof
    assume "a \<in> set as"
    then obtain xs ys where as: "as = xs @ a # ys" by (auto simp: in_set_conv_decomp)
    with n have "seg ns a (a # ys) NULL" by (auto simp: seg_append)
    moreover from n have "seg ns a (a # as) NULL" by simp
    ultimately have "a # as = a # ys" by (rule seg_unique [rotated])
    with as show False by simp
  qed
  with Cons.IH n show ?case by auto
qed simp

text \<open>A counted walk computes the addresses; the invariants are stated over it.\<close>

fun path :: "nodes \<Rightarrow> ptr \<Rightarrow> nat \<Rightarrow> ptr list" where
  "path ns p 0 = []"
| "path ns p (Suc k) = (case node_at ns p of None \<Rightarrow> [] | Some n \<Rightarrow> p # path ns (link n) k)"

lemma path_seg: "seg ns p as NULL \<Longrightarrow> length as \<le> k \<Longrightarrow> path ns p k = as"
proof (induction k arbitrary: p as)
  case (Suc k)
  then show ?case by (cases as) (auto simp: node_at_def)
qed simp

subsection \<open>User data along a segment\<close>

definition val :: "nodes \<Rightarrow> ptr \<Rightarrow> ptr" where
  "val ns a = (case ns a of None \<Rightarrow> NULL | Some n \<Rightarrow> userptr n)"

definition vals :: "nodes \<Rightarrow> ptr list \<Rightarrow> ptr list" where
  "vals ns as = map (val ns) as"

lemma val_upd [simp]: "val (ns(a \<mapsto> n)) b = (if b = a then userptr n else val ns b)"
  by (simp add: val_def)

lemma val_del [simp]: "b \<noteq> a \<Longrightarrow> val (ns(a := None)) b = val ns b"
  by (simp add: val_def)

lemma vals_simps [simp]:
  "vals ns [] = []"
  "vals ns (a # as) = val ns a # vals ns as"
  "vals ns (as @ bs) = vals ns as @ vals ns bs"
  by (simp_all add: vals_def)

lemma length_vals [simp]: "length (vals ns as) = length as"
  by (simp add: vals_def)

lemma vals_Nil_iff [simp]: "vals ns as = [] \<longleftrightarrow> as = []"
  by (simp add: vals_def)

lemma vals_cong: "(\<And>a. a \<in> set as \<Longrightarrow> val ns a = val ns' a) \<Longrightarrow> vals ns as = vals ns' as"
  by (simp add: vals_def)

lemma vals_upd [simp]: "a \<notin> set as \<Longrightarrow> vals (ns(a := v)) as = vals ns as"
  by (auto simp: vals_def val_def)

subsection \<open>Reading and writing the slot after a prefix\<close>

definition slot_after :: "ptr list \<Rightarrow> slot" where
  "slot_after xs = (if xs = [] then HeadSlot else LinkSlot (last xs))"

lemma slot_after_simps [simp]:
  "slot_after [] = HeadSlot"
  "slot_after (xs @ [a]) = LinkSlot a"
  by (simp_all add: slot_after_def)

lemma seg_snoc:
  "seg ns p (xs @ [a]) q \<longleftrightarrow> seg ns p xs a \<and> a \<noteq> NULL \<and> (\<exists>n. ns a = Some n \<and> link n = q)"
  by (auto simp: seg_append)

lemma slot_get_after: "seg ns h xs p \<Longrightarrow> slot_get h ns (slot_after xs) = Some p"
  by (cases xs rule: rev_cases) (auto simp: seg_snoc node_at_def)

lemma slot_set_after:
  assumes "seg ns h xs p" and "distinct xs"
  obtains h' ns' where "slot_set h ns (slot_after xs) q = Some (h', ns')"
    and "seg ns' h' xs q" and "\<And>a. a \<notin> set xs \<Longrightarrow> ns' a = ns a"
    and "val ns' = val ns" and "dom ns' = dom ns"
proof (cases xs rule: rev_cases)
  case Nil
  with that [of q ns] show ?thesis by simp
next
  case (snoc ys a)
  with assms obtain n where n: "seg ns h ys a" "a \<noteq> NULL" "ns a = Some n" "a \<notin> set ys"
    by (auto simp: seg_snoc)
  let ?ns = "ns(a \<mapsto> n\<lparr>link := q\<rparr>)"
  have "val ?ns = val ns" using n by (auto simp: fun_eq_iff val_def)
  moreover have "dom ?ns = dom ns" using n by auto
  ultimately show ?thesis using that [of h ?ns] snoc n by (simp add: node_at_def seg_snoc)
qed

subsection \<open>A whole container: head pointer, stored length, node store\<close>

text \<open>
  \<open>chain_rep h n ns as\<close>: the nodes of \<open>ns\<close> are exactly those at the addresses \<open>as\<close>, linked
  in this order from \<open>h\<close>; the stored length is right; no stored user pointer is null. That the
  store holds nothing else says that no node has leaked.
\<close>

definition chain_rep :: "ptr \<Rightarrow> nat \<Rightarrow> nodes \<Rightarrow> ptr list \<Rightarrow> bool" where
  "chain_rep h n ns as \<longleftrightarrow>
     seg ns h as NULL \<and> n = length as \<and> dom ns = set as \<and> NULL \<notin> set (vals ns as)"

definition chain_ok :: "ptr \<Rightarrow> nat \<Rightarrow> nodes \<Rightarrow> bool" where
  "chain_ok h n ns \<longleftrightarrow> chain_rep h n ns (path ns h n)"

definition chain_list :: "ptr \<Rightarrow> nat \<Rightarrow> nodes \<Rightarrow> ptr list" where
  "chain_list h n ns = vals ns (path ns h n)"

lemma chain_rep_path: "chain_rep h n ns as \<Longrightarrow> path ns h n = as"
  by (simp add: chain_rep_def path_seg)

lemma chain_ok_rep: "chain_rep h n ns as \<Longrightarrow> chain_ok h n ns"
  by (simp add: chain_ok_def chain_rep_path)

lemma chain_list_rep: "chain_rep h n ns as \<Longrightarrow> chain_list h n ns = vals ns as"
  by (simp add: chain_list_def chain_rep_path)

lemma chain_okE:
  assumes "chain_ok h n ns"
  obtains as where "chain_rep h n ns as" and "chain_list h n ns = vals ns as"
  using assms chain_list_rep by (auto simp: chain_ok_def)

lemma chain_rep_distinct: "chain_rep h n ns as \<Longrightarrow> distinct as"
  by (auto simp: chain_rep_def dest: seg_distinct)

lemma chain_rep_empty [simp]: "chain_rep NULL 0 (\<lambda>_. None) as \<longleftrightarrow> as = []"
  by (auto simp: chain_rep_def)

lemma chain_rep_Nil: "chain_rep h n ns [] \<longleftrightarrow> h = NULL \<and> n = 0 \<and> ns = (\<lambda>_. None)"
  by (auto simp: chain_rep_def)

lemma chain_rep_Nil_iff: "chain_rep h n ns as \<Longrightarrow> as = [] \<longleftrightarrow> n = 0"
  by (auto simp: chain_rep_def)

lemma chain_rep_length: "chain_rep h n ns as \<Longrightarrow> length as = n"
  by (simp add: chain_rep_def)

lemma chain_rep_node:
  assumes "chain_rep h n ns (xs @ a # ys)"
  obtains nd where "node_at ns a = Some nd" and "ns a = Some nd" and "userptr nd = val ns a"
    and "a \<noteq> NULL" and "userptr nd \<noteq> NULL" and "seg ns (link nd) ys NULL"
    and "seg ns h xs a" and "a \<notin> set xs" and "a \<notin> set ys"
proof -
  from assms chain_rep_distinct have "distinct (xs @ a # ys)" by blast
  with assms that show ?thesis
    by (auto simp: chain_rep_def seg_append node_at_def val_def)
qed

lemma chain_rep_fresh: "chain_rep h n ns as \<Longrightarrow> ns a = None \<Longrightarrow> a \<notin> set as"
  by (auto simp: chain_rep_def)

text \<open>Linking a fresh node into the slot after a prefix.\<close>

lemma chain_insert:
  assumes rep: "chain_rep h n ns (xs @ ys)" and fresh: "a \<noteq> NULL" "ns a = None" and d: "d \<noteq> NULL"
  obtains p h' ns' where "slot_get h ns (slot_after xs) = Some p"
    and "slot_set h (ns(a \<mapsto> \<lparr>userptr = d, link = p\<rparr>)) (slot_after xs) a = Some (h', ns')"
    and "chain_rep h' (Suc n) ns' (xs @ a # ys)"
    and "vals ns' (xs @ a # ys) = vals ns xs @ d # vals ns ys"
proof -
  from rep obtain p where p: "seg ns h xs p" "seg ns p ys NULL"
    by (auto simp: chain_rep_def seg_append)
  from rep fresh have a: "a \<notin> set xs" "a \<notin> set ys" by (auto dest: chain_rep_fresh)
  from rep have dist: "distinct (xs @ ys)" by (rule chain_rep_distinct)
  let ?ns = "ns(a \<mapsto> \<lparr>userptr = d, link = p\<rparr>)"
  from p a have "seg ?ns h xs p" by simp
  moreover from dist have "distinct xs" by simp
  ultimately obtain h' ns' where s: "slot_set h ?ns (slot_after xs) a = Some (h', ns')" "seg ns' h' xs a"
      and same: "\<And>b. b \<notin> set xs \<Longrightarrow> ns' b = ?ns b" and v: "val ns' = val ?ns"
      and dom: "dom ns' = dom ?ns"
    by (rule slot_set_after [where q = a]) blast
  have out: "b \<notin> set xs" if "b \<in> set ys" for b using dist that by auto
  have "seg ns' p ys NULL = seg ?ns p ys NULL"
    by (rule seg_cong) (simp add: same out)
  moreover have "ns' a = Some \<lparr>userptr = d, link = p\<rparr>" using same a by simp
  ultimately have "seg ns' h' (xs @ a # ys) NULL"
    using s p a fresh by (auto simp: seg_append)
  moreover have vals': "vals ns' (xs @ a # ys) = vals ns xs @ d # vals ns ys"
    using v a by (auto simp: vals_def)
  ultimately have "chain_rep h' (Suc n) ns' (xs @ a # ys)"
    using rep dom d by (auto simp: chain_rep_def)
  with that slot_get_after [OF p(1)] s(1) vals' show ?thesis by blast
qed

text \<open>Unlinking and freeing the node that a slot points to.\<close>

lemma chain_unlink:
  assumes rep: "chain_rep h n ns (xs @ a # ys)" and nd: "ns a = Some nd"
  obtains h' ns' where "slot_set h ns (slot_after xs) (link nd) = Some (h', ns')"
    and "free_node ns' a = Some (ns'(a := None))"
    and "chain_rep h' (n - 1) (ns'(a := None)) (xs @ ys)"
    and "vals (ns'(a := None)) xs = vals ns xs" and "vals (ns'(a := None)) ys = vals ns ys"
proof -
  from rep nd have segs: "seg ns h xs a" "seg ns (link nd) ys NULL" "a \<noteq> NULL"
    by (auto elim: chain_rep_node)
  from rep have dist: "distinct (xs @ a # ys)" by (rule chain_rep_distinct)
  then have "distinct xs" by simp
  with segs(1) obtain h' ns' where
      s: "slot_set h ns (slot_after xs) (link nd) = Some (h', ns')" "seg ns' h' xs (link nd)"
      and same: "\<And>b. b \<notin> set xs \<Longrightarrow> ns' b = ns b" and v: "val ns' = val ns"
      and dom: "dom ns' = dom ns"
    by (rule slot_set_after [where q = "link nd"]) blast
  have out: "b \<notin> set xs" if "b \<in> set ys" for b using dist that by auto
  have "seg ns' (link nd) ys NULL = seg ns (link nd) ys NULL"
    by (rule seg_cong) (simp add: same out)
  then have "seg (ns'(a := None)) h' (xs @ ys) NULL"
    using s segs dist by (auto simp: seg_append)
  moreover have vals': "vals (ns'(a := None)) xs = vals ns xs" "vals (ns'(a := None)) ys = vals ns ys"
    using v dist by (auto simp: vals_def intro!: trans [OF val_del])
  ultimately have "chain_rep h' (n - 1) (ns'(a := None)) (xs @ ys)"
    using rep dom dist by (auto simp: chain_rep_def)
  moreover have "free_node ns' a = Some (ns'(a := None))"
    using segs same nd dist by (auto simp: free_node_def)
  ultimately show ?thesis using that s(1) vals' by blast
qed

text \<open>What an iterator reads at the slot after a prefix.\<close>

definition first :: "ptr list \<Rightarrow> ptr" where
  "first as = (case as of [] \<Rightarrow> NULL | a # _ \<Rightarrow> a)"

lemma first_simps [simp]: "first [] = NULL" "first (a # as) = a"
  by (simp_all add: first_def)

lemma chain_first:
  assumes "chain_rep h n ns (xs @ ys)"
  shows "slot_get h ns (slot_after xs) = Some (first ys)" and "first ys = NULL \<longleftrightarrow> ys = []"
proof -
  from assms obtain p where p: "seg ns h xs p" "seg ns p ys NULL"
    by (auto simp: chain_rep_def seg_append)
  from p(2) have "p = first ys" by (cases ys) auto
  with slot_get_after [OF p(1)] show "slot_get h ns (slot_after xs) = Some (first ys)" by simp
  from p(2) show "first ys = NULL \<longleftrightarrow> ys = []" by (cases ys) auto
qed

lemma chain_cursor:
  assumes rep: "chain_rep h n ns (xs @ a # ys)"
  obtains nd where "slot_get h ns (slot_after xs) = Some a" and "node_at ns a = Some nd"
    and "ns a = Some nd" and "userptr nd = val ns a" and "a \<noteq> NULL" and "val ns a \<noteq> NULL"
    and "slot_get h ns (LinkSlot a) = Some (first ys)" and "first ys = NULL \<longleftrightarrow> ys = []"
proof -
  from rep have "chain_rep h n ns ((xs @ [a]) @ ys)" by simp
  from chain_first [OF this] chain_first [OF rep] chain_rep_node [OF rep] that show ?thesis
    by (metis first_simps(2) slot_after_simps(2))
qed

subsection \<open>The callback loop of the three \<open>m_*_iterate\<close> functions\<close>

text \<open>
  \<^verbatim>\<open>while (elem) { rc = fn(userptr, elem->userptr); ...; elem = elem->next; }\<close>: the callback acts
  on a world \<open>'w\<close> and is assumed not to change the container it is called from.
\<close>

partial_function (option) chain_each ::
    "(ptr \<Rightarrow> 'w \<Rightarrow> int \<times> 'w) \<Rightarrow> nodes \<Rightarrow> ptr \<Rightarrow> 'w \<Rightarrow> (int \<times> 'w) option" where
  "chain_each fn ns elem w =
     (if elem = NULL then Some (0, w)
      else Option.bind (node_at ns elem) (\<lambda>n.
        case fn (userptr n) w of (rc, w') \<Rightarrow>
          if rc < 0 then Some (rc, w')
          else if rc > 0 then Some (0, w')
          else chain_each fn ns (link n) w'))"

declare chain_each.simps [code]

lemma chain_each_seg:
  "seg ns p as NULL \<Longrightarrow> chain_each fn ns p w = Some (iter_list fn (vals ns as) w)"
proof (induction as arbitrary: p w)
  case Nil
  then show ?case by (subst chain_each.simps) simp
next
  case (Cons a as)
  then obtain n where n: "p = a" "a \<noteq> NULL" "ns a = Some n" "seg ns (link n) as NULL" by auto
  obtain rc w' where fn: "fn (userptr n) w = (rc, w')" by fastforce
  from Cons.IH [OF n(4), of w'] n fn show ?case
    by (subst chain_each.simps) (simp add: node_at_def val_def)
qed

end
