(* ===== verification/Itr.thy ===== *)
theory Itr
  imports Prelude
begin

text \<open>
  The iterator interface of \<^verbatim>\<open>Lib/structs/public/module/structs/itr.h\<close>: the \<^verbatim>\<open>m_itr_foreach\<close>
  loop, and the contract that the five containers' iterators share (every one of them
  can be advanced, read, and asked to remove the current element, after which the next
  advance must not skip an element). The contract is the locale \<open>iterable\<close>; what a client
  of the macro relies on is proved once from it.
\<close>

text \<open>
  \<^verbatim>\<open>for (m_itr = m_itr_new(X); m_itr; m_itr_next(&m_itr), m_idx++) fn;\<close> over a state that holds
  the container, the iterator and the world. The body says whether it leaves the loop.
\<close>

partial_function (option) itr_foreach ::
    "('s \<Rightarrow> bool) \<Rightarrow> ('s \<Rightarrow> 's option) \<Rightarrow> (nat \<Rightarrow> 's \<Rightarrow> (bool \<times> 's) option) \<Rightarrow> nat \<Rightarrow> 's \<Rightarrow> 's option"
  where
  "itr_foreach live nxt body m_idx s =
     (if \<not> live s then Some s
      else Option.bind (body m_idx s) (\<lambda>r. case r of (brk, s1) \<Rightarrow>
        if brk then Some s1
        else Option.bind (nxt s1) (\<lambda>s2. itr_foreach live nxt body (Suc m_idx) s2)))"

declare itr_foreach.simps [code]

text \<open>A body that removes the elements satisfying a predicate.\<close>

definition prune ::
    "('s \<Rightarrow> ptr) \<Rightarrow> ('s \<Rightarrow> (int \<times> 's) option) \<Rightarrow> (ptr \<Rightarrow> bool) \<Rightarrow> nat \<Rightarrow> 's \<Rightarrow> (bool \<times> 's) option" where
  "prune get rm P m_idx s =
     (if P (get s) then map_option (\<lambda>(r, s'). (False, s')) (rm s) else Some (False, s))"

text \<open>A body that also notes the element it is called on, and advancing beside what was noted.\<close>

definition watch ::
    "('s \<Rightarrow> ptr) \<Rightarrow> (nat \<Rightarrow> 's \<Rightarrow> (bool \<times> 's) option) \<Rightarrow> nat \<Rightarrow> 's \<times> ptr list \<Rightarrow>
     (bool \<times> 's \<times> ptr list) option" where
  "watch get body m_idx x = map_option (\<lambda>(brk, s). (brk, s, snd x @ [get (fst x)])) (body m_idx (fst x))"

definition beside :: "('s \<Rightarrow> 's option) \<Rightarrow> 's \<times> ptr list \<Rightarrow> ('s \<times> ptr list) option" where
  "beside nxt x = map_option (\<lambda>s. (s, snd x)) (nxt (fst x))"

text \<open>
  \<open>at s ks rs\<close>: the cursor has passed the elements \<open>ks\<close>, which are still in the container,
  and stands on the first of \<open>rs\<close> (at the end when there is none). \<open>gone s ks rs\<close>: the
  current element has just been removed. \<open>log\<close> is the sequence of destructor calls.
\<close>

locale iterable =
  fixes live :: "'s \<Rightarrow> bool" and nxt :: "'s \<Rightarrow> 's option" and get :: "'s \<Rightarrow> ptr"
    and rm :: "'s \<Rightarrow> (int \<times> 's) option" and log :: "'s \<Rightarrow> ptr list"
    and at :: "'s \<Rightarrow> ptr list \<Rightarrow> ptr list \<Rightarrow> bool" and gone :: "'s \<Rightarrow> ptr list \<Rightarrow> ptr list \<Rightarrow> bool"
  assumes live_at: "at s ks rs \<Longrightarrow> live s \<longleftrightarrow> rs \<noteq> []"
    and get_at: "at s ks (x # rs) \<Longrightarrow> get s = x"
    and nxt_at: "at s ks (x # rs) \<Longrightarrow> \<exists>s'. nxt s = Some s' \<and> at s' (ks @ [x]) rs \<and> log s' = log s"
    and rm_at: "at s ks (x # rs) \<Longrightarrow> \<exists>s'. rm s = Some (0, s') \<and> gone s' ks rs \<and> log s' = log s @ [x]"
    and nxt_gone: "gone s ks rs \<Longrightarrow> \<exists>s'. nxt s = Some s' \<and> at s' ks rs \<and> log s' = log s"
begin

lemma foreach_prune_upto:
  "at s ks (rs @ us) \<Longrightarrow>
   \<exists>s' j. itr_foreach live nxt (prune get rm P) i s = itr_foreach live nxt (prune get rm P) j s' \<and>
          at s' (ks @ filter (\<lambda>x. \<not> P x) rs) us \<and> log s' = log s @ filter P rs"
proof (induction rs arbitrary: s ks i)
  case Nil
  then show ?case by (intro exI [of _ s] exI [of _ i]) simp
next
  case (Cons x rs)
  from Cons.prems have at: "at s ks (x # rs @ us)" by simp
  note live = live_at [OF at] and get = get_at [OF at]
  show ?case
  proof (cases "P x")
    case True
    from rm_at [OF at] obtain s1 where
      s1: "rm s = Some (0, s1)" "gone s1 ks (rs @ us)" "log s1 = log s @ [x]" by blast
    from nxt_gone [OF s1(2)] obtain s2 where
      s2: "nxt s1 = Some s2" "at s2 ks (rs @ us)" "log s2 = log s1" by blast
    have step: "prune get rm P i s = Some (False, s1)" using True get s1 by (simp add: prune_def)
    from Cons.IH [OF s2(2), of "Suc i"] True live step s1 s2 show ?thesis
      by (subst itr_foreach.simps) simp
  next
    case False
    from nxt_at [OF at] obtain s1 where
      s1: "nxt s = Some s1" "at s1 (ks @ [x]) (rs @ us)" "log s1 = log s" by blast
    have step: "prune get rm P i s = Some (False, s)" using False get by (simp add: prune_def)
    from Cons.IH [OF s1(2), of "Suc i"] False live step s1 show ?thesis
      by (subst itr_foreach.simps) simp
  qed
qed

lemma foreach_end: "at s ks [] \<Longrightarrow> itr_foreach live nxt body i s = Some s"
  using live_at [of s ks "[]"] by (subst itr_foreach.simps) simp

lemma foreach_prune:
  assumes "at s ks rs"
  shows "\<exists>s'. itr_foreach live nxt (prune get rm P) i s = Some s' \<and>
              at s' (ks @ filter (\<lambda>x. \<not> P x) rs) [] \<and> log s' = log s @ filter P rs"
proof -
  from assms have "at s ks (rs @ [])" by simp
  from foreach_prune_upto [OF this, of P i] show ?thesis using foreach_end by metis
qed

text \<open>The elements a loop that removes some of them is run on: each one, once, in order.\<close>

lemma foreach_watch_prune:
  "at s ks rs \<Longrightarrow> \<exists>s'. itr_foreach (\<lambda>x. live (fst x)) (beside nxt) (watch get (prune get rm P)) i (s, seen) = Some (s', seen @ rs) \<and>
              at s' (ks @ filter (\<lambda>x. \<not> P x) rs) [] \<and> log s' = log s @ filter P rs"
proof (induction rs arbitrary: s ks i seen)
  case Nil
  then show ?case using live_at [OF Nil] by (subst itr_foreach.simps) simp
next
  case (Cons x rs)
  note live = live_at [OF Cons.prems] and get = get_at [OF Cons.prems]
  show ?case
  proof (cases "P x")
    case True
    from rm_at [OF Cons.prems] obtain s1 where s1: "rm s = Some (0, s1)" "gone s1 ks rs" "log s1 = log s @ [x]" by blast
    from nxt_gone [OF s1(2)] obtain s2 where s2: "nxt s1 = Some s2" "at s2 ks rs" "log s2 = log s1" by blast
    have "watch get (prune get rm P) i (s, seen) = Some (False, s1, seen @ [x])"
      "beside nxt (s1, seen @ [x]) = Some (s2, seen @ [x])"
      using True get s1 s2 by (simp_all add: watch_def beside_def prune_def)
    with Cons.IH [OF s2(2), of "Suc i" "seen @ [x]"] True live s1 s2 show ?thesis
      by (subst itr_foreach.simps) simp
  next
    case False
    from nxt_at [OF Cons.prems] obtain s1 where s1: "nxt s = Some s1" "at s1 (ks @ [x]) rs" "log s1 = log s" by blast
    have "watch get (prune get rm P) i (s, seen) = Some (False, s, seen @ [x])"
      "beside nxt (s, seen @ [x]) = Some (s1, seen @ [x])"
      using False get s1 by (simp_all add: watch_def beside_def prune_def)
    with Cons.IH [OF s1(2), of "Suc i" "seen @ [x]"] False live s1 show ?thesis
      by (subst itr_foreach.simps) simp
  qed
qed

text \<open>Removing everything, as the \<^verbatim>\<open>m_*_clear\<close> functions of list, map and tree do.\<close>

lemma foreach_remove_all:
  assumes "at s ks rs"
  shows "\<exists>s'. itr_foreach live nxt (prune get rm (\<lambda>_. True)) i s = Some s' \<and>
              at s' ks [] \<and> log s' = log s @ rs"
  using foreach_prune [OF assms, of "\<lambda>_. True" i] by simp

end

end
