(* ===== verification/Contracts.thy ===== *)
theory Contracts
  imports Prelude
begin

text \<open>
  What the rest of libmodule relies on when it uses a stack (the \<^verbatim>\<open>recvs\<close> of a module) or a
  queue (batched and stashed events, the tasks of a thread pool): the contracts
  \<open>lifo\<close> and \<open>fifo\<close>, over a container of any type, with the facts a client proves from them.
  \<open>stack.c\<close> and \<open>queue.c\<close> are the providers. What it relies on when it uses a map (the modules
  of a context, the subscriptions of a module) is the contract \<open>assoc_map\<close> that \<open>map.c\<close>
  provides.
\<close>

text \<open>Inserting a list of (node address, user data) pairs; taking out a number of elements.\<close>

primrec feed :: "(ptr \<Rightarrow> 's \<Rightarrow> ptr \<Rightarrow> (int \<times> 's) option) \<Rightarrow> (ptr \<times> ptr) list \<Rightarrow> 's \<Rightarrow> 's option" where
  "feed ins [] s = Some s"
| "feed ins (x # xs) s =
     Option.bind (ins (fst x) s (snd x)) (\<lambda>(r, s'). if r = 0 then feed ins xs s' else None)"

primrec drain :: "('s \<Rightarrow> (ptr \<times> 's) option) \<Rightarrow> nat \<Rightarrow> 's \<Rightarrow> (ptr list \<times> 's) option" where
  "drain out 0 s = Some ([], s)"
| "drain out (Suc n) s =
     Option.bind (out s) (\<lambda>(d, s'). Option.bind (drain out n s') (\<lambda>(ds, s''). Some (d # ds, s'')))"

lemma drain_stuck: "out s = Some (d, s') \<Longrightarrow> drain out n s' = None \<Longrightarrow> drain out (Suc n) s = None"
  by simp

text \<open>
  A history of calls: insertions with the address the allocator returned (\<open>NULL\<close> when it
  failed) and removals. Its results are status codes (\<open>Inl\<close>) and user pointers (\<open>Inr\<close>).
  \<open>admissible\<close>: at each insertion the allocator returned \<open>NULL\<close> or an address not in use.
\<close>

datatype call = Ins ptr ptr | Out

primrec run :: "(ptr \<Rightarrow> 's \<Rightarrow> ptr \<Rightarrow> (int \<times> 's) option) \<Rightarrow> ('s \<Rightarrow> (ptr \<times> 's) option) \<Rightarrow> call list \<Rightarrow> 's \<Rightarrow>
    ((int + ptr) list \<times> 's) option" where
  "run ins out [] s = Some ([], s)"
| "run ins out (c # cs) s =
     Option.bind (case c of Ins a d \<Rightarrow> map_option (\<lambda>(r, s'). (Inl r, s')) (ins a s d)
                          | Out \<Rightarrow> map_option (\<lambda>(d, s'). (Inr d, s')) (out s))
       (\<lambda>(v, s'). Option.bind (run ins out cs s') (\<lambda>(vs, s''). Some (v # vs, s'')))"

primrec admissible :: "(ptr \<Rightarrow> 's \<Rightarrow> ptr \<Rightarrow> (int \<times> 's) option) \<Rightarrow> ('s \<Rightarrow> (ptr \<times> 's) option) \<Rightarrow>
    ('s \<Rightarrow> ptr \<Rightarrow> bool) \<Rightarrow> call list \<Rightarrow> 's \<Rightarrow> bool" where
  "admissible ins out fresh [] s = True"
| "admissible ins out fresh (c # cs) s =
     (case c of Ins a d \<Rightarrow> (a = NULL \<or> fresh s a) \<and>
          (case ins a s d of None \<Rightarrow> True | Some (r, s') \<Rightarrow> admissible ins out fresh cs s')
      | Out \<Rightarrow> (case out s of None \<Rightarrow> True | Some (d, s') \<Rightarrow> admissible ins out fresh cs s'))"

text \<open>The same history on an ideal container, a list from which the head is taken.\<close>

primrec ideal_run :: "(ptr \<Rightarrow> ptr list \<Rightarrow> ptr list) \<Rightarrow> call list \<Rightarrow> ptr list \<Rightarrow> (int + ptr) list \<times> ptr list" where
  "ideal_run place [] ds = ([], ds)"
| "ideal_run place (c # cs) ds =
     (let (v, ds') = (case c of
            Ins a d \<Rightarrow> if d = NULL then (Inl (- EINVAL), ds)
                       else if a = NULL then (Inl (- ENOMEM), ds) else (Inl 0, place d ds)
          | Out \<Rightarrow> (case ds of [] \<Rightarrow> (Inr NULL, []) | d # ds' \<Rightarrow> (Inr d, ds')))
      in let (vs, ds'') = ideal_run place cs ds' in (v # vs, ds''))"

text \<open>
  The part the two contracts share: \<open>fresh s a\<close> says that the allocator may return the
  address \<open>a\<close> in state \<open>s\<close>; taking an element out removes the head of \<open>elems\<close>.
\<close>

locale container =
  fixes ins :: "ptr \<Rightarrow> 's \<Rightarrow> ptr \<Rightarrow> (int \<times> 's) option" and out :: "'s \<Rightarrow> (ptr \<times> 's) option"
    and fresh :: "'s \<Rightarrow> ptr \<Rightarrow> bool" and ok :: "'s \<Rightarrow> bool" and elems :: "'s \<Rightarrow> ptr list"
    and place :: "ptr \<Rightarrow> ptr list \<Rightarrow> ptr list"
  assumes ins_ok: "ok s \<Longrightarrow> fresh s a \<Longrightarrow> d \<noteq> NULL \<Longrightarrow>
      \<exists>s'. ins a s d = Some (0, s') \<and> ok s' \<and> elems s' = place d (elems s) \<and>
           (\<forall>b. b \<noteq> a \<longrightarrow> fresh s b \<longrightarrow> fresh s' b)"
    and out_ok: "ok s \<Longrightarrow> elems s = d # ds \<Longrightarrow> \<exists>s'. out s = Some (d, s') \<and> ok s' \<and> elems s' = ds"
    and ins_null: "ok s \<Longrightarrow> ins a s NULL = Some (- EINVAL, s)"
    and ins_oom: "ok s \<Longrightarrow> d \<noteq> NULL \<Longrightarrow> ins NULL s d = Some (- ENOMEM, s)"
    and out_empty: "ok s \<Longrightarrow> elems s = [] \<Longrightarrow> out s = Some (NULL, s)"
begin

text \<open>Every history of calls gives the results of the ideal container.\<close>

lemma run_ideal:
  "ok s \<Longrightarrow> admissible ins out fresh cs s \<Longrightarrow>
   \<exists>s'. run ins out cs s = Some (fst (ideal_run place cs (elems s)), s') \<and> ok s' \<and>
        elems s' = snd (ideal_run place cs (elems s))"
proof (induction cs arbitrary: s)
  case (Cons c cs)
  show ?case
  proof (cases c)
    case (Ins a d)
    consider "d = NULL" | "d \<noteq> NULL" "a = NULL" | "d \<noteq> NULL" "a \<noteq> NULL" by blast
    then show ?thesis
    proof cases
      case 1
      with ins_null [OF Cons.prems(1)] Cons.IH [OF Cons.prems(1)] Cons.prems(2) Ins show ?thesis
        by (auto split: prod.splits)
    next
      case 2
      with ins_oom [OF Cons.prems(1)] Cons.IH [OF Cons.prems(1)] Cons.prems(2) Ins show ?thesis
        by (auto split: prod.splits)
    next
      case 3
      with Cons.prems Ins have "fresh s a" by simp
      from ins_ok [OF Cons.prems(1) this 3(1)] obtain s1 where
        s1: "ins a s d = Some (0, s1)" "ok s1" "elems s1 = place d (elems s)" by blast
      with Cons.IH [OF s1(2)] Cons.prems(2) 3 Ins show ?thesis by (auto split: prod.splits)
    qed
  next
    case Out
    show ?thesis
    proof (cases "elems s")
      case Nil
      with out_empty [OF Cons.prems(1) Nil] Cons.IH [OF Cons.prems(1)] Cons.prems(2) Out
      show ?thesis by (auto split: prod.splits)
    next
      case el: (Cons d ds)
      from out_ok [OF Cons.prems(1) el] obtain s1 where
        s1: "out s = Some (d, s1)" "ok s1" "elems s1 = ds" by blast
      with Cons.IH [OF s1(2)] Cons.prems(2) el Out show ?thesis by (auto split: prod.splits)
    qed
  qed
qed simp

lemma feed_ok:
  "ok s \<Longrightarrow> distinct (map fst xs) \<Longrightarrow> (\<And>x. x \<in> set xs \<Longrightarrow> fresh s (fst x) \<and> snd x \<noteq> NULL) \<Longrightarrow>
   \<exists>s'. feed ins xs s = Some s' \<and> ok s' \<and> elems s' = fold place (map snd xs) (elems s)"
proof (induction xs arbitrary: s)
  case (Cons x xs)
  have "fresh s (fst x)" "snd x \<noteq> NULL" using Cons.prems(3) [of x] by simp_all
  from ins_ok [OF Cons.prems(1) this] obtain s1 where s1: "ins (fst x) s (snd x) = Some (0, s1)"
    "ok s1" "elems s1 = place (snd x) (elems s)" "\<forall>b. b \<noteq> fst x \<longrightarrow> fresh s b \<longrightarrow> fresh s1 b"
    by blast
  have "fresh s1 (fst y) \<and> snd y \<noteq> NULL" if "y \<in> set xs" for y
  proof -
    have "fst x \<notin> fst ` set xs" using Cons.prems(2) by simp
    with imageI [OF that, of fst] have "fst y \<noteq> fst x" by metis
    moreover have "fresh s (fst y) \<and> snd y \<noteq> NULL" using Cons.prems(3) [of y] that by simp
    ultimately show ?thesis using s1(4) by blast
  qed
  then obtain s2 where "feed ins xs s1 = Some s2" "ok s2"
      "elems s2 = fold place (map snd xs) (elems s1)"
    using Cons.IH [of s1] s1(2) Cons.prems(2) by auto
  with s1 show ?case by simp
qed simp

lemma drain_ok:
  "ok s \<Longrightarrow> elems s = ds @ es \<Longrightarrow>
   \<exists>s'. drain out (length ds) s = Some (ds, s') \<and> ok s' \<and> elems s' = es"
proof (induction ds arbitrary: s)
  case (Cons d ds)
  then obtain s1 where s1: "out s = Some (d, s1)" "ok s1" "elems s1 = ds @ es"
    using out_ok [of s d "ds @ es"] by auto
  from Cons.IH [OF s1(2,3)] s1(1) show ?case by auto
qed simp

end

locale lifo = container ins out fresh ok elems "(#)"
  for ins :: "ptr \<Rightarrow> 's \<Rightarrow> ptr \<Rightarrow> (int \<times> 's) option" and out :: "'s \<Rightarrow> (ptr \<times> 's) option"
    and fresh :: "'s \<Rightarrow> ptr \<Rightarrow> bool" and ok :: "'s \<Rightarrow> bool" and elems :: "'s \<Rightarrow> ptr list"
begin

lemma fold_place: "fold (#) ds es = rev ds @ es"
  by (induction ds arbitrary: es) auto

lemma feed_drain:
  assumes "ok s" and "distinct (map fst xs)"
    and "\<And>x. x \<in> set xs \<Longrightarrow> fresh s (fst x) \<and> snd x \<noteq> NULL"
  shows "\<exists>s1 s2. feed ins xs s = Some s1 \<and>
           drain out (length xs) s1 = Some (rev (map snd xs), s2) \<and> ok s2 \<and> elems s2 = elems s"
proof -
  from feed_ok [OF assms] obtain s1 where s1: "feed ins xs s = Some s1" "ok s1"
    "elems s1 = rev (map snd xs) @ elems s" by (auto simp: fold_place)
  from drain_ok [OF s1(2,3)] s1(1) show ?thesis by auto
qed

end

locale fifo = container ins out fresh ok elems "\<lambda>d ds. ds @ [d]"
  for ins :: "ptr \<Rightarrow> 's \<Rightarrow> ptr \<Rightarrow> (int \<times> 's) option" and out :: "'s \<Rightarrow> (ptr \<times> 's) option"
    and fresh :: "'s \<Rightarrow> ptr \<Rightarrow> bool" and ok :: "'s \<Rightarrow> bool" and elems :: "'s \<Rightarrow> ptr list"
begin

lemma fold_place: "fold (\<lambda>d ds. ds @ [d]) ds es = es @ ds"
  by (induction ds arbitrary: es) auto

lemma feed_drain:
  assumes "ok s" and "distinct (map fst xs)"
    and "\<And>x. x \<in> set xs \<Longrightarrow> fresh s (fst x) \<and> snd x \<noteq> NULL"
  shows "\<exists>s1 s2. feed ins xs s = Some s1 \<and>
           drain out (length (elems s)) s1 = Some (elems s, s2) \<and> ok s2 \<and> elems s2 = map snd xs"
proof -
  from feed_ok [OF assms] obtain s1 where s1: "feed ins xs s = Some s1" "ok s1"
    "elems s1 = elems s @ map snd xs" by (auto simp: fold_place)
  from drain_ok [OF s1(2,3)] s1(1) show ?thesis by auto
qed

end

subsection \<open>Maps\<close>

text \<open>
  A history on a map: \<open>Put p k v\<close> inserts the value \<open>v\<close> at the key \<open>k\<close>, which lies at the
  address \<open>p\<close>. The ideal map says what each call returns and which values are destroyed.
\<close>

datatype map_call = Put ptr string ptr | Get string | Rem string

primrec map_run ::
    "('s \<Rightarrow> ptr \<Rightarrow> string \<Rightarrow> ptr \<Rightarrow> int \<times> 's) \<Rightarrow> ('s \<Rightarrow> string \<Rightarrow> ptr) \<Rightarrow> ('s \<Rightarrow> string \<Rightarrow> int \<times> 's) \<Rightarrow>
     map_call list \<Rightarrow> 's \<Rightarrow> (int + ptr) list \<times> 's" where
  "map_run put get rem [] s = ([], s)"
| "map_run put get rem (c # cs) s =
     (let (v, s') = (case c of Put p k d \<Rightarrow> map_prod Inl id (put s p k d)
                     | Get k \<Rightarrow> (Inr (get s k), s)
                     | Rem k \<Rightarrow> map_prod Inl id (rem s k));
          (vs, s'') = map_run put get rem cs s'
      in (v # vs, s''))"

primrec ideal_map ::
    "bool \<Rightarrow> map_call list \<Rightarrow> (string \<rightharpoonup> ptr) \<Rightarrow> ptr list \<Rightarrow> (int + ptr) list \<times> (string \<rightharpoonup> ptr) \<times> ptr list" where
  "ideal_map upd [] f w = ([], f, w)"
| "ideal_map upd (c # cs) f w =
     (let (v, f', w') = (case c of
          Put p k d \<Rightarrow> (case f k of
              None \<Rightarrow> (Inl 0, f(k \<mapsto> d), w)
            | Some old \<Rightarrow> if upd then (Inl 0, f(k \<mapsto> d), if old \<noteq> d then w @ [old] else w)
                          else (Inl (- EPERM), f, w))
        | Get k \<Rightarrow> (Inr (case f k of None \<Rightarrow> NULL | Some d \<Rightarrow> d), f, w)
        | Rem k \<Rightarrow> (case f k of
              None \<Rightarrow> (Inl (if f = (\<lambda>_. None) then - EINVAL else - ENOENT), f, w)
            | Some d \<Rightarrow> (Inl 0, f(k := None), w @ [d])));
          (vs, r) = ideal_map upd cs f' w'
      in (v # vs, r))"

fun put_keys :: "map_call list \<Rightarrow> string set" where
  "put_keys [] = {}"
| "put_keys (Put p k d # cs) = insert k (put_keys cs)"
| "put_keys (c # cs) = put_keys cs"

fun puts_valid :: "map_call list \<Rightarrow> bool" where
  "puts_valid [] = True"
| "puts_valid (Put p k d # cs) = (p \<noteq> NULL \<and> d \<noteq> NULL \<and> puts_valid cs)"
| "puts_valid (c # cs) = puts_valid cs"

text \<open>\<open>room s\<close> is how many keys the map holds without having to grow.\<close>

locale assoc_map =
  fixes put :: "'s \<Rightarrow> ptr \<Rightarrow> string \<Rightarrow> ptr \<Rightarrow> int \<times> 's" and get :: "'s \<Rightarrow> string \<Rightarrow> ptr"
    and rem :: "'s \<Rightarrow> string \<Rightarrow> int \<times> 's" and ok :: "'s \<Rightarrow> bool" and abs :: "'s \<Rightarrow> string \<rightharpoonup> ptr"
    and upd :: "'s \<Rightarrow> bool" and room :: "'s \<Rightarrow> nat" and log :: "'s \<Rightarrow> ptr list"
  assumes get_abs: "ok s \<Longrightarrow> get s k = (case abs s k of None \<Rightarrow> NULL | Some d \<Rightarrow> d)"
    and put_abs: "ok s \<Longrightarrow> card (insert k (dom (abs s))) \<le> room s \<Longrightarrow> p \<noteq> NULL \<Longrightarrow> d \<noteq> NULL \<Longrightarrow>
      abs s k = None \<or> upd s \<Longrightarrow>
      \<exists>s'. put s p k d = (0, s') \<and> ok s' \<and> abs s' = (abs s)(k \<mapsto> d) \<and> upd s' = upd s \<and> room s' = room s \<and>
           log s' = (case abs s k of None \<Rightarrow> log s | Some old \<Rightarrow> if old \<noteq> d then log s @ [old] else log s)"
    and put_denied: "ok s \<Longrightarrow> card (insert k (dom (abs s))) \<le> room s \<Longrightarrow> p \<noteq> NULL \<Longrightarrow> d \<noteq> NULL \<Longrightarrow>
      abs s k = Some old \<Longrightarrow> \<not> upd s \<Longrightarrow> put s p k d = (- EPERM, s)"
    and rem_abs: "ok s \<Longrightarrow> card (dom (abs s)) \<le> room s \<Longrightarrow> abs s k = Some d \<Longrightarrow>
      \<exists>s'. rem s k = (0, s') \<and> ok s' \<and> abs s' = (abs s)(k := None) \<and> upd s' = upd s \<and> room s' = room s \<and>
           log s' = log s @ [d]"
    and rem_none: "ok s \<Longrightarrow> abs s k = None \<Longrightarrow>
      rem s k = (if abs s = (\<lambda>_. None) then - EINVAL else - ENOENT, s)"
begin

lemma map_run_ideal:
  "ok s \<Longrightarrow> finite K \<Longrightarrow> dom (abs s) \<union> put_keys cs \<subseteq> K \<Longrightarrow> card K \<le> room s \<Longrightarrow> puts_valid cs \<Longrightarrow>
   \<exists>s'. map_run put get rem cs s = (fst (ideal_map (upd s) cs (abs s) (log s)), s') \<and> ok s' \<and>
        (abs s', log s') = snd (ideal_map (upd s) cs (abs s) (log s))"
proof (induction cs arbitrary: s)
  case (Cons c cs)
  have card: "card A \<le> room s" if "A \<subseteq> K" for A
    using card_mono [OF Cons.prems(2) that] Cons.prems(4) by simp
  have step: "\<exists>s2. (let (vs, s'') = map_run put get rem cs s1 in (v # vs, s'')) =
        (fst (let (vs, r) = ideal_map u cs f l in (v # vs, r)), s2) \<and> ok s2 \<and>
        (abs s2, log s2) = snd (let (vs, r) = ideal_map u cs f l in (v # vs, r))"
    if "\<exists>s2. map_run put get rem cs s1 = (fst (ideal_map u cs f l), s2) \<and> ok s2 \<and>
        (abs s2, log s2) = snd (ideal_map u cs f l)" for s1 u f l v
    using that by (cases "ideal_map u cs f l") auto
  show ?case
  proof (cases c)
    case (Put p k d)
    with Cons.prems have v: "p \<noteq> NULL" "d \<noteq> NULL" "puts_valid cs" "k \<in> K" "put_keys cs \<subseteq> K"
      "dom (abs s) \<subseteq> K" by auto
    then have c: "card (insert k (dom (abs s))) \<le> room s" by (intro card) auto
    show ?thesis
    proof (cases "abs s k = None \<or> upd s")
      case True
      from put_abs [OF Cons.prems(1) c v(1,2) True] obtain s1 where
        s1: "put s p k d = (0, s1)" "ok s1" "abs s1 = (abs s)(k \<mapsto> d)" "upd s1 = upd s" "room s1 = room s"
          "log s1 = (case abs s k of None \<Rightarrow> log s | Some old \<Rightarrow> if old \<noteq> d then log s @ [old] else log s)"
        by blast
      have sub: "dom (abs s1) \<union> put_keys cs \<subseteq> K" using s1(3) v(4-6) by auto
      have "card K \<le> room s1" using Cons.prems(4) s1(5) by simp
      from step [where v = "Inl 0", OF Cons.IH [OF s1(2) Cons.prems(2) sub this v(3)], unfolded s1(3,4,6)]
        s1(1) True Put show ?thesis by (cases "abs s k") (simp_all add: fun_upd_def)
    next
      case False
      then obtain old where old: "abs s k = Some old" "\<not> upd s" by auto
      have sub: "dom (abs s) \<union> put_keys cs \<subseteq> K" using v(5,6) by simp
      from Cons.IH [OF Cons.prems(1,2) sub Cons.prems(4) v(3)]
        put_denied [OF Cons.prems(1) c v(1,2) old] Put old show ?thesis
        by (auto simp: case_prod_beta)
    qed
  next
    case (Get k)
    then have sub: "dom (abs s) \<union> put_keys cs \<subseteq> K" "puts_valid cs" using Cons.prems by simp_all
    from Cons.IH [OF Cons.prems(1,2) sub(1) Cons.prems(4) sub(2)] Get get_abs [OF Cons.prems(1), of k]
    show ?thesis by (auto split: prod.splits)
  next
    case (Rem k)
    then have sub: "dom (abs s) \<union> put_keys cs \<subseteq> K" "puts_valid cs" using Cons.prems by simp_all
    show ?thesis
    proof (cases "abs s k")
      case None
      from Cons.IH [OF Cons.prems(1,2) sub(1) Cons.prems(4) sub(2)] rem_none [OF Cons.prems(1) None] Rem None
      show ?thesis by (auto split: prod.splits)
    next
      case (Some d)
      have "card (dom (abs s)) \<le> room s" using Cons.prems(3) by (intro card) simp
      from rem_abs [OF Cons.prems(1) this Some] obtain s1 where
        s1: "rem s k = (0, s1)" "ok s1" "abs s1 = (abs s)(k := None)" "upd s1 = upd s" "room s1 = room s"
          "log s1 = log s @ [d]" by blast
      have sub1: "dom (abs s1) \<union> put_keys cs \<subseteq> K" using s1(3) sub(1) by auto
      have "card K \<le> room s1" using Cons.prems(4) s1(5) by simp
      from step [where v = "Inl 0", OF Cons.IH [OF s1(2) Cons.prems(2) sub1 this sub(2)], unfolded s1(3,4,6)]
        s1(1) Some Rem show ?thesis by (simp add: fun_upd_def)
    qed
  qed
qed simp

end

end
