(* ===== verification/LStack.thy ===== *)
theory LStack
  imports Chain Itr Contracts
begin

text \<open>
  The stack of \<^verbatim>\<open>Lib/structs/stack.c\<close>. A handle \<^verbatim>\<open>m_stack_t *\<close> is an optional stack, \<open>None\<close>
  for \<open>NULL\<close>. The stack holds its node store; \<open>stack_ok\<close> is its invariant and \<open>stack_list\<close>
  its abstraction, the user pointers from the top down.
\<close>

record 'w m_stack =
  s_len :: nat
  s_dtor :: "'w dtor"
  s_data :: ptr
  s_nodes :: nodes

record stack_itr =
  si_elem :: slot
  si_removed :: bool

definition m_stack_new :: "ptr \<Rightarrow> 'w dtor \<Rightarrow> 'w m_stack option" where
  "m_stack_new cal fn =
     (if cal = NULL then None
      else Some \<lparr>s_len = 0, s_dtor = fn, s_data = NULL, s_nodes = (\<lambda>_. None)\<rparr>)"

definition m_stack_len :: "'w m_stack option \<Rightarrow> int" where
  "m_stack_len sp = (case sp of None \<Rightarrow> - EINVAL | Some s \<Rightarrow> int (s_len s))"

definition m_stack_itr_new :: "ptr \<Rightarrow> 'w m_stack option \<Rightarrow> stack_itr option" where
  "m_stack_itr_new cal sp =
     (if \<not> m_stack_len sp > 0 then None
      else if cal = NULL then None
      else Some \<lparr>si_elem = HeadSlot, si_removed = False\<rparr>)"

definition m_stack_itr_next :: "'w m_stack \<Rightarrow> stack_itr option \<Rightarrow> (int \<times> stack_itr option) option" where
  "m_stack_itr_next s it =
     (case it of None \<Rightarrow> Some (- EINVAL, None)
      | Some i \<Rightarrow> do {
          i \<leftarrow> (if \<not> si_removed i then do {
                  p \<leftarrow> slot_get (s_data s) (s_nodes s) (si_elem i);
                  n \<leftarrow> node_at (s_nodes s) p;
                  Some (i\<lparr>si_elem := LinkSlot p\<rparr>) }
                else Some (i\<lparr>si_removed := False\<rparr>));
          q \<leftarrow> slot_get (s_data s) (s_nodes s) (si_elem i);
          Some (0, if q = NULL then None else Some i) })"

definition m_stack_itr_remove ::
    "'w m_stack \<Rightarrow> stack_itr option \<Rightarrow> 'w \<Rightarrow> (int \<times> 'w m_stack \<times> stack_itr option \<times> 'w) option" where
  "m_stack_itr_remove s it w =
     (case it of None \<Rightarrow> Some (- EINVAL, s, it, w)
      | Some i \<Rightarrow>
          if si_removed i then Some (- EINVAL, s, it, w)
          else do {
            tmp \<leftarrow> slot_get (s_data s) (s_nodes s) (si_elem i);
            if tmp \<noteq> NULL then do {
              n \<leftarrow> node_at (s_nodes s) tmp;
              (h, ns) \<leftarrow> slot_set (s_data s) (s_nodes s) (si_elem i) (link n);
              ns \<leftarrow> free_node ns tmp;
              Some (0, s\<lparr>s_data := h, s_nodes := ns, s_len := s_len s - 1\<rparr>,
                    Some (i\<lparr>si_removed := True\<rparr>), call_dtor (s_dtor s) (userptr n) w) }
            else Some (- ENOENT, s, it, w) })"

definition m_stack_itr_get_data :: "'w m_stack \<Rightarrow> stack_itr option \<Rightarrow> ptr option" where
  "m_stack_itr_get_data s it =
     (case it of None \<Rightarrow> Some NULL
      | Some i \<Rightarrow> if si_removed i then Some NULL
          else do {
            p \<leftarrow> slot_get (s_data s) (s_nodes s) (si_elem i);
            n \<leftarrow> node_at (s_nodes s) p;
            Some (userptr n) })"

definition m_stack_itr_set_data ::
    "'w m_stack \<Rightarrow> stack_itr option \<Rightarrow> ptr \<Rightarrow> (int \<times> 'w m_stack) option" where
  "m_stack_itr_set_data s it value =
     (case it of None \<Rightarrow> Some (- EINVAL, s)
      | Some i \<Rightarrow> if si_removed i then Some (- EINVAL, s)
          else if value = NULL then Some (- EINVAL, s)
          else do {
            p \<leftarrow> slot_get (s_data s) (s_nodes s) (si_elem i);
            ns \<leftarrow> set_userptr (s_nodes s) p value;
            Some (0, s\<lparr>s_nodes := ns\<rparr>) })"

definition m_stack_iterate ::
    "'w m_stack option \<Rightarrow> (ptr \<Rightarrow> ptr \<Rightarrow> 'v \<Rightarrow> int \<times> 'v) option \<Rightarrow> ptr \<Rightarrow> 'v \<Rightarrow> (int \<times> 'v) option" where
  "m_stack_iterate sp fn up v =
     (case fn of None \<Rightarrow> Some (- EINVAL, v)
      | Some f \<Rightarrow>
          if \<not> m_stack_len sp > 0 then Some (- EINVAL, v)
          else (case sp of None \<Rightarrow> None
                | Some s \<Rightarrow> chain_each (f up) (s_nodes s) (s_data s) v))"

definition m_stack_push :: "ptr \<Rightarrow> 'w m_stack option \<Rightarrow> ptr \<Rightarrow> (int \<times> 'w m_stack option) option" where
  "m_stack_push mal sp data =
     (case sp of None \<Rightarrow> Some (- EINVAL, None)
      | Some s \<Rightarrow>
          if data = NULL then Some (- EINVAL, sp)
          else if mal = NULL then Some (- ENOMEM, sp)
          else Some (0, Some (s\<lparr>s_len := s_len s + 1,
                 s_nodes := (s_nodes s)(mal \<mapsto> \<lparr>userptr = data, link = s_data s\<rparr>),
                 s_data := mal\<rparr>)))"

definition m_stack_pop :: "'w m_stack option \<Rightarrow> (ptr \<times> 'w m_stack option) option" where
  "m_stack_pop sp =
     (if \<not> m_stack_len sp > 0 then Some (NULL, sp)
      else case sp of None \<Rightarrow> None
      | Some s \<Rightarrow> do {
          n \<leftarrow> node_at (s_nodes s) (s_data s);
          ns \<leftarrow> free_node (s_nodes s) (s_data s);
          Some (userptr n, Some (s\<lparr>s_data := link n, s_nodes := ns, s_len := s_len s - 1\<rparr>)) })"

definition m_stack_peek :: "'w m_stack option \<Rightarrow> ptr option" where
  "m_stack_peek sp =
     (if \<not> m_stack_len sp > 0 then Some NULL
      else case sp of None \<Rightarrow> None
      | Some s \<Rightarrow> map_option userptr (node_at (s_nodes s) (s_data s)))"

definition m_stack_remove ::
    "'w m_stack option \<Rightarrow> 'w \<Rightarrow> (int \<times> 'w m_stack option \<times> 'w) option" where
  "m_stack_remove sp w = do {
     (data, sp') \<leftarrow> m_stack_pop sp;
     if data \<noteq> NULL
     then Some (0, sp', case sp of None \<Rightarrow> w | Some s \<Rightarrow> call_dtor (s_dtor s) data w)
     else Some (- EINVAL, sp', w) }"

partial_function (option) stack_clear_loop ::
    "'w m_stack option \<Rightarrow> 'w \<Rightarrow> ('w m_stack option \<times> 'w) option" where
  "stack_clear_loop sp w =
     (if m_stack_len sp > 0
      then Option.bind (m_stack_remove sp w) (\<lambda>r. case r of (ret, sp', w') \<Rightarrow> stack_clear_loop sp' w')
      else Some (sp, w))"

declare stack_clear_loop.simps [code]

definition m_stack_clear ::
    "'w m_stack option \<Rightarrow> 'w \<Rightarrow> (int \<times> 'w m_stack option \<times> 'w) option" where
  "m_stack_clear sp w =
     (case sp of None \<Rightarrow> Some (- EINVAL, None, w)
      | Some s \<Rightarrow> map_option (\<lambda>(sp', w'). (0, sp', w')) (stack_clear_loop sp w))"

text \<open>\<^verbatim>\<open>m_stack_free(m_stack_t **s)\<close>: the outer option is the pointer to the handle.\<close>

definition m_stack_free ::
    "'w m_stack option option \<Rightarrow> 'w \<Rightarrow> (int \<times> 'w m_stack option option \<times> 'w) option" where
  "m_stack_free spp w =
     (case spp of None \<Rightarrow> Some (- EINVAL, None, w)
      | Some sp \<Rightarrow> do {
          (ret, sp', w') \<leftarrow> m_stack_clear sp w;
          if ret = 0 then Some (ret, Some None, w') else Some (ret, Some sp', w') })"

subsection \<open>Invariant and abstraction\<close>

abbreviation stack_rep :: "'w m_stack \<Rightarrow> ptr list \<Rightarrow> bool" where
  "stack_rep s as \<equiv> chain_rep (s_data s) (s_len s) (s_nodes s) as"

definition stack_ok :: "'w m_stack \<Rightarrow> bool" where
  "stack_ok s \<longleftrightarrow> chain_ok (s_data s) (s_len s) (s_nodes s)"

definition stack_list :: "'w m_stack \<Rightarrow> ptr list" where
  "stack_list s = chain_list (s_data s) (s_len s) (s_nodes s)"

lemma stack_okE:
  assumes "stack_ok s"
  obtains as where "stack_rep s as" and "stack_list s = vals (s_nodes s) as"
  using assms by (auto simp: stack_ok_def stack_list_def elim: chain_okE)

lemma stack_repI:
  assumes "stack_rep s as"
  shows "stack_ok s" and "stack_list s = vals (s_nodes s) as"
  using assms by (simp_all add: stack_ok_def stack_list_def chain_ok_rep chain_list_rep)

lemma stack_len_list: "stack_ok s \<Longrightarrow> s_len s = length (stack_list s)"
  by (auto elim!: stack_okE simp: chain_rep_length)

lemma m_stack_len_pos: "m_stack_len (Some s) > 0 \<longleftrightarrow> s_len s > 0"
  by (simp add: m_stack_len_def)

lemma stack_push_ok:
  assumes "stack_ok s" and "a \<noteq> NULL" and "s_nodes s a = None" and "d \<noteq> NULL"
  obtains s' where "m_stack_push a (Some s) d = Some (0, Some s')" and "stack_ok s'"
    and "stack_list s' = d # stack_list s" and "s_dtor s' = s_dtor s"
    and "s_nodes s' = (s_nodes s)(a \<mapsto> \<lparr>userptr = d, link = s_data s\<rparr>)"
proof -
  from assms(1) obtain as where as: "stack_rep s as" "stack_list s = vals (s_nodes s) as"
    by (rule stack_okE)
  from as(1) assms(3) have "a \<notin> set as" by (rule chain_rep_fresh)
  let ?s = "s\<lparr>s_len := s_len s + 1, s_nodes := (s_nodes s)(a \<mapsto> \<lparr>userptr = d, link = s_data s\<rparr>),
    s_data := a\<rparr>"
  have "stack_rep ?s (a # as)" using as(1) assms \<open>a \<notin> set as\<close> by (auto simp: chain_rep_def)
  moreover have "vals (s_nodes ?s) (a # as) = d # stack_list s"
    using as \<open>a \<notin> set as\<close> by simp
  ultimately show ?thesis
    using that [of ?s] assms stack_repI [of ?s "a # as"] by (simp add: m_stack_push_def)
qed

lemma stack_pop_ok:
  assumes "stack_ok s" and "stack_list s = d # ds"
  obtains s' where "m_stack_pop (Some s) = Some (d, Some s')" and "stack_ok s'"
    and "stack_list s' = ds" and "s_dtor s' = s_dtor s" and "d \<noteq> NULL"
proof -
  from assms(1) obtain as where as: "stack_rep s as" "stack_list s = vals (s_nodes s) as"
    by (rule stack_okE)
  with assms(2) obtain a bs where bs: "as = a # bs" "val (s_nodes s) a = d"
    "vals (s_nodes s) bs = ds" by (cases as) auto
  have rep: "stack_rep s ([] @ a # bs)" using as bs by simp
  then obtain nd where nd: "node_at (s_nodes s) a = Some nd" "s_nodes s a = Some nd"
    "userptr nd = d" "d \<noteq> NULL" using chain_rep_node [OF rep] bs(2) by metis
  let ?ns = "(s_nodes s)(a := None)"
  have ns: "free_node (s_nodes s) a = Some ?ns" "chain_rep (link nd) (s_len s - 1) ?ns bs"
      "vals ?ns bs = ds"
    using chain_unlink [OF rep nd(2)] bs(3) by force+
  have "s_data s = a" "s_len s > 0" using rep by (auto simp: chain_rep_def)
  let ?s = "s\<lparr>s_data := link nd, s_nodes := ?ns, s_len := s_len s - 1\<rparr>"
  from stack_repI [of ?s bs] ns have "stack_ok ?s" "stack_list ?s = ds" by simp_all
  with that [of ?s] nd ns(1) \<open>s_data s = a\<close> \<open>s_len s > 0\<close> show ?thesis
    by (simp add: m_stack_pop_def m_stack_len_pos)
qed

lemma stack_pop_empty: "stack_ok s \<Longrightarrow> stack_list s = [] \<Longrightarrow> m_stack_pop (Some s) = Some (NULL, Some s)"
  by (simp add: m_stack_pop_def m_stack_len_pos stack_len_list)

lemma stack_peek_ok:
  assumes "stack_ok s"
  shows "m_stack_peek (Some s) = Some (case stack_list s of [] \<Rightarrow> NULL | d # _ \<Rightarrow> d)"
proof (cases "stack_list s")
  case Nil
  then show ?thesis using assms by (simp add: m_stack_peek_def m_stack_len_pos stack_len_list)
next
  case (Cons d ds)
  obtain s' where "m_stack_pop (Some s) = Some (d, Some s')" by (rule stack_pop_ok [OF assms Cons])
  then have "map_option userptr (node_at (s_nodes s) (s_data s)) = Some d"
    using Cons assms
    by (cases "node_at (s_nodes s) (s_data s)"; cases "free_node (s_nodes s) (s_data s)")
      (simp_all add: m_stack_pop_def m_stack_len_pos stack_len_list)
  with Cons assms show ?thesis by (simp add: m_stack_peek_def m_stack_len_pos stack_len_list)
qed

text \<open>The stack provides the \<open>lifo\<close> contract.\<close>

fun stack_handle_ok :: "'w m_stack option \<Rightarrow> bool" where
  "stack_handle_ok None = False"
| "stack_handle_ok (Some s) = stack_ok s"

fun stack_handle_list :: "'w m_stack option \<Rightarrow> ptr list" where
  "stack_handle_list None = []"
| "stack_handle_list (Some s) = stack_list s"

fun stack_fresh :: "'w m_stack option \<Rightarrow> ptr \<Rightarrow> bool" where
  "stack_fresh None a = False"
| "stack_fresh (Some s) a = (a \<noteq> NULL \<and> s_nodes s a = None)"

interpretation stk: lifo m_stack_push m_stack_pop stack_fresh stack_handle_ok stack_handle_list
proof unfold_locales
  fix sp :: "'w m_stack option" and a d
  assume "stack_handle_ok sp" "stack_fresh sp a" "d \<noteq> NULL"
  then obtain s where s: "sp = Some s" "stack_ok s" "a \<noteq> NULL" "s_nodes s a = None"
    by (cases sp) auto
  from stack_push_ok [OF s(2-4) \<open>d \<noteq> NULL\<close>] obtain s' where
    "m_stack_push a (Some s) d = Some (0, Some s')" "stack_ok s'" "stack_list s' = d # stack_list s"
    "s_nodes s' = (s_nodes s)(a \<mapsto> \<lparr>userptr = d, link = s_data s\<rparr>)" by metis
  with s show "\<exists>s'. m_stack_push a sp d = Some (0, s') \<and> stack_handle_ok s' \<and>
      stack_handle_list s' = d # stack_handle_list sp \<and>
      (\<forall>b. b \<noteq> a \<longrightarrow> stack_fresh sp b \<longrightarrow> stack_fresh s' b)"
    by (intro exI [of _ "Some s'"]) auto
next
  fix sp :: "'w m_stack option" and d ds
  assume "stack_handle_ok sp" "stack_handle_list sp = d # ds"
  then obtain s where s: "sp = Some s" "stack_ok s" "stack_list s = d # ds"
    by (cases sp) auto
  with stack_pop_ok [OF s(2,3)] show "\<exists>s'. m_stack_pop sp = Some (d, s') \<and>
      stack_handle_ok s' \<and> stack_handle_list s' = ds"
    by (metis stack_handle_list.simps(2) stack_handle_ok.simps(2))
next
  fix sp :: "'w m_stack option" and a d
  assume "stack_handle_ok sp"
  then obtain s where "sp = Some s" by (cases sp) auto
  then show "m_stack_push a sp NULL = Some (- EINVAL, sp)"
    and "d \<noteq> NULL \<Longrightarrow> m_stack_push NULL sp d = Some (- ENOMEM, sp)"
    by (simp_all add: m_stack_push_def)
next
  fix sp :: "'w m_stack option"
  assume "stack_handle_ok sp" "stack_handle_list sp = []"
  then show "m_stack_pop sp = Some (NULL, sp)" by (cases sp) (auto simp: stack_pop_empty)
qed

subsection \<open>Removing everything\<close>

lemma stack_remove_ok:
  assumes "stack_ok s" and "stack_list s = d # ds"
  obtains s' where "m_stack_remove (Some s) w = Some (0, Some s', call_dtor (s_dtor s) d w)"
    and "stack_ok s'" and "stack_list s' = ds" and "s_dtor s' = s_dtor s"
proof -
  from assms obtain s' where s': "m_stack_pop (Some s) = Some (d, Some s')" "stack_ok s'"
    "stack_list s' = ds" "s_dtor s' = s_dtor s" "d \<noteq> NULL" by (rule stack_pop_ok)
  then show ?thesis by (intro that [of s']) (simp_all add: m_stack_remove_def)
qed

lemma stack_clear_loop_ok:
  "stack_ok s \<Longrightarrow>
   \<exists>s'. stack_clear_loop (Some s) w = Some (Some s', fold (call_dtor (s_dtor s)) (stack_list s) w) \<and>
        stack_ok s' \<and> stack_list s' = [] \<and> s_dtor s' = s_dtor s"
proof (induction "stack_list s" arbitrary: s w)
  case Nil
  then show ?case
    by (subst stack_clear_loop.simps) (auto simp: m_stack_len_pos stack_len_list)
next
  case (Cons d ds)
  then obtain s1 where s1: "m_stack_remove (Some s) w = Some (0, Some s1, call_dtor (s_dtor s) d w)"
    "stack_ok s1" "stack_list s1 = ds" "s_dtor s1 = s_dtor s" by (metis stack_remove_ok)
  have "m_stack_len (Some s) > 0"
    using Cons by (simp add: m_stack_len_pos stack_len_list flip: Cons.hyps(2))
  with s1 Cons.hyps(1) [of s1 "call_dtor (s_dtor s) d w"] show ?case
    by (subst stack_clear_loop.simps) (simp flip: Cons.hyps(2))
qed

lemma stack_ok_empty: "stack_ok s \<Longrightarrow> stack_list s = [] \<Longrightarrow> s_nodes s = (\<lambda>_. None)"
  by (elim stack_okE) (simp add: chain_rep_Nil)

lemma m_stack_clear_ok:
  assumes "stack_ok s"
  obtains s' where "m_stack_clear (Some s) w = Some (0, Some s', fold (call_dtor (s_dtor s)) (stack_list s) w)"
    and "stack_ok s'" and "stack_list s' = []" and "s_nodes s' = (\<lambda>_. None)" and "s_dtor s' = s_dtor s"
  using stack_clear_loop_ok [OF assms, of w] that stack_ok_empty
  by (auto simp: m_stack_clear_def)

subsection \<open>Iterators\<close>

type_synonym stack_cursor = "ptr list m_stack \<times> stack_itr option \<times> ptr list"

fun stack_live :: "stack_cursor \<Rightarrow> bool" where
  "stack_live (s, it, w) = (it \<noteq> None)"

fun stack_nxt :: "stack_cursor \<Rightarrow> stack_cursor option" where
  "stack_nxt (s, it, w) = map_option (\<lambda>(r, it'). (s, it', w)) (m_stack_itr_next s it)"

fun stack_get :: "stack_cursor \<Rightarrow> ptr" where
  "stack_get (s, it, w) = (case m_stack_itr_get_data s it of None \<Rightarrow> NULL | Some d \<Rightarrow> d)"

fun stack_rm :: "stack_cursor \<Rightarrow> (int \<times> stack_cursor) option" where
  "stack_rm (s, it, w) =
     map_option (\<lambda>(r, s', it', w'). (r, (s', it', w'))) (m_stack_itr_remove s it w)"

fun stack_log :: "stack_cursor \<Rightarrow> ptr list" where
  "stack_log (s, it, w) = w"

fun stack_at :: "stack_cursor \<Rightarrow> ptr list \<Rightarrow> ptr list \<Rightarrow> bool" where
  "stack_at (s, it, w) ks rs \<longleftrightarrow> s_dtor s = log_dtor \<and>
     (\<exists>xs ys. stack_rep s (xs @ ys) \<and> vals (s_nodes s) xs = ks \<and> vals (s_nodes s) ys = rs \<and>
        it = (if ys = [] then None else Some \<lparr>si_elem = slot_after xs, si_removed = False\<rparr>))"

fun stack_gone :: "stack_cursor \<Rightarrow> ptr list \<Rightarrow> ptr list \<Rightarrow> bool" where
  "stack_gone (s, it, w) ks rs \<longleftrightarrow> s_dtor s = log_dtor \<and>
     (\<exists>xs ys. stack_rep s (xs @ ys) \<and> vals (s_nodes s) xs = ks \<and> vals (s_nodes s) ys = rs \<and>
        it = Some \<lparr>si_elem = slot_after xs, si_removed = True\<rparr>)"

lemma stack_atI:
  assumes "s_dtor s = log_dtor" and "stack_rep s (xs @ ys)"
    and "it = (if ys = [] then None else Some \<lparr>si_elem = slot_after xs, si_removed = False\<rparr>)"
  shows "stack_at (s, it, w) (vals (s_nodes s) xs) (vals (s_nodes s) ys)"
  using assms unfolding stack_at.simps by blast

lemma stack_goneI:
  assumes "s_dtor s = log_dtor" and "stack_rep s (xs @ ys)"
    and "it = Some \<lparr>si_elem = slot_after xs, si_removed = True\<rparr>"
  shows "stack_gone (s, it, w) (vals (s_nodes s) xs) (vals (s_nodes s) ys)"
  using assms unfolding stack_gone.simps by blast

lemma stack_at_ConsE:
  assumes "stack_at c ks (x # rs)"
  obtains s w xs a ys where "c = (s, Some \<lparr>si_elem = slot_after xs, si_removed = False\<rparr>, w)"
    and "s_dtor s = log_dtor" and "stack_rep s (xs @ a # ys)"
    and "vals (s_nodes s) xs = ks" and "val (s_nodes s) a = x" and "vals (s_nodes s) ys = rs"
proof -
  obtain s it w where c: "c = (s, it, w)" by (cases c)
  with assms obtain xs zs where z: "s_dtor s = log_dtor" "stack_rep s (xs @ zs)"
    "vals (s_nodes s) xs = ks" "vals (s_nodes s) zs = x # rs"
    "it = (if zs = [] then None else Some \<lparr>si_elem = slot_after xs, si_removed = False\<rparr>)" by auto
  then obtain a ys where "zs = a # ys" by (cases zs) auto
  with that c z show ?thesis by auto
qed

lemma stack_nxt_at:
  assumes "stack_at c ks (x # rs)"
  shows "\<exists>c'. stack_nxt c = Some c' \<and> stack_at c' (ks @ [x]) rs \<and> stack_log c' = stack_log c"
proof -
  from assms obtain s w xs a ys where
    c: "c = (s, Some \<lparr>si_elem = slot_after xs, si_removed = False\<rparr>, w)" "s_dtor s = log_dtor"
    and rep: "stack_rep s (xs @ a # ys)"
    and v: "vals (s_nodes s) xs = ks" "val (s_nodes s) a = x" "vals (s_nodes s) ys = rs"
    by (rule stack_at_ConsE)
  let ?it = "if ys = [] then None else Some \<lparr>si_elem = slot_after (xs @ [a]), si_removed = False\<rparr>"
  have "m_stack_itr_next s (Some \<lparr>si_elem = slot_after xs, si_removed = False\<rparr>) = Some (0, ?it)"
    by (rule chain_cursor [OF rep]) (simp add: m_stack_itr_next_def)
  moreover have "stack_at (s, ?it, w) (vals (s_nodes s) (xs @ [a])) (vals (s_nodes s) ys)"
    using c rep by (intro stack_atI) auto
  ultimately show ?thesis using c v by simp
qed

lemma stack_nxt_gone:
  assumes "stack_gone c ks rs"
  shows "\<exists>c'. stack_nxt c = Some c' \<and> stack_at c' ks rs \<and> stack_log c' = stack_log c"
proof -
  from assms obtain s w xs ys where
    c: "c = (s, Some \<lparr>si_elem = slot_after xs, si_removed = True\<rparr>, w)" "s_dtor s = log_dtor"
    and rep: "stack_rep s (xs @ ys)"
    and v: "vals (s_nodes s) xs = ks" "vals (s_nodes s) ys = rs" by (cases c) auto
  let ?it = "if ys = [] then None else Some \<lparr>si_elem = slot_after xs, si_removed = False\<rparr>"
  have "m_stack_itr_next s (Some \<lparr>si_elem = slot_after xs, si_removed = True\<rparr>) = Some (0, ?it)"
    using chain_first [OF rep] by (simp add: m_stack_itr_next_def)
  moreover have "stack_at (s, ?it, w) (vals (s_nodes s) xs) (vals (s_nodes s) ys)"
    using c rep by (intro stack_atI) auto
  ultimately show ?thesis using c v by simp
qed

lemma stack_rm_at:
  assumes "stack_at c ks (x # rs)"
  shows "\<exists>c'. stack_rm c = Some (0, c') \<and> stack_gone c' ks rs \<and> stack_log c' = stack_log c @ [x]"
proof -
  from assms obtain s w xs a ys where
    c: "c = (s, Some \<lparr>si_elem = slot_after xs, si_removed = False\<rparr>, w)" "s_dtor s = log_dtor"
    and rep: "stack_rep s (xs @ a # ys)"
    and v: "vals (s_nodes s) xs = ks" "val (s_nodes s) a = x" "vals (s_nodes s) ys = rs"
    by (rule stack_at_ConsE)
  from rep obtain nd where nd: "slot_get (s_data s) (s_nodes s) (slot_after xs) = Some a"
    "node_at (s_nodes s) a = Some nd" "s_nodes s a = Some nd" "userptr nd = x" "a \<noteq> NULL"
    using v(2) by (metis chain_cursor)
  from chain_unlink [OF rep nd(3)] obtain h' ns' where
    u: "slot_set (s_data s) (s_nodes s) (slot_after xs) (link nd) = Some (h', ns')"
      "free_node ns' a = Some (ns'(a := None))"
      "chain_rep h' (s_len s - 1) (ns'(a := None)) (xs @ ys)"
      "vals (ns'(a := None)) xs = vals (s_nodes s) xs"
      "vals (ns'(a := None)) ys = vals (s_nodes s) ys" by blast
  let ?s = "s\<lparr>s_data := h', s_nodes := ns'(a := None), s_len := s_len s - 1\<rparr>"
  let ?it = "Some \<lparr>si_elem = slot_after xs, si_removed = True\<rparr>"
  have "m_stack_itr_remove s (Some \<lparr>si_elem = slot_after xs, si_removed = False\<rparr>) w =
      Some (0, ?s, ?it, w @ [x])"
    using c nd u by (simp add: m_stack_itr_remove_def log_dtor_def)
  moreover have "stack_gone (?s, ?it, w @ [x]) (vals (s_nodes ?s) xs) (vals (s_nodes ?s) ys)"
    by (rule stack_goneI) (use c u in simp_all)
  moreover have "vals (s_nodes ?s) xs = ks" "vals (s_nodes ?s) ys = rs"
    using u(4,5) v by simp_all
  ultimately show ?thesis using c by simp
qed

lemma stack_get_at: "stack_at c ks (x # rs) \<Longrightarrow> stack_get c = x"
  by (erule stack_at_ConsE, erule chain_cursor) (simp add: m_stack_itr_get_data_def)

interpretation stk_itr: iterable stack_live stack_nxt stack_get stack_rm stack_log stack_at stack_gone
proof unfold_locales
  fix c ks rs
  assume "stack_at c ks rs"
  then show "stack_live c = (rs \<noteq> [])" by (cases c) auto
qed (fact stack_get_at stack_nxt_at stack_rm_at stack_nxt_gone)+

lemma stack_itr_new_at:
  assumes "stack_ok s" and "s_dtor s = log_dtor" and "cal \<noteq> NULL"
  shows "stack_at (s, m_stack_itr_new cal (Some s), w) [] (stack_list s)"
proof -
  from assms(1) obtain as where as: "stack_rep s as" "stack_list s = vals (s_nodes s) as"
    by (rule stack_okE)
  have "m_stack_itr_new cal (Some s) =
      (if as = [] then None else Some \<lparr>si_elem = slot_after [], si_removed = False\<rparr>)"
    using assms(3) chain_rep_Nil_iff [OF as(1)] by (auto simp: m_stack_itr_new_def m_stack_len_pos)
  with stack_atI [of s "[]" as _ w] assms as show ?thesis by simp
qed

subsection \<open>Properties\<close>

text \<open>
  C1. Every history of pushes and pops on a stack in use, allocation failures and null data
  included, gives the return values of an ideal stack, runs without a bad memory access, and
  leaves the ideal content.
\<close>

theorem stack_history:
  assumes "stack_handle_ok sp" and "admissible m_stack_push m_stack_pop stack_fresh cs sp"
  shows "\<exists>sp'. run m_stack_push m_stack_pop cs sp =
      Some (fst (ideal_run (#) cs (stack_handle_list sp)), sp') \<and> stack_handle_ok sp' \<and>
      stack_handle_list sp' = snd (ideal_run (#) cs (stack_handle_list sp))"
  using assms by (rule stk.run_ideal)

theorem stack_history_witness:
  "\<exists>sp'. run m_stack_push m_stack_pop [Ins 8 70, Ins 0 71, Ins 9 72, Out, Ins 9 73, Out, Out, Out]
      (m_stack_new 1 log_dtor) =
    Some ([Inl 0, Inl (- ENOMEM), Inl 0, Inr 72, Inl 0, Inr 73, Inr 70, Inr 0], sp')"
  using stack_history [of "m_stack_new 1 log_dtor"
      "[Ins 8 70, Ins 0 71, Ins 9 72, Out, Ins 9 73, Out, Out, Out]"]
  by (simp add: m_stack_new_def stack_ok_def chain_ok_def stack_list_def chain_list_def
      m_stack_push_def m_stack_pop_def m_stack_len_def node_at_def free_node_def)

text \<open>
  Iterating over a stack and removing the elements that satisfy a predicate calls the
  destructor on exactly those, in order, once each, and leaves the others in order; the
  iterator is freed at the end.
\<close>

theorem stack_foreach_prune:
  assumes "stack_ok s" and "s_dtor s = log_dtor" and "cal \<noteq> NULL"
  shows "\<exists>s'. itr_foreach stack_live stack_nxt (prune stack_get stack_rm P) 0
      (s, m_stack_itr_new cal (Some s), w) = Some (s', None, w @ filter P (stack_list s)) \<and>
    stack_ok s' \<and> stack_list s' = filter (\<lambda>x. \<not> P x) (stack_list s)"
proof -
  from stk_itr.foreach_prune [OF stack_itr_new_at [OF assms], of P 0 w] obtain s' it' w' where
    "itr_foreach stack_live stack_nxt (prune stack_get stack_rm P) 0
        (s, m_stack_itr_new cal (Some s), w) = Some (s', it', w')"
    "stack_at (s', it', w') (filter (\<lambda>x. \<not> P x) (stack_list s)) []" "w' = w @ filter P (stack_list s)"
    by auto
  then show ?thesis using stack_repI [of s'] by auto
qed

definition stack_sample :: "ptr list m_stack" where
  "stack_sample = \<lparr>s_len = 3, s_dtor = log_dtor, s_data = 5,
     s_nodes = [5 \<mapsto> \<lparr>userptr = 50, link = 6\<rparr>, 6 \<mapsto> \<lparr>userptr = 60, link = 7\<rparr>,
                7 \<mapsto> \<lparr>userptr = 70, link = 0\<rparr>]\<rparr>"

lemma stack_sample_ok: "stack_ok stack_sample" "stack_list stack_sample = [50, 60, 70]"
  "s_dtor stack_sample = log_dtor"
  by (auto simp: stack_sample_def stack_ok_def stack_list_def chain_ok_def chain_list_def
      chain_rep_def node_at_def val_def eval_nat_numeral)

theorem stack_foreach_prune_witness:
  "\<exists>s'. itr_foreach stack_live stack_nxt (prune stack_get stack_rm (\<lambda>x. x > 55)) 0
      (stack_sample, m_stack_itr_new 3 (Some stack_sample), []) = Some (s', None, [60, 70]) \<and>
    stack_list s' = [50]"
  using stack_foreach_prune [of stack_sample 3 "\<lambda>x. x > 55" "[]"] by (auto simp: stack_sample_ok)

text \<open>
  Freeing a stack destroys each element once, top first, and nulls the caller's handle.
\<close>

theorem stack_free_all:
  assumes "stack_ok s"
  shows "m_stack_free (Some (Some s)) w =
    Some (0, Some None, fold (call_dtor (s_dtor s)) (stack_list s) w)"
  by (rule m_stack_clear_ok [OF assms, of w]) (simp add: m_stack_free_def)

theorem stack_free_all_witness:
  "m_stack_free (Some (Some stack_sample)) [] = Some (0, Some None, [50, 60, 70])"
  using stack_free_all [of stack_sample "[]"] by (simp add: stack_sample_ok log_dtor_def)

end
