(* ===== verification/LList.thy ===== *)
theory LList
  imports Chain Itr
begin

text \<open>
  The list of \<^verbatim>\<open>Lib/structs/list.c\<close>: insertion before the first element that the comparison
  matches, removal and search by comparison or identity, and an iterator that may insert
  and remove at its position. \<open>list_ok\<close> is the invariant, \<open>list_elems\<close> the abstraction.
\<close>

type_synonym cmp = "(ptr \<Rightarrow> ptr \<Rightarrow> int) option"

record 'w m_list =
  l_len :: nat
  l_comp :: cmp
  l_dtor :: "'w dtor"
  l_data :: ptr
  l_nodes :: nodes

record list_itr =
  li_elem :: slot
  li_diff :: int

definition list_insert_node :: "ptr \<Rightarrow> 'w m_list \<Rightarrow> slot \<Rightarrow> ptr \<Rightarrow> (int \<times> 'w m_list) option" where
  "list_insert_node mal l elem data =
     (if mal = NULL then Some (- ENOMEM, l)
      else do {
        p \<leftarrow> slot_get (l_data l) (l_nodes l) elem;
        (h, ns) \<leftarrow> slot_set (l_data l) ((l_nodes l)(mal \<mapsto> \<lparr>userptr = data, link = p\<rparr>)) elem mal;
        Some (0, l\<lparr>l_data := h, l_nodes := ns, l_len := l_len l + 1\<rparr>) })"

definition list_remove_node :: "'w m_list \<Rightarrow> slot \<Rightarrow> 'w \<Rightarrow> (int \<times> 'w m_list \<times> 'w) option" where
  "list_remove_node l elem w = do {
     tmp \<leftarrow> slot_get (l_data l) (l_nodes l) elem;
     if tmp \<noteq> NULL then do {
       n \<leftarrow> node_at (l_nodes l) tmp;
       (h, ns) \<leftarrow> slot_set (l_data l) (l_nodes l) elem (link n);
       ns \<leftarrow> free_node ns tmp;
       Some (0, l\<lparr>l_data := h, l_nodes := ns, l_len := l_len l - 1\<rparr>,
             call_dtor (l_dtor l) (userptr n) w) }
     else Some (- ENOENT, l, w) }"

definition m_list_new :: "ptr \<Rightarrow> cmp \<Rightarrow> 'w dtor \<Rightarrow> 'w m_list option" where
  "m_list_new cal cmp_fn fn =
     (if cal = NULL then None
      else Some \<lparr>l_len = 0, l_comp = cmp_fn, l_dtor = fn, l_data = NULL, l_nodes = (\<lambda>_. None)\<rparr>)"

definition m_list_len :: "'w m_list option \<Rightarrow> int" where
  "m_list_len lp = (case lp of None \<Rightarrow> - EINVAL | Some l \<Rightarrow> int (l_len l))"

definition m_list_itr_new :: "ptr \<Rightarrow> 'w m_list option \<Rightarrow> list_itr option" where
  "m_list_itr_new cal lp =
     (if \<not> m_list_len lp > 0 then None
      else if cal = NULL then None
      else Some \<lparr>li_elem = HeadSlot, li_diff = 0\<rparr>)"

definition m_list_itr_next :: "'w m_list \<Rightarrow> list_itr option \<Rightarrow> (int \<times> list_itr option) option" where
  "m_list_itr_next l it =
     (case it of None \<Rightarrow> Some (- EINVAL, None)
      | Some i \<Rightarrow> do {
          p \<leftarrow> slot_get (l_data l) (l_nodes l) (li_elem i);
          let i = (if p \<noteq> NULL
                   then i\<lparr>li_elem := (if li_diff i \<ge> 0 then LinkSlot p else li_elem i), li_diff := 0\<rparr>
                   else i);
          q \<leftarrow> slot_get (l_data l) (l_nodes l) (li_elem i);
          Some (0, if q = NULL then None else Some i) })"

definition m_list_itr_get_data :: "'w m_list \<Rightarrow> list_itr option \<Rightarrow> ptr option" where
  "m_list_itr_get_data l it =
     (case it of None \<Rightarrow> Some NULL
      | Some i \<Rightarrow> do {
          p \<leftarrow> slot_get (l_data l) (l_nodes l) (li_elem i);
          if p = NULL then Some NULL else map_option userptr (node_at (l_nodes l) p) })"

definition m_list_itr_set_data ::
    "'w m_list \<Rightarrow> list_itr option \<Rightarrow> ptr \<Rightarrow> (int \<times> 'w m_list) option" where
  "m_list_itr_set_data l it value =
     (case it of None \<Rightarrow> Some (- EINVAL, l)
      | Some i \<Rightarrow>
          if value = NULL then Some (- EINVAL, l)
          else do {
            p \<leftarrow> slot_get (l_data l) (l_nodes l) (li_elem i);
            if p = NULL then Some (- EINVAL, l)
            else do { ns \<leftarrow> set_userptr (l_nodes l) p value; Some (0, l\<lparr>l_nodes := ns\<rparr>) } })"

definition m_list_itr_insert ::
    "ptr \<Rightarrow> 'w m_list \<Rightarrow> list_itr option \<Rightarrow> ptr \<Rightarrow> (int \<times> 'w m_list \<times> list_itr option) option" where
  "m_list_itr_insert mal l it value =
     (case it of None \<Rightarrow> Some (- EINVAL, l, it)
      | Some i \<Rightarrow>
          if value = NULL then Some (- EINVAL, l, it)
          else do {
            (r, l') \<leftarrow> list_insert_node mal l (li_elem i) value;
            Some (r, l', Some (i\<lparr>li_diff := li_diff i + 1\<rparr>)) })"

definition m_list_itr_remove ::
    "'w m_list \<Rightarrow> list_itr option \<Rightarrow> 'w \<Rightarrow> (int \<times> 'w m_list \<times> list_itr option \<times> 'w) option" where
  "m_list_itr_remove l it w =
     (case it of None \<Rightarrow> Some (- EINVAL, l, it, w)
      | Some i \<Rightarrow> do {
          p \<leftarrow> slot_get (l_data l) (l_nodes l) (li_elem i);
          if p = NULL then Some (- EINVAL, l, it, w)
          else do {
            (r, l', w') \<leftarrow> list_remove_node l (li_elem i) w;
            Some (r, l', Some (i\<lparr>li_diff := li_diff i - 1\<rparr>), w') } })"

definition m_list_iterate ::
    "'w m_list option \<Rightarrow> (ptr \<Rightarrow> ptr \<Rightarrow> 'v \<Rightarrow> int \<times> 'v) option \<Rightarrow> ptr \<Rightarrow> 'v \<Rightarrow> (int \<times> 'v) option" where
  "m_list_iterate lp fn up v =
     (case fn of None \<Rightarrow> Some (- EINVAL, v)
      | Some f \<Rightarrow>
          if \<not> m_list_len lp > 0 then Some (- EINVAL, v)
          else (case lp of None \<Rightarrow> None
                | Some l \<Rightarrow> chain_each (f up) (l_nodes l) (l_data l) v))"

text \<open>
  The search loop of \<^verbatim>\<open>m_list_insert\<close>, \<^verbatim>\<open>m_list_remove\<close> and \<^verbatim>\<open>m_list_find\<close>: at most \<open>k\<close> elements
  (\<^verbatim>\<open>l->len - i\<close>) are looked at, from the slot \<open>tmp\<close>; it stops at the slot of the first hit.
\<close>

primrec list_seek :: "ptr \<Rightarrow> nodes \<Rightarrow> (ptr \<Rightarrow> bool) \<Rightarrow> nat \<Rightarrow> slot \<Rightarrow> slot option" where
  "list_seek h ns hit 0 tmp = Some tmp"
| "list_seek h ns hit (Suc k) tmp = do {
     p \<leftarrow> slot_get h ns tmp;
     n \<leftarrow> node_at ns p;
     if hit (userptr n) then Some tmp else list_seek h ns hit k (LinkSlot p) }"

definition m_list_insert :: "ptr \<Rightarrow> 'w m_list option \<Rightarrow> ptr \<Rightarrow> (int \<times> 'w m_list option) option" where
  "m_list_insert mal lp data =
     (case lp of None \<Rightarrow> Some (- EINVAL, None)
      | Some l \<Rightarrow>
          if data = NULL then Some (- EINVAL, lp)
          else do {
            tmp \<leftarrow> (case l_comp l of None \<Rightarrow> Some HeadSlot
                    | Some c \<Rightarrow> list_seek (l_data l) (l_nodes l) (\<lambda>x. c data x = 0) (l_len l) HeadSlot);
            (r, l') \<leftarrow> list_insert_node mal l tmp data;
            Some (r, Some l') })"

definition list_hit :: "cmp \<Rightarrow> ptr \<Rightarrow> ptr \<Rightarrow> bool" where
  "list_hit cmp_fn data x \<longleftrightarrow> (case cmp_fn of None \<Rightarrow> False | Some c \<Rightarrow> c data x = 0) \<or> x = data"

definition m_list_remove :: "'w m_list option \<Rightarrow> ptr \<Rightarrow> 'w \<Rightarrow> (int \<times> 'w m_list option \<times> 'w) option" where
  "m_list_remove lp data w =
     (if \<not> m_list_len lp > 0 then Some (- EINVAL, lp, w)
      else if data = NULL then Some (- EINVAL, lp, w)
      else case lp of None \<Rightarrow> None
      | Some l \<Rightarrow> do {
          tmp \<leftarrow> list_seek (l_data l) (l_nodes l) (list_hit (l_comp l) data) (l_len l) HeadSlot;
          (r, l', w') \<leftarrow> list_remove_node l tmp w;
          Some (r, Some l', w') })"

primrec list_find_loop :: "ptr \<Rightarrow> nodes \<Rightarrow> (ptr \<Rightarrow> bool) \<Rightarrow> nat \<Rightarrow> slot \<Rightarrow> ptr option" where
  "list_find_loop h ns hit 0 tmp = Some NULL"
| "list_find_loop h ns hit (Suc k) tmp = do {
     p \<leftarrow> slot_get h ns tmp;
     n \<leftarrow> node_at ns p;
     if hit (userptr n) then Some (userptr n) else list_find_loop h ns hit k (LinkSlot p) }"

definition m_list_find :: "'w m_list option \<Rightarrow> ptr \<Rightarrow> ptr option" where
  "m_list_find lp data =
     (case lp of None \<Rightarrow> Some NULL
      | Some l \<Rightarrow>
          if data = NULL then Some NULL
          else list_find_loop (l_data l) (l_nodes l) (list_hit (l_comp l) data) (l_len l) HeadSlot)"

text \<open>\<^verbatim>\<open>for (itr = m_list_itr_new(l); itr; m_list_itr_next(&itr)) m_list_itr_remove(itr);\<close>\<close>

partial_function (option) list_clear_loop ::
    "'w m_list \<Rightarrow> list_itr option \<Rightarrow> 'w \<Rightarrow> ('w m_list \<times> 'w) option" where
  "list_clear_loop l it w =
     (if it = None then Some (l, w)
      else Option.bind (m_list_itr_remove l it w) (\<lambda>r. case r of (r1, l1, it1, w1) \<Rightarrow>
             Option.bind (m_list_itr_next l1 it1) (\<lambda>s. case s of (r2, it2) \<Rightarrow>
               list_clear_loop l1 it2 w1)))"

declare list_clear_loop.simps [code]

definition m_list_clear :: "ptr \<Rightarrow> 'w m_list option \<Rightarrow> 'w \<Rightarrow> (int \<times> 'w m_list option \<times> 'w) option" where
  "m_list_clear cal lp w =
     (case lp of None \<Rightarrow> Some (- EINVAL, None, w)
      | Some l \<Rightarrow> do {
          (l', w') \<leftarrow> list_clear_loop l (m_list_itr_new cal lp) w;
          Some (0, Some l', w') })"

definition m_list_free ::
    "ptr \<Rightarrow> 'w m_list option option \<Rightarrow> 'w \<Rightarrow> (int \<times> 'w m_list option option \<times> 'w) option" where
  "m_list_free cal lpp w =
     (case lpp of None \<Rightarrow> Some (- EINVAL, None, w)
      | Some lp \<Rightarrow> do {
          (ret, lp', w') \<leftarrow> m_list_clear cal lp w;
          if ret = 0 then Some (ret, Some None, w') else Some (ret, Some lp', w') })"

subsection \<open>Invariant and abstraction\<close>

abbreviation list_rep :: "'w m_list \<Rightarrow> ptr list \<Rightarrow> bool" where
  "list_rep l as \<equiv> chain_rep (l_data l) (l_len l) (l_nodes l) as"

definition list_ok :: "'w m_list \<Rightarrow> bool" where
  "list_ok l \<longleftrightarrow> chain_ok (l_data l) (l_len l) (l_nodes l)"

definition list_elems :: "'w m_list \<Rightarrow> ptr list" where
  "list_elems l = chain_list (l_data l) (l_len l) (l_nodes l)"

lemma list_okE:
  assumes "list_ok l"
  obtains as where "list_rep l as" and "list_elems l = vals (l_nodes l) as"
  using assms by (auto simp: list_ok_def list_elems_def elim: chain_okE)

lemma list_repI:
  assumes "list_rep l as"
  shows "list_ok l" and "list_elems l = vals (l_nodes l) as"
  using assms by (simp_all add: list_ok_def list_elems_def chain_ok_rep chain_list_rep)

lemma list_len_elems: "list_ok l \<Longrightarrow> l_len l = length (list_elems l)"
  by (auto elim!: list_okE simp: chain_rep_length)

lemma m_list_len_pos: "m_list_len (Some l) > 0 \<longleftrightarrow> l_len l > 0"
  by (simp add: m_list_len_def)

lemma list_new_ok: "a \<noteq> NULL \<Longrightarrow> \<exists>l. m_list_new a c d = Some l \<and> list_ok l \<and> list_elems l = [] \<and>
    l_comp l = c \<and> l_dtor l = d"
  by (simp add: m_list_new_def list_ok_def list_elems_def chain_ok_def chain_list_def)

lemma list_insert_node_ok:
  assumes rep: "list_rep l (xs @ ys)" and fresh: "a \<noteq> NULL" "l_nodes l a = None" and d: "d \<noteq> NULL"
  obtains l' where "list_insert_node a l (slot_after xs) d = Some (0, l')"
    and "list_rep l' (xs @ a # ys)" and "l_dtor l' = l_dtor l" and "l_comp l' = l_comp l"
    and "vals (l_nodes l') (xs @ a # ys) = vals (l_nodes l) xs @ d # vals (l_nodes l) ys"
proof -
  from chain_insert [OF rep fresh d] obtain p h' ns' where
    u: "slot_get (l_data l) (l_nodes l) (slot_after xs) = Some p"
      "slot_set (l_data l) ((l_nodes l)(a \<mapsto> \<lparr>userptr = d, link = p\<rparr>)) (slot_after xs) a = Some (h', ns')"
      "chain_rep h' (Suc (l_len l)) ns' (xs @ a # ys)"
      "vals ns' (xs @ a # ys) = vals (l_nodes l) xs @ d # vals (l_nodes l) ys" by blast
  let ?l = "l\<lparr>l_data := h', l_nodes := ns', l_len := l_len l + 1\<rparr>"
  show ?thesis by (rule that [of ?l]) (use u fresh in \<open>simp_all add: list_insert_node_def\<close>)
qed

lemma list_remove_node_ok:
  assumes rep: "list_rep l (xs @ a # ys)"
  obtains l' where "list_remove_node l (slot_after xs) w =
      Some (0, l', call_dtor (l_dtor l) (val (l_nodes l) a) w)"
    and "list_rep l' (xs @ ys)" and "l_dtor l' = l_dtor l" and "l_comp l' = l_comp l"
    and "vals (l_nodes l') xs = vals (l_nodes l) xs" and "vals (l_nodes l') ys = vals (l_nodes l) ys"
proof -
  from rep obtain nd where nd: "slot_get (l_data l) (l_nodes l) (slot_after xs) = Some a"
    "node_at (l_nodes l) a = Some nd" "l_nodes l a = Some nd" "userptr nd = val (l_nodes l) a" "a \<noteq> NULL"
    by (metis chain_cursor)
  from chain_unlink [OF rep nd(3)] obtain h' ns' where
    u: "slot_set (l_data l) (l_nodes l) (slot_after xs) (link nd) = Some (h', ns')"
      "free_node ns' a = Some (ns'(a := None))"
      "chain_rep h' (l_len l - 1) (ns'(a := None)) (xs @ ys)"
      "vals (ns'(a := None)) xs = vals (l_nodes l) xs"
      "vals (ns'(a := None)) ys = vals (l_nodes l) ys" by blast
  let ?l = "l\<lparr>l_data := h', l_nodes := ns'(a := None), l_len := l_len l - 1\<rparr>"
  show ?thesis by (rule that [of ?l]) (use u nd in \<open>simp_all add: list_remove_node_def\<close>)
qed

lemma list_remove_node_end:
  assumes "list_rep l xs"
  shows "list_remove_node l (slot_after xs) w = Some (- ENOENT, l, w)"
  using chain_first [of _ _ _ xs "[]"] assms by (simp add: list_remove_node_def)

subsection \<open>The search loop\<close>

lemma list_seek_ok:
  "chain_rep h n ns (xs @ ys) \<Longrightarrow>
   list_seek h ns hit (length ys) (slot_after xs) =
     Some (slot_after (xs @ takeWhile (\<lambda>a. \<not> hit (val ns a)) ys))"
proof (induction ys arbitrary: xs)
  case (Cons a ys)
  from Cons.prems obtain nd where nd: "slot_get h ns (slot_after xs) = Some a"
    "node_at ns a = Some nd" "userptr nd = val ns a" by (metis chain_cursor)
  from Cons.IH [of "xs @ [a]"] Cons.prems nd show ?case by simp
qed simp

lemma list_find_loop_ok:
  "chain_rep h n ns (xs @ ys) \<Longrightarrow>
   list_find_loop h ns hit (length ys) (slot_after xs) =
     Some (case List.find hit (vals ns ys) of None \<Rightarrow> NULL | Some x \<Rightarrow> x)"
proof (induction ys arbitrary: xs)
  case (Cons a ys)
  from Cons.prems obtain nd where nd: "slot_get h ns (slot_after xs) = Some a"
    "node_at ns a = Some nd" "userptr nd = val ns a" by (metis chain_cursor)
  from Cons.IH [of "xs @ [a]"] Cons.prems nd show ?case by simp
qed simp

lemma takeWhile_vals: "vals ns (takeWhile (\<lambda>a. P (val ns a)) as) = takeWhile P (vals ns as)"
  by (simp add: vals_def takeWhile_map o_def)

lemma dropWhile_vals: "vals ns (dropWhile (\<lambda>a. P (val ns a)) as) = dropWhile P (vals ns as)"
  by (simp add: vals_def dropWhile_map o_def)

subsection \<open>Insertion, search and removal\<close>

definition list_place :: "cmp \<Rightarrow> ptr \<Rightarrow> ptr list \<Rightarrow> ptr list" where
  "list_place cmp_fn d xs = (case cmp_fn of None \<Rightarrow> d # xs
     | Some c \<Rightarrow> takeWhile (\<lambda>x. c d x \<noteq> 0) xs @ d # dropWhile (\<lambda>x. c d x \<noteq> 0) xs)"

lemma list_insert_ok:
  assumes "list_ok l" and fresh: "a \<noteq> NULL" "l_nodes l a = None" and d: "d \<noteq> NULL"
  obtains l' where "m_list_insert a (Some l) d = Some (0, Some l')" and "list_ok l'"
    and "list_elems l' = list_place (l_comp l) d (list_elems l)"
    and "l_comp l' = l_comp l" and "l_dtor l' = l_dtor l"
proof -
  from assms(1) obtain as where as: "list_rep l as" "list_elems l = vals (l_nodes l) as"
    by (rule list_okE)
  let ?miss = "\<lambda>x. case l_comp l of None \<Rightarrow> False | Some c \<Rightarrow> c d x \<noteq> 0"
  define xs ys where "xs = takeWhile (\<lambda>b. ?miss (val (l_nodes l) b)) as"
    and "ys = dropWhile (\<lambda>b. ?miss (val (l_nodes l) b)) as"
  have seek: "(case l_comp l of None \<Rightarrow> Some HeadSlot
      | Some c \<Rightarrow> list_seek (l_data l) (l_nodes l) (\<lambda>x. c d x = 0) (l_len l) HeadSlot) =
      Some (slot_after xs)"
    using list_seek_ok [of _ _ _ "[]" as] as(1) chain_rep_length [OF as(1)]
    by (cases "l_comp l") (simp_all add: xs_def)
  have "list_rep l (xs @ ys)" using as(1) by (simp add: xs_def ys_def)
  from list_insert_node_ok [OF this fresh d] obtain l' where
    l': "list_insert_node a l (slot_after xs) d = Some (0, l')" "list_rep l' (xs @ a # ys)"
      "l_dtor l' = l_dtor l" "l_comp l' = l_comp l"
      "vals (l_nodes l') (xs @ a # ys) = vals (l_nodes l) xs @ d # vals (l_nodes l) ys" by blast
  have "vals (l_nodes l) xs @ d # vals (l_nodes l) ys = list_place (l_comp l) d (list_elems l)"
  proof (cases "l_comp l")
    case (Some c)
    with takeWhile_vals [of "l_nodes l" "\<lambda>x. c d x \<noteq> 0" as]
      dropWhile_vals [of "l_nodes l" "\<lambda>x. c d x \<noteq> 0" as]
    show ?thesis by (simp add: list_place_def as(2) xs_def ys_def)
  qed (simp add: list_place_def as(2) xs_def ys_def)
  with l' list_repI [OF l'(2)] seek d show ?thesis
    by (intro that [of l']) (simp_all add: m_list_insert_def)
qed

lemma list_find_ok:
  assumes "list_ok l" and "d \<noteq> NULL"
  shows "m_list_find (Some l) d =
    Some (case List.find (list_hit (l_comp l) d) (list_elems l) of None \<Rightarrow> NULL | Some x \<Rightarrow> x)"
proof -
  from assms(1) obtain as where as: "list_rep l as" "list_elems l = vals (l_nodes l) as"
    by (rule list_okE)
  with list_find_loop_ok [of _ _ _ "[]" as] assms(2) chain_rep_length [OF as(1)] show ?thesis
    by (simp add: m_list_find_def)
qed

lemma list_remove_ok:
  assumes "list_ok l" and d: "d \<noteq> NULL" and ne: "list_elems l \<noteq> []"
  defines "hit \<equiv> list_hit (l_comp l) d"
  shows "List.find hit (list_elems l) = None \<Longrightarrow> m_list_remove (Some l) d w = Some (- ENOENT, Some l, w)"
    and "List.find hit (list_elems l) = Some x \<Longrightarrow>
      \<exists>l'. m_list_remove (Some l) d w = Some (0, Some l', call_dtor (l_dtor l) x w) \<and> list_ok l' \<and>
           list_elems l' = takeWhile (\<lambda>y. \<not> hit y) (list_elems l) @
                           tl (dropWhile (\<lambda>y. \<not> hit y) (list_elems l)) \<and>
           l_comp l' = l_comp l \<and> l_dtor l' = l_dtor l"
proof -
  from assms(1) obtain as where as: "list_rep l as" "list_elems l = vals (l_nodes l) as"
    by (rule list_okE)
  define xs zs where "xs = takeWhile (\<lambda>b. \<not> hit (val (l_nodes l) b)) as"
    and "zs = dropWhile (\<lambda>b. \<not> hit (val (l_nodes l) b)) as"
  have len: "0 < l_len l" using list_len_elems [OF assms(1)] ne by simp
  have seek: "list_seek (l_data l) (l_nodes l) hit (l_len l) HeadSlot = Some (slot_after xs)"
    using list_seek_ok [of _ _ _ "[]" as] as(1) chain_rep_length [OF as(1)] by (simp add: xs_def)
  have rep: "list_rep l (xs @ zs)" using as(1) by (simp add: xs_def zs_def)
  have v: "vals (l_nodes l) xs = takeWhile (\<lambda>y. \<not> hit y) (list_elems l)"
    "vals (l_nodes l) zs = dropWhile (\<lambda>y. \<not> hit y) (list_elems l)"
    unfolding xs_def zs_def as(2) by (rule takeWhile_vals dropWhile_vals)+
  have find: "List.find hit ds =
      (case dropWhile (\<lambda>y. \<not> hit y) ds of [] \<Rightarrow> None | y # _ \<Rightarrow> Some y)" for ds
    by (induction ds) auto
  have unf: "m_list_remove (Some l) d w =
      map_option (\<lambda>(r, l', w'). (r, Some l', w')) (list_remove_node l (slot_after xs) w)"
    using seek d len
    by (auto simp: m_list_remove_def m_list_len_pos hit_def map_option_case split: option.splits)
  { assume "List.find hit (list_elems l) = None"
    with find v(2) have "zs = []" by (auto split: list.splits)
    with rep list_remove_node_end [of l xs w] unf
    show "m_list_remove (Some l) d w = Some (- ENOENT, Some l, w)" by simp }
  { assume "List.find hit (list_elems l) = Some x"
    with find v(2) obtain a ys where z: "zs = a # ys" "val (l_nodes l) a = x"
      by (cases zs) (auto split: list.splits)
    from list_remove_node_ok [of l xs a ys w] rep z(1) obtain l' where
      l': "list_remove_node l (slot_after xs) w = Some (0, l', call_dtor (l_dtor l) (val (l_nodes l) a) w)"
        "list_rep l' (xs @ ys)" "l_dtor l' = l_dtor l" "l_comp l' = l_comp l"
        "vals (l_nodes l') xs = vals (l_nodes l) xs" "vals (l_nodes l') ys = vals (l_nodes l) ys"
      by blast
    have "tl (dropWhile (\<lambda>y. \<not> hit y) (list_elems l)) = vals (l_nodes l) ys"
      using v(2) z(1) by (simp flip: v(2))
    with l' list_repI [OF l'(2)] unf z(2) v(1)
    show "\<exists>l'. m_list_remove (Some l) d w = Some (0, Some l', call_dtor (l_dtor l) x w) \<and> list_ok l' \<and>
           list_elems l' = takeWhile (\<lambda>y. \<not> hit y) (list_elems l) @
                           tl (dropWhile (\<lambda>y. \<not> hit y) (list_elems l)) \<and>
           l_comp l' = l_comp l \<and> l_dtor l' = l_dtor l" by auto }
qed

subsection \<open>Iterators\<close>

type_synonym list_cursor = "ptr list m_list \<times> list_itr option \<times> ptr list"

fun list_live :: "list_cursor \<Rightarrow> bool" where
  "list_live (l, it, w) = (it \<noteq> None)"

fun list_nxt :: "list_cursor \<Rightarrow> list_cursor option" where
  "list_nxt (l, it, w) = map_option (\<lambda>(r, it'). (l, it', w)) (m_list_itr_next l it)"

fun list_get :: "list_cursor \<Rightarrow> ptr" where
  "list_get (l, it, w) = (case m_list_itr_get_data l it of None \<Rightarrow> NULL | Some d \<Rightarrow> d)"

fun list_rm :: "list_cursor \<Rightarrow> (int \<times> list_cursor) option" where
  "list_rm (l, it, w) =
     map_option (\<lambda>(r, l', it', w'). (r, (l', it', w'))) (m_list_itr_remove l it w)"

fun list_log :: "list_cursor \<Rightarrow> ptr list" where
  "list_log (l, it, w) = w"

text \<open>
  \<open>list_cur l it d ks rs\<close>: the iterator stands at the slot between the elements \<open>ks\<close> and \<open>rs\<close>
  with \<^verbatim>\<open>diff\<close> equal to \<open>d\<close>.
\<close>

definition list_cur :: "'w m_list \<Rightarrow> list_itr \<Rightarrow> int \<Rightarrow> ptr list \<Rightarrow> ptr list \<Rightarrow> bool" where
  "list_cur l i d ks rs \<longleftrightarrow>
     (\<exists>xs ys. list_rep l (xs @ ys) \<and> vals (l_nodes l) xs = ks \<and> vals (l_nodes l) ys = rs \<and>
        i = \<lparr>li_elem = slot_after xs, li_diff = d\<rparr>)"

lemma list_curI:
  assumes "list_rep l (xs @ ys)"
  shows "list_cur l \<lparr>li_elem = slot_after xs, li_diff = d\<rparr> d (vals (l_nodes l) xs) (vals (l_nodes l) ys)"
  using assms unfolding list_cur_def by blast

lemma list_cur_ok: "list_cur l i d ks rs \<Longrightarrow> list_ok l \<and> list_elems l = ks @ rs"
  unfolding list_cur_def using list_repI [of l] by fastforce

lemma list_cur_ConsE:
  assumes "list_cur l i d ks (x # rs)"
  obtains xs a ys where "i = \<lparr>li_elem = slot_after xs, li_diff = d\<rparr>" and "list_rep l (xs @ a # ys)"
    and "vals (l_nodes l) xs = ks" and "val (l_nodes l) a = x" and "vals (l_nodes l) ys = rs"
proof -
  from assms obtain xs zs where z: "list_rep l (xs @ zs)" "vals (l_nodes l) xs = ks"
    "vals (l_nodes l) zs = x # rs" "i = \<lparr>li_elem = slot_after xs, li_diff = d\<rparr>"
    unfolding list_cur_def by blast
  then obtain a ys where "zs = a # ys" by (cases zs) auto
  with that z show ?thesis by auto
qed

text \<open>Advancing: it moves on when nothing was removed, and stays when something was.\<close>

lemma list_itr_next_moves:
  assumes cur: "list_cur l i d ks (x # rs)" and "0 \<le> d"
  obtains i' where "m_list_itr_next l (Some i) = Some (0, if rs = [] then None else Some i')"
    and "list_cur l i' 0 (ks @ [x]) rs"
proof -
  from cur obtain xs a ys where i: "i = \<lparr>li_elem = slot_after xs, li_diff = d\<rparr>"
    and rep: "list_rep l (xs @ a # ys)" and v: "vals (l_nodes l) xs = ks" "val (l_nodes l) a = x"
      "vals (l_nodes l) ys = rs" by (rule list_cur_ConsE)
  let ?i = "\<lparr>li_elem = slot_after (xs @ [a]), li_diff = 0\<rparr>"
  from rep obtain nd where nd: "slot_get (l_data l) (l_nodes l) (slot_after xs) = Some a" "a \<noteq> NULL"
    "slot_get (l_data l) (l_nodes l) (LinkSlot a) = Some (first ys)" "first ys = NULL \<longleftrightarrow> ys = []"
    by (metis chain_cursor)
  have "m_list_itr_next l (Some i) = Some (0, if rs = [] then None else Some ?i)"
    using nd i \<open>0 \<le> d\<close> v(3) by (auto simp: m_list_itr_next_def)
  moreover have "list_cur l ?i 0 (ks @ [x]) rs"
    using list_curI [of l "xs @ [a]" ys 0] rep v by simp
  ultimately show ?thesis by (rule that)
qed

lemma list_itr_next_stays:
  assumes cur: "list_cur l i d ks rs" and "d < 0"
  obtains i' where "m_list_itr_next l (Some i) = Some (0, if rs = [] then None else Some i')"
    and "rs \<noteq> [] \<Longrightarrow> list_cur l i' 0 ks rs"
proof -
  from cur obtain xs ys where c: "list_rep l (xs @ ys)" "vals (l_nodes l) xs = ks"
    "vals (l_nodes l) ys = rs" "i = \<lparr>li_elem = slot_after xs, li_diff = d\<rparr>"
    unfolding list_cur_def by blast
  let ?i = "\<lparr>li_elem = slot_after xs, li_diff = 0\<rparr>"
  have "m_list_itr_next l (Some i) = Some (0, if rs = [] then None else Some ?i)"
    using chain_first [OF c(1)] c \<open>d < 0\<close> by (auto simp: m_list_itr_next_def)
  moreover have "list_cur l ?i 0 ks rs" using list_curI [OF c(1), of 0] c by simp
  ultimately show ?thesis using that by blast
qed

lemma list_itr_remove_cur:
  assumes cur: "list_cur l i d ks (x # rs)"
  obtains l' i' where "m_list_itr_remove l (Some i) w = Some (0, l', Some i', call_dtor (l_dtor l) x w)"
    and "list_cur l' i' (d - 1) ks rs" and "l_dtor l' = l_dtor l" and "l_comp l' = l_comp l"
proof -
  from cur obtain xs a ys where i: "i = \<lparr>li_elem = slot_after xs, li_diff = d\<rparr>"
    and rep: "list_rep l (xs @ a # ys)" and v: "vals (l_nodes l) xs = ks" "val (l_nodes l) a = x"
      "vals (l_nodes l) ys = rs" by (rule list_cur_ConsE)
  have g: "slot_get (l_data l) (l_nodes l) (slot_after xs) = Some a" "a \<noteq> NULL"
    using rep by (metis chain_cursor)+
  from list_remove_node_ok [OF rep, of w] obtain l' where
    l': "list_remove_node l (slot_after xs) w = Some (0, l', call_dtor (l_dtor l) (val (l_nodes l) a) w)"
      "list_rep l' (xs @ ys)" "l_dtor l' = l_dtor l" "l_comp l' = l_comp l"
      "vals (l_nodes l') xs = vals (l_nodes l) xs" "vals (l_nodes l') ys = vals (l_nodes l) ys" by blast
  let ?i = "\<lparr>li_elem = slot_after xs, li_diff = d - 1\<rparr>"
  have "m_list_itr_remove l (Some i) w = Some (0, l', Some ?i, call_dtor (l_dtor l) x w)"
    using i g l' v by (simp add: m_list_itr_remove_def)
  moreover have "list_cur l' ?i (d - 1) ks rs"
    using list_curI [OF l'(2), of "d - 1"] l' v by simp
  ultimately show ?thesis using l' by (intro that)
qed

lemma list_itr_insert_cur:
  assumes cur: "list_cur l i d ks rs" and fresh: "a \<noteq> NULL" "l_nodes l a = None" and x: "x \<noteq> NULL"
  obtains l' i' where "m_list_itr_insert a l (Some i) x = Some (0, l', Some i')"
    and "list_cur l' i' (d + 1) ks (x # rs)" and "l_dtor l' = l_dtor l" and "l_comp l' = l_comp l"
proof -
  from cur obtain xs ys where c: "list_rep l (xs @ ys)" "vals (l_nodes l) xs = ks"
    "vals (l_nodes l) ys = rs" "i = \<lparr>li_elem = slot_after xs, li_diff = d\<rparr>"
    unfolding list_cur_def by blast
  from list_insert_node_ok [OF c(1) fresh x] obtain l' where
    l': "list_insert_node a l (slot_after xs) x = Some (0, l')" "list_rep l' (xs @ a # ys)"
      "l_dtor l' = l_dtor l" "l_comp l' = l_comp l"
      "vals (l_nodes l') (xs @ a # ys) = vals (l_nodes l) xs @ x # vals (l_nodes l) ys" by blast
  let ?i = "\<lparr>li_elem = slot_after xs, li_diff = d + 1\<rparr>"
  have v: "vals (l_nodes l') xs = vals (l_nodes l) xs \<and> vals (l_nodes l') (a # ys) = x # vals (l_nodes l) ys"
    using l'(5) by (intro iffD1 [OF append_eq_append_conv]) auto
  have "m_list_itr_insert a l (Some i) x = Some (0, l', Some ?i)"
    using c x l' by (simp add: m_list_itr_insert_def)
  moreover have "list_cur l' ?i (d + 1) ks (x # rs)"
    using list_curI [OF l'(2), of "d + 1"] c v by simp
  ultimately show ?thesis using l' by (intro that)
qed

fun list_at :: "list_cursor \<Rightarrow> ptr list \<Rightarrow> ptr list \<Rightarrow> bool" where
  "list_at (l, it, w) ks rs \<longleftrightarrow> l_dtor l = log_dtor \<and>
     (case it of None \<Rightarrow> rs = [] \<and> list_ok l \<and> list_elems l = ks
      | Some i \<Rightarrow> rs \<noteq> [] \<and> list_cur l i 0 ks rs)"

fun list_gone :: "list_cursor \<Rightarrow> ptr list \<Rightarrow> ptr list \<Rightarrow> bool" where
  "list_gone (l, it, w) ks rs \<longleftrightarrow> l_dtor l = log_dtor \<and>
     (case it of None \<Rightarrow> False | Some i \<Rightarrow> list_cur l i (-1) ks rs)"

lemma list_at_ConsE:
  assumes "list_at c ks (x # rs)"
  obtains l i w where "c = (l, Some i, w)" and "l_dtor l = log_dtor" and "list_cur l i 0 ks (x # rs)"
  using assms by (cases c) (auto split: option.splits)

lemma list_goneE:
  assumes "list_gone c ks rs"
  obtains l i w where "c = (l, Some i, w)" and "l_dtor l = log_dtor" and "list_cur l i (-1) ks rs"
  using assms by (cases c) (auto split: option.splits)

interpretation lst_itr: iterable list_live list_nxt list_get list_rm list_log list_at list_gone
proof unfold_locales
  fix c ks rs
  assume "list_at c ks rs"
  then show "list_live c = (rs \<noteq> [])" by (cases c) (auto split: option.splits)
next
  fix c ks x rs
  assume "list_at c ks (x # rs)"
  then obtain l i w where c: "c = (l, Some i, w)" "l_dtor l = log_dtor"
    and cur: "list_cur l i 0 ks (x # rs)" by (rule list_at_ConsE)
  from cur obtain xs a ys where i: "i = \<lparr>li_elem = slot_after xs, li_diff = 0\<rparr>"
    "list_rep l (xs @ a # ys)" "val (l_nodes l) a = x" by (rule list_cur_ConsE)
  then show "list_get c = x"
    using c by (elim chain_cursor) (simp add: m_list_itr_get_data_def)
  from list_itr_next_moves [OF cur] obtain i' where
    n: "m_list_itr_next l (Some i) = Some (0, if rs = [] then None else Some i')"
      "list_cur l i' 0 (ks @ [x]) rs" by auto
  then show "\<exists>c'. list_nxt c = Some c' \<and> list_at c' (ks @ [x]) rs \<and> list_log c' = list_log c"
    using c list_cur_ok [OF n(2)] by auto
  from list_itr_remove_cur [OF cur, of w] obtain l' i' where
    "m_list_itr_remove l (Some i) w = Some (0, l', Some i', call_dtor (l_dtor l) x w)"
    "list_cur l' i' (- 1) ks rs" "l_dtor l' = l_dtor l" "l_comp l' = l_comp l" by auto
  then show "\<exists>c'. list_rm c = Some (0, c') \<and> list_gone c' ks rs \<and> list_log c' = list_log c @ [x]"
    using c by (auto simp: log_dtor_def)
next
  fix c ks rs
  assume "list_gone c ks rs"
  then obtain l i w where c: "c = (l, Some i, w)" "l_dtor l = log_dtor"
    and cur: "list_cur l i (-1) ks rs" by (rule list_goneE)
  from list_itr_next_stays [OF cur] obtain i' where
    "m_list_itr_next l (Some i) = Some (0, if rs = [] then None else Some i')"
    "rs \<noteq> [] \<longrightarrow> list_cur l i' 0 ks rs" by auto
  then show "\<exists>c'. list_nxt c = Some c' \<and> list_at c' ks rs \<and> list_log c' = list_log c"
    using c list_cur_ok [OF cur] by auto
qed

lemma list_itr_new_cur:
  assumes "list_ok l" and "list_elems l \<noteq> []" and "cal \<noteq> NULL"
  obtains i where "m_list_itr_new cal (Some l) = Some i" and "list_cur l i 0 [] (list_elems l)"
proof -
  from assms(1) obtain as where as: "list_rep l as" "list_elems l = vals (l_nodes l) as"
    by (rule list_okE)
  have "m_list_itr_new cal (Some l) = Some \<lparr>li_elem = slot_after [], li_diff = 0\<rparr>"
    using assms list_len_elems [OF assms(1)] by (auto simp: m_list_itr_new_def m_list_len_pos)
  moreover have "list_cur l \<lparr>li_elem = slot_after [], li_diff = 0\<rparr> 0 [] (list_elems l)"
    using list_curI [of l "[]" as 0] as by simp
  ultimately show ?thesis by (rule that)
qed

lemma list_itr_new_at:
  assumes "list_ok l" and "l_dtor l = log_dtor" and "cal \<noteq> NULL"
  shows "list_at (l, m_list_itr_new cal (Some l), w) [] (list_elems l)"
proof (cases "list_elems l = []")
  case True
  then show ?thesis
    using assms list_len_elems [OF assms(1)] by (simp add: m_list_itr_new_def m_list_len_pos)
next
  case False
  with list_itr_new_cur [OF assms(1) False assms(3)] assms(2) show ?thesis by fastforce
qed

subsection \<open>Removing everything\<close>

lemma list_clear_loop_cur:
  "list_cur l i 0 [] rs \<Longrightarrow> rs \<noteq> [] \<Longrightarrow>
   \<exists>l'. list_clear_loop l (Some i) w = Some (l', fold (call_dtor (l_dtor l)) rs w) \<and>
        list_ok l' \<and> list_elems l' = [] \<and> l_dtor l' = l_dtor l \<and> l_comp l' = l_comp l"
proof (induction rs arbitrary: l i w)
  case (Cons x rs)
  from list_itr_remove_cur [OF Cons.prems(1), of w] obtain l1 i1 where
    r: "m_list_itr_remove l (Some i) w = Some (0, l1, Some i1, call_dtor (l_dtor l) x w)"
      "list_cur l1 i1 (- 1) [] rs" "l_dtor l1 = l_dtor l" "l_comp l1 = l_comp l" by auto
  from list_itr_next_stays [OF r(2)] obtain i2 where
    n: "m_list_itr_next l1 (Some i1) = Some (0, if rs = [] then None else Some i2)"
      "rs \<noteq> [] \<longrightarrow> list_cur l1 i2 0 [] rs" by auto
  show ?case
  proof (cases "rs = []")
    case True
    with r n list_cur_ok [OF r(2)] show ?thesis
      by (subst list_clear_loop.simps) (simp add: list_clear_loop.simps [of l1 None])
  next
    case False
    with r n Cons.IH [of l1 i2 "call_dtor (l_dtor l) x w"] show ?thesis
      by (subst list_clear_loop.simps) auto
  qed
qed simp

lemma m_list_clear_ok:
  assumes "list_ok l" and "cal \<noteq> NULL"
  obtains l' where "m_list_clear cal (Some l) w =
      Some (0, Some l', fold (call_dtor (l_dtor l)) (list_elems l) w)"
    and "list_ok l'" and "list_elems l' = []" and "l_nodes l' = (\<lambda>_. None)"
    and "l_dtor l' = l_dtor l" and "l_comp l' = l_comp l"
proof -
  have emp: "l_nodes k = (\<lambda>_. None)" if "list_ok k" "list_elems k = []" for k :: "'a m_list"
    using that by (elim list_okE) (simp add: chain_rep_Nil)
  have "\<exists>l'. list_clear_loop l (m_list_itr_new cal (Some l)) w =
      Some (l', fold (call_dtor (l_dtor l)) (list_elems l) w) \<and>
      list_ok l' \<and> list_elems l' = [] \<and> l_dtor l' = l_dtor l \<and> l_comp l' = l_comp l"
  proof (cases "list_elems l = []")
    case True
    with assms list_len_elems [OF assms(1)] show ?thesis
      by (subst list_clear_loop.simps) (simp add: m_list_itr_new_def m_list_len_pos)
  next
    case False
    from list_itr_new_cur [OF assms(1) False assms(2)] obtain i where
      "m_list_itr_new cal (Some l) = Some i" "list_cur l i 0 [] (list_elems l)" by blast
    with list_clear_loop_cur [of l i "list_elems l" w] False show ?thesis by simp
  qed
  then obtain l' where "list_clear_loop l (m_list_itr_new cal (Some l)) w =
      Some (l', fold (call_dtor (l_dtor l)) (list_elems l) w)"
      "list_ok l'" "list_elems l' = []" "l_dtor l' = l_dtor l" "l_comp l' = l_comp l" by blast
  with emp [of l'] show ?thesis by (intro that [of l']) (simp_all add: m_list_clear_def)
qed

subsection \<open>Properties\<close>

definition list_sample :: "ptr list m_list" where
  "list_sample = \<lparr>l_len = 3, l_comp = Some (\<lambda>a b. int (a mod 10) - int (b mod 10)), l_dtor = log_dtor,
     l_data = 5, l_nodes = [5 \<mapsto> \<lparr>userptr = 51, link = 6\<rparr>, 6 \<mapsto> \<lparr>userptr = 62, link = 7\<rparr>,
                            7 \<mapsto> \<lparr>userptr = 73, link = 0\<rparr>]\<rparr>"

lemma list_sample_ok: "list_ok list_sample" "list_elems list_sample = [51, 62, 73]"
  "l_dtor list_sample = log_dtor" "l_comp list_sample = Some (\<lambda>a b. int (a mod 10) - int (b mod 10))"
  "l_nodes list_sample 9 = None"
proof -
  show "list_ok list_sample" "list_elems list_sample = [51, 62, 73]"
    by (auto simp: list_sample_def list_ok_def list_elems_def chain_ok_def chain_list_def
        chain_rep_def node_at_def val_def numeral_3_eq_3)
qed (simp_all add: list_sample_def)

text \<open>
  C5. Inserting puts the element in front of the first one the comparator calls equal to it
  (at the end when there is none, at the head without a comparator) and keeps the order of the
  others; null data and a failed allocation change nothing.
\<close>

theorem list_insert_places:
  assumes "list_ok l" and fresh: "a = NULL \<or> l_nodes l a = None"
  shows "\<exists>l'. m_list_insert a (Some l) d =
      Some (if d = NULL then - EINVAL else if a = NULL then - ENOMEM else 0, Some l') \<and>
    list_ok l' \<and>
    list_elems l' = (if d = NULL \<or> a = NULL then list_elems l
      else case l_comp l of None \<Rightarrow> d # list_elems l
           | Some c \<Rightarrow> takeWhile (\<lambda>x. c d x \<noteq> 0) (list_elems l) @ d #
                       dropWhile (\<lambda>x. c d x \<noteq> 0) (list_elems l))"
proof (cases "d = NULL \<or> a = NULL")
  case True
  obtain as where as: "list_rep l as" by (rule list_okE [OF assms(1)])
  have "\<exists>s. (case l_comp l of None \<Rightarrow> Some HeadSlot
      | Some c \<Rightarrow> list_seek (l_data l) (l_nodes l) (\<lambda>x. c d x = 0) (l_len l) HeadSlot) = Some s"
    using list_seek_ok [of _ _ _ "[]" as] as chain_rep_length [OF as] by (auto split: option.splits)
  with True assms(1) show ?thesis by (auto simp: m_list_insert_def list_insert_node_def)
next
  case False
  with fresh have "a \<noteq> NULL" "l_nodes l a = None" "d \<noteq> NULL" by auto
  from list_insert_ok [OF assms(1) this] obtain l' where
    "m_list_insert a (Some l) d = Some (0, Some l')" "list_ok l'"
    "list_elems l' = list_place (l_comp l) d (list_elems l)" by blast
  with False show ?thesis by (intro exI [of _ l']) (simp add: list_place_def)
qed

theorem list_insert_places_witness:
  "\<exists>l'. m_list_insert 9 (Some list_sample) 92 = Some (0, Some l') \<and> list_elems l' = [51, 92, 62, 73]"
  using list_insert_places [of list_sample 9 92] by (auto simp: list_sample_ok)

text \<open>
  C6. Searching and removing agree: \<^verbatim>\<open>m_list_find\<close> returns the first element that is the
  datum or compares equal to it, \<^verbatim>\<open>m_list_remove\<close> takes exactly that one out and destroys it
  once; when there is none, the first returns \<^verbatim>\<open>NULL\<close>, and the second fails without an effect.
\<close>

theorem list_find_remove:
  assumes "list_ok l" and "d \<noteq> NULL" and "list_elems l \<noteq> []"
  defines "hit \<equiv> \<lambda>x. x = d \<or> (\<exists>c. l_comp l = Some c \<and> c d x = 0)"
  shows "case List.find hit (list_elems l) of
      None \<Rightarrow> m_list_find (Some l) d = Some NULL \<and> m_list_remove (Some l) d w = Some (- ENOENT, Some l, w)
    | Some x \<Rightarrow> m_list_find (Some l) d = Some x \<and>
        (\<exists>l'. m_list_remove (Some l) d w = Some (0, Some l', call_dtor (l_dtor l) x w) \<and> list_ok l' \<and>
           list_elems l' = takeWhile (\<lambda>y. \<not> hit y) (list_elems l) @
                           tl (dropWhile (\<lambda>y. \<not> hit y) (list_elems l)))"
proof -
  have hit: "list_hit (l_comp l) d = hit"
    by (auto simp: hit_def list_hit_def fun_eq_iff split: option.splits)
  show ?thesis
    using list_find_ok [OF assms(1,2)] list_remove_ok [OF assms(1-3), where w = w] unfolding hit
    by (cases "List.find hit (list_elems l)") auto
qed

theorem list_find_remove_witness:
  "m_list_find (Some list_sample) 92 = Some 62 \<and>
   (\<exists>l'. m_list_remove (Some list_sample) 92 [] = Some (0, Some l', [62]) \<and> list_elems l' = [51, 73])"
  using list_find_remove [of list_sample 92 "[]"] by (auto simp: list_sample_ok log_dtor_def)

text \<open>
  Iterating over a list and removing the elements that satisfy a predicate calls the
  destructor on exactly those, in order, once each, and leaves the others in order.
\<close>

theorem list_foreach_prune:
  assumes "list_ok l" and "l_dtor l = log_dtor" and "cal \<noteq> NULL"
  shows "\<exists>l'. itr_foreach list_live list_nxt (prune list_get list_rm P) 0
      (l, m_list_itr_new cal (Some l), w) = Some (l', None, w @ filter P (list_elems l)) \<and>
    list_ok l' \<and> list_elems l' = filter (\<lambda>x. \<not> P x) (list_elems l)"
proof -
  from lst_itr.foreach_prune [OF list_itr_new_at [OF assms], of P 0 w] obtain l' it' w' where
    "itr_foreach list_live list_nxt (prune list_get list_rm P) 0
        (l, m_list_itr_new cal (Some l), w) = Some (l', it', w')"
    "list_at (l', it', w') (filter (\<lambda>x. \<not> P x) (list_elems l)) []" "w' = w @ filter P (list_elems l)"
    by auto
  then show ?thesis by (cases it') auto
qed

theorem list_foreach_prune_witness:
  "\<exists>l'. itr_foreach list_live list_nxt (prune list_get list_rm (\<lambda>x. x \<noteq> 62)) 0
      (list_sample, m_list_itr_new 3 (Some list_sample), []) = Some (l', None, [51, 73]) \<and>
    list_elems l' = [62]"
  using list_foreach_prune [of list_sample 3 "\<lambda>x. x \<noteq> 62" "[]"] by (auto simp: list_sample_ok)

text \<open>
  C7. Freeing a list nulls the caller's handle and returns 0. Each element is destroyed once,
  in order, provided the iterator that \<^verbatim>\<open>m_list_clear\<close> allocates is obtained; when that
  allocation fails no element is destroyed, although the list is gone.
\<close>

theorem list_free_all:
  assumes "list_ok l"
  shows "m_list_free cal (Some (Some l)) w = Some (0, Some None,
    if cal = NULL then w else fold (call_dtor (l_dtor l)) (list_elems l) w)"
proof (cases "cal = NULL")
  case True
  have "list_clear_loop l None w = Some (l, w)" by (subst list_clear_loop.simps) simp
  with True show ?thesis by (simp add: m_list_free_def m_list_clear_def m_list_itr_new_def)
next
  case False
  obtain l' where "m_list_clear cal (Some l) w = Some (0, Some l', fold (call_dtor (l_dtor l)) (list_elems l) w)"
    by (rule m_list_clear_ok [OF assms False, of w])
  with False show ?thesis by (simp add: m_list_free_def)
qed

theorem list_free_all_witness:
  "m_list_free 3 (Some (Some list_sample)) [] = Some (0, Some None, [51, 62, 73])"
  using list_free_all [of list_sample 3 "[]"] by (simp add: list_sample_ok log_dtor_def)

end
