(* ===== verification/LQueue.thy ===== *)
theory LQueue
  imports Chain Itr Contracts
begin

text \<open>
  The queue of \<^verbatim>\<open>Lib/structs/queue.c\<close>: nodes linked from \<^verbatim>\<open>head\<close> by \<^verbatim>\<open>prev\<close>, and a \<^verbatim>\<open>tail\<close>
  pointer to the last node, which enqueuing links to and the other operations must keep
  right. \<open>queue_ok\<close> is the invariant (with the tail), \<open>queue_list\<close> the abstraction, from the
  head on.
\<close>

record 'w m_queue =
  q_len :: nat
  q_dtor :: "'w dtor"
  q_head :: ptr
  q_tail :: ptr
  q_nodes :: nodes

record queue_itr =
  qi_elem :: slot
  qi_removed :: bool

definition m_queue_new :: "ptr \<Rightarrow> 'w dtor \<Rightarrow> 'w m_queue option" where
  "m_queue_new cal fn =
     (if cal = NULL then None
      else Some \<lparr>q_len = 0, q_dtor = fn, q_head = NULL, q_tail = NULL, q_nodes = (\<lambda>_. None)\<rparr>)"

definition m_queue_len :: "'w m_queue option \<Rightarrow> int" where
  "m_queue_len qp = (case qp of None \<Rightarrow> - EINVAL | Some q \<Rightarrow> int (q_len q))"

definition m_queue_itr_new :: "ptr \<Rightarrow> 'w m_queue option \<Rightarrow> queue_itr option" where
  "m_queue_itr_new cal qp =
     (if \<not> m_queue_len qp > 0 then None
      else if cal = NULL then None
      else Some \<lparr>qi_elem = HeadSlot, qi_removed = False\<rparr>)"

definition m_queue_itr_next :: "'w m_queue \<Rightarrow> queue_itr option \<Rightarrow> (int \<times> queue_itr option) option" where
  "m_queue_itr_next q it =
     (case it of None \<Rightarrow> Some (- EINVAL, None)
      | Some i \<Rightarrow> do {
          i \<leftarrow> (if \<not> qi_removed i then do {
                  p \<leftarrow> slot_get (q_head q) (q_nodes q) (qi_elem i);
                  n \<leftarrow> node_at (q_nodes q) p;
                  Some (i\<lparr>qi_elem := LinkSlot p\<rparr>) }
                else Some (i\<lparr>qi_removed := False\<rparr>));
          p \<leftarrow> slot_get (q_head q) (q_nodes q) (qi_elem i);
          Some (0, if p = NULL then None else Some i) })"

definition m_queue_itr_remove ::
    "'w m_queue \<Rightarrow> queue_itr option \<Rightarrow> 'w \<Rightarrow> (int \<times> 'w m_queue \<times> queue_itr option \<times> 'w) option" where
  "m_queue_itr_remove q it w =
     (case it of None \<Rightarrow> Some (- EINVAL, q, it, w)
      | Some i \<Rightarrow>
          if qi_removed i then Some (- EINVAL, q, it, w)
          else do {
            tmp \<leftarrow> slot_get (q_head q) (q_nodes q) (qi_elem i);
            if tmp \<noteq> NULL then do {
              n \<leftarrow> node_at (q_nodes q) tmp;
              (h, ns) \<leftarrow> slot_set (q_head q) (q_nodes q) (qi_elem i) (link n);
              let tail = (if tmp = q_tail q then NULL else q_tail q);
              ns \<leftarrow> free_node ns tmp;
              Some (0, q\<lparr>q_head := h, q_tail := tail, q_nodes := ns, q_len := q_len q - 1\<rparr>,
                    Some (i\<lparr>qi_removed := True\<rparr>), call_dtor (q_dtor q) (userptr n) w) }
            else Some (- ENOENT, q, it, w) })"

definition m_queue_itr_get_data :: "'w m_queue \<Rightarrow> queue_itr option \<Rightarrow> ptr option" where
  "m_queue_itr_get_data q it =
     (case it of None \<Rightarrow> Some NULL
      | Some i \<Rightarrow> if qi_removed i then Some NULL
          else do {
            p \<leftarrow> slot_get (q_head q) (q_nodes q) (qi_elem i);
            n \<leftarrow> node_at (q_nodes q) p;
            Some (userptr n) })"

definition m_queue_itr_set_data ::
    "'w m_queue \<Rightarrow> queue_itr option \<Rightarrow> ptr \<Rightarrow> (int \<times> 'w m_queue) option" where
  "m_queue_itr_set_data q it value =
     (case it of None \<Rightarrow> Some (- EINVAL, q)
      | Some i \<Rightarrow> if qi_removed i then Some (- EINVAL, q)
          else if value = NULL then Some (- EINVAL, q)
          else do {
            p \<leftarrow> slot_get (q_head q) (q_nodes q) (qi_elem i);
            ns \<leftarrow> set_userptr (q_nodes q) p value;
            Some (0, q\<lparr>q_nodes := ns\<rparr>) })"

definition m_queue_iterate ::
    "'w m_queue option \<Rightarrow> (ptr \<Rightarrow> ptr \<Rightarrow> 'v \<Rightarrow> int \<times> 'v) option \<Rightarrow> ptr \<Rightarrow> 'v \<Rightarrow> (int \<times> 'v) option" where
  "m_queue_iterate qp fn up v =
     (case fn of None \<Rightarrow> Some (- EINVAL, v)
      | Some f \<Rightarrow>
          if \<not> m_queue_len qp > 0 then Some (- EINVAL, v)
          else (case qp of None \<Rightarrow> None
                | Some q \<Rightarrow> chain_each (f up) (q_nodes q) (q_head q) v))"

definition m_queue_enqueue :: "ptr \<Rightarrow> 'w m_queue option \<Rightarrow> ptr \<Rightarrow> (int \<times> 'w m_queue option) option" where
  "m_queue_enqueue cal qp data =
     (case qp of None \<Rightarrow> Some (- EINVAL, None)
      | Some q \<Rightarrow>
          if data = NULL then Some (- EINVAL, qp)
          else if cal = NULL then Some (- ENOMEM, qp)
          else do {
            let ns = (q_nodes q)(cal \<mapsto> \<lparr>userptr = data, link = NULL\<rparr>);
            (h, ns) \<leftarrow> (if q_tail q \<noteq> NULL then slot_set (q_head q) ns (LinkSlot (q_tail q)) cal
                       else Some (q_head q, ns));
            Some (0, Some (q\<lparr>q_len := q_len q + 1, q_nodes := ns, q_tail := cal,
                             q_head := (if h = NULL then cal else h)\<rparr>)) })"

definition m_queue_dequeue :: "'w m_queue option \<Rightarrow> (ptr \<times> 'w m_queue option) option" where
  "m_queue_dequeue qp =
     (if \<not> m_queue_len qp > 0 then Some (NULL, qp)
      else case qp of None \<Rightarrow> None
      | Some q \<Rightarrow> do {
          let tail = (if q_tail q = q_head q then NULL else q_tail q);
          n \<leftarrow> node_at (q_nodes q) (q_head q);
          ns \<leftarrow> free_node (q_nodes q) (q_head q);
          Some (userptr n, Some (q\<lparr>q_tail := tail, q_head := link n, q_nodes := ns,
                                   q_len := q_len q - 1\<rparr>)) })"

definition m_queue_peek :: "'w m_queue option \<Rightarrow> ptr option" where
  "m_queue_peek qp =
     (if \<not> m_queue_len qp > 0 then Some NULL
      else case qp of None \<Rightarrow> None
      | Some q \<Rightarrow> map_option userptr (node_at (q_nodes q) (q_head q)))"

definition m_queue_remove ::
    "'w m_queue option \<Rightarrow> 'w \<Rightarrow> (int \<times> 'w m_queue option \<times> 'w) option" where
  "m_queue_remove qp w = do {
     (data, qp') \<leftarrow> m_queue_dequeue qp;
     if data \<noteq> NULL
     then Some (0, qp', case qp of None \<Rightarrow> w | Some q \<Rightarrow> call_dtor (q_dtor q) data w)
     else Some (- EINVAL, qp', w) }"

partial_function (option) queue_clear_loop ::
    "'w m_queue option \<Rightarrow> 'w \<Rightarrow> ('w m_queue option \<times> 'w) option" where
  "queue_clear_loop qp w =
     (if m_queue_len qp > 0
      then Option.bind (m_queue_remove qp w) (\<lambda>r. case r of (ret, qp', w') \<Rightarrow> queue_clear_loop qp' w')
      else Some (qp, w))"

declare queue_clear_loop.simps [code]

definition m_queue_clear ::
    "'w m_queue option \<Rightarrow> 'w \<Rightarrow> (int \<times> 'w m_queue option \<times> 'w) option" where
  "m_queue_clear qp w =
     (if \<not> m_queue_len qp > 0 then Some (- EINVAL, qp, w)
      else map_option (\<lambda>(qp', w'). (0, qp', w')) (queue_clear_loop qp w))"

text \<open>
  \<^verbatim>\<open>m_queue_free(m_queue_t **q)\<close>: the outer option is the pointer to the handle; the handle is
  null afterwards whatever the clearing returned.
\<close>

definition m_queue_free ::
    "'w m_queue option option \<Rightarrow> 'w \<Rightarrow> (int \<times> 'w m_queue option option \<times> 'w) option" where
  "m_queue_free qpp w =
     (case qpp of None \<Rightarrow> Some (- EINVAL, None, w)
      | Some qp \<Rightarrow> do {
          (_, qp', w') \<leftarrow> m_queue_clear qp w;
          Some (0, Some None, w') })"

subsection \<open>Invariant and abstraction\<close>

abbreviation queue_chain :: "'w m_queue \<Rightarrow> ptr list \<Rightarrow> bool" where
  "queue_chain q as \<equiv> chain_rep (q_head q) (q_len q) (q_nodes q) as"

definition queue_ok :: "'w m_queue \<Rightarrow> bool" where
  "queue_ok q \<longleftrightarrow> chain_ok (q_head q) (q_len q) (q_nodes q) \<and>
     q_tail q = last_or_null (path (q_nodes q) (q_head q) (q_len q))"

definition queue_list :: "'w m_queue \<Rightarrow> ptr list" where
  "queue_list q = chain_list (q_head q) (q_len q) (q_nodes q)"

lemma queue_okE:
  assumes "queue_ok q"
  obtains as where "queue_chain q as" and "q_tail q = last_or_null as"
    and "queue_list q = vals (q_nodes q) as"
  using assms by (auto simp: queue_ok_def queue_list_def chain_rep_path elim!: chain_okE)

lemma queue_chainI:
  assumes "queue_chain q as"
  shows "queue_list q = vals (q_nodes q) as"
    and "q_tail q = last_or_null as \<Longrightarrow> queue_ok q"
  using assms by (simp_all add: queue_ok_def queue_list_def chain_ok_rep chain_list_rep chain_rep_path)

lemma queue_len_list: "queue_ok q \<Longrightarrow> q_len q = length (queue_list q)"
  by (auto elim!: queue_okE simp: chain_rep_length)

lemma m_queue_len_pos: "m_queue_len (Some q) > 0 \<longleftrightarrow> q_len q > 0"
  by (simp add: m_queue_len_def)

lemma queue_new_ok: "a \<noteq> NULL \<Longrightarrow> \<exists>q. m_queue_new a d = Some q \<and> queue_ok q \<and> queue_list q = [] \<and>
    q_dtor q = d"
  by (simp add: m_queue_new_def queue_ok_def queue_list_def chain_ok_def chain_list_def last_or_null_def)

lemma queue_enqueue_ok:
  assumes "queue_ok q" and fresh: "a \<noteq> NULL" "q_nodes q a = None" and d: "d \<noteq> NULL"
  obtains q' where "m_queue_enqueue a (Some q) d = Some (0, Some q')" and "queue_ok q'"
    and "queue_list q' = queue_list q @ [d]" and "q_dtor q' = q_dtor q"
    and "\<And>b. b \<noteq> a \<Longrightarrow> q_nodes q b = None \<Longrightarrow> q_nodes q' b = None"
proof -
  from assms(1) obtain as where as: "queue_chain q as" "q_tail q = last_or_null as"
    "queue_list q = vals (q_nodes q) as" by (rule queue_okE)
  from as(1) have rep: "queue_chain q (as @ [])" by simp
  from chain_insert [OF rep fresh d] obtain p h' ns' where
    u: "slot_get (q_head q) (q_nodes q) (slot_after as) = Some p"
      "slot_set (q_head q) ((q_nodes q)(a \<mapsto> \<lparr>userptr = d, link = p\<rparr>)) (slot_after as) a = Some (h', ns')"
      "chain_rep h' (Suc (q_len q)) ns' (as @ [a])"
      "vals ns' (as @ [a]) = vals (q_nodes q) as @ [d]" by auto
  have p: "p = NULL" using chain_first(1) [OF rep] u(1) by simp
  let ?q = "q\<lparr>q_len := q_len q + 1, q_nodes := ns', q_tail := a, q_head := h'\<rparr>"
  have "m_queue_enqueue a (Some q) d = Some (0, Some ?q)"
  proof (cases "as = []")
    case True
    with rep u fresh p d as(2) show ?thesis
      by (auto simp: m_queue_enqueue_def last_or_null_def chain_rep_Nil)
  next
    case False
    from False as(1) obtain xs e where e: "as = xs @ [e]" by (cases as rule: rev_cases) auto
    have "last as \<noteq> NULL" using e as(1) by (auto simp: chain_rep_def seg_append)
    moreover have "q_head q \<noteq> NULL" using False as(1) by (cases as) (auto simp: chain_rep_def)
    moreover from this False u(2) p have "h' = q_head q"
      by (auto simp: slot_after_def)
    ultimately show ?thesis using u fresh p d as(2) False
      by (auto simp: m_queue_enqueue_def last_or_null_def slot_after_def Let_def)
  qed
  moreover have "queue_ok ?q" and "queue_list ?q = queue_list q @ [d]"
    using queue_chainI [of ?q "as @ [a]"] u as(3) by (simp_all add: last_or_null_def)
  moreover have "ns' b = None" if "b \<noteq> a" "q_nodes q b = None" for b
    using u(3) as(1) that by (auto simp: chain_rep_def)
  ultimately show ?thesis by (intro that [of ?q]) auto
qed

lemma queue_dequeue_ok:
  assumes "queue_ok q" and "queue_list q = d # ds"
  obtains q' where "m_queue_dequeue (Some q) = Some (d, Some q')" and "queue_ok q'"
    and "queue_list q' = ds" and "q_dtor q' = q_dtor q" and "d \<noteq> NULL"
proof -
  from assms(1) obtain as where as: "queue_chain q as" "q_tail q = last_or_null as"
    "queue_list q = vals (q_nodes q) as" by (rule queue_okE)
  with assms(2) obtain a bs where bs: "as = a # bs" "val (q_nodes q) a = d"
    "vals (q_nodes q) bs = ds" by (cases as) auto
  have rep: "queue_chain q ([] @ a # bs)" using as bs by simp
  then obtain nd where nd: "node_at (q_nodes q) a = Some nd" "q_nodes q a = Some nd"
    "userptr nd = d" "d \<noteq> NULL" using chain_rep_node [OF rep] bs(2) by metis
  let ?ns = "(q_nodes q)(a := None)"
  have ns: "free_node (q_nodes q) a = Some ?ns" "chain_rep (link nd) (q_len q - 1) ?ns bs"
      "vals ?ns bs = ds"
    using chain_unlink [OF rep nd(2)] bs(3) by force+
  have hd: "q_head q = a" "q_len q > 0" using rep by (auto simp: chain_rep_def)
  have "distinct (a # bs)" using chain_rep_distinct [OF rep] by simp
  then have tail: "(if q_tail q = a then NULL else q_tail q) = last_or_null bs"
    using as(2) bs(1) by (auto simp: last_or_null_def)
  let ?q = "q\<lparr>q_tail := last_or_null bs, q_head := link nd, q_nodes := ?ns, q_len := q_len q - 1\<rparr>"
  from queue_chainI [of ?q bs] ns have "queue_ok ?q" "queue_list ?q = ds" by simp_all
  with that [of ?q] nd ns(1) hd tail show ?thesis
    by (simp add: m_queue_dequeue_def m_queue_len_pos)
qed

lemma queue_dequeue_empty:
  "queue_ok q \<Longrightarrow> queue_list q = [] \<Longrightarrow> m_queue_dequeue (Some q) = Some (NULL, Some q)"
  by (simp add: m_queue_dequeue_def m_queue_len_pos queue_len_list)

lemma queue_peek_ok:
  assumes "queue_ok q"
  shows "m_queue_peek (Some q) = Some (case queue_list q of [] \<Rightarrow> NULL | d # _ \<Rightarrow> d)"
proof (cases "queue_list q")
  case Nil
  then show ?thesis using assms by (simp add: m_queue_peek_def m_queue_len_pos queue_len_list)
next
  case (Cons d ds)
  obtain q' where "m_queue_dequeue (Some q) = Some (d, Some q')" by (rule queue_dequeue_ok [OF assms Cons])
  then have "map_option userptr (node_at (q_nodes q) (q_head q)) = Some d"
    using Cons assms
    by (cases "node_at (q_nodes q) (q_head q)"; cases "free_node (q_nodes q) (q_head q)")
      (simp_all add: m_queue_dequeue_def m_queue_len_pos queue_len_list)
  with Cons assms show ?thesis by (simp add: m_queue_peek_def m_queue_len_pos queue_len_list)
qed

text \<open>The queue provides the \<open>fifo\<close> contract.\<close>

fun queue_handle_ok :: "'w m_queue option \<Rightarrow> bool" where
  "queue_handle_ok None = False"
| "queue_handle_ok (Some q) = queue_ok q"

fun queue_handle_list :: "'w m_queue option \<Rightarrow> ptr list" where
  "queue_handle_list None = []"
| "queue_handle_list (Some q) = queue_list q"

fun queue_fresh :: "'w m_queue option \<Rightarrow> ptr \<Rightarrow> bool" where
  "queue_fresh None a = False"
| "queue_fresh (Some q) a = (a \<noteq> NULL \<and> q_nodes q a = None)"

interpretation que: fifo m_queue_enqueue m_queue_dequeue queue_fresh queue_handle_ok queue_handle_list
proof unfold_locales
  fix qp :: "'w m_queue option" and a d
  assume "queue_handle_ok qp" "queue_fresh qp a" "d \<noteq> NULL"
  then obtain q where q: "qp = Some q" "queue_ok q" "a \<noteq> NULL" "q_nodes q a = None"
    by (cases qp) auto
  from queue_enqueue_ok [OF q(2-4) \<open>d \<noteq> NULL\<close>] obtain q' where
    "m_queue_enqueue a (Some q) d = Some (0, Some q')" "queue_ok q'" "queue_list q' = queue_list q @ [d]"
    "\<forall>b. b \<noteq> a \<longrightarrow> q_nodes q b = None \<longrightarrow> q_nodes q' b = None" by metis
  with q show "\<exists>q'. m_queue_enqueue a qp d = Some (0, q') \<and> queue_handle_ok q' \<and>
      queue_handle_list q' = queue_handle_list qp @ [d] \<and>
      (\<forall>b. b \<noteq> a \<longrightarrow> queue_fresh qp b \<longrightarrow> queue_fresh q' b)"
    by (intro exI [of _ "Some q'"]) auto
next
  fix qp :: "'w m_queue option" and d ds
  assume "queue_handle_ok qp" "queue_handle_list qp = d # ds"
  then obtain q where q: "qp = Some q" "queue_ok q" "queue_list q = d # ds"
    by (cases qp) auto
  with queue_dequeue_ok [OF q(2,3)] show "\<exists>q'. m_queue_dequeue qp = Some (d, q') \<and>
      queue_handle_ok q' \<and> queue_handle_list q' = ds"
    by (metis queue_handle_list.simps(2) queue_handle_ok.simps(2))
next
  fix qp :: "'w m_queue option" and a d
  assume "queue_handle_ok qp"
  then obtain q where "qp = Some q" by (cases qp) auto
  then show "m_queue_enqueue a qp NULL = Some (- EINVAL, qp)"
    and "d \<noteq> NULL \<Longrightarrow> m_queue_enqueue NULL qp d = Some (- ENOMEM, qp)"
    by (simp_all add: m_queue_enqueue_def)
next
  fix qp :: "'w m_queue option"
  assume "queue_handle_ok qp" "queue_handle_list qp = []"
  then show "m_queue_dequeue qp = Some (NULL, qp)" by (cases qp) (auto simp: queue_dequeue_empty)
qed

subsection \<open>Removing everything\<close>

lemma queue_remove_ok:
  assumes "queue_ok q" and "queue_list q = d # ds"
  obtains q' where "m_queue_remove (Some q) w = Some (0, Some q', call_dtor (q_dtor q) d w)"
    and "queue_ok q'" and "queue_list q' = ds" and "q_dtor q' = q_dtor q"
proof -
  from assms obtain q' where q': "m_queue_dequeue (Some q) = Some (d, Some q')" "queue_ok q'"
    "queue_list q' = ds" "q_dtor q' = q_dtor q" "d \<noteq> NULL" by (rule queue_dequeue_ok)
  then show ?thesis by (intro that [of q']) (simp_all add: m_queue_remove_def)
qed

lemma queue_clear_loop_ok:
  "queue_ok q \<Longrightarrow>
   \<exists>q'. queue_clear_loop (Some q) w = Some (Some q', fold (call_dtor (q_dtor q)) (queue_list q) w) \<and>
        queue_ok q' \<and> queue_list q' = [] \<and> q_dtor q' = q_dtor q"
proof (induction "queue_list q" arbitrary: q w)
  case Nil
  then show ?case
    by (subst queue_clear_loop.simps) (auto simp: m_queue_len_pos queue_len_list)
next
  case (Cons d ds)
  then obtain q1 where q1: "m_queue_remove (Some q) w = Some (0, Some q1, call_dtor (q_dtor q) d w)"
    "queue_ok q1" "queue_list q1 = ds" "q_dtor q1 = q_dtor q" by (metis queue_remove_ok)
  have "m_queue_len (Some q) > 0"
    using Cons by (simp add: m_queue_len_pos queue_len_list flip: Cons.hyps(2))
  with q1 Cons.hyps(1) [of q1 "call_dtor (q_dtor q) d w"] show ?case
    by (subst queue_clear_loop.simps) (simp flip: Cons.hyps(2))
qed

lemma m_queue_clear_ok:
  assumes "queue_ok q"
  obtains q' where "m_queue_clear (Some q) w =
      Some (if queue_list q = [] then - EINVAL else 0, Some q', fold (call_dtor (q_dtor q)) (queue_list q) w)"
    and "queue_ok q'" and "queue_list q' = []" and "q_dtor q' = q_dtor q"
  using queue_clear_loop_ok [OF assms, of w] assms that [of q]
  by (cases "queue_list q = []") (auto simp: m_queue_clear_def m_queue_len_pos queue_len_list)


lemma m_queue_free_ok:
  assumes "queue_ok q"
  shows "m_queue_free (Some (Some q)) w =
           Some (0, Some None, fold (call_dtor (q_dtor q)) (queue_list q) w)"
  by (rule m_queue_clear_ok [OF assms, of w]) (simp add: m_queue_free_def)

subsection \<open>Iterators\<close>

text \<open>
  The iterator keeps the chain right (\<open>queue_at\<close>, \<open>queue_gone\<close>), and the tail as long as
  the last element stays: \<open>tail_of xs ys\<close> is what the tail pointer is, given the addresses
  passed and those ahead, when no element ahead has been the last one removed.
\<close>

type_synonym queue_cursor = "ptr list m_queue \<times> queue_itr option \<times> ptr list"

fun queue_live :: "queue_cursor \<Rightarrow> bool" where
  "queue_live (q, it, w) = (it \<noteq> None)"

fun queue_nxt :: "queue_cursor \<Rightarrow> queue_cursor option" where
  "queue_nxt (q, it, w) = map_option (\<lambda>(r, it'). (q, it', w)) (m_queue_itr_next q it)"

fun queue_get :: "queue_cursor \<Rightarrow> ptr" where
  "queue_get (q, it, w) = (case m_queue_itr_get_data q it of None \<Rightarrow> NULL | Some d \<Rightarrow> d)"

fun queue_rm :: "queue_cursor \<Rightarrow> (int \<times> queue_cursor) option" where
  "queue_rm (q, it, w) =
     map_option (\<lambda>(r, q', it', w'). (r, (q', it', w'))) (m_queue_itr_remove q it w)"

fun queue_log :: "queue_cursor \<Rightarrow> ptr list" where
  "queue_log (q, it, w) = w"

definition tail_of :: "'w m_queue \<Rightarrow> ptr list \<Rightarrow> bool" where
  "tail_of q ys \<longleftrightarrow> (ys \<noteq> [] \<longrightarrow> q_tail q = last ys)"

fun queue_at :: "queue_cursor \<Rightarrow> ptr list \<Rightarrow> ptr list \<Rightarrow> bool" where
  "queue_at (q, it, w) ks rs \<longleftrightarrow> q_dtor q = log_dtor \<and>
     (\<exists>xs ys. queue_chain q (xs @ ys) \<and> tail_of q ys \<and>
        vals (q_nodes q) xs = ks \<and> vals (q_nodes q) ys = rs \<and>
        it = (if ys = [] then None else Some \<lparr>qi_elem = slot_after xs, qi_removed = False\<rparr>))"

fun queue_gone :: "queue_cursor \<Rightarrow> ptr list \<Rightarrow> ptr list \<Rightarrow> bool" where
  "queue_gone (q, it, w) ks rs \<longleftrightarrow> q_dtor q = log_dtor \<and>
     (\<exists>xs ys. queue_chain q (xs @ ys) \<and> tail_of q ys \<and>
        vals (q_nodes q) xs = ks \<and> vals (q_nodes q) ys = rs \<and>
        it = Some \<lparr>qi_elem = slot_after xs, qi_removed = True\<rparr>)"

lemma queue_atI:
  assumes "q_dtor q = log_dtor" and "queue_chain q (xs @ ys)" and "tail_of q ys"
    and "it = (if ys = [] then None else Some \<lparr>qi_elem = slot_after xs, qi_removed = False\<rparr>)"
  shows "queue_at (q, it, w) (vals (q_nodes q) xs) (vals (q_nodes q) ys)"
  using assms unfolding queue_at.simps by blast

lemma queue_goneI:
  assumes "q_dtor q = log_dtor" and "queue_chain q (xs @ ys)" and "tail_of q ys"
    and "it = Some \<lparr>qi_elem = slot_after xs, qi_removed = True\<rparr>"
  shows "queue_gone (q, it, w) (vals (q_nodes q) xs) (vals (q_nodes q) ys)"
  using assms unfolding queue_gone.simps by blast

lemma queue_at_ConsE:
  assumes "queue_at c ks (x # rs)"
  obtains q w xs a ys where "c = (q, Some \<lparr>qi_elem = slot_after xs, qi_removed = False\<rparr>, w)"
    and "q_dtor q = log_dtor" and "queue_chain q (xs @ a # ys)" and "tail_of q (a # ys)"
    and "vals (q_nodes q) xs = ks" and "val (q_nodes q) a = x" and "vals (q_nodes q) ys = rs"
proof -
  obtain q it w where c: "c = (q, it, w)" by (cases c)
  with assms obtain xs zs where z: "q_dtor q = log_dtor" "queue_chain q (xs @ zs)"
    "vals (q_nodes q) xs = ks" "vals (q_nodes q) zs = x # rs" "tail_of q zs"
    "it = (if zs = [] then None else Some \<lparr>qi_elem = slot_after xs, qi_removed = False\<rparr>)" by auto
  then obtain a ys where "zs = a # ys" by (cases zs) auto
  with that c z show ?thesis by auto
qed

lemma queue_nxt_at:
  assumes "queue_at c ks (x # rs)"
  shows "\<exists>c'. queue_nxt c = Some c' \<and> queue_at c' (ks @ [x]) rs \<and> queue_log c' = queue_log c"
proof -
  from assms obtain q w xs a ys where
    c: "c = (q, Some \<lparr>qi_elem = slot_after xs, qi_removed = False\<rparr>, w)" "q_dtor q = log_dtor"
    and rep: "queue_chain q (xs @ a # ys)" and t: "tail_of q (a # ys)"
    and v: "vals (q_nodes q) xs = ks" "val (q_nodes q) a = x" "vals (q_nodes q) ys = rs"
    by (rule queue_at_ConsE)
  let ?it = "if ys = [] then None else Some \<lparr>qi_elem = slot_after (xs @ [a]), qi_removed = False\<rparr>"
  have "m_queue_itr_next q (Some \<lparr>qi_elem = slot_after xs, qi_removed = False\<rparr>) = Some (0, ?it)"
    by (rule chain_cursor [OF rep]) (simp add: m_queue_itr_next_def)
  moreover have "queue_at (q, ?it, w) (vals (q_nodes q) (xs @ [a])) (vals (q_nodes q) ys)"
    using c rep t by (intro queue_atI) (auto simp: tail_of_def)
  ultimately show ?thesis using c v by simp
qed

lemma queue_nxt_gone:
  assumes "queue_gone c ks rs"
  shows "\<exists>c'. queue_nxt c = Some c' \<and> queue_at c' ks rs \<and> queue_log c' = queue_log c"
proof -
  from assms obtain q w xs ys where
    c: "c = (q, Some \<lparr>qi_elem = slot_after xs, qi_removed = True\<rparr>, w)" "q_dtor q = log_dtor"
    and rep: "queue_chain q (xs @ ys)" and t: "tail_of q ys"
    and v: "vals (q_nodes q) xs = ks" "vals (q_nodes q) ys = rs" by (cases c) auto
  let ?it = "if ys = [] then None else Some \<lparr>qi_elem = slot_after xs, qi_removed = False\<rparr>"
  have "m_queue_itr_next q (Some \<lparr>qi_elem = slot_after xs, qi_removed = True\<rparr>) = Some (0, ?it)"
    using chain_first [OF rep] by (simp add: m_queue_itr_next_def)
  moreover have "queue_at (q, ?it, w) (vals (q_nodes q) xs) (vals (q_nodes q) ys)"
    using c rep t by (intro queue_atI) auto
  ultimately show ?thesis using c v by simp
qed

text \<open>Removing the current element: the chain stays right; the tail is reset iff it was the last.\<close>

lemma queue_itr_remove_step:
  assumes rep: "queue_chain q (xs @ a # ys)" and t: "tail_of q (a # ys)"
  obtains q' where "m_queue_itr_remove q (Some \<lparr>qi_elem = slot_after xs, qi_removed = False\<rparr>) w =
      Some (0, q', Some \<lparr>qi_elem = slot_after xs, qi_removed = True\<rparr>,
            call_dtor (q_dtor q) (val (q_nodes q) a) w)"
    and "queue_chain q' (xs @ ys)" and "q_tail q' = (if ys = [] then NULL else q_tail q)"
    and "vals (q_nodes q') xs = vals (q_nodes q) xs" and "vals (q_nodes q') ys = vals (q_nodes q) ys"
    and "q_dtor q' = q_dtor q"
proof -
  from rep obtain nd where nd: "slot_get (q_head q) (q_nodes q) (slot_after xs) = Some a"
    "node_at (q_nodes q) a = Some nd" "q_nodes q a = Some nd" "userptr nd = val (q_nodes q) a"
    "a \<noteq> NULL" by (metis chain_cursor)
  from chain_unlink [OF rep nd(3)] obtain h' ns' where
    u: "slot_set (q_head q) (q_nodes q) (slot_after xs) (link nd) = Some (h', ns')"
      "free_node ns' a = Some (ns'(a := None))"
      "chain_rep h' (q_len q - 1) (ns'(a := None)) (xs @ ys)"
      "vals (ns'(a := None)) xs = vals (q_nodes q) xs"
      "vals (ns'(a := None)) ys = vals (q_nodes q) ys" by blast
  have "distinct (xs @ a # ys)" using rep by (rule chain_rep_distinct)
  then have tail: "(if a = q_tail q then NULL else q_tail q) = (if ys = [] then NULL else q_tail q)"
    using t by (auto simp: tail_of_def)
  let ?q = "q\<lparr>q_head := h', q_tail := (if ys = [] then NULL else q_tail q),
      q_nodes := ns'(a := None), q_len := q_len q - 1\<rparr>"
  have "m_queue_itr_remove q (Some \<lparr>qi_elem = slot_after xs, qi_removed = False\<rparr>) w =
      Some (0, ?q, Some \<lparr>qi_elem = slot_after xs, qi_removed = True\<rparr>,
            call_dtor (q_dtor q) (val (q_nodes q) a) w)"
    using nd u(1,2) unfolding m_queue_itr_remove_def by (simp add: tail)
  then show ?thesis by (rule that) (use u in simp_all)
qed

lemma queue_rm_at:
  assumes "queue_at c ks (x # rs)"
  shows "\<exists>c'. queue_rm c = Some (0, c') \<and> queue_gone c' ks rs \<and> queue_log c' = queue_log c @ [x]"
proof -
  from assms obtain q w xs a ys where
    c: "c = (q, Some \<lparr>qi_elem = slot_after xs, qi_removed = False\<rparr>, w)" "q_dtor q = log_dtor"
    and rep: "queue_chain q (xs @ a # ys)" and t: "tail_of q (a # ys)"
    and v: "vals (q_nodes q) xs = ks" "val (q_nodes q) a = x" "vals (q_nodes q) ys = rs"
    by (rule queue_at_ConsE)
  from queue_itr_remove_step [OF rep t, of w] obtain q' where q':
    "m_queue_itr_remove q (Some \<lparr>qi_elem = slot_after xs, qi_removed = False\<rparr>) w =
      Some (0, q', Some \<lparr>qi_elem = slot_after xs, qi_removed = True\<rparr>,
            call_dtor (q_dtor q) (val (q_nodes q) a) w)"
    "queue_chain q' (xs @ ys)" "q_tail q' = (if ys = [] then NULL else q_tail q)"
    "vals (q_nodes q') xs = vals (q_nodes q) xs" "vals (q_nodes q') ys = vals (q_nodes q) ys"
    "q_dtor q' = q_dtor q" by blast
  have "tail_of q' ys" using t q'(3) by (auto simp: tail_of_def)
  then have "queue_gone (q', Some \<lparr>qi_elem = slot_after xs, qi_removed = True\<rparr>, w @ [x])
      (vals (q_nodes q') xs) (vals (q_nodes q') ys)"
    by (intro queue_goneI) (use q' c in simp_all)
  with c q' v show ?thesis by (simp add: log_dtor_def)
qed

lemma queue_get_at: "queue_at c ks (x # rs) \<Longrightarrow> queue_get c = x"
  by (erule queue_at_ConsE, erule chain_cursor) (simp add: m_queue_itr_get_data_def)

interpretation que_itr: iterable queue_live queue_nxt queue_get queue_rm queue_log queue_at queue_gone
proof unfold_locales
  fix c ks rs
  assume "queue_at c ks rs"
  then show "queue_live c = (rs \<noteq> [])" by (cases c) auto
qed (fact queue_get_at queue_nxt_at queue_rm_at queue_nxt_gone)+

lemma queue_itr_new_at:
  assumes "queue_ok q" and "q_dtor q = log_dtor" and "cal \<noteq> NULL"
  shows "queue_at (q, m_queue_itr_new cal (Some q), w) [] (queue_list q)"
proof -
  from assms(1) obtain as where as: "queue_chain q as" "q_tail q = last_or_null as"
    "queue_list q = vals (q_nodes q) as" by (rule queue_okE)
  have "m_queue_itr_new cal (Some q) =
      (if as = [] then None else Some \<lparr>qi_elem = slot_after [], qi_removed = False\<rparr>)"
    using assms(3) chain_rep_Nil_iff [OF as(1)] by (auto simp: m_queue_itr_new_def m_queue_len_pos)
  with queue_atI [of q "[]" as _ w] assms as show ?thesis by (simp add: tail_of_def last_or_null_def)
qed

subsection \<open>Properties\<close>

text \<open>
  C2. Every history of enqueues and dequeues on a queue in use, allocation failures and null
  data included, gives the return values of an ideal queue, runs without a bad memory access,
  and leaves the ideal content.
\<close>

theorem queue_history:
  assumes "queue_handle_ok qp" and "admissible m_queue_enqueue m_queue_dequeue queue_fresh cs qp"
  shows "\<exists>qp'. run m_queue_enqueue m_queue_dequeue cs qp =
      Some (fst (ideal_run (\<lambda>d ds. ds @ [d]) cs (queue_handle_list qp)), qp') \<and>
      queue_handle_ok qp' \<and>
      queue_handle_list qp' = snd (ideal_run (\<lambda>d ds. ds @ [d]) cs (queue_handle_list qp))"
  using assms by (rule que.run_ideal)

theorem queue_history_witness:
  "\<exists>qp'. run m_queue_enqueue m_queue_dequeue [Ins 8 70, Ins 0 71, Ins 9 72, Out, Ins 8 73, Out, Out, Out]
      (m_queue_new 1 log_dtor) =
    Some ([Inl 0, Inl (- ENOMEM), Inl 0, Inr 70, Inl 0, Inr 72, Inr 73, Inr 0], qp')"
  using queue_history [of "m_queue_new 1 log_dtor"
      "[Ins 8 70, Ins 0 71, Ins 9 72, Out, Ins 8 73, Out, Out, Out]"]
  by (simp add: m_queue_new_def queue_ok_def chain_ok_def queue_list_def chain_list_def
      m_queue_enqueue_def m_queue_dequeue_def m_queue_len_def node_at_def free_node_def last_or_null_def
      Let_def)

lemma queue_prune_upto:
  assumes "queue_ok q" and "q_dtor q = log_dtor" and "cal \<noteq> NULL" and "queue_list q = ds @ es"
  obtains q' it' j where "itr_foreach queue_live queue_nxt (prune queue_get queue_rm P) 0
      (q, m_queue_itr_new cal (Some q), w) =
    itr_foreach queue_live queue_nxt (prune queue_get queue_rm P) j (q', it', w @ filter P ds)"
    and "queue_at (q', it', w @ filter P ds) (filter (\<lambda>x. \<not> P x) ds) es"
proof -
  have "queue_at (q, m_queue_itr_new cal (Some q), w) [] (ds @ es)"
    using queue_itr_new_at [OF assms(1-3), of w] assms(4) by simp
  from que_itr.foreach_prune_upto [OF this, of P 0] show ?thesis
    using that by (auto simp del: queue_at.simps)
qed

text \<open>The last step of the loop decides whether the tail is lost.\<close>

lemma queue_prune_last:
  assumes at: "queue_at (q, it, w) ks [x]"
  obtains q' as where "itr_foreach queue_live queue_nxt (prune queue_get queue_rm P) j (q, it, w) =
      Some (q', None, w @ filter P [x])"
    and "queue_chain q' as" and "vals (q_nodes q') as = ks @ filter (\<lambda>x. \<not> P x) [x]"
    and "q_tail q' = (if P x then NULL else last as)" and "P x \<or> as \<noteq> []"
proof -
  from at obtain xs a where
    c: "it = Some \<lparr>qi_elem = slot_after xs, qi_removed = False\<rparr>" "q_dtor q = log_dtor"
    and rep: "queue_chain q (xs @ [a])" and t: "tail_of q [a]"
    and v: "vals (q_nodes q) xs = ks" "val (q_nodes q) a = x"
    by (rule queue_at_ConsE) auto
  note get = queue_get_at [OF at]
  let ?loop = "itr_foreach queue_live queue_nxt (prune queue_get queue_rm P)"
  have stop: "?loop i (q0, None, w0) = Some (q0, None, w0)" for i q0 w0
    by (subst itr_foreach.simps) simp
  show ?thesis
  proof (cases "P x")
    case True
    from queue_itr_remove_step [OF rep t, of w] obtain q' where q':
      "m_queue_itr_remove q it w = Some (0, q', Some \<lparr>qi_elem = slot_after xs, qi_removed = True\<rparr>, w @ [x])"
      "queue_chain q' xs" "q_tail q' = NULL" "vals (q_nodes q') xs = ks"
      using c v by (auto simp: log_dtor_def)
    have "m_queue_itr_next q' (Some \<lparr>qi_elem = slot_after xs, qi_removed = True\<rparr>) = Some (0, None)"
      using chain_first [of _ _ _ xs "[]"] q'(2) by (simp add: m_queue_itr_next_def)
    with q'(1) True get c have "?loop j (q, it, w) = Some (q', None, w @ [x])"
      by (subst itr_foreach.simps) (simp add: prune_def stop del: queue_get.simps)
    with that [of q' xs] q' True show ?thesis by simp
  next
    case False
    have "m_queue_itr_next q it = Some (0, None)"
      unfolding c by (rule chain_cursor [OF rep]) (simp add: m_queue_itr_next_def)
    with False get c have "?loop j (q, it, w) = Some (q, None, w)"
      by (subst itr_foreach.simps) (simp add: prune_def stop del: queue_get.simps)
    with that [of q "xs @ [a]"] rep t v False show ?thesis by (simp add: tail_of_def)
  qed
qed

text \<open>
  C3. Iterating over a queue and removing the elements that satisfy a predicate calls the
  destructor on exactly those, in order, and leaves the others in order. The queue is well
  formed afterwards if its last element stays, or if every element goes.
\<close>

theorem queue_foreach_prune:
  assumes "queue_ok q" and "q_dtor q = log_dtor" and "cal \<noteq> NULL"
    and keep: "filter (\<lambda>x. \<not> P x) (queue_list q) = [] \<or> \<not> P (last (queue_list q))"
  shows "\<exists>q'. itr_foreach queue_live queue_nxt (prune queue_get queue_rm P) 0
      (q, m_queue_itr_new cal (Some q), w) = Some (q', None, w @ filter P (queue_list q)) \<and>
    queue_ok q' \<and> queue_list q' = filter (\<lambda>x. \<not> P x) (queue_list q)"
proof (cases "queue_list q" rule: rev_cases)
  case Nil
  then have "m_queue_itr_new cal (Some q) = None"
    using assms(1) by (simp add: m_queue_itr_new_def m_queue_len_pos queue_len_list)
  then show ?thesis using assms(1) Nil by (subst itr_foreach.simps) simp
next
  case (snoc ds x)
  obtain q1 it1 j where f: "itr_foreach queue_live queue_nxt (prune queue_get queue_rm P) 0
      (q, m_queue_itr_new cal (Some q), w) =
    itr_foreach queue_live queue_nxt (prune queue_get queue_rm P) j (q1, it1, w @ filter P ds)"
    "queue_at (q1, it1, w @ filter P ds) (filter (\<lambda>x. \<not> P x) ds) [x]"
    by (rule queue_prune_upto [OF assms(1-3) snoc, of P w])
  obtain q' as where
    e: "itr_foreach queue_live queue_nxt (prune queue_get queue_rm P) j (q1, it1, w @ filter P ds) =
        Some (q', None, (w @ filter P ds) @ filter P [x])"
      "queue_chain q' as" "vals (q_nodes q') as = filter (\<lambda>x. \<not> P x) ds @ filter (\<lambda>x. \<not> P x) [x]"
      "q_tail q' = (if P x then NULL else last as)" "P x \<or> as \<noteq> []"
    by (rule queue_prune_last [OF f(2), of P j])
  have "q_tail q' = last_or_null as"
  proof (cases "P x")
    case True
    then have "vals (q_nodes q') as = []" using keep snoc e(3) by simp
    with e(4) True show ?thesis by (simp add: last_or_null_def)
  qed (use e in \<open>simp add: last_or_null_def\<close>)
  with f(1) e(1-3) snoc queue_chainI [OF e(2)] show ?thesis by (simp del: itr_foreach.simps)
qed

definition queue_sample :: "ptr list m_queue" where
  "queue_sample = \<lparr>q_len = 3, q_dtor = log_dtor, q_head = 5, q_tail = 7,
     q_nodes = [5 \<mapsto> \<lparr>userptr = 50, link = 6\<rparr>, 6 \<mapsto> \<lparr>userptr = 60, link = 7\<rparr>,
                7 \<mapsto> \<lparr>userptr = 70, link = 0\<rparr>]\<rparr>"

lemma queue_sample_ok: "queue_ok queue_sample" "queue_list queue_sample = [50, 60, 70]"
  "q_dtor queue_sample = log_dtor"
  by (auto simp: queue_sample_def queue_ok_def queue_list_def chain_ok_def chain_list_def
      chain_rep_def node_at_def val_def eval_nat_numeral last_or_null_def)

theorem queue_foreach_prune_witness:
  "\<exists>q'. itr_foreach queue_live queue_nxt (prune queue_get queue_rm (\<lambda>x. x < 65)) 0
      (queue_sample, m_queue_itr_new 3 (Some queue_sample), []) = Some (q', None, [50, 60]) \<and>
    queue_ok q' \<and> queue_list q' = [70]"
  using queue_foreach_prune [of queue_sample 3 "\<lambda>x. x < 65" "[]"] by (auto simp: queue_sample_ok)

text \<open>
  A queue whose tail pointer was lost: the chain from the head does not reach the node at
  \<open>a\<close>, which the length counts.
\<close>

lemma queue_lost_drain:
  "seg (q_nodes q) (q_head q) as NULL \<Longrightarrow> q_tail q \<notin> set as \<Longrightarrow> q_tail q \<noteq> NULL \<Longrightarrow>
   q_len q = Suc (length as) \<Longrightarrow> drain m_queue_dequeue (Suc (length as)) (Some q) = None"
proof (induction as arbitrary: q)
  case Nil
  then show ?case by (simp add: m_queue_dequeue_def m_queue_len_pos node_at_def)
next
  case (Cons a as)
  then obtain n where n: "q_head q = a" "q_nodes q a = Some n" "seg (q_nodes q) (link n) as NULL"
    "a \<noteq> NULL" by auto
  let ?q = "q\<lparr>q_head := link n, q_nodes := (q_nodes q)(a := None), q_len := q_len q - 1\<rparr>"
  have "a \<notin> set as" using seg_distinct [OF Cons.prems(1)] by simp
  then have "drain m_queue_dequeue (Suc (length as)) (Some ?q) = None"
    using Cons.prems n by (intro Cons.IH) (simp_all flip: fun_upd_def)
  moreover have "m_queue_dequeue (Some q) = Some (userptr n, Some ?q)"
    using Cons.prems n by (auto simp: m_queue_dequeue_def m_queue_len_pos node_at_def free_node_def)
  ultimately show ?case by (simp only: drain_stuck length_Cons)
qed

text \<open>
  C4. Removing the last element through an iterator while other elements stay loses the tail
  pointer: an element enqueued afterwards is accepted and counted but unreachable, and
  dequeuing as many elements as the length says dereferences a null pointer.
\<close>

theorem queue_itr_remove_last_loses:
  assumes "queue_ok q" and "q_dtor q = log_dtor" and "cal \<noteq> NULL"
    and last: "P (last (queue_list q))" and kept: "filter (\<lambda>x. \<not> P x) (queue_list q) = k # ks"
  shows "\<exists>q1. itr_foreach queue_live queue_nxt (prune queue_get queue_rm P) 0
      (q, m_queue_itr_new cal (Some q), w) = Some (q1, None, w @ filter P (queue_list q)) \<and>
    finite (dom (q_nodes q1)) \<and>
    (\<forall>a d. a \<noteq> NULL \<longrightarrow> q_nodes q1 a = None \<longrightarrow> d \<noteq> NULL \<longrightarrow>
      (\<exists>q2. m_queue_enqueue a (Some q1) d = Some (0, Some q2) \<and>
        m_queue_len (Some q2) = int (Suc (length (k # ks))) \<and>
        drain m_queue_dequeue (Suc (length (k # ks))) (Some q2) = None))"
proof -
  from kept obtain ds x where dx: "queue_list q = ds @ [x]" by (cases "queue_list q" rule: rev_cases) auto
  obtain q1 it1 j where f: "itr_foreach queue_live queue_nxt (prune queue_get queue_rm P) 0
      (q, m_queue_itr_new cal (Some q), w) =
    itr_foreach queue_live queue_nxt (prune queue_get queue_rm P) j (q1, it1, w @ filter P ds)"
    "queue_at (q1, it1, w @ filter P ds) (filter (\<lambda>x. \<not> P x) ds) [x]"
    by (rule queue_prune_upto [OF assms(1-3) dx, of P w])
  obtain q' as where
    e: "itr_foreach queue_live queue_nxt (prune queue_get queue_rm P) j (q1, it1, w @ filter P ds) =
        Some (q', None, (w @ filter P ds) @ filter P [x])"
      "queue_chain q' as" "vals (q_nodes q') as = filter (\<lambda>x. \<not> P x) ds @ filter (\<lambda>x. \<not> P x) [x]"
      "q_tail q' = (if P x then NULL else last as)" "P x \<or> as \<noteq> []"
    by (rule queue_prune_last [OF f(2), of P j])
  have "vals (q_nodes q') as = k # ks" using kept e(3) dx by simp
  then have len: "length as = length (k # ks)" and ne: "as \<noteq> []"
    using length_vals [of "q_nodes q'" as] by auto
  have "\<exists>q2. m_queue_enqueue a (Some q') d = Some (0, Some q2) \<and>
      m_queue_len (Some q2) = int (Suc (length as)) \<and>
      drain m_queue_dequeue (Suc (length as)) (Some q2) = None"
    if a: "a \<noteq> NULL" "q_nodes q' a = None" and d: "d \<noteq> NULL" for a d
  proof -
    let ?q = "q'\<lparr>q_len := q_len q' + 1, q_nodes := (q_nodes q')(a \<mapsto> \<lparr>userptr = d, link = NULL\<rparr>),
        q_tail := a\<rparr>"
    have na: "a \<notin> set as" using e(2) a(2) by (rule chain_rep_fresh)
    have rep: "seg (q_nodes q') (q_head q') as NULL" "q_len q' = length as"
      using e(2) by (simp_all add: chain_rep_def)
    have "q_head q' \<noteq> NULL" using rep(1) ne by (cases as) auto
    moreover have "q_tail q' = NULL" using e(4) last dx by simp
    ultimately have "m_queue_enqueue a (Some q') d = Some (0, Some ?q)"
      using a d by (simp add: m_queue_enqueue_def Let_def)
    moreover have "drain m_queue_dequeue (Suc (length as)) (Some ?q) = None"
      by (rule queue_lost_drain) (use rep na a in simp_all)
    moreover have "m_queue_len (Some ?q) = int (Suc (length as))"
      using rep by (simp add: m_queue_len_def)
    ultimately show ?thesis by blast
  qed
  moreover have "finite (dom (q_nodes q'))" using e(2) by (simp add: chain_rep_def)
  ultimately show ?thesis using f(1) e(1) dx len by (simp del: drain.simps)
qed

theorem queue_itr_remove_last_loses_witness:
  "\<exists>q1 a q2. itr_foreach queue_live queue_nxt (prune queue_get queue_rm (\<lambda>x. x = 70)) 0
      (queue_sample, m_queue_itr_new 3 (Some queue_sample), []) = Some (q1, None, [70]) \<and>
    m_queue_enqueue a (Some q1) 90 = Some (0, Some q2) \<and> m_queue_len (Some q2) = 3 \<and>
    drain m_queue_dequeue (Suc (Suc (Suc 0))) (Some q2) = None"
proof -
  note lost = queue_itr_remove_last_loses [of queue_sample 3 "\<lambda>x. x = 70" 50 "[60]" "[]"]
  have "\<exists>q1. itr_foreach queue_live queue_nxt (prune queue_get queue_rm (\<lambda>x. x = 70)) 0
      (queue_sample, m_queue_itr_new 3 (Some queue_sample), []) = Some (q1, None, [70]) \<and>
    finite (dom (q_nodes q1)) \<and> (\<forall>a d. a \<noteq> NULL \<longrightarrow> q_nodes q1 a = None \<longrightarrow> d \<noteq> NULL \<longrightarrow>
      (\<exists>q2. m_queue_enqueue a (Some q1) d = Some (0, Some q2) \<and> m_queue_len (Some q2) = 3 \<and>
        drain m_queue_dequeue (Suc (Suc (Suc 0))) (Some q2) = None))"
    using lost by (simp add: queue_sample_ok del: drain.simps)
  then obtain q1 where q1: "itr_foreach queue_live queue_nxt (prune queue_get queue_rm (\<lambda>x. x = 70)) 0
      (queue_sample, m_queue_itr_new 3 (Some queue_sample), []) = Some (q1, None, [70])"
    "finite (dom (q_nodes q1))" and q2: "\<forall>a d. a \<noteq> NULL \<longrightarrow> q_nodes q1 a = None \<longrightarrow> d \<noteq> NULL \<longrightarrow>
      (\<exists>q2. m_queue_enqueue a (Some q1) d = Some (0, Some q2) \<and> m_queue_len (Some q2) = 3 \<and>
        drain m_queue_dequeue (Suc (Suc (Suc 0))) (Some q2) = None)" by blast
  from ex_new_if_finite [OF infinite_UNIV_nat, of "insert NULL (dom (q_nodes q1))"] q1(2)
  obtain a where "a \<noteq> NULL" "q_nodes q1 a = None" by auto
  with q2 have "\<exists>q2. m_queue_enqueue a (Some q1) 90 = Some (0, Some q2) \<and> m_queue_len (Some q2) = 3 \<and>
        drain m_queue_dequeue (Suc (Suc (Suc 0))) (Some q2) = None" by simp
  with q1(1) show ?thesis by blast
qed

text \<open>
  Freeing a queue destroys each element once, in order, and nulls the caller's handle.
\<close>

theorem queue_free_all:
  assumes "queue_ok q"
  shows "m_queue_free (Some (Some q)) w =
    Some (0, Some None, fold (call_dtor (q_dtor q)) (queue_list q) w)"
  using assms by (rule m_queue_free_ok)

theorem queue_free_all_witness:
  "m_queue_free (Some (Some queue_sample)) [] = Some (0, Some None, [50, 60, 70])"
  using queue_free_all [of queue_sample "[]"] by (simp add: queue_sample_ok log_dtor_def)

end
