(* ===== verification/MemRef.thy ===== *)
theory MemRef
  imports Prelude
begin

text \<open>
  The reference-counted memory of \<^verbatim>\<open>Lib/mem/mem.c\<close>. Addresses and sizes are 64-bit words, as
  on the platforms the library is built for; \<^verbatim>\<open>sizeof(mem_header_t)\<close> is 24 and
  \<^verbatim>\<open>alignof(max_align_t)\<close> is 16 there. The heap holds the extent of each live block, the
  header stored at its start, and the bytes of memory (of which the library reads and writes the
  one in front of the user data). An access outside the block at hand is \<open>None\<close>.
\<close>

unbundle bit_operations_syntax

type_synonym addr = "64 word"

text \<open>
  A destructor is a function pointer, 0 for \<^verbatim>\<open>NULL\<close>; what the function behind a pointer does to
  the whole state is the parameter \<open>call\<close> of the operations that call one.
\<close>

record mem_header =
  h_refs :: addr
  h_size :: addr
  h_dtor :: nat

record mem_heap =
  extents :: "addr \<rightharpoonup> addr"
  headers :: "addr \<rightharpoonup> mem_header"
  bytes :: "addr \<Rightarrow> 8 word"

definition sizeof_header :: addr where "sizeof_header = 24"

definition max_align :: addr where "max_align = 16"

definition ALIGN_UP :: "addr \<Rightarrow> addr" where
  "ALIGN_UP x = (x + (max_align - 1)) AND NOT (max_align - 1)"

definition total_size :: "addr \<Rightarrow> addr" where
  "total_size sz = sizeof_header + sz"

definition align_shift :: "addr \<Rightarrow> 8 word" where
  "align_shift sz =
     (let shift = ucast (ALIGN_UP (total_size sz) - total_size sz) :: 8 word
      in if shift = 0 then ucast max_align else shift)"

text \<open>The argument of the \<^verbatim>\<open>calloc\<close> in \<^verbatim>\<open>m_mem_new\<close>.\<close>

definition request :: "addr \<Rightarrow> addr" where
  "request sz = total_size sz + ucast (align_shift sz)"

definition get_header :: "mem_heap \<Rightarrow> addr \<Rightarrow> addr" where
  "get_header m src = src - sizeof_header - ucast (bytes m (src - 1))"

text \<open>\<open>writable e n\<close>: a block of extent \<open>e\<close> holds the bytes at the offsets below \<open>n\<close>.\<close>

definition writable :: "addr \<Rightarrow> nat \<Rightarrow> bool" where
  "writable e n \<longleftrightarrow> n \<le> unat e"

definition m_mem_new :: "addr \<Rightarrow> mem_heap \<Rightarrow> addr \<Rightarrow> nat \<Rightarrow> (addr \<times> mem_heap) option" where
  "m_mem_new cal m sz dtor =
     (if cal = 0 then Some (0, m)
      else if \<not> writable (request sz) (unat sizeof_header + unat (align_shift sz)) then None
      else let data = cal + sizeof_header + ucast (align_shift sz) in
        Some (data, m\<lparr>extents := (extents m)(cal \<mapsto> request sz),
                      headers := (headers m)(cal \<mapsto> \<lparr>h_refs = 1, h_size = sz, h_dtor = dtor\<rparr>),
                      bytes := (bytes m)(data - 1 := align_shift sz)\<rparr>))"

definition m_mem_ref :: "mem_heap \<Rightarrow> addr \<Rightarrow> (addr \<times> mem_heap) option" where
  "m_mem_ref m src =
     (if src \<noteq> 0 then do {
        h \<leftarrow> headers m (get_header m src);
        Some (src, m\<lparr>headers := (headers m)(get_header m src \<mapsto> h\<lparr>h_refs := h_refs h + 1\<rparr>)\<rparr>) }
      else Some (src, m))"

text \<open>
  \<^verbatim>\<open>memhook._free\<close> of a block: releasing what is not a live block is a double or wild free.
\<close>

definition mem_free :: "mem_heap \<Rightarrow> addr \<Rightarrow> mem_heap option" where
  "mem_free m b =
     (case extents m b of None \<Rightarrow> None
      | Some _ \<Rightarrow> Some (m\<lparr>extents := (extents m)(b := None), headers := (headers m)(b := None)\<rparr>))"

definition m_mem_unref ::
    "(nat \<Rightarrow> addr \<Rightarrow> mem_heap \<times> 'w \<Rightarrow> (mem_heap \<times> 'w) option) \<Rightarrow> mem_heap \<Rightarrow> addr \<Rightarrow> 'w \<Rightarrow>
     (addr \<times> mem_heap \<times> 'w) option" where
  "m_mem_unref call m src w =
     (if src \<noteq> 0 then do {
        let hd = get_header m src;
        h \<leftarrow> headers m hd;
        let h = h\<lparr>h_refs := h_refs h - 1\<rparr>;
        let m = m\<lparr>headers := (headers m)(hd \<mapsto> h)\<rparr>;
        if h_refs h = 0 then do {
          (m, w) \<leftarrow> (if h_dtor h \<noteq> 0 then call (h_dtor h) src (m, w) else Some (m, w));
          m \<leftarrow> mem_free m hd;
          Some (0, m, w) }
        else Some (0, m, w) }
      else Some (0, m, w))"

text \<open>\<^verbatim>\<open>m_mem_unrefp(void **src)\<close>: \<open>None\<close> for a null \<^verbatim>\<open>src\<close>, else the pointer it points to.\<close>

definition m_mem_unrefp ::
    "(nat \<Rightarrow> addr \<Rightarrow> mem_heap \<times> 'w \<Rightarrow> (mem_heap \<times> 'w) option) \<Rightarrow> mem_heap \<Rightarrow> addr option \<Rightarrow> 'w \<Rightarrow>
     (addr option \<times> mem_heap \<times> 'w) option" where
  "m_mem_unrefp call m srcp w =
     (case srcp of None \<Rightarrow> Some (None, m, w)
      | Some src \<Rightarrow> map_option (\<lambda>(r, m', w'). (Some r, m', w')) (m_mem_unref call m src w))"

definition m_mem_size :: "mem_heap \<Rightarrow> addr \<Rightarrow> addr option" where
  "m_mem_size m src =
     (if src \<noteq> 0 then map_option h_size (headers m (get_header m src)) else Some 0)"

subsection \<open>The layout arithmetic\<close>

lemma ALIGN_UP_eq: "ALIGN_UP x = (x + 15) - take_bit 4 (x + 15)"
proof -
  have m: "(15 :: addr) = mask 4" by (simp add: mask_eq_exp_minus_1)
  have "y - take_bit 4 y = y AND NOT (mask 4)" for y :: addr
  proof -
    have "NOT y AND take_bit 4 y = 0" by (rule bit_eqI) (auto simp: bit_simps)
    then have "y - take_bit 4 y = y AND NOT (take_bit 4 y)" by (rule disjunctive_diff_eq_and_not)
    also have "\<dots> = y AND NOT (mask 4)" by (rule bit_eqI) (auto simp: bit_simps)
    finally show ?thesis .
  qed
  then show ?thesis by (simp add: ALIGN_UP_def max_align_def m)
qed

lemma unat_ALIGN_UP:
  assumes "unat x + 15 < 2 ^ 64"
  shows "unat (ALIGN_UP x) = (unat x + 15) div 16 * 16"
proof -
  have u: "unat (x + 15) = unat x + 15" using assms by (simp add: unat_word_ariths)
  have t: "unat (take_bit 4 (x + 15)) = (unat x + 15) mod 16"
    unfolding unsigned_take_bit_eq u by (simp add: take_bit_eq_mod)
  have "take_bit 4 (x + 15) \<le> x + 15" unfolding word_le_nat_alt u t by simp
  then have "unat (ALIGN_UP x) = unat x + 15 - (unat x + 15) mod 16"
    by (simp add: ALIGN_UP_eq unat_sub u t)
  then show ?thesis by (simp add: minus_mod_eq_div_mult)
qed

definition shift_nat :: "nat \<Rightarrow> nat" where
  "shift_nat n = 16 - (24 + n) mod 16"

lemma shift_nat_bounds: "0 < shift_nat n" "shift_nat n \<le> 16"
  by (simp_all add: shift_nat_def)

lemma shift_nat_mod: "(24 + n + shift_nat n) mod 16 = 0"
  unfolding shift_nat_def by presburger

lemma round_up_gap:
  "(n + 15) div 16 * 16 - n = (if n mod 16 = 0 then 0 else 16 - n mod 16)" for n :: nat
proof -
  define q r where "q = n div 16" and "r = n mod 16"
  then have n: "n = 16 * q + r" and r: "r < 16" by simp_all
  have "(n + 15) div 16 = (if r = 0 then q else q + 1)"
    unfolding n using r by (auto simp: div_nat_eqI)
  then show ?thesis using n r by (auto simp: r_def [symmetric])
qed

lemma layout:
  assumes "unat sz < 2 ^ 64 - 40"
  shows "unat (total_size sz) = 24 + unat sz"
    and "unat (align_shift sz) = shift_nat (unat sz)"
    and "unat (request sz) = 24 + unat sz + shift_nat (unat sz)"
proof -
  show t: "unat (total_size sz) = 24 + unat sz"
    using assms by (simp add: total_size_def sizeof_header_def unat_word_ariths)
  let ?n = "24 + unat sz"
  have a: "unat (ALIGN_UP (total_size sz)) = (?n + 15) div 16 * 16"
    using assms t by (subst unat_ALIGN_UP) simp_all
  have le: "?n \<le> (?n + 15) div 16 * 16" by linarith
  then have d: "unat (ALIGN_UP (total_size sz) - total_size sz) = (?n + 15) div 16 * 16 - ?n"
    using a t by (subst unat_sub) (simp_all add: word_le_nat_alt)
  have small: "(?n + 15) div 16 * 16 - ?n < 16" by linarith
  have s: "unat (ucast (ALIGN_UP (total_size sz) - total_size sz) :: 8 word) = (?n + 15) div 16 * 16 - ?n"
    using small d by (simp add: unsigned_ucast_eq take_bit_nat_eq_self)
  have e: "(?n + 15) div 16 * 16 - ?n = (if ?n mod 16 = 0 then 0 else 16 - ?n mod 16)"
    by (rule round_up_gap)
  let ?s = "ucast (ALIGN_UP (total_size sz) - total_size sz) :: 8 word"
  have s': "unat ?s = (if ?n mod 16 = 0 then 0 else 16 - ?n mod 16)" using s e by (rule trans)
  show sh: "unat (align_shift sz) = shift_nat (unat sz)"
  proof (cases "?n mod 16 = 0")
    case True
    with s' have "?s = 0" by (simp add: unat_eq_zero)
    then have "align_shift sz = 16" by (simp add: align_shift_def Let_def max_align_def)
    with True show ?thesis by (simp add: shift_nat_def)
  next
    case False
    with s' have u: "unat ?s = 16 - ?n mod 16" by simp
    then have "unat ?s > 0" by simp
    then have "?s \<noteq> 0" by (metis less_irrefl unsigned_0)
    then have "align_shift sz = ?s" by (simp add: align_shift_def Let_def)
    with u show ?thesis by (simp add: shift_nat_def)
  qed
  have "unat (ucast (align_shift sz) :: addr) = shift_nat (unat sz)"
    using sh by (simp add: unsigned_ucast_eq take_bit_nat_eq_self shift_nat_def)
  then show "unat (request sz) = 24 + unat sz + shift_nat (unat sz)"
    using t assms shift_nat_bounds [of "unat sz"] by (simp add: request_def unat_word_ariths)
qed

text \<open>The user pointer, from the address of the block.\<close>

lemma data_pointer:
  assumes "unat sz < 2 ^ 64 - 40" and "unat cal + unat (request sz) < 2 ^ 64"
  defines "p \<equiv> cal + sizeof_header + ucast (align_shift sz)"
  shows "unat p = unat cal + 24 + shift_nat (unat sz)"
proof -
  have "unat (ucast (align_shift sz) :: addr) = shift_nat (unat sz)"
    using layout(2) [OF assms(1)] by (simp add: unsigned_ucast_eq take_bit_nat_eq_self shift_nat_def)
  then show ?thesis
    using assms(2) layout(3) [OF assms(1)] by (simp add: p_def sizeof_header_def unat_word_ariths)
qed

lemma m_mem_new_ok:
  assumes "unat sz < 2 ^ 64 - 40" and "cal \<noteq> 0" and "unat cal + unat (request sz) < 2 ^ 64"
  obtains p m' where "m_mem_new cal m sz d = Some (p, m')" and "p \<noteq> 0"
    and "unat p = unat cal + 24 + shift_nat (unat sz)" and "get_header m' p = cal"
    and "headers m' = (headers m)(cal \<mapsto> \<lparr>h_refs = 1, h_size = sz, h_dtor = d\<rparr>)"
    and "extents m' = (extents m)(cal \<mapsto> request sz)"
proof -
  let ?p = "cal + sizeof_header + ucast (align_shift sz)"
  let ?m = "m\<lparr>extents := (extents m)(cal \<mapsto> request sz),
      headers := (headers m)(cal \<mapsto> \<lparr>h_refs = 1, h_size = sz, h_dtor = d\<rparr>),
      bytes := (bytes m)(?p - 1 := align_shift sz)\<rparr>"
  have "writable (request sz) (unat sizeof_header + unat (align_shift sz))"
    using layout [OF assms(1)] by (simp add: writable_def sizeof_header_def)
  then have "m_mem_new cal m sz d = Some (?p, ?m)"
    using assms(2) by (simp add: m_mem_new_def Let_def)
  moreover have u: "unat ?p = unat cal + 24 + shift_nat (unat sz)"
    by (rule data_pointer [OF assms(1,3)])
  then have "unat ?p \<noteq> 0" by simp
  then have "?p \<noteq> 0" by (metis unsigned_0)
  moreover have "get_header ?m ?p = cal" by (simp add: get_header_def)
  ultimately show ?thesis using u by (intro that [of ?p ?m]) simp_all
qed

subsection \<open>The life of an object\<close>

text \<open>\<open>object m src h\<close>: \<open>src\<close> is the user pointer of a live block whose header is \<open>h\<close>.\<close>

definition object :: "mem_heap \<Rightarrow> addr \<Rightarrow> mem_header \<Rightarrow> bool" where
  "object m src h \<longleftrightarrow> src \<noteq> 0 \<and> headers m (get_header m src) = Some h \<and>
     extents m (get_header m src) \<noteq> None"

lemma get_header_bytes [simp]: "get_header (m\<lparr>headers := hs\<rparr>) src = get_header m src"
  by (simp add: get_header_def)

lemma m_mem_ref_ok:
  assumes "object m src h"
  obtains m' where "m_mem_ref m src = Some (src, m')" and "object m' src (h\<lparr>h_refs := h_refs h + 1\<rparr>)"
    and "m' = m\<lparr>headers := (headers m)(get_header m src \<mapsto> h\<lparr>h_refs := h_refs h + 1\<rparr>)\<rparr>"
  using assms that by (simp add: m_mem_ref_def object_def)

lemma m_mem_unref_keeps:
  assumes "object m src h" and "h_refs h \<noteq> 1"
  obtains m' where "m_mem_unref call m src w = Some (0, m', w)"
    and "object m' src (h\<lparr>h_refs := h_refs h - 1\<rparr>)"
    and "m' = m\<lparr>headers := (headers m)(get_header m src \<mapsto> h\<lparr>h_refs := h_refs h - 1\<rparr>)\<rparr>"
  using assms that by (simp add: m_mem_unref_def object_def Let_def)

datatype ref_op = Ref | Unref

primrec ref_run ::
    "(nat \<Rightarrow> addr \<Rightarrow> mem_heap \<times> 'w \<Rightarrow> (mem_heap \<times> 'w) option) \<Rightarrow> addr \<Rightarrow> ref_op list \<Rightarrow>
     mem_heap \<Rightarrow> 'w \<Rightarrow> (mem_heap \<times> 'w) option" where
  "ref_run call src [] m w = Some (m, w)"
| "ref_run call src (c # cs) m w =
     (case c of
        Ref \<Rightarrow> Option.bind (m_mem_ref m src) (\<lambda>(r, m'). ref_run call src cs m' w)
      | Unref \<Rightarrow> Option.bind (m_mem_unref call m src w) (\<lambda>(r, m', w'). ref_run call src cs m' w'))"

text \<open>
  The number of references after a history, \<open>None\<close> when it goes on after the last one was given
  up.
\<close>

primrec ref_count :: "nat \<Rightarrow> ref_op list \<Rightarrow> nat option" where
  "ref_count n [] = Some n"
| "ref_count n (c # cs) =
     (if n = 0 then None else case c of Ref \<Rightarrow> ref_count (n + 1) cs | Unref \<Rightarrow> ref_count (n - 1) cs)"

definition log_call :: "nat \<Rightarrow> addr \<Rightarrow> mem_heap \<times> (nat \<times> addr) list \<Rightarrow> (mem_heap \<times> (nat \<times> addr) list) option" where
  "log_call d p s = (case s of (m, w) \<Rightarrow> Some (m, w @ [(d, p)]))"

text \<open>After the object is gone every further use is undefined.\<close>

lemma ref_run_gone:
  "src \<noteq> 0 \<Longrightarrow> headers m (get_header m src) = None \<Longrightarrow> cs \<noteq> [] \<Longrightarrow> ref_run call src cs m w = None"
  by (cases cs) (auto simp: m_mem_ref_def m_mem_unref_def Let_def split: ref_op.splits)

lemma m_mem_unref_gone:
  assumes "object m src h" and "h_refs h = 1"
  obtains m' where "m_mem_unref log_call m src w =
      Some (0, m', w @ (if h_dtor h = 0 then [] else [(h_dtor h, src)]))"
    and "headers m' = (headers m)(get_header m src := None)"
    and "extents m' = (extents m)(get_header m src := None)"
    and "get_header m' src = get_header m src"
proof -
  let ?m = "m\<lparr>headers := (headers m)(get_header m src := None),
      extents := (extents m)(get_header m src := None)\<rparr>"
  have "m_mem_unref log_call m src w =
      Some (0, ?m, w @ (if h_dtor h = 0 then [] else [(h_dtor h, src)]))"
    using assms by (auto simp: m_mem_unref_def object_def log_call_def mem_free_def Let_def)
  then show ?thesis by (rule that) (simp_all add: get_header_def)
qed

text \<open>The heap after a history that leaves \<open>n\<close> references.\<close>

definition ref_outcome :: "mem_heap \<Rightarrow> addr \<Rightarrow> mem_header \<Rightarrow> nat \<Rightarrow> mem_heap \<Rightarrow> bool" where
  "ref_outcome m src h n m' \<longleftrightarrow>
     (if n = 0 then headers m' = (headers m)(get_header m src := None) \<and>
                    extents m' = (extents m)(get_header m src := None)
      else object m' src (h\<lparr>h_refs := of_nat n\<rparr>) \<and> extents m' = extents m)"

lemma ref_outcome_step:
  "ref_outcome (m\<lparr>headers := (headers m)(get_header m src \<mapsto> x)\<rparr>) src (h\<lparr>h_refs := r\<rparr>) n m' =
   ref_outcome m src h n m'"
  by (simp add: ref_outcome_def)

lemma ref_run_ok:
  "object m src h \<Longrightarrow> 0 < unat (h_refs h) \<Longrightarrow> unat (h_refs h) + length cs < 2 ^ 64 \<Longrightarrow>
   case ref_count (unat (h_refs h)) cs of
     None \<Rightarrow> ref_run log_call src cs m w = None
   | Some n \<Rightarrow> \<exists>m'. ref_run log_call src cs m w =
         Some (m', if n = 0 \<and> h_dtor h \<noteq> 0 then w @ [(h_dtor h, src)] else w) \<and>
       ref_outcome m src h n m'"
proof (induction cs arbitrary: m h)
  case Nil
  then show ?case by (simp add: ref_outcome_def)
next
  case (Cons c cs)
  show ?case
  proof (cases c)
    case Ref
    obtain m1 where m1: "m_mem_ref m src = Some (src, m1)" "object m1 src (h\<lparr>h_refs := h_refs h + 1\<rparr>)"
      "m1 = m\<lparr>headers := (headers m)(get_header m src \<mapsto> h\<lparr>h_refs := h_refs h + 1\<rparr>)\<rparr>"
      by (rule m_mem_ref_ok [OF Cons.prems(1)])
    have u: "unat (h_refs h + 1) = unat (h_refs h) + 1"
      using Cons.prems(3) by (simp add: unat_word_ariths)
    have "unat (h_refs (h\<lparr>h_refs := h_refs h + 1\<rparr>)) + length cs < 2 ^ 64"
      using u Cons.prems(3) by simp
    from Cons.IH [OF m1(2) _ this] u Cons.prems(2) Ref m1(1) show ?thesis
      unfolding m1(3) ref_outcome_step by (auto split: option.splits)
  next
    case Unref
    show ?thesis
    proof (cases "h_refs h = 1")
      case True
      obtain m1 where m1: "m_mem_unref log_call m src w =
          Some (0, m1, w @ (if h_dtor h = 0 then [] else [(h_dtor h, src)]))"
        "headers m1 = (headers m)(get_header m src := None)"
        "extents m1 = (extents m)(get_header m src := None)"
        "get_header m1 src = get_header m src"
        by (rule m_mem_unref_gone [OF Cons.prems(1) True])
      have "src \<noteq> 0" "headers m1 (get_header m1 src) = None"
        using m1 Cons.prems(1) by (simp_all add: object_def)
      then have "ref_run log_call src cs m1 v = None" if "cs \<noteq> []" for v
        using that by (rule ref_run_gone)
      with Unref True m1 show ?thesis by (cases cs) (auto simp: ref_outcome_def)
    next
      case False
      obtain m1 where m1: "m_mem_unref log_call m src w = Some (0, m1, w)"
        "object m1 src (h\<lparr>h_refs := h_refs h - 1\<rparr>)"
        "m1 = m\<lparr>headers := (headers m)(get_header m src \<mapsto> h\<lparr>h_refs := h_refs h - 1\<rparr>)\<rparr>"
        by (rule m_mem_unref_keeps [OF Cons.prems(1) False])
      have ne: "unat (h_refs h) \<noteq> 1" using False by (simp add: word_unat_eq_iff)
      have u: "unat (h_refs h - 1) = unat (h_refs h) - 1"
        using Cons.prems(2) by (subst unat_sub) (simp_all add: word_le_nat_alt)
      have "unat (h_refs (h\<lparr>h_refs := h_refs h - 1\<rparr>)) + length cs < 2 ^ 64"
        using u Cons.prems(3) by simp
      from Cons.IH [OF m1(2) _ this] u ne Cons.prems(2) Unref m1(1) show ?thesis
        unfolding m1(3) ref_outcome_step by (auto split: option.splits)
    qed
  qed
qed


subsection \<open>Properties\<close>

text \<open>
  C8. \<^verbatim>\<open>m_mem_new\<close> lays an object out so that the other functions find its header: for any
  size below 2^64 - 40 and any block the allocator returns, the user pointer is not null, its
  \<open>size\<close> bytes end exactly where the block ends, the shift byte lies inside the block behind the
  header, and the object starts with one reference, the given size and destructor.
\<close>

theorem mem_new_layout:
  assumes "unat sz < 2 ^ 64 - 40" and "cal \<noteq> 0" and "unat cal + unat (request sz) < 2 ^ 64"
  shows "\<exists>p m'. m_mem_new cal m sz d = Some (p, m') \<and>
    object m' p \<lparr>h_refs = 1, h_size = sz, h_dtor = d\<rparr> \<and> get_header m' p = cal \<and>
    m_mem_size m' p = Some sz \<and>
    unat p + unat sz = unat cal + unat (request sz) \<and> unat cal + unat sizeof_header < unat p"
proof -
  obtain p m' where p: "m_mem_new cal m sz d = Some (p, m')" "p \<noteq> 0"
    "unat p = unat cal + 24 + shift_nat (unat sz)" "get_header m' p = cal"
    "headers m' = (headers m)(cal \<mapsto> \<lparr>h_refs = 1, h_size = sz, h_dtor = d\<rparr>)"
    "extents m' = (extents m)(cal \<mapsto> request sz)"
    by (rule m_mem_new_ok [OF assms])
  then show ?thesis
    using layout(3) [OF assms(1)] shift_nat_bounds [of "unat sz"]
    by (intro exI [of _ p] exI [of _ m']) (simp add: object_def m_mem_size_def sizeof_header_def)
qed

definition heap0 :: mem_heap where
  "heap0 = \<lparr>extents = (\<lambda>_. None), headers = (\<lambda>_. None), bytes = (\<lambda>_. 0)\<rparr>"

theorem mem_new_layout_witness:
  "\<exists>p m'. m_mem_new 0x1000 heap0 5 7 = Some (p, m') \<and> m_mem_size m' p = Some 5 \<and> unat p = 4123"
proof -
  have r: "unat (request 5) = 32" by code_simp
  then have "\<exists>p m'. m_mem_new 0x1000 heap0 5 7 = Some (p, m') \<and> m_mem_size m' p = Some 5 \<and>
      unat p + unat (5 :: addr) = unat (0x1000 :: addr) + unat (request 5)"
    using mem_new_layout [of 5 "0x1000" heap0 7] by auto
  then show ?thesis by (simp add: r)
qed

text \<open>
  How the user data is aligned: on a block aligned to 16 bytes, as the allocator
  guarantees, the user pointer is aligned to 16 exactly when the size is a multiple of 16.
\<close>

theorem mem_new_alignment:
  assumes "unat sz < 2 ^ 64 - 40" and "cal \<noteq> 0" and "unat cal + unat (request sz) < 2 ^ 64"
    and "unat cal mod 16 = 0" and "m_mem_new cal m sz d = Some (p, m')"
  shows "unat p mod 16 = 0 \<longleftrightarrow> unat sz mod 16 = 0"
proof -
  have "unat p = unat cal + 24 + shift_nat (unat sz)"
    using m_mem_new_ok [OF assms(1-3)] assms(5) by (metis Pair_inject option.inject)
  moreover have "(24 + unat sz + shift_nat (unat sz)) mod 16 = 0" by (rule shift_nat_mod)
  ultimately show ?thesis using assms(4) by presburger
qed

theorem mem_new_alignment_witness:
  "\<exists>p m'. m_mem_new 0x1000 heap0 32 7 = Some (p, m') \<and> unat p mod 16 = 0"
proof -
  have r: "unat (request 32) = 64" by code_simp
  have "writable (request 32) (unat sizeof_header + unat (align_shift 32))" by code_simp
  then obtain p m' where p: "m_mem_new 0x1000 heap0 32 7 = Some (p, m')"
    by (simp add: m_mem_new_def Let_def)
  with mem_new_alignment [of 32 "0x1000" heap0 7 p m'] r show ?thesis by simp
qed

text \<open>
  C9. A size within 40 bytes of 2^64 wraps: the block requested is shorter than the header and
  the shift byte, so that a successful allocation is written past its end (for the largest sizes by
  the shift byte only).
\<close>

theorem mem_new_overflow:
  assumes "2 ^ 64 - 40 \<le> unat sz" and "cal \<noteq> 0"
  shows "m_mem_new cal m sz d = None"
proof -
  have all: "\<forall>k \<in> set [1..<41]. \<not> writable (request (- of_nat k))
      (unat sizeof_header + unat (align_shift (- of_nat k)))"
    by code_simp
  define k where "k = 2 ^ 64 - unat sz"
  have lt: "unat sz < 2 ^ 64" using unsigned_less [of sz] by simp
  then have k: "k \<in> set [1..<41]" using assms(1) by (auto simp: k_def)
  have "of_nat (unat sz + k) = (0 :: addr)" using lt by (simp add: k_def)
  then have "sz = - of_nat k" by (simp add: eq_neg_iff_add_eq_0)
  with all k have "\<not> writable (request sz) (unat sizeof_header + unat (align_shift sz))" by metis
  with assms(2) show ?thesis by (simp add: m_mem_new_def)
qed

theorem mem_new_overflow_witness: "m_mem_new 0x1000 heap0 0xFFFFFFFFFFFFFFEC 7 = None"
  using mem_new_overflow [of "0xFFFFFFFFFFFFFFEC" "0x1000" heap0 7] by simp

text \<open>
  C10. The life of an object under any history of \<^verbatim>\<open>m_mem_ref\<close> and \<^verbatim>\<open>m_mem_unref\<close> that cannot
  overflow the counter: as long as references remain it lives with the right count; the call
  that gives the last one up runs its destructor once and releases the block; any use after
  that has undefined behaviour.
\<close>

theorem mem_ref_history:
  assumes "object m src h" and "0 < unat (h_refs h)" and "unat (h_refs h) + length cs < 2 ^ 64"
  shows "case ref_count (unat (h_refs h)) cs of
     None \<Rightarrow> ref_run log_call src cs m w = None
   | Some n \<Rightarrow> \<exists>m'. ref_run log_call src cs m w =
         Some (m', if n = 0 \<and> h_dtor h \<noteq> 0 then w @ [(h_dtor h, src)] else w) \<and>
       (if n = 0 then headers m' = (headers m)(get_header m src := None) \<and>
                      extents m' = (extents m)(get_header m src := None)
        else object m' src (h\<lparr>h_refs := of_nat n\<rparr>) \<and> extents m' = extents m)"
  using ref_run_ok [OF assms, of w] unfolding ref_outcome_def .

definition heap1 :: mem_heap where
  "heap1 = \<lparr>extents = [0x1000 \<mapsto> 32], headers = [0x1000 \<mapsto> \<lparr>h_refs = 1, h_size = 5, h_dtor = 7\<rparr>],
            bytes = (\<lambda>_. 0)(0x101A := 3)\<rparr>"

theorem mem_ref_history_witness:
  "(\<exists>m'. ref_run log_call 0x101B [Ref, Unref, Ref, Ref, Unref, Unref, Unref] heap1 [] = Some (m', [(7, 0x101B)])) \<and>
   ref_run log_call 0x101B [Unref, Ref] heap1 [] = None"
proof -
  have o: "object heap1 0x101B \<lparr>h_refs = 1, h_size = 5, h_dtor = 7\<rparr>"
    by (simp add: object_def heap1_def get_header_def sizeof_header_def)
  have c: "ref_count 1 [Ref, Unref, Ref, Ref, Unref, Unref, Unref] = Some 0"
    "ref_count 1 [Unref, Ref] = None" by simp_all
  have "\<exists>m'. ref_run log_call 0x101B [Ref, Unref, Ref, Ref, Unref, Unref, Unref] heap1 [] =
      Some (m', [(7, 0x101B)])"
    using mem_ref_history [OF o, of "[Ref, Unref, Ref, Ref, Unref, Unref, Unref]" "[]"] c(1)
    by (auto simp del: ref_run.simps ref_count.simps)
  moreover have "ref_run log_call 0x101B [Unref, Ref] heap1 [] = None"
    using mem_ref_history [OF o, of "[Unref, Ref]" "[]"] c(2) by (simp del: ref_run.simps ref_count.simps)
  ultimately show ?thesis by blast
qed

end
