(* ===== verification/HMap.thy ===== *)
theory HMap
  imports Itr
begin

text \<open>
  The string-keyed hash map of \<^verbatim>\<open>Lib/structs/map.c\<close>: a table of a power-of-two size, linear
  probing over at most half of it, doubling when three quarters full, and removal by shifting
  the rest of the probe chain back.

  A key is the pointer the map stores and the string behind it, which is assumed not to change
  while it is stored. The table index of an entry stands for the entry's address; an iterator
  also keeps the size of the table it points into, since doubling frees that table. The
  destructor and the release of keys act on a world \<open>'w\<close> and do not re-enter the map.
\<close>

unbundle bit_operations_syntax

record mkey =
  key_ptr :: ptr
  key_str :: string

record map_elem =
  me_key :: "mkey option"
  me_data :: ptr

record 'w m_map =
  table_size :: nat
  m_length :: nat
  m_flags :: "32 word"
  table :: "map_elem list"
  m_dtor :: "'w dtor"

record map_itr =
  mi_curr :: "nat option"
  mi_table :: nat
  mi_removed :: bool

definition M_MAP_KEY_DUP :: "32 word" where "M_MAP_KEY_DUP = push_bit 0 1"
definition M_MAP_KEY_AUTOFREE :: "32 word" where "M_MAP_KEY_AUTOFREE = push_bit 1 1"
definition M_MAP_VAL_ALLOW_UPDATE :: "32 word" where "M_MAP_VAL_ALLOW_UPDATE = push_bit 8 1"

definition MAP_SIZE_DEFAULT :: nat where "MAP_SIZE_DEFAULT = push_bit 8 1"

definition empty_elem :: map_elem where
  "empty_elem = \<lparr>me_key = None, me_data = NULL\<rparr>"

definition MAP_SIZE_MOD :: "nat \<Rightarrow> nat \<Rightarrow> nat" where
  "MAP_SIZE_MOD sz v = v AND (sz - 1)"

definition MAP_PROBE_LEN :: "nat \<Rightarrow> nat" where
  "MAP_PROBE_LEN sz = drop_bit 1 sz"

definition MAP_PROBE_NEXT :: "nat \<Rightarrow> nat \<Rightarrow> nat" where
  "MAP_PROBE_NEXT sz index = MAP_SIZE_MOD sz (index + 1)"

text \<open>The difference wraps in C; the one bit tested is the same on an unbounded difference.\<close>

definition MAP_INDEX_LE :: "nat \<Rightarrow> nat \<Rightarrow> nat \<Rightarrow> bool" where
  "MAP_INDEX_LE sz a b \<longleftrightarrow> a = b \<or> (int b - int a) AND int (drop_bit 1 sz) \<noteq> 0"

text \<open>djb2, with \<^verbatim>\<open>char\<close> signed, then the MurmurHash3 finalizer.\<close>

definition hash_char :: "64 word \<Rightarrow> char \<Rightarrow> 64 word" where
  "hash_char hash c = (push_bit 5 hash + hash) + scast (of_char c :: 8 word)"

definition hashmap_hash_string :: "string \<Rightarrow> 64 word" where
  "hashmap_hash_string key =
     (let hash = foldl hash_char 5381 key;
          hash = hash XOR drop_bit 16 hash;
          hash = hash * 0x85ebca6b;
          hash = hash XOR drop_bit 13 hash;
          hash = hash * 0xc2b2ae35
      in hash XOR drop_bit 16 hash)"

definition hashmap_calc_index :: "nat \<Rightarrow> string \<Rightarrow> nat" where
  "hashmap_calc_index sz key = MAP_SIZE_MOD sz (unat (hashmap_hash_string key))"

definition hashmap_table_min_size_calc :: "nat \<Rightarrow> nat" where
  "hashmap_table_min_size_calc num_entries = num_entries + num_entries div 3"

subsection \<open>Search\<close>

text \<open>\<open>find_loop\<close> is the probing loop, with \<open>n\<close> probes left.\<close>

primrec find_loop :: "nat \<Rightarrow> map_elem list \<Rightarrow> nat \<Rightarrow> string \<Rightarrow> bool \<Rightarrow> nat \<Rightarrow> nat option" where
  "find_loop 0 t sz key find_empty index = None"
| "find_loop (Suc n) t sz key find_empty index =
     (case me_key (t ! index) of
        None \<Rightarrow> if find_empty then Some index else None
      | Some k \<Rightarrow> if key = key_str k then Some index
                 else find_loop n t sz key find_empty (MAP_PROBE_NEXT sz index))"

definition hashmap_entry_find :: "'w m_map \<Rightarrow> string \<Rightarrow> bool \<Rightarrow> nat option" where
  "hashmap_entry_find m key find_empty =
     find_loop (MAP_PROBE_LEN (table_size m)) (table m) (table_size m) key find_empty
       (hashmap_calc_index (table_size m) key)"

subsection \<open>Growth and insertion\<close>

primrec rehash_loop :: "map_elem list \<Rightarrow> 'w m_map \<Rightarrow> 'w m_map option" where
  "rehash_loop [] m = Some m"
| "rehash_loop (e # es) m =
     (case me_key e of None \<Rightarrow> rehash_loop es m
      | Some k \<Rightarrow> (case hashmap_entry_find m (key_str k) True of
            None \<Rightarrow> None
          | Some i \<Rightarrow> rehash_loop es (m\<lparr>table := (table m)[i := e]\<rparr>)))"

definition hashmap_rehash :: "ptr \<Rightarrow> 'w m_map \<Rightarrow> int \<times> 'w m_map" where
  "hashmap_rehash cal m =
     (if cal = NULL then (- ENOMEM, m)
      else let sz = push_bit 1 (table_size m) in
        case rehash_loop (table m) (m\<lparr>table_size := sz, table := replicate sz empty_elem\<rparr>) of
          None \<Rightarrow> (- ENOMEM, m)
        | Some m' \<Rightarrow> (0, m'))"

text \<open>What happens at the entry found: an update, a refused update, or a new entry.\<close>

definition put_at :: "'w m_map \<Rightarrow> nat \<Rightarrow> mkey \<Rightarrow> ptr \<Rightarrow> 'w \<Rightarrow> int \<times> 'w m_map \<times> 'w" where
  "put_at m i key value w =
     (let entry = table m ! i in
      if me_key entry \<noteq> None then
        if m_flags m AND M_MAP_VAL_ALLOW_UPDATE \<noteq> 0
        then (0, m\<lparr>table := (table m)[i := entry\<lparr>me_data := value\<rparr>]\<rparr>,
              if me_data entry \<noteq> value then call_dtor (m_dtor m) (me_data entry) w else w)
        else (- EPERM, m, w)
      else (0, m\<lparr>m_length := m_length m + 1,
                 table := (table m)[i := entry\<lparr>me_key := Some key, me_data := value\<rparr>]\<rparr>, w))"

definition hashmap_put ::
    "ptr \<Rightarrow> ptr \<Rightarrow> 'w m_map \<Rightarrow> mkey option \<Rightarrow> ptr \<Rightarrow> 'w \<Rightarrow> int \<times> 'w m_map \<times> 'w" where
  "hashmap_put cal1 cal2 m keyp value w =
     (case keyp of None \<Rightarrow> (- EINVAL, m, w)
      | Some key \<Rightarrow>
          let (ret, m) = (if table_size m \<le> hashmap_table_min_size_calc (m_length m)
                          then hashmap_rehash cal1 m else (0, m)) in
          if ret \<noteq> 0 then (ret, m, w)
          else case hashmap_entry_find m (key_str key) True of
            Some i \<Rightarrow> put_at m i key value w
          | None \<Rightarrow>
              let (ret, m) = hashmap_rehash cal2 m in
              if ret \<noteq> 0 then (ret, m, w)
              else case hashmap_entry_find m (key_str key) True of
                Some i \<Rightarrow> put_at m i key value w
              | None \<Rightarrow> (- ENOMEM, m, w))"

subsection \<open>Removal\<close>

text \<open>
  The shift loop, with \<open>n\<close> probes left, looking at \<open>index\<close>; \<open>removed\<close> is the slot to fill. It
  returns the slot left over and the table.
\<close>

primrec shift_loop :: "nat \<Rightarrow> nat \<Rightarrow> nat \<Rightarrow> nat \<Rightarrow> map_elem list \<Rightarrow> nat \<times> map_elem list" where
  "shift_loop 0 sz removed index t = (removed, t)"
| "shift_loop (Suc n) sz removed index t =
     (case me_key (t ! index) of None \<Rightarrow> (removed, t)
      | Some k \<Rightarrow>
          if MAP_INDEX_LE sz removed (hashmap_calc_index sz (key_str k))
          then shift_loop n sz index (MAP_PROBE_NEXT sz index) (t[removed := t ! index])
          else shift_loop n sz removed (MAP_PROBE_NEXT sz index) t)"

definition clear_elem :: "(ptr \<Rightarrow> 'w \<Rightarrow> 'w) \<Rightarrow> 'w m_map \<Rightarrow> nat \<Rightarrow> 'w \<Rightarrow> 'w m_map \<times> 'w" where
  "clear_elem free_key m removed_index w =
     (let entry = table m ! removed_index;
          w = (if m_flags m AND M_MAP_KEY_AUTOFREE \<noteq> 0
               then (case me_key entry of None \<Rightarrow> w | Some k \<Rightarrow> free_key (key_ptr k) w) else w);
          w = call_dtor (m_dtor m) (me_data entry) w;
          t = (table m)[removed_index := \<lparr>me_key = None, me_data = NULL\<rparr>];
          (i, t) = shift_loop (MAP_PROBE_LEN (table_size m)) (table_size m) removed_index
                     (MAP_PROBE_NEXT (table_size m) removed_index) t
      in (m\<lparr>m_length := m_length m - 1, table := t[i := empty_elem]\<rparr>, w))"

subsection \<open>Public functions\<close>

definition m_map_len :: "'w m_map option \<Rightarrow> int" where
  "m_map_len mp = (case mp of None \<Rightarrow> - EINVAL | Some m \<Rightarrow> int (m_length m))"

definition m_map_itr_next :: "'w m_map \<Rightarrow> map_itr option \<Rightarrow> (int \<times> map_itr option) option" where
  "m_map_itr_next m it =
     (case it of None \<Rightarrow> Some (- EINVAL, None)
      | Some i \<Rightarrow>
          if mi_curr i \<noteq> None \<and> mi_table i \<noteq> table_size m then None
          else
            let curr = (case mi_curr i of None \<Rightarrow> 0 | Some c \<Rightarrow> c + 1 - (if mi_removed i then 1 else 0));
                next = List.find (\<lambda>j. me_key (table m ! j) \<noteq> None) [curr..<table_size m]
            in Some (0, map_option (\<lambda>j. \<lparr>mi_curr = Some j, mi_table = table_size m, mi_removed = False\<rparr>) next))"

definition m_map_itr_new :: "ptr \<Rightarrow> 'w m_map option \<Rightarrow> map_itr option option" where
  "m_map_itr_new cal mp =
     (if \<not> m_map_len mp > 0 then Some None
      else if cal = NULL then Some None
      else case mp of None \<Rightarrow> None
      | Some m \<Rightarrow> map_option snd
          (m_map_itr_next m (Some \<lparr>mi_curr = None, mi_table = table_size m, mi_removed = False\<rparr>)))"

text \<open>The entry an iterator stands on; \<open>None\<close> when its table is gone or it has none.\<close>

definition itr_entry :: "'w m_map \<Rightarrow> map_itr \<Rightarrow> nat option" where
  "itr_entry m i =
     (if mi_table i \<noteq> table_size m then None
      else case mi_curr i of None \<Rightarrow> None | Some c \<Rightarrow> if c < table_size m then Some c else None)"

definition m_map_itr_remove ::
    "(ptr \<Rightarrow> 'w \<Rightarrow> 'w) \<Rightarrow> 'w m_map \<Rightarrow> map_itr option \<Rightarrow> 'w \<Rightarrow> (int \<times> 'w m_map \<times> map_itr option \<times> 'w) option" where
  "m_map_itr_remove free_key m it w =
     (case it of None \<Rightarrow> Some (- EINVAL, m, it, w)
      | Some i \<Rightarrow> if mi_removed i then Some (- EINVAL, m, it, w)
          else do {
            c \<leftarrow> itr_entry m i;
            let (m', w') = clear_elem free_key m c w;
            Some (0, m', Some (i\<lparr>mi_removed := True\<rparr>), w') })"

definition m_map_itr_get_key :: "'w m_map \<Rightarrow> map_itr option \<Rightarrow> mkey option option" where
  "m_map_itr_get_key m it =
     (case it of None \<Rightarrow> Some None
      | Some i \<Rightarrow> if mi_removed i then Some None
          else map_option (\<lambda>c. me_key (table m ! c)) (itr_entry m i))"

definition m_map_itr_get_data :: "'w m_map \<Rightarrow> map_itr option \<Rightarrow> ptr option" where
  "m_map_itr_get_data m it =
     (case it of None \<Rightarrow> Some NULL
      | Some i \<Rightarrow> if mi_removed i then Some NULL
          else map_option (\<lambda>c. me_data (table m ! c)) (itr_entry m i))"

definition m_map_itr_set_data :: "'w m_map \<Rightarrow> map_itr option \<Rightarrow> ptr \<Rightarrow> (int \<times> 'w m_map) option" where
  "m_map_itr_set_data m it value =
     (case it of None \<Rightarrow> Some (- EINVAL, m)
      | Some i \<Rightarrow> if mi_removed i then Some (- EINVAL, m)
          else if value = NULL then Some (- EINVAL, m)
          else map_option (\<lambda>c. (0, m\<lparr>table := (table m)[c := (table m ! c)\<lparr>me_data := value\<rparr>]\<rparr>))
                 (itr_entry m i))"

text \<open>\<^verbatim>\<open>m_map_put\<close>: \<open>dup\<close> is what \<^verbatim>\<open>mem_strdup\<close> returned, consulted when the map dups its keys.\<close>

definition m_map_put ::
    "ptr \<Rightarrow> ptr \<Rightarrow> ptr \<Rightarrow> 'w m_map option \<Rightarrow> mkey option \<Rightarrow> ptr \<Rightarrow> 'w \<Rightarrow> int \<times> 'w m_map option \<times> 'w" where
  "m_map_put dup cal1 cal2 mp keyp value w =
     (case mp of None \<Rightarrow> (- EINVAL, None, w)
      | Some m \<Rightarrow> (case keyp of None \<Rightarrow> (- EINVAL, mp, w)
        | Some key \<Rightarrow>
            if value = NULL then (- EINVAL, mp, w)
            else
              let stored = (if m_flags m AND M_MAP_KEY_DUP \<noteq> 0
                            then (if dup = NULL then None else Some (key\<lparr>key_ptr := dup\<rparr>))
                            else Some key);
                  (r, m', w') = hashmap_put cal1 cal2 m stored value w
              in (r, Some m', w')))"

definition m_map_get :: "'w m_map option \<Rightarrow> string option \<Rightarrow> ptr" where
  "m_map_get mp keyp =
     (case keyp of None \<Rightarrow> NULL
      | Some key \<Rightarrow>
          if \<not> m_map_len mp > 0 then NULL
          else case mp of None \<Rightarrow> NULL
          | Some m \<Rightarrow> (case hashmap_entry_find m key False of None \<Rightarrow> NULL | Some i \<Rightarrow> me_data (table m ! i)))"

definition m_map_contains :: "'w m_map option \<Rightarrow> string option \<Rightarrow> bool" where
  "m_map_contains mp keyp \<longleftrightarrow> m_map_get mp keyp \<noteq> NULL"

text \<open>
  \<^verbatim>\<open>m_map_iterate\<close>: the callback may change the map. The loop stands on an address of the table
  it started with; once the callback has made the map grow that table is freed.
\<close>

partial_function (option) map_iterate_loop ::
    "(mkey \<Rightarrow> ptr \<Rightarrow> 'w m_map \<times> 'v \<Rightarrow> int \<times> 'w m_map \<times> 'v) \<Rightarrow> nat \<Rightarrow> 'w m_map \<Rightarrow> 'v \<Rightarrow>
     (int \<times> 'w m_map \<times> 'v) option" where
  "map_iterate_loop fn i m v =
     (if i \<ge> table_size m then Some (0, m, v)
      else case me_key (table m ! i) of
        None \<Rightarrow> map_iterate_loop fn (i + 1) m v
      | Some k \<Rightarrow>
          (case fn k (me_data (table m ! i)) (m, v) of (rc, m', v') \<Rightarrow>
            if rc < 0 then Some (rc, m', v')
            else if rc > 0 then Some (0, m', v')
            else if table_size m' \<noteq> table_size m then None
            else if map_option key_ptr (me_key (table m' ! i)) \<noteq> Some (key_ptr k)
            then map_iterate_loop fn i m' v'
            else if m_length m \<noteq> m_length m' then Some (- EACCES, m', v')
            else map_iterate_loop fn (i + 1) m' v'))"

declare map_iterate_loop.simps [code]

definition m_map_iterate ::
    "'w m_map option \<Rightarrow> (ptr \<Rightarrow> mkey \<Rightarrow> ptr \<Rightarrow> 'w m_map \<times> 'v \<Rightarrow> int \<times> 'w m_map \<times> 'v) option \<Rightarrow> ptr \<Rightarrow> 'v \<Rightarrow>
     (int \<times> 'w m_map option \<times> 'v) option" where
  "m_map_iterate mp fn up v =
     (case fn of None \<Rightarrow> Some (- EINVAL, mp, v)
      | Some f \<Rightarrow>
          if \<not> m_map_len mp > 0 then Some (- EINVAL, mp, v)
          else case mp of None \<Rightarrow> None
          | Some m \<Rightarrow> map_option (\<lambda>(r, m', v'). (r, Some m', v')) (map_iterate_loop (f up) 0 m v))"

definition m_map_remove ::
    "(ptr \<Rightarrow> 'w \<Rightarrow> 'w) \<Rightarrow> 'w m_map option \<Rightarrow> string option \<Rightarrow> 'w \<Rightarrow> int \<times> 'w m_map option \<times> 'w" where
  "m_map_remove free_key mp keyp w =
     (case keyp of None \<Rightarrow> (- EINVAL, mp, w)
      | Some key \<Rightarrow>
          if \<not> m_map_len mp > 0 then (- EINVAL, mp, w)
          else case mp of None \<Rightarrow> (- EINVAL, mp, w)
          | Some m \<Rightarrow> (case hashmap_entry_find m key False of
                None \<Rightarrow> (- ENOENT, mp, w)
              | Some i \<Rightarrow> let (m', w') = clear_elem free_key m i w in (0, Some m', w')))"

partial_function (option) map_clear_loop ::
    "(ptr \<Rightarrow> 'w \<Rightarrow> 'w) \<Rightarrow> 'w m_map \<Rightarrow> map_itr option \<Rightarrow> 'w \<Rightarrow> ('w m_map \<times> 'w) option" where
  "map_clear_loop free_key m it w =
     (if it = None then Some (m, w)
      else Option.bind (m_map_itr_remove free_key m it w) (\<lambda>r. case r of (r1, m1, it1, w1) \<Rightarrow>
             Option.bind (m_map_itr_next m1 it1) (\<lambda>s. case s of (r2, it2) \<Rightarrow>
               map_clear_loop free_key m1 it2 w1)))"

declare map_clear_loop.simps [code]

definition m_map_clear ::
    "(ptr \<Rightarrow> 'w \<Rightarrow> 'w) \<Rightarrow> ptr \<Rightarrow> 'w m_map option \<Rightarrow> 'w \<Rightarrow> (int \<times> 'w m_map option \<times> 'w) option" where
  "m_map_clear free_key cal mp w =
     (case mp of None \<Rightarrow> Some (- EINVAL, None, w)
      | Some m \<Rightarrow> do {
          it \<leftarrow> m_map_itr_new cal mp;
          (m', w') \<leftarrow> map_clear_loop free_key m it w;
          Some (0, Some m', w') })"

text \<open>\<^verbatim>\<open>m_map_free(m_map_t **m)\<close>: the outer option is the pointer to the handle.\<close>

definition m_map_free ::
    "(ptr \<Rightarrow> 'w \<Rightarrow> 'w) \<Rightarrow> ptr \<Rightarrow> 'w m_map option option \<Rightarrow> 'w \<Rightarrow>
     (int \<times> 'w m_map option option \<times> 'w) option" where
  "m_map_free free_key cal mpp w =
     (case mpp of None \<Rightarrow> Some (- EINVAL, None, w)
      | Some mp \<Rightarrow> do {
          (ret, mp', w') \<leftarrow> m_map_clear free_key cal mp w;
          if ret = 0 then Some (ret, Some None, w') else Some (ret, Some mp', w') })"

text \<open>\<open>cal1\<close>, \<open>cal2\<close>: the addresses allocated for the map and for its table.\<close>

definition m_map_new :: "ptr \<Rightarrow> ptr \<Rightarrow> 32 word \<Rightarrow> 'w dtor \<Rightarrow> 'w m_map option" where
  "m_map_new cal1 cal2 flags fn =
     (if cal1 = NULL then None
      else if cal2 \<noteq> NULL
      then Some \<lparr>table_size = MAP_SIZE_DEFAULT, m_length = 0,
             m_flags = (if flags AND M_MAP_KEY_DUP \<noteq> 0 then flags OR M_MAP_KEY_AUTOFREE else flags),
             table = replicate MAP_SIZE_DEFAULT empty_elem, m_dtor = fn\<rparr>
      else None)"

end
