(* ===== verification/HMapFacts.thy ===== *)
theory HMapFacts
  imports HMap Contracts "HOL-Library.Multiset"
begin

text \<open>
  The invariant of the hash map and what its operations do to the finite map it stands for.
  Table positions are integers taken modulo the size, so that a probe path is an interval:
  \<open>slot_key t i\<close> is the key at \<open>i\<close>, \<open>disp t i s\<close> how far position \<open>i\<close> is from the home of
  \<open>s\<close>.
\<close>

unbundle bit_operations_syntax

subsection \<open>Index arithmetic\<close>

lemma MAP_SIZE_MOD_mod: "sz = 2 ^ k \<Longrightarrow> MAP_SIZE_MOD sz v = v mod sz"
proof -
  assume "sz = 2 ^ k"
  then have "sz - 1 = mask k" by (simp add: mask_eq_exp_minus_1)
  then have "MAP_SIZE_MOD sz v = take_bit k v" by (simp add: MAP_SIZE_MOD_def take_bit_eq_mask)
  with \<open>sz = 2 ^ k\<close> show ?thesis by (simp add: take_bit_eq_mod)
qed

lemma MAP_PROBE_LEN_half: "MAP_PROBE_LEN sz = sz div 2"
  by (simp add: MAP_PROBE_LEN_def drop_bit_eq_div)

lemma MAP_INDEX_LE_mod:
  assumes sz: "sz = 2 ^ k" "1 \<le> k" and a: "a < sz" and b: "b < sz"
  shows "MAP_INDEX_LE sz a b \<longleftrightarrow> (int a - int b) mod int sz \<le> int (sz div 2)"
proof -
  define H :: int where "H = 2 ^ (k - 1)"
  have half: "int (drop_bit 1 sz) = H" "int (sz div 2) = H" "int sz = 2 * H" and pos: "H > 0"
    using sz by (cases k; simp add: H_def drop_bit_eq_div)+
  define x where "x = int b - int a"
  have x: "- (2 * H) < x" "x < 2 * H" using a b half by (simp_all add: x_def)
  have "x AND H \<noteq> 0 \<longleftrightarrow> odd (x div H)"
    by (simp add: H_def and_exp_eq_0_iff_not_bit bit_iff_odd)
  also have "\<dots> \<longleftrightarrow> x \<ge> H \<or> (- H \<le> x \<and> x < 0)"
  proof -
    consider "x \<ge> H" | "0 \<le> x" "x < H" | "- H \<le> x" "x < 0" | "x < - H" by linarith
    then show ?thesis
    proof cases
      case 1
      then have "x div H = 1" using x pos by (simp add: div_pos_geq)
      with 1 show ?thesis by simp
    next
      case 2
      then show ?thesis using pos by simp
    next
      case 3
      then have "x div H = - 1" using pos by (intro int_div_pos_eq [of _ _ _ "x + H"]) auto
      with 3 show ?thesis by simp
    next
      case 4
      then have "x div H = - 2" using x pos by (intro int_div_pos_eq [of _ _ _ "x + 2 * H"]) auto
      with 4 pos show ?thesis by simp
    qed
  qed
  also have "x = 0 \<or> \<dots> \<longleftrightarrow> (- x) mod (2 * H) \<le> H"
  proof -
    consider "x \<ge> H" | "0 < x" "x < H" | "- (2 * H) < x" "x \<le> 0" using x by linarith
    then show ?thesis
    proof cases
      case 1
      then have "(- x) mod (2 * H) = 2 * H - x"
        using x by (intro int_mod_pos_eq [of _ _ "- 1"]) auto
      with 1 show ?thesis by auto
    next
      case 2
      then have "(- x) mod (2 * H) = 2 * H - x"
        using x by (intro int_mod_pos_eq [of _ _ "- 1"]) auto
      with 2 show ?thesis by auto
    next
      case 3
      then have "(- x) mod (2 * H) = - x" by simp
      with 3 pos show ?thesis by auto
    qed
  qed
  finally show ?thesis using half by (auto simp: MAP_INDEX_LE_def x_def)
qed

subsection \<open>Positions\<close>

definition pos :: "map_elem list \<Rightarrow> int \<Rightarrow> nat" where
  "pos t i = nat (i mod int (length t))"

definition slot_key :: "map_elem list \<Rightarrow> int \<Rightarrow> string option" where
  "slot_key t i = map_option key_str (me_key (t ! pos t i))"

definition home :: "nat \<Rightarrow> string \<Rightarrow> nat" where
  "home N s = unat (hashmap_hash_string s) mod N"

definition disp :: "nat \<Rightarrow> int \<Rightarrow> string \<Rightarrow> int" where
  "disp N i s = (i - int (home N s)) mod int N"

lemma pos_less: "t \<noteq> [] \<Longrightarrow> pos t i < length t"
  by (simp add: pos_def nat_less_iff)

lemma pos_nat [simp]: "n < length t \<Longrightarrow> pos t (int n) = n"
  by (simp add: pos_def)

lemma int_pos: "t \<noteq> [] \<Longrightarrow> int (pos t i) = i mod int (length t)"
  by (simp add: pos_def)

lemma pos_eq_iff: "t \<noteq> [] \<Longrightarrow> pos t i = pos t j \<longleftrightarrow> i mod int (length t) = j mod int (length t)"
  by (metis int_pos of_nat_eq_iff)

lemma slot_key_mod: "slot_key t (i mod int (length t)) = slot_key t i"
  by (simp add: slot_key_def pos_def)

lemma slot_key_cong: "i mod int (length t) = j mod int (length t) \<Longrightarrow> slot_key t i = slot_key t j"
  by (simp add: slot_key_def pos_def)

lemma slot_key_upd:
  "t \<noteq> [] \<Longrightarrow> n < length t \<Longrightarrow>
   slot_key (t[n := e]) i = (if pos t i = n then map_option key_str (me_key e) else slot_key t i)"
  using pos_less [of t i] by (simp add: slot_key_def pos_def)

lemma home_less: "N > 0 \<Longrightarrow> home N s < N"
  by (simp add: home_def)

lemma disp_bounds: "N > 0 \<Longrightarrow> 0 \<le> disp N i s \<and> disp N i s < int N"
  by (simp add: disp_def)

lemma disp_home: "N > 0 \<Longrightarrow> (int (home N s) + disp N i s) mod int N = i mod int N"
  by (simp add: disp_def mod_simps)

lemma disp_mod: "disp N (i mod int N) s = disp N i s"
  by (simp add: disp_def mod_simps)

lemma probe_next:
  assumes "length t = 2 ^ k"
  shows "MAP_PROBE_NEXT (length t) (pos t i) = pos t (i + 1)"
proof -
  have "t \<noteq> []" using assms by auto
  then have "int (MAP_PROBE_NEXT (length t) (pos t i)) = int (pos t (i + 1))"
    using assms by (simp add: MAP_PROBE_NEXT_def MAP_SIZE_MOD_mod int_pos zmod_int mod_simps add.commute)
  then show ?thesis by simp
qed

lemma calc_index: "sz = 2 ^ k \<Longrightarrow> hashmap_calc_index sz s = home sz s"
  by (simp add: hashmap_calc_index_def home_def MAP_SIZE_MOD_mod)

subsection \<open>The probing loop\<close>

lemma find_loop_hit:
  assumes N: "length t = 2 ^ k"
  shows "(\<forall>j. 0 \<le> j \<and> j < int e \<longrightarrow> slot_key t (i + j) \<noteq> None \<and> slot_key t (i + j) \<noteq> Some s) \<Longrightarrow>
    slot_key t (i + int e) = None \<or> slot_key t (i + int e) = Some s \<Longrightarrow> e < n \<Longrightarrow>
    find_loop n t (length t) s fe (pos t i) =
      (if slot_key t (i + int e) = None \<and> \<not> fe then None else Some (pos t (i + int e)))"
proof (induction e arbitrary: i n)
  case 0
  then obtain n' where "n = Suc n'" by (cases n) auto
  with 0 show ?case by (auto simp: slot_key_def split: option.splits)
next
  case (Suc e)
  from Suc.prems(3) obtain n' where n: "n = Suc n'" "e < n'" by (cases n) auto
  have i: "slot_key t i \<noteq> None" "slot_key t i \<noteq> Some s"
    using Suc.prems(1) [rule_format, of 0] by simp_all
  have "find_loop n' t (length t) s fe (pos t (i + 1)) =
      (if slot_key t (i + 1 + int e) = None \<and> \<not> fe then None else Some (pos t (i + 1 + int e)))"
  proof (rule Suc.IH)
    show "\<forall>j. 0 \<le> j \<and> j < int e \<longrightarrow> slot_key t (i + 1 + j) \<noteq> None \<and> slot_key t (i + 1 + j) \<noteq> Some s"
    proof (intro allI impI)
      fix j :: int
      assume "0 \<le> j \<and> j < int e"
      then show "slot_key t (i + 1 + j) \<noteq> None \<and> slot_key t (i + 1 + j) \<noteq> Some s"
        using Suc.prems(1) [rule_format, of "j + 1"] by (simp add: algebra_simps)
    qed
  qed (use Suc.prems(2) n in \<open>simp_all add: algebra_simps\<close>)
  with i n probe_next [OF N, of i] show ?case
    by (auto simp: slot_key_def algebra_simps split: option.splits)
qed

lemma find_loop_miss:
  assumes N: "length t = 2 ^ k"
  shows "(\<forall>j. 0 \<le> j \<and> j < int n \<longrightarrow> slot_key t (i + j) \<noteq> None \<and> slot_key t (i + j) \<noteq> Some s) \<Longrightarrow>
    find_loop n t (length t) s fe (pos t i) = None"
proof (induction n arbitrary: i)
  case (Suc n)
  have i: "slot_key t i \<noteq> None" "slot_key t i \<noteq> Some s"
    using Suc.prems [rule_format, of 0] by simp_all
  have "find_loop n t (length t) s fe (pos t (i + 1)) = None"
  proof (rule Suc.IH, intro allI impI)
    fix j :: int
    assume "0 \<le> j \<and> j < int n"
    then show "slot_key t (i + 1 + j) \<noteq> None \<and> slot_key t (i + 1 + j) \<noteq> Some s"
      using Suc.prems [rule_format, of "j + 1"] by (simp add: algebra_simps)
  qed
  with i probe_next [OF N, of i] show ?case by (auto simp: slot_key_def split: option.splits)
qed simp

subsection \<open>The invariant and the finite map\<close>

definition entries :: "map_elem list \<Rightarrow> map_elem list" where
  "entries t = filter (\<lambda>e. me_key e \<noteq> None) t"

definition entry_pair :: "map_elem \<Rightarrow> string \<times> ptr" where
  "entry_pair e = (key_str (the (me_key e)), me_data e)"

definition assoc :: "map_elem list \<Rightarrow> (string \<times> ptr) list" where
  "assoc t = map entry_pair (entries t)"

text \<open>Every entry is less than half the table away from its home, with no gap in between.\<close>

definition probe_ok :: "map_elem list \<Rightarrow> bool" where
  "probe_ok t \<longleftrightarrow> (\<forall>i s. slot_key t i = Some s \<longrightarrow>
     disp (length t) i s < int (length t div 2) \<and>
     (\<forall>j. i - disp (length t) i s \<le> j \<and> j \<le> i \<longrightarrow> slot_key t j \<noteq> None))"

definition table_ok :: "map_elem list \<Rightarrow> bool" where
  "table_ok t \<longleftrightarrow> (\<exists>k\<ge>1. length t = 2 ^ k) \<and> distinct (map fst (assoc t)) \<and>
     NULL \<notin> snd ` set (assoc t) \<and> probe_ok t"

definition map_ok :: "'w m_map \<Rightarrow> bool" where
  "map_ok m \<longleftrightarrow> table_size m = length (table m) \<and> m_length m = length (entries (table m)) \<and>
     table_ok (table m)"

definition map_abs :: "'w m_map \<Rightarrow> string \<rightharpoonup> ptr" where
  "map_abs m = map_of (assoc (table m))"

lemma table_okE:
  assumes "table_ok t"
  obtains k where "1 \<le> k" and "length t = 2 ^ k" and "t \<noteq> []" and "length t > 0"
    and "distinct (map fst (assoc t))" and "probe_ok t"
proof -
  from assms obtain k where k: "1 \<le> k" "length t = 2 ^ k" by (auto simp: table_ok_def)
  then have "length t > 0" by simp
  then have "t \<noteq> []" by force
  with k assms show ?thesis by (intro that [of k]) (auto simp: table_ok_def)
qed

lemma probe_okD:
  assumes "probe_ok t" and "slot_key t i = Some s"
  shows "disp (length t) i s < int (length t div 2)"
    and "i - disp (length t) i s \<le> j \<Longrightarrow> j \<le> i \<Longrightarrow> slot_key t j \<noteq> None"
  using assms unfolding probe_ok_def by blast+

lemma slot_key_entry:
  "t \<noteq> [] \<Longrightarrow> slot_key t i = Some s \<Longrightarrow>
   (s, me_data (t ! pos t i)) \<in> set (assoc t) \<and> t ! pos t i \<in> set (entries t)"
  using pos_less [of t i]
  by (auto simp: slot_key_def assoc_def entries_def entry_pair_def intro!: rev_image_eqI)

lemma assoc_slot:
  assumes "(s, d) \<in> set (assoc t)"
  obtains n where "n < length t" and "slot_key t (int n) = Some s" and "me_data (t ! n) = d"
proof -
  from assms obtain e where e: "e \<in> set t" "me_key e \<noteq> None" "entry_pair e = (s, d)"
    by (auto simp: assoc_def entries_def)
  from e(1) obtain n where "n < length t" "t ! n = e" by (auto simp: in_set_conv_nth)
  with e that show ?thesis by (auto simp: slot_key_def entry_pair_def)
qed

lemma nth_key_unique:
  assumes "distinct (map fst (assoc t))" and "a < b" and "b < length t"
    and "map_option key_str (me_key (t ! a)) = Some s" and "map_option key_str (me_key (t ! b)) = Some s"
  shows False
proof -
  have "t = take b t @ t ! b # drop (Suc b) t" using assms(3) by (rule id_take_nth_drop)
  then have "assoc t = assoc (take b t) @ assoc (t ! b # drop (Suc b) t)"
    by (metis assoc_def entries_def filter_append map_append)
  then have "fst ` set (assoc (take b t)) \<inter> fst ` set (assoc (t ! b # drop (Suc b) t)) = {}"
    using assms(1) by simp
  moreover have "t ! a \<in> set (take b t)"
    using assms(2,3) by (auto simp: in_set_conv_nth intro!: exI [of _ a])
  with assms(4) have "s \<in> fst ` set (assoc (take b t))"
    by (force simp: assoc_def entries_def entry_pair_def)
  moreover have "s \<in> fst ` set (assoc (t ! b # drop (Suc b) t))"
    using assms(5) by (auto simp: assoc_def entries_def entry_pair_def)
  ultimately show False by blast
qed

lemma slot_key_unique:
  assumes "distinct (map fst (assoc t))" and "t \<noteq> []" and "slot_key t i = Some s" and "slot_key t j = Some s"
  shows "i mod int (length t) = j mod int (length t)"
proof (rule ccontr)
  assume "i mod int (length t) \<noteq> j mod int (length t)"
  then have "pos t i < pos t j \<or> pos t j < pos t i"
    using assms(2) by (metis pos_eq_iff linorder_neq_iff)
  then show False
    using nth_key_unique [OF assms(1)] pos_less [OF assms(2)] assms(3,4) unfolding slot_key_def by blast
qed

lemma map_abs_slot:
  assumes "map_ok m" and "slot_key (table m) i = Some s"
  shows "map_abs m s = Some (me_data (table m ! pos (table m) i))"
  using assms slot_key_entry [of "table m" i s]
  by (auto simp: map_ok_def map_abs_def elim!: table_okE)

lemma map_abs_NoneD: "map_abs m s = None \<Longrightarrow> slot_key (table m) i = Some s \<Longrightarrow> table m \<noteq> [] \<Longrightarrow> False"
  using slot_key_entry [of "table m" i s] by (force simp: map_abs_def map_of_eq_None_iff)

text \<open>Searching for a key that is in the table.\<close>

lemma find_present:
  assumes ok: "table_ok t" and i: "slot_key t i = Some s"
  shows "find_loop (MAP_PROBE_LEN (length t)) t (length t) s fe (hashmap_calc_index (length t) s) =
    Some (pos t i)"
proof -
  from ok obtain k where k: "length t = 2 ^ k" "t \<noteq> []" "length t > 0" "distinct (map fst (assoc t))" "probe_ok t"
    by (rule table_okE)
  let ?N = "length t"
  let ?h = "int (home ?N s)"
  let ?d = "disp ?N i s"
  have d: "0 \<le> ?d" "?d < int (?N div 2)" using disp_bounds [OF k(3)] probe_okD(1) [OF k(5) i] by auto
  have cong: "slot_key t (?h + j) = slot_key t (i - ?d + j)" for j
  proof (rule slot_key_cong)
    have "(?h + ?d) mod int ?N = i mod int ?N" using k(3) by (rule disp_home)
    then have "(?h + ?d + (j - ?d)) mod int ?N = (i + (j - ?d)) mod int ?N" by (metis mod_add_left_eq)
    then show "(?h + j) mod int ?N = (i - ?d + j) mod int ?N" by (simp add: algebra_simps)
  qed
  have idx: "hashmap_calc_index ?N s = pos t ?h"
    using calc_index [OF k(1)] home_less [OF k(3), of s] by simp
  have "find_loop (?N div 2) t ?N s fe (pos t ?h) =
      (if slot_key t (?h + int (nat ?d)) = None \<and> \<not> fe then None else Some (pos t (?h + int (nat ?d))))"
  proof (rule find_loop_hit [OF k(1)])
    show "\<forall>j. 0 \<le> j \<and> j < int (nat ?d) \<longrightarrow> slot_key t (?h + j) \<noteq> None \<and> slot_key t (?h + j) \<noteq> Some s"
    proof (intro allI impI conjI)
      fix j
      assume j: "0 \<le> j \<and> j < int (nat ?d)"
      then show "slot_key t (?h + j) \<noteq> None"
        unfolding cong using d by (intro probe_okD(2) [OF k(5) i]) auto
      show "slot_key t (?h + j) \<noteq> Some s"
      proof
        assume "slot_key t (?h + j) = Some s"
        then have "(i - ?d + j) mod int ?N = i mod int ?N"
          unfolding cong using slot_key_unique [OF k(4,2) _ i] by blast
        then have "int ?N dvd (i - ?d + j) - i" by (simp add: mod_eq_dvd_iff)
        then have "int ?N dvd ?d - j" by (simp add: dvd_diff_commute)
        moreover have "0 < ?d - j" "?d - j < int ?N" using j d by auto
        ultimately show False by (meson zdvd_not_zless)
      qed
    qed
    show "slot_key t (?h + int (nat ?d)) = None \<or> slot_key t (?h + int (nat ?d)) = Some s"
      using cong [of ?d] i d by simp
  qed (use d in linarith)
  moreover have "slot_key t (?h + int (nat ?d)) = Some s" using cong [of ?d] i d by simp
  moreover have "pos t (?h + int (nat ?d)) = pos t i"
    using disp_home [OF k(3), of s i] d k(2) by (simp add: pos_eq_iff)
  ultimately show ?thesis by (simp add: idx MAP_PROBE_LEN_half)
qed

text \<open>Searching for a key that is not: \<open>e\<close> is how far the first empty slot is.\<close>

lemma find_absent:
  assumes N: "length t = 2 ^ k" and absent: "\<And>i. slot_key t i \<noteq> Some s"
  shows "find_loop (MAP_PROBE_LEN (length t)) t (length t) s False (hashmap_calc_index (length t) s) = None"
    and "find_loop (MAP_PROBE_LEN (length t)) t (length t) s True (hashmap_calc_index (length t) s) = Some n \<Longrightarrow>
      \<exists>e < length t div 2. n = pos t (int (home (length t) s) + int e) \<and>
         slot_key t (int (home (length t) s) + int e) = None \<and>
         (\<forall>j. 0 \<le> j \<and> j < int e \<longrightarrow> slot_key t (int (home (length t) s) + j) \<noteq> None)"
proof -
  let ?h = "int (home (length t) s)"
  have ne: "t \<noteq> []" "length t > 0" using N by auto
  have idx: "hashmap_calc_index (length t) s = pos t ?h"
    using calc_index [OF N] home_less [OF ne(2), of s] by simp
  let ?P = "\<lambda>e. e < length t div 2 \<and> slot_key t (?h + int e) = None"
  have both: "(\<exists>e. ?P e \<and> (\<forall>j. 0 \<le> j \<and> j < int e \<longrightarrow> slot_key t (?h + j) \<noteq> None) \<and>
        (\<forall>fe. find_loop (length t div 2) t (length t) s fe (pos t ?h) =
           (if fe then Some (pos t (?h + int e)) else None))) \<or>
      (\<forall>fe. find_loop (length t div 2) t (length t) s fe (pos t ?h) = None)"
  proof (cases "\<exists>e. ?P e")
    case True
    define e where "e = (LEAST e. ?P e)"
    have e: "?P e" unfolding e_def using True by (rule LeastI_ex)
    have before: "slot_key t (?h + j) \<noteq> None" if "0 \<le> j \<and> j < int e" for j
    proof
      assume "slot_key t (?h + j) = None"
      with that e have "?P (nat j)" by auto
      then have "e \<le> nat j" unfolding e_def by (rule Least_le)
      with that show False by linarith
    qed
    have "find_loop (length t div 2) t (length t) s fe (pos t ?h) =
        (if fe then Some (pos t (?h + int e)) else None)" for fe
      using find_loop_hit [OF N, of e ?h s "length t div 2" fe] before absent e by auto
    with e before show ?thesis by blast
  next
    case False
    have "find_loop (length t div 2) t (length t) s fe (pos t ?h) = None" for fe
    proof (rule find_loop_miss [OF N], intro allI impI conjI)
      fix j :: int
      assume "0 \<le> j \<and> j < int (length t div 2)"
      with False have "slot_key t (?h + int (nat j)) \<noteq> None" by (metis nat_less_iff)
      with \<open>0 \<le> j \<and> _\<close> show "slot_key t (?h + j) \<noteq> None" by simp
    qed (rule absent)
    then show ?thesis by blast
  qed
  then show "find_loop (MAP_PROBE_LEN (length t)) t (length t) s False (hashmap_calc_index (length t) s) = None"
    by (auto simp: idx MAP_PROBE_LEN_half)
  from both show "find_loop (MAP_PROBE_LEN (length t)) t (length t) s True (hashmap_calc_index (length t) s) = Some n \<Longrightarrow>
      \<exists>e < length t div 2. n = pos t (?h + int e) \<and> slot_key t (?h + int e) = None \<and>
         (\<forall>j. 0 \<le> j \<and> j < int e \<longrightarrow> slot_key t (?h + j) \<noteq> None)"
    unfolding idx MAP_PROBE_LEN_half by (metis option.distinct(1) option.inject)
qed

subsection \<open>Changing the table\<close>

definition occupied :: "map_elem \<Rightarrow> bool" where
  "occupied e \<longleftrightarrow> me_key e \<noteq> None"

lemma mset_entries_update:
  assumes "n < length t"
  shows "mset (entries (t[n := e])) =
    mset (entries t) - (if occupied (t ! n) then {#t ! n#} else {#}) + (if occupied e then {#e#} else {#})"
proof -
  obtain M where M: "mset t = add_mset (t ! n) M"
    using multi_member_split [of "t ! n" "mset t"] nth_mem [OF assms] by auto
  then have "mset (t[n := e]) = add_mset e M" using assms by (simp add: mset_update)
  with M show ?thesis by (simp add: entries_def occupied_def)
qed

lemma assoc_mset: "mset (entries t) = mset (entries t') \<Longrightarrow> mset (assoc t) = mset (assoc t')"
  by (simp add: assoc_def)

lemma map_of_assoc_mset:
  assumes "mset (assoc t) = mset ps" and "distinct (map fst ps)"
  shows "map_of (assoc t) = map_of ps" and "distinct (map fst (assoc t))"
proof -
  have m: "mset (map fst (assoc t)) = mset (map fst ps)" using assms(1) by simp
  with assms(2) show d: "distinct (map fst (assoc t))" using mset_eq_imp_distinct_iff by blast
  have "set (assoc t) = set ps" using assms(1) by (rule mset_eq_setD)
  with d assms(2) show "map_of (assoc t) = map_of ps" by (simp add: map_of_inject_set)
qed

text \<open>Filling an empty slot at the end of an unbroken path from the key's home.\<close>

lemma probe_ok_fill:
  assumes N: "length t = 2 ^ k" and ok: "probe_ok t" and e: "e < length t div 2"
    and n: "n = pos t (int (home (length t) s) + int e)" and x: "map_option key_str (me_key x) = Some s"
    and path: "\<forall>j. 0 \<le> j \<and> j < int e \<longrightarrow> slot_key t (int (home (length t) s) + j) \<noteq> None"
  shows "probe_ok (t[n := x])"
  unfolding probe_ok_def
proof (intro allI impI)
  let ?t = "t[n := x]" and ?N = "length t"
  let ?h = "int (home ?N s)"
  have ne: "t \<noteq> []" "?N > 0" using N by auto
  have lt: "n < ?N" using n pos_less [OF ne(1)] by simp
  have sk: "slot_key ?t j = (if pos t j = n then Some s else slot_key t j)" for j
    using slot_key_upd [OF ne(1) lt] x by simp
  fix i s'
  assume i: "slot_key ?t i = Some s'"
  show "disp (length ?t) i s' < int (length ?t div 2) \<and>
      (\<forall>j. i - disp (length ?t) i s' \<le> j \<and> j \<le> i \<longrightarrow> slot_key ?t j \<noteq> None)"
  proof (cases "pos t i = n")
    case True
    then have s': "s' = s" using i sk by simp
    have c: "i mod int ?N = (?h + int e) mod int ?N" using True n ne(1) by (simp add: pos_eq_iff)
    then have "disp ?N i s = (?h + int e - ?h) mod int ?N" unfolding disp_def by (rule mod_diff_cong) simp
    also have "\<dots> = int e" using e by simp
    finally have d: "disp ?N i s = int e" .
    have "slot_key ?t j \<noteq> None" if j: "i - int e \<le> j" "j \<le> i" for j
    proof (cases "j = i")
      case False
      have "slot_key t j = slot_key t (?h + (j - i + int e))"
      proof (rule slot_key_cong)
        have "(?h + int e + (j - i)) mod int ?N = (i + (j - i)) mod int ?N"
          using c by (metis mod_add_left_eq)
        then show "j mod int ?N = (?h + (j - i + int e)) mod int ?N" by (simp add: algebra_simps)
      qed
      moreover have "slot_key t (?h + (j - i + int e)) \<noteq> None"
        using path [rule_format, of "j - i + int e"] j False by simp
      ultimately show ?thesis by (simp add: sk)
    qed (simp add: sk True)
    with d e s' show ?thesis by simp
  next
    case False
    then have "slot_key t i = Some s'" using i sk by simp
    from probe_okD [OF ok this] show ?thesis by (simp add: sk)
  qed
qed

lemma table_ok_insert:
  assumes ok: "table_ok t" and absent: "\<And>i. slot_key t i \<noteq> Some s"
    and found: "find_loop (MAP_PROBE_LEN (length t)) t (length t) s True (hashmap_calc_index (length t) s) = Some n"
    and x: "map_option key_str (me_key x) = Some s" and d: "me_data x \<noteq> NULL"
  shows "n < length t" and "me_key (t ! n) = None" and "table_ok (t[n := x])"
    and "mset (entries (t[n := x])) = add_mset x (mset (entries t))"
    and "map_of (assoc (t[n := x])) = (map_of (assoc t))(s \<mapsto> me_data x)"
proof -
  from ok obtain k where k: "1 \<le> k" "length t = 2 ^ k" "t \<noteq> []" "length t > 0"
    "distinct (map fst (assoc t))" "probe_ok t" by (rule table_okE)
  from find_absent(2) [OF k(2) absent found] obtain e where e: "e < length t div 2"
    "n = pos t (int (home (length t) s) + int e)" "slot_key t (int (home (length t) s) + int e) = None"
    "\<forall>j. 0 \<le> j \<and> j < int e \<longrightarrow> slot_key t (int (home (length t) s) + j) \<noteq> None" by blast
  show n: "n < length t" using e(2) pos_less [OF k(3)] by simp
  show emp: "me_key (t ! n) = None" using e(2,3) by (simp add: slot_key_def)
  have "occupied x" using x by (auto simp: occupied_def)
  then show m: "mset (entries (t[n := x])) = add_mset x (mset (entries t))"
    using mset_entries_update [OF n, of x] emp by (simp add: occupied_def)
  have pair: "entry_pair x = (s, me_data x)" using x by (auto simp: entry_pair_def)
  have ma: "mset (assoc (t[n := x])) = mset ((s, me_data x) # assoc t)"
    using m pair by (simp add: assoc_def)
  have new: "s \<notin> fst ` set (assoc t)" using absent assoc_slot by (metis imageE prod.collapse)
  then have dist: "distinct (map fst ((s, me_data x) # assoc t))" using k(5) by simp
  from map_of_assoc_mset [OF ma dist]
  show "map_of (assoc (t[n := x])) = (map_of (assoc t))(s \<mapsto> me_data x)" by simp
  have "NULL \<notin> snd ` set (assoc (t[n := x]))"
    using mset_eq_setD [OF ma] ok d by (auto simp: table_ok_def)
  moreover have "probe_ok (t[n := x])" by (rule probe_ok_fill [OF k(2,6) e(1,2) x e(4)])
  ultimately show "table_ok (t[n := x])"
    using map_of_assoc_mset(2) [OF ma dist] k(1,2) by (auto simp: table_ok_def)
qed

text \<open>Replacing the value at a key.\<close>

lemma table_ok_update:
  assumes ok: "table_ok t" and n: "n < length t" and s: "map_option key_str (me_key (t ! n)) = Some s"
    and d: "d \<noteq> NULL"
  defines "x \<equiv> (t ! n)\<lparr>me_data := d\<rparr>"
  shows "table_ok (t[n := x])" and "length (entries (t[n := x])) = length (entries t)"
    and "map_of (assoc (t[n := x])) = (map_of (assoc t))(s \<mapsto> d)"
proof -
  from ok obtain k where k: "1 \<le> k" "length t = 2 ^ k" "t \<noteq> []" "length t > 0"
    "distinct (map fst (assoc t))" "probe_ok t" by (rule table_okE)
  have occ: "occupied (t ! n)" "occupied x" using s by (auto simp: occupied_def x_def)
  have "t ! n \<in># mset (entries t)" using n occ by (auto simp: entries_def occupied_def)
  then obtain M where m: "mset (entries t) = add_mset (t ! n) M" by (rule mset_add)
  then have m': "mset (entries (t[n := x])) = add_mset x M"
    using mset_entries_update [OF n, of x] occ by simp
  then have "size (mset (entries (t[n := x]))) = size (mset (entries t))"
    using m by simp
  then show "length (entries (t[n := x])) = length (entries t)" by simp
  obtain ps where ps: "mset ps = image_mset entry_pair M"
    using ex_mset by blast
  have pair: "entry_pair (t ! n) = (s, me_data (t ! n))" "entry_pair x = (s, d)"
    using s by (auto simp: entry_pair_def x_def)
  have a: "mset (assoc t) = mset ((s, me_data (t ! n)) # ps)" "mset (assoc (t[n := x])) = mset ((s, d) # ps)"
    using m m' ps pair by (simp_all add: assoc_def)
  have "mset (map fst (assoc t)) = mset (map fst ((s, me_data (t ! n)) # ps))" using a(1) by simp
  then have dist: "distinct (map fst ((s, me_data (t ! n)) # ps))"
    using k(5) mset_eq_imp_distinct_iff by blast
  then have dist': "distinct (map fst ((s, d) # ps))" by simp
  show "map_of (assoc (t[n := x])) = (map_of (assoc t))(s \<mapsto> d)"
    using map_of_assoc_mset(1) [OF a(1) dist] map_of_assoc_mset(1) [OF a(2) dist'] by simp
  have sk: "slot_key (t[n := x]) j = slot_key t j" for j
    using slot_key_upd [OF k(3) n, of x j] s by (auto simp: x_def slot_key_def)
  have "probe_ok (t[n := x])" using k(6) by (simp add: probe_ok_def sk)
  moreover have "NULL \<notin> snd ` set (assoc (t[n := x]))"
    using mset_eq_setD [OF a(2)] mset_eq_setD [OF a(1)] ok d by (auto simp: table_ok_def)
  ultimately show "table_ok (t[n := x])"
    using map_of_assoc_mset(2) [OF a(2) dist'] k(1,2) by (auto simp: table_ok_def)
qed

subsection \<open>Counting\<close>

lemma occupied_run:
  assumes "t \<noteq> []" and "n \<le> length t" and "\<forall>j. 0 \<le> j \<and> j < int n \<longrightarrow> slot_key t (a + j) \<noteq> None"
  shows "n \<le> length (entries t)"
proof -
  let ?f = "\<lambda>j. pos t (a + int j)"
  have "inj_on ?f {..<n}"
  proof (rule inj_onI)
    fix i j
    assume ij: "i \<in> {..<n}" "j \<in> {..<n}" "?f i = ?f j"
    then have "(a + int i) mod int (length t) = (a + int j) mod int (length t)"
      using assms(1) by (simp add: pos_eq_iff)
    then have "int (length t) dvd (a + int i) - (a + int j)" by (simp add: mod_eq_dvd_iff)
    then have "int (length t) dvd int i - int j" by simp
    moreover have "\<bar>int i - int j\<bar> < int (length t)" using ij(1,2) assms(2) by auto
    ultimately show "i = j" using zdvd_imp_le [of "int (length t)" "\<bar>int i - int j\<bar>"] by force
  qed
  moreover have "?f ` {..<n} \<subseteq> {i. i < length t \<and> occupied (t ! i)}"
    using assms(3) pos_less [OF assms(1)] by (auto simp: occupied_def slot_key_def)
  ultimately have "n \<le> card {i. i < length t \<and> occupied (t ! i)}"
    by (metis card_inj_on_le card_lessThan finite_Collect_conjI finite_Collect_less_nat)
  then show ?thesis by (simp add: entries_def occupied_def length_filter_conv_card)
qed

subsection \<open>Growth\<close>

lemma entries_empty [simp]: "entries (replicate n empty_elem) = []"
  by (simp add: entries_def empty_elem_def)

lemma slot_key_empty: "n > 0 \<Longrightarrow> slot_key (replicate n empty_elem) i = None"
  using pos_less [of "replicate n empty_elem" i] by (simp add: slot_key_def empty_elem_def)

lemma table_ok_empty: "1 \<le> k \<Longrightarrow> table_ok (replicate (2 ^ k) empty_elem)"
  by (auto simp: table_ok_def assoc_def probe_ok_def slot_key_empty)

lemma rehash_loop_ok:
  "rehash_loop es m = Some m' \<Longrightarrow> table_ok (table m) \<Longrightarrow> table_size m = length (table m) \<Longrightarrow>
   distinct (map fst (assoc es @ assoc (table m))) \<Longrightarrow> NULL \<notin> snd ` set (assoc es) \<Longrightarrow>
   table_ok (table m') \<and> mset (entries (table m')) = mset (entries es) + mset (entries (table m)) \<and>
   m' = m\<lparr>table := table m'\<rparr> \<and> length (table m') = length (table m)"
proof (induction es arbitrary: m)
  case Nil
  then show ?case by (simp add: entries_def)
next
  case (Cons e es)
  show ?case
  proof (cases "me_key e")
    case None
    with Cons.prems have "rehash_loop es m = Some m'" by simp
    from Cons.IH [OF this Cons.prems(2,3)] Cons.prems(4,5) None show ?thesis
      by (simp add: assoc_def entries_def)
  next
    case (Some k)
    with Cons.prems(1) obtain i where i: "hashmap_entry_find m (key_str k) True = Some i"
      "rehash_loop es (m\<lparr>table := (table m)[i := e]\<rparr>) = Some m'" by (auto split: option.splits)
    have e: "assoc (e # es) = (key_str k, me_data e) # assoc es" "entries (e # es) = e # entries es"
      using Some by (simp_all add: assoc_def entries_def entry_pair_def)
    have ne: "table m \<noteq> []" using Cons.prems(2) by (rule table_okE)
    have absent: "slot_key (table m) j \<noteq> Some (key_str k)" for j
    proof
      assume "slot_key (table m) j = Some (key_str k)"
      from slot_key_entry [OF ne this] have "key_str k \<in> fst ` set (assoc (table m))"
        by (metis fst_conv image_eqI)
      with Cons.prems(4) e(1) show False by simp
    qed
    have "find_loop (MAP_PROBE_LEN (length (table m))) (table m) (length (table m)) (key_str k) True
        (hashmap_calc_index (length (table m)) (key_str k)) = Some i"
      using i(1) Cons.prems(3) by (simp add: hashmap_entry_find_def)
    note ins = table_ok_insert [OF Cons.prems(2) absent this, of e]
    have key: "map_option key_str (me_key e) = Some (key_str k)" "me_data e \<noteq> NULL"
      using Some Cons.prems(5) e(1) by auto
    note ins = ins [OF key]
    let ?m = "m\<lparr>table := (table m)[i := e]\<rparr>"
    have ma: "mset (assoc (table ?m)) = mset ((key_str k, me_data e) # assoc (table m))"
      using ins(4) Some by (simp add: assoc_def entry_pair_def)
    have "mset (map fst (assoc es @ assoc (table ?m))) =
        mset (map fst (assoc (e # es) @ assoc (table m)))"
      using ma e(1) by simp
    then have "distinct (map fst (assoc es @ assoc (table ?m)))"
      using Cons.prems(4) mset_eq_imp_distinct_iff by blast
    with Cons.IH [OF i(2)] ins(3,4) Cons.prems(3,5) e
    show ?thesis by simp
  qed
qed

lemma hashmap_rehash_ok:
  assumes ok: "map_ok m"
  obtains m' where "hashmap_rehash cal m = (0, m')" and "map_ok m'" and "map_abs m' = map_abs m"
      and "m_length m' = m_length m" and "m_flags m' = m_flags m" and "m_dtor m' = m_dtor m"
      and "table_size m' = 2 * table_size m"
    | "hashmap_rehash cal m = (- ENOMEM, m)"
proof (cases "cal = NULL")
  case True
  then show ?thesis using that(2) by (simp add: hashmap_rehash_def)
next
  case False
  let ?sz = "push_bit 1 (table_size m)"
  let ?m = "m\<lparr>table_size := ?sz, table := replicate ?sz empty_elem\<rparr>"
  show ?thesis
  proof (cases "rehash_loop (table m) ?m")
    case None
    with False show ?thesis using that(2) by (simp add: hashmap_rehash_def Let_def)
  next
    case (Some m')
    from ok have t: "table_ok (table m)" and sz: "table_size m = length (table m)"
      and len: "m_length m = length (entries (table m))" by (simp_all add: map_ok_def)
    from t obtain k where k: "1 \<le> k" "length (table m) = 2 ^ k" "distinct (map fst (assoc (table m)))"
      by (rule table_okE)
    have dbl: "?sz = 2 ^ Suc k" using sz k(2) by (simp add: push_bit_eq_mult)
    have "table_ok (table ?m)" unfolding dbl using table_ok_empty [of "Suc k"] by simp
    moreover have "NULL \<notin> snd ` set (assoc (table m))" using t by (simp add: table_ok_def)
    moreover have "table_size ?m = length (table ?m)" by simp
    moreover have "distinct (map fst (assoc (table m) @ assoc (table ?m)))"
      using k(3) by (simp add: assoc_def)
    ultimately have m': "table_ok (table m')" "mset (entries (table m')) = mset (entries (table m))"
      "m' = ?m\<lparr>table := table m'\<rparr>" "length (table m') = ?sz"
      using rehash_loop_ok [OF Some] by auto
    have f: "m_length m' = m_length m" "m_flags m' = m_flags m" "m_dtor m' = m_dtor m"
      "table_size m' = ?sz" by (subst m'(3), simp)+
    have "map_ok m'"
      using m' f len by (simp add: map_ok_def flip: size_mset)
    moreover have "map_abs m' = map_abs m"
      unfolding map_abs_def by (rule map_of_assoc_mset(1) [OF assoc_mset [OF m'(2)] k(3)])
    ultimately show ?thesis
      using that(1) [of m'] False Some f by (simp add: hashmap_rehash_def Let_def push_bit_eq_mult)
  qed
qed

subsection \<open>Insertion\<close>

lemma map_abs_None_iff: "map_ok m \<Longrightarrow> map_abs m s = None \<longleftrightarrow> (\<forall>i. slot_key (table m) i \<noteq> Some s)"
proof -
  assume ok: "map_ok m"
  then have ne: "table m \<noteq> []" unfolding map_ok_def using table_okE by blast
  show ?thesis
  proof
    assume "map_abs m s = None"
    with ne show "\<forall>i. slot_key (table m) i \<noteq> Some s" using map_abs_NoneD by blast
  next
    assume *: "\<forall>i. slot_key (table m) i \<noteq> Some s"
    show "map_abs m s = None"
    proof (rule ccontr)
      assume "map_abs m s \<noteq> None"
      then obtain d where "(s, d) \<in> set (assoc (table m))" by (auto simp: map_abs_def dest: map_of_SomeD)
      with * show False by (metis assoc_slot)
    qed
  qed
qed

text \<open>The entry found for a key, in a well-formed map.\<close>

lemma entry_find_present:
  assumes ok: "map_ok m" and s: "map_abs m s = Some d"
  obtains n where "hashmap_entry_find m s fe = Some n" and "n < length (table m)"
    and "map_option key_str (me_key (table m ! n)) = Some s" and "me_data (table m ! n) = d"
    and "slot_key (table m) (int n) = Some s"
proof -
  from s have "(s, d) \<in> set (assoc (table m))" by (auto simp: map_abs_def dest: map_of_SomeD)
  then obtain n where n: "n < length (table m)" "slot_key (table m) (int n) = Some s"
    "me_data (table m ! n) = d" by (rule assoc_slot)
  from ok have "table_ok (table m)" "table_size m = length (table m)" by (simp_all add: map_ok_def)
  with find_present [OF this(1) n(2), of fe] n
  show ?thesis by (intro that [of n]) (simp_all add: hashmap_entry_find_def slot_key_def)
qed

lemma entry_find_absent:
  assumes ok: "map_ok m" and s: "map_abs m s = None"
  shows "hashmap_entry_find m s False = None"
    and "hashmap_entry_find m s True = Some n \<Longrightarrow>
      find_loop (MAP_PROBE_LEN (length (table m))) (table m) (length (table m)) s True
        (hashmap_calc_index (length (table m)) s) = Some n"
    and "\<And>i. slot_key (table m) i \<noteq> Some s"
proof -
  from ok have t: "table_ok (table m)" "table_size m = length (table m)" by (simp_all add: map_ok_def)
  show abs: "\<And>i. slot_key (table m) i \<noteq> Some s" using s map_abs_None_iff [OF ok] by blast
  from t(1) obtain k where "length (table m) = 2 ^ k" by (rule table_okE)
  from find_absent(1) [OF this abs] show "hashmap_entry_find m s False = None"
    by (simp add: hashmap_entry_find_def t(2))
  show "hashmap_entry_find m s True = Some n \<Longrightarrow>
      find_loop (MAP_PROBE_LEN (length (table m))) (table m) (length (table m)) s True
        (hashmap_calc_index (length (table m)) s) = Some n"
    by (simp add: hashmap_entry_find_def t(2))
qed

text \<open>The three possible outcomes of an insertion.\<close>

definition put_outcome ::
    "'w m_map \<Rightarrow> string \<Rightarrow> ptr \<Rightarrow> 'w \<Rightarrow> int \<times> 'w m_map \<times> 'w \<Rightarrow> bool" where
  "put_outcome m s value w res \<longleftrightarrow> (case res of (r, m', w') \<Rightarrow>
     map_ok m' \<and> m_flags m' = m_flags m \<and> m_dtor m' = m_dtor m \<and>
     (if r = 0 then
        map_abs m' = (map_abs m)(s \<mapsto> value) \<and>
        (map_abs m s = None \<or> m_flags m AND M_MAP_VAL_ALLOW_UPDATE \<noteq> 0) \<and>
        w' = (case map_abs m s of None \<Rightarrow> w
              | Some old \<Rightarrow> if old \<noteq> value then call_dtor (m_dtor m) old w else w)
      else map_abs m' = map_abs m \<and> w' = w \<and>
        (r = - ENOMEM \<or> r = - EPERM \<and> map_abs m s \<noteq> None \<and> m_flags m AND M_MAP_VAL_ALLOW_UPDATE = 0)))"

lemma put_at_ok:
  assumes ok: "map_ok m" and n: "hashmap_entry_find m (key_str key) True = Some n" and v: "value \<noteq> NULL"
  shows "put_outcome m (key_str key) value w (put_at m n key value w)"
    and "fst (put_at m n key value w) \<noteq> - ENOMEM"
proof -
  show "fst (put_at m n key value w) \<noteq> - ENOMEM" by (simp add: put_at_def Let_def)
  from ok have t: "table_ok (table m)" and sz: "table_size m = length (table m)"
    and len: "m_length m = length (entries (table m))" by (simp_all add: map_ok_def)
  show "put_outcome m (key_str key) value w (put_at m n key value w)"
  proof (cases "map_abs m (key_str key)")
    case None
    let ?x = "(table m ! n)\<lparr>me_key := Some key, me_data := value\<rparr>"
    note ins = table_ok_insert [OF t entry_find_absent(3) [OF ok None] entry_find_absent(2) [OF ok None n], of ?x]
    have "put_at m n key value w = (0, m\<lparr>m_length := m_length m + 1, table := (table m)[n := ?x]\<rparr>, w)"
      using ins(2) v by (simp add: put_at_def Let_def)
    moreover have "length (entries ((table m)[n := ?x])) = m_length m + 1"
    proof -
      have "mset (entries ((table m)[n := ?x])) = add_mset ?x (mset (entries (table m)))"
        using v by (intro ins(4)) simp_all
      then have "size (mset (entries ((table m)[n := ?x]))) = size (mset (entries (table m))) + 1" by simp
      then show ?thesis using len by simp
    qed
    ultimately show ?thesis
      using ins(3,5) v None sz by (simp add: put_outcome_def map_ok_def map_abs_def)
  next
    case (Some d)
    obtain n' where n': "hashmap_entry_find m (key_str key) True = Some n'" "n' < length (table m)"
      "map_option key_str (me_key (table m ! n')) = Some (key_str key)" "me_data (table m ! n') = d"
      by (rule entry_find_present [OF ok Some])
    with n have nn: "n' = n" by simp
    note up = table_ok_update [OF t n'(2,3) v, unfolded nn]
    show ?thesis
      using up ok Some n' nn by (auto simp: put_outcome_def put_at_def Let_def map_ok_def map_abs_def)
  qed
qed

lemma half_full_find:
  assumes ok: "map_ok m" and "m_length m < table_size m div 2"
  shows "hashmap_entry_find m s True \<noteq> None"
proof (cases "map_abs m s")
  case (Some d)
  then show ?thesis using entry_find_present [OF ok Some, of True] by (metis option.distinct(1))
next
  case None
  from ok have t: "table_ok (table m)" "table_size m = length (table m)"
    "m_length m = length (entries (table m))" by (simp_all add: map_ok_def)
  from t(1) obtain k where k: "length (table m) = 2 ^ k" "table m \<noteq> []" "length (table m) > 0"
    by (rule table_okE)
  let ?h = "int (home (length (table m)) s)"
  let ?P = "\<lambda>e. slot_key (table m) (?h + int e) = None"
  have "\<exists>e < length (table m) div 2. ?P e"
  proof (rule ccontr)
    assume a: "\<not> (\<exists>e < length (table m) div 2. ?P e)"
    have "length (table m) div 2 \<le> length (entries (table m))"
    proof (rule occupied_run [OF k(2)], simp, intro allI impI)
      fix j :: int
      assume "0 \<le> j \<and> j < int (length (table m) div 2)"
      with a have "\<not> ?P (nat j)" by (metis nat_less_iff)
      with \<open>0 \<le> j \<and> _\<close> show "slot_key (table m) (?h + j) \<noteq> None" by simp
    qed
    with assms(2) t show False by simp
  qed
  then have ex: "\<exists>e. e < length (table m) div 2 \<and> ?P e" by blast
  define e where "e = (LEAST e. e < length (table m) div 2 \<and> ?P e)"
  have e: "e < length (table m) div 2" "?P e" using LeastI_ex [OF ex] by (simp_all add: e_def)
  have before: "slot_key (table m) (?h + j) \<noteq> None" if "0 \<le> j \<and> j < int e" for j
  proof
    assume "slot_key (table m) (?h + j) = None"
    with that e have "nat j < length (table m) div 2 \<and> ?P (nat j)" by auto
    then have "e \<le> nat j" unfolding e_def by (rule Least_le)
    with that show False by linarith
  qed
  have "find_loop (length (table m) div 2) (table m) (length (table m)) s True (pos (table m) ?h) =
      Some (pos (table m) (?h + int e))"
    using find_loop_hit [OF k(1), of e ?h s "length (table m) div 2" True] before
      entry_find_absent(3) [OF ok None] e by auto
  then show ?thesis
    using calc_index [OF k(1)] home_less [OF k(3), of s]
    by (simp add: hashmap_entry_find_def t(2) MAP_PROBE_LEN_half)
qed

lemma put_outcome_rehashed:
  assumes "map_abs m1 = map_abs m" and "m_flags m1 = m_flags m" and "m_dtor m1 = m_dtor m"
  shows "put_outcome m1 s value w res = put_outcome m s value w res"
  using assms by (cases "map_abs m s") (simp_all add: put_outcome_def)

lemma put_outcome_nomem: "map_ok m \<Longrightarrow> put_outcome m s value w (- ENOMEM, m, w)"
  by (simp add: put_outcome_def)

text \<open>After the optional growth: search, and grow once more when no slot is found.\<close>

lemma put_search_ok:
  assumes ok: "map_ok m" and v: "value \<noteq> NULL"
  shows "put_outcome m (key_str key) value w
    (case hashmap_entry_find m (key_str key) True of
       Some i \<Rightarrow> put_at m i key value w
     | None \<Rightarrow> let (ret, m) = hashmap_rehash cal m in
         if ret \<noteq> 0 then (ret, m, w)
         else case hashmap_entry_find m (key_str key) True of
           Some i \<Rightarrow> put_at m i key value w | None \<Rightarrow> (- ENOMEM, m, w))"
proof (cases "hashmap_entry_find m (key_str key) True")
  case (Some i)
  with put_at_ok(1) [OF ok Some v] show ?thesis by simp
next
  case None
  show ?thesis
  proof (rule hashmap_rehash_ok [OF ok, of cal])
    fix m1
    assume m1: "hashmap_rehash cal m = (0, m1)" "map_ok m1" "map_abs m1 = map_abs m"
      "m_flags m1 = m_flags m" "m_dtor m1 = m_dtor m"
    show ?thesis
    proof (cases "hashmap_entry_find m1 (key_str key) True")
      case (Some i)
      with None m1 put_at_ok(1) [OF m1(2) Some v, of w] put_outcome_rehashed [OF m1(3-5)]
      show ?thesis by simp
    next
      case find: None
      with None m1 put_outcome_nomem [OF m1(2), of "key_str key" "value" w] put_outcome_rehashed [OF m1(3-5)]
      show ?thesis by simp
    qed
  next
    assume "hashmap_rehash cal m = (- ENOMEM, m)"
    with None put_outcome_nomem [OF ok] show ?thesis by simp
  qed
qed

lemma hashmap_put_ok:
  assumes ok: "map_ok m" and v: "value \<noteq> NULL"
  shows "put_outcome m (key_str key) value w (hashmap_put cal1 cal2 m (Some key) value w)"
proof (cases "table_size m \<le> hashmap_table_min_size_calc (m_length m)")
  case True
  show ?thesis
  proof (rule hashmap_rehash_ok [OF ok, of cal1])
    fix m1
    assume m1: "hashmap_rehash cal1 m = (0, m1)" "map_ok m1" "map_abs m1 = map_abs m"
      "m_flags m1 = m_flags m" "m_dtor m1 = m_dtor m"
    with True put_search_ok [OF m1(2) v, of key w cal2] put_outcome_rehashed [OF m1(3-5)]
    show ?thesis by (simp add: hashmap_put_def)
  next
    assume "hashmap_rehash cal1 m = (- ENOMEM, m)"
    with True put_outcome_nomem [OF ok] show ?thesis by (simp add: hashmap_put_def)
  qed
next
  case False
  with put_search_ok [OF ok v, of key w cal2] show ?thesis by (simp add: hashmap_put_def)
qed

lemma hashmap_put_half_full:
  assumes ok: "map_ok m" and v: "value \<noteq> NULL" and half: "m_length m < table_size m div 2"
  shows "fst (hashmap_put cal1 cal2 m (Some key) value w) \<noteq> - ENOMEM"
proof -
  obtain n where n: "hashmap_entry_find m (key_str key) True = Some n"
    using half_full_find [OF ok half] by blast
  have "\<not> table_size m \<le> hashmap_table_min_size_calc (m_length m)"
    using half by (simp add: hashmap_table_min_size_calc_def)
  with n put_at_ok(2) [OF ok n v, of w] show ?thesis by (simp add: hashmap_put_def)
qed

subsection \<open>Removal\<close>

text \<open>
  A table with a hole at \<open>h\<close>: empty there, and otherwise well formed but for the paths that lead
  over the hole.
\<close>

definition hole_ok :: "map_elem list \<Rightarrow> int \<Rightarrow> bool" where
  "hole_ok t h \<longleftrightarrow> slot_key t h = None \<and>
     (\<forall>i s. slot_key t i = Some s \<longrightarrow> disp (length t) i s < int (length t div 2) \<and>
        (\<forall>j. i - disp (length t) i s \<le> j \<and> j \<le> i \<longrightarrow>
           slot_key t j \<noteq> None \<or> j mod int (length t) = h mod int (length t)))"

lemma near_not_cong:
  fixes a b :: int
  assumes "a < b" and "b < a + N"
  shows "a mod N \<noteq> b mod N"
proof
  assume "a mod N = b mod N"
  then have "N dvd b - a" by (simp add: mod_eq_dvd_iff dvd_diff_commute)
  with assms show False using zdvd_not_zless [of "b - a" N] by simp
qed

text \<open>At an empty slot the paths that lead over the hole have all been dealt with.\<close>

lemma hole_closed:
  assumes ne: "length t > 0" and hole: "hole_ok t h" and D: "h < D" "D \<le> h + int (length t div 2)"
    and emp: "slot_key t D = None"
    and before: "\<And>i s. h < i \<Longrightarrow> i < D \<Longrightarrow> slot_key t i = Some s \<Longrightarrow> h < i - disp (length t) i s"
  shows "probe_ok t"
  unfolding probe_ok_def
proof (intro allI impI conjI)
  let ?N = "int (length t)"
  fix i s
  assume i: "slot_key t i = Some s"
  let ?d = "disp (length t) i s"
  show d: "?d < int (length t div 2)" using hole i by (auto simp: hole_ok_def)
  have d0: "0 \<le> ?d" using disp_bounds [OF ne] by simp
  fix j
  assume j: "i - ?d \<le> j \<and> j \<le> i"
  show "slot_key t j \<noteq> None"
  proof
    assume none: "slot_key t j = None"
    with hole i j have jh: "j mod ?N = h mod ?N" unfolding hole_ok_def by blast
    define q where "q = (j - h) div ?N"
    have "?N dvd j - h" using jh by (simp add: mod_eq_dvd_iff)
    then have q: "j = h + ?N * q" by (simp add: q_def)
    define i' where "i' = i - ?N * q"
    have i'c: "i' mod ?N = i mod ?N" by (simp add: i'_def mod_eq_dvd_iff)
    then have i': "slot_key t i' = Some s" using i slot_key_cong by metis
    have d': "disp (length t) i' s = ?d" using i'c disp_mod by metis
    have path: "i' - ?d \<le> h" "h \<le> i'" using j q by (simp_all add: i'_def)
    have "h \<noteq> i'" using i' hole by (auto simp: hole_ok_def)
    with path have lt: "h < i'" by simp
    consider "i' < D" | "i' = D" | "D < i'" by linarith
    then show False
    proof cases
      case 1
      with before [OF lt 1 i'] d' path show False by simp
    next
      case 2
      with i' emp show False by simp
    next
      case 3
      with path have "i' - disp (length t) i' s \<le> D \<and> D \<le> i'" using D d' by simp
      with hole i' have "slot_key t D \<noteq> None \<or> D mod ?N = h mod ?N" unfolding hole_ok_def by blast
      moreover have "D < h + ?N" using D(2) ne by linarith
      ultimately show False using emp near_not_cong [OF D(1)] by metis
    qed
  qed
qed

lemma index_le_disp:
  assumes N: "length t = 2 ^ k" "1 \<le> k" and x: "0 < x - h" "x - h < int (length t div 2)"
    and d: "disp (length t) x s < int (length t div 2)"
  shows "MAP_INDEX_LE (length t) (pos t h) (hashmap_calc_index (length t) s) \<longleftrightarrow> x - h \<le> disp (length t) x s"
proof -
  let ?N = "int (length t)" and ?d = "disp (length t) x s"
  have pos': "length t > 0" "t \<noteq> []" using N by auto
  have half: "?N = 2 * int (length t div 2)" using N by (cases k) simp_all
  have d0: "0 \<le> ?d" using disp_bounds [OF pos'(1)] by simp
  have "(int (pos t h) - int (home (length t) s)) mod ?N = (h - int (home (length t) s)) mod ?N"
    using pos'(2) by (simp add: int_pos mod_simps)
  also have "\<dots> = (h - x + ?d) mod ?N"
  proof -
    have "(h - x + ?d) mod ?N = (h - x + (x - int (home (length t) s))) mod ?N"
      unfolding disp_def by (rule mod_add_right_eq)
    then show ?thesis by simp
  qed
  also have "\<dots> \<le> int (length t div 2) \<longleftrightarrow> x - h \<le> ?d"
  proof (cases "x - h \<le> ?d")
    case True
    then have "(h - x + ?d) mod ?N = h - x + ?d" using x d half by (intro mod_pos_pos_trivial) auto
    with True x d show ?thesis by simp
  next
    case False
    then have "(h - x + ?d) mod ?N = h - x + ?d + ?N"
      using x d d0 half by (intro int_mod_pos_eq [of _ _ "- 1"]) auto
    with False x d0 half show ?thesis by simp
  qed
  finally show ?thesis
    using MAP_INDEX_LE_mod [OF N pos_less [OF pos'(2)] home_less [OF pos'(1)]] calc_index [OF N(1)]
    by simp
qed

text \<open>Moving the entry at \<open>x\<close> into the hole at \<open>h\<close> on its path moves the hole to \<open>x\<close>.\<close>

lemma hole_move:
  assumes ne: "length t > 0" and h: "h < x" "x < h + int (length t)"
    and hole: "hole_ok (t[pos t h := empty_elem]) h"
    and x: "slot_key t x = Some s" and d: "x - h \<le> disp (length t) x s"
  defines "u \<equiv> t[pos t h := t ! pos t x, pos t x := empty_elem]"
  shows "hole_ok u x" and "mset (entries u) = mset (entries (t[pos t h := empty_elem]))"
    and "\<And>i. pos t i \<noteq> pos t h \<Longrightarrow> pos t i \<noteq> pos t x \<Longrightarrow>
      slot_key u i = slot_key (t[pos t h := empty_elem]) i"
proof -
  let ?v = "t[pos t h := empty_elem]" and ?N = "int (length t)"
  have t: "t \<noteq> []" using ne by auto
  note pl = pos_less [OF t]
  have hx: "pos t h \<noteq> pos t x" using near_not_cong [OF h] pos_eq_iff [OF t] by blast
  have v: "slot_key ?v i = (if pos t i = pos t h then None else slot_key t i)" for i
    using slot_key_upd [OF t pl] by (simp add: empty_elem_def)
  have pu: "pos (t[n := y]) i = pos t i" for n y i by (simp add: pos_def)
  have u: "slot_key u i = (if pos t i = pos t x then None else if pos t i = pos t h then Some s
      else slot_key t i)" for i
    using x t pl pos_less [of "t[pos t h := t ! pos t x]"]
    by (simp add: u_def slot_key_upd pu) (simp add: slot_key_def empty_elem_def)
  show "\<And>i. pos t i \<noteq> pos t h \<Longrightarrow> pos t i \<noteq> pos t x \<Longrightarrow> slot_key u i = slot_key ?v i"
    by (simp add: u v)
  have "mset u = mset ?v"
    using pl hx by (simp add: u_def mset_update nth_list_update)
  then show "mset (entries u) = mset (entries ?v)" by (simp add: entries_def mset_filter)
  have len: "length u = length t" "length ?v = length t" by (simp_all add: u_def)
  show "hole_ok u x"
    unfolding hole_ok_def len
  proof (intro conjI allI impI)
    show "slot_key u x = None" by (simp add: u)
    have vx: "slot_key ?v x = Some s" using x hx by (simp add: v)
    have path: "slot_key ?v j \<noteq> None \<or> j mod ?N = h mod ?N"
      if "slot_key ?v i = Some s'" "i - disp (length t) i s' \<le> j" "j \<le> i" for i s' j
      using hole that unfolding hole_ok_def len by blast
    have dl: "disp (length t) i s' < int (length t div 2)" if "slot_key ?v i = Some s'" for i s'
      using hole that unfolding hole_ok_def len by blast
    fix i s'
    assume i: "slot_key u i = Some s'"
    then have nx: "pos t i \<noteq> pos t x" by (auto simp: u)
    have both: "disp (length t) i s' < int (length t div 2) \<and>
        (\<forall>j. i - disp (length t) i s' \<le> j \<and> j \<le> i \<longrightarrow> slot_key u j \<noteq> None \<or> j mod ?N = x mod ?N)"
    proof (cases "pos t i = pos t h")
      case True
      then have s': "s' = s" using i nx by (simp add: u)
      have ih: "i mod ?N = h mod ?N" using True pos_eq_iff [OF t] by blast
      let ?d = "disp (length t) x s"
      have "disp (length t) i s = (?d - (x - h)) mod ?N"
      proof -
        have "(?d - (x - h)) mod ?N = (x - int (home (length t) s) - (x - h)) mod ?N"
          unfolding disp_def by (rule mod_diff_left_eq)
        also have "\<dots> = (i - int (home (length t) s)) mod ?N"
        proof -
          have "x - int (home (length t) s) - (x - h) = h - int (home (length t) s)" by simp
          then show ?thesis using mod_diff_cong [OF ih refl, of "int (home (length t) s)"] by metis
        qed
        finally show ?thesis by (simp add: disp_def)
      qed
      also have "\<dots> = ?d - (x - h)"
        using d h disp_bounds [OF ne, of x s] by (intro mod_pos_pos_trivial) auto
      finally have di: "disp (length t) i s = ?d - (x - h)" .
      have "slot_key u j \<noteq> None \<or> j mod ?N = x mod ?N" if j: "i - (?d - (x - h)) \<le> j" "j \<le> i" for j
      proof (cases "pos t j = pos t x \<or> pos t j = pos t h")
        case True
        then show ?thesis using pos_eq_iff [OF t] hx by (auto simp: u)
      next
        case False
        let ?j = "j + (h - i)"
        have jc: "?j mod ?N = j mod ?N"
          using ih by (simp add: mod_eq_dvd_iff) (simp add: dvd_diff_commute)
        have "slot_key ?v ?j \<noteq> None \<or> ?j mod ?N = h mod ?N"
          using j h by (intro path [OF vx]) auto
        moreover have "slot_key ?v ?j = slot_key ?v j"
          using jc by (intro slot_key_cong) (simp add: len)
        ultimately have "slot_key ?v j \<noteq> None" using False pos_eq_iff [OF t] jc by metis
        with False show ?thesis by (simp add: u v)
      qed
      with di dl [OF vx] h s' show ?thesis by simp
    next
      case False
      then have vi: "slot_key ?v i = Some s'" using i nx by (simp add: u v)
      have "slot_key u j \<noteq> None \<or> j mod ?N = x mod ?N"
        if "i - disp (length t) i s' \<le> j" "j \<le> i" for j
        using path [OF vi that] pos_eq_iff [OF t] by (auto simp: u v split: if_splits)
      with dl [OF vi] show ?thesis by blast
    qed
    then show "disp (length t) i s' < int (length t div 2)" by blast
    fix j
    assume "i - disp (length t) i s' \<le> j \<and> j \<le> i"
    with both show "slot_key u j \<noteq> None \<or> j mod ?N = x mod ?N" by blast
  qed
qed


lemma shift_loop_ok:
  assumes N: "length t = 2 ^ k" "1 \<le> k"
    and hole: "hole_ok (t[pos t h := empty_elem]) h"
    and x: "h < x" "x \<le> D" and D: "D \<le> h + int (length t div 2)"
    and emp: "slot_key (t[pos t h := empty_elem]) D = None"
    and run: "\<And>j. h < j \<Longrightarrow> j < D \<Longrightarrow> slot_key (t[pos t h := empty_elem]) j \<noteq> None"
    and before: "\<And>i s. h < i \<Longrightarrow> i < x \<Longrightarrow> slot_key (t[pos t h := empty_elem]) i = Some s \<Longrightarrow>
      h < i - disp (length t) i s"
    and n: "D - x \<le> int n"
  shows "\<exists>h' t'. shift_loop n (length t) (pos t h) (pos t x) t = (h', t') \<and> h' < length t' \<and>
    length t' = length t \<and> probe_ok (t'[h' := empty_elem]) \<and>
    mset (entries (t'[h' := empty_elem])) = mset (entries (t[pos t h := empty_elem]))"
  using assms
proof (induction n arbitrary: t h x)
  case 0
  let ?v = "t[pos t h := empty_elem]"
  have t: "t \<noteq> []" "length t > 0" using "0.prems"(1) by auto
  have "x = D" using "0.prems"(5,10) by simp
  then have "probe_ok ?v"
    using "0.prems" t by (intro hole_closed [of ?v h D]) simp_all
  with t pos_less [OF t(1)] show ?case by simp
next
  case (Suc n)
  let ?v = "t[pos t h := empty_elem]" and ?N = "int (length t)"
  have t: "t \<noteq> []" "length t > 0" using Suc.prems(1) by auto
  have half: "length t div 2 < length t" using t by simp
  note pl = pos_less [OF t(1)]
  have v: "slot_key ?v i = (if pos t i = pos t h then None else slot_key t i)" for i
    using slot_key_upd [OF t(1) pl] by (simp add: empty_elem_def)
  have ne: "pos t i \<noteq> pos t h" if "h < i" "i \<le> D" for i
  proof -
    have "i < h + ?N" using that Suc.prems(6) half by linarith
    from near_not_cong [OF that(1) this] pos_eq_iff [OF t(1)] show ?thesis by metis
  qed
  show ?case
  proof (cases "x = D")
    case True
    then have "slot_key t x = None" using Suc.prems(7) ne [of D] Suc.prems(4) by (simp add: v)
    then have "shift_loop (Suc n) (length t) (pos t h) (pos t x) t = (pos t h, t)"
      by (simp add: slot_key_def)
    moreover have "probe_ok ?v"
      using Suc.prems t True by (intro hole_closed [of ?v h D]) simp_all
    ultimately show ?thesis using pl by simp
  next
    case False
    then have xD: "x < D" using Suc.prems(5) by simp
    have xh: "x < h + ?N" using xD Suc.prems(6) half by linarith
    have px: "pos t x \<noteq> pos t h" using ne Suc.prems(4,5) by simp
    obtain s where s: "slot_key t x = Some s"
      using Suc.prems(8) [OF Suc.prems(4) xD] px by (auto simp: v)
    then obtain e where e: "me_key (t ! pos t x) = Some e" "key_str e = s" by (auto simp: slot_key_def)
    have d: "disp (length t) x s < int (length t div 2)"
      using Suc.prems(3) s px by (simp add: hole_ok_def v)
    have le: "MAP_INDEX_LE (length t) (pos t h) (hashmap_calc_index (length t) s) \<longleftrightarrow>
        x - h \<le> disp (length t) x s"
      using Suc.prems(4,6) xD by (intro index_le_disp [OF Suc.prems(1,2) _ _ d]) auto
    have nx: "MAP_PROBE_NEXT (length t) (pos t x) = pos t (x + 1)" by (rule probe_next [OF Suc.prems(1)])
    show ?thesis
    proof (cases "x - h \<le> disp (length t) x s")
      case True
      let ?t = "t[pos t h := t ! pos t x]"
      have pt: "pos ?t i = pos t i" for i by (simp add: pos_def)
      note mv = hole_move [OF t(2) Suc.prems(4) xh Suc.prems(3) s True]
      have step: "shift_loop (Suc n) (length t) (pos t h) (pos t x) t =
          shift_loop n (length ?t) (pos ?t x) (pos ?t (x + 1)) ?t"
        using e le True nx by (simp add: pt)
      have "\<exists>h' t'. shift_loop n (length ?t) (pos ?t x) (pos ?t (x + 1)) ?t = (h', t') \<and> h' < length t' \<and>
          length t' = length ?t \<and> probe_ok (t'[h' := empty_elem]) \<and>
          mset (entries (t'[h' := empty_elem])) = mset (entries (?t[pos ?t x := empty_elem]))"
      proof (rule Suc.IH)
        show "length ?t = 2 ^ k" "1 \<le> k" "x < x + 1" "x + 1 \<le> D" "D \<le> x + int (length ?t div 2)"
          "D - (x + 1) \<le> int n"
          using Suc.prems xD by simp_all
        show "hole_ok (?t[pos ?t x := empty_elem]) x" using mv(1) by (simp add: pt)
        have other: "slot_key (?t[pos ?t x := empty_elem]) j = slot_key ?v j" if "x < j" "j \<le> D" for j
        proof -
          have "j < x + ?N" using that xD Suc.prems(4,6) half by linarith
          with near_not_cong [OF that(1)] pos_eq_iff [OF t(1)] have "pos t j \<noteq> pos t x" by metis
          with mv(3) [of j] ne [of j] that Suc.prems(4) show ?thesis by (simp add: pt)
        qed
        show "slot_key (?t[pos ?t x := empty_elem]) D = None" using other [of D] xD Suc.prems(7) by simp
        show "slot_key (?t[pos ?t x := empty_elem]) j \<noteq> None" if "x < j" "j < D" for j
          using other [of j] that Suc.prems(8) [of j] Suc.prems(4) by simp
      qed simp
      with mv(2) step show ?thesis by (auto simp: pt)
    next
      case False
      have step: "shift_loop (Suc n) (length t) (pos t h) (pos t x) t =
          shift_loop n (length t) (pos t h) (pos t (x + 1)) t"
        using e le False nx by simp
      show ?thesis
        unfolding step
      proof (rule Suc.IH)
        show "h < i - disp (length t) i s'" if "h < i" "i < x + 1" "slot_key ?v i = Some s'" for i s'
        proof (cases "i = x")
          case True
          with that(3) s px have "s' = s" by (simp add: v)
          with True \<open>\<not> x - h \<le> disp (length t) x s\<close> show ?thesis by simp
        next
          case False
          with that Suc.prems(9) [of i s'] show ?thesis by simp
        qed
      qed (use Suc.prems xD in simp_all)
    qed
  qed
qed


text \<open>Whatever the clusters are, the shift loop loses and duplicates nothing.\<close>

lemma shift_loop_mset:
  "h < length t \<Longrightarrow> x < length t \<Longrightarrow> length t = 2 ^ k \<Longrightarrow>
   \<exists>h' t'. shift_loop n (length t) h x t = (h', t') \<and> h' < length t' \<and> length t' = length t \<and>
     mset (t'[h' := empty_elem]) = mset (t[h := empty_elem])"
proof (induction n arbitrary: t h x)
  case (Suc n)
  have nx: "MAP_PROBE_NEXT (length t) x < length t"
    using Suc.prems by (simp add: MAP_PROBE_NEXT_def MAP_SIZE_MOD_mod)
  show ?case
  proof (cases "me_key (t ! x)")
    case None
    then show ?thesis using Suc.prems(1) by simp
  next
    case (Some e)
    show ?thesis
    proof (cases "MAP_INDEX_LE (length t) h (hashmap_calc_index (length t) (key_str e))")
      case True
      let ?t = "t[h := t ! x]"
      have "mset (?t[x := empty_elem]) = mset (t[h := empty_elem])"
        using Suc.prems(1,2) by (cases "h = x") (simp_all add: mset_update nth_list_update)
      moreover obtain h' t' where "shift_loop n (length ?t) x (MAP_PROBE_NEXT (length t) x) ?t = (h', t')"
        "h' < length t'" "length t' = length ?t" "mset (t'[h' := empty_elem]) = mset (?t[x := empty_elem])"
        using Suc.IH [of x ?t "MAP_PROBE_NEXT (length t) x"] Suc.prems nx by auto
      ultimately show ?thesis using True Some by simp
    next
      case False
      with Suc.IH [OF Suc.prems(1) nx Suc.prems(3)] Some show ?thesis by simp
    qed
  qed
qed simp

text \<open>It does not touch the slots in front of the removed one when they are empty.\<close>

lemma shift_loop_front:
  "shift_loop n (length t) h x t = (h', t') \<Longrightarrow> length t = 2 ^ k \<Longrightarrow> c \<le> h \<Longrightarrow> c \<le> x \<or> x = 0 \<Longrightarrow>
   x < length t \<Longrightarrow> \<forall>j<c. me_key (t ! j) = None \<Longrightarrow> c \<le> h' \<and> (\<forall>j<c. me_key (t' ! j) = None)"
proof (induction n arbitrary: t h x)
  case (Suc n)
  have nx: "MAP_PROBE_NEXT (length t) x < length t"
    "c \<le> x \<Longrightarrow> c \<le> MAP_PROBE_NEXT (length t) x \<or> MAP_PROBE_NEXT (length t) x = 0"
    using Suc.prems by (auto simp: MAP_PROBE_NEXT_def MAP_SIZE_MOD_mod mod_Suc)
  show ?case
  proof (cases "me_key (t ! x)")
    case None
    then show ?thesis using Suc.prems by simp
  next
    case (Some e)
    then have cx: "c \<le> x" using Suc.prems(4,6) by (cases "c = 0") auto
    show ?thesis
    proof (cases "MAP_INDEX_LE (length t) h (hashmap_calc_index (length t) (key_str e))")
      case True
      have "shift_loop n (length (t[h := t ! x])) x (MAP_PROBE_NEXT (length t) x) (t[h := t ! x]) = (h', t')"
        using True Some Suc.prems(1) by simp
      moreover have "\<forall>j<c. me_key (t[h := t ! x] ! j) = None" using Suc.prems(3,6) by auto
      ultimately show ?thesis using Suc.IH nx Suc.prems(2) cx by (metis length_list_update)
    next
      case False
      with Some Suc.prems(1) have "shift_loop n (length t) h (MAP_PROBE_NEXT (length t) x) t = (h', t')" by simp
      with Suc.IH nx Suc.prems cx show ?thesis by blast
    qed
  qed
qed simp

text \<open>Removing an entry: its key is released if the map owns it, its value destroyed.\<close>

definition release :: "(ptr \<Rightarrow> 'w \<Rightarrow> 'w) \<Rightarrow> 'w m_map \<Rightarrow> map_elem \<Rightarrow> 'w \<Rightarrow> 'w" where
  "release free_key m e w = call_dtor (m_dtor m) (me_data e)
     (if m_flags m AND M_MAP_KEY_AUTOFREE \<noteq> 0
      then (case me_key e of None \<Rightarrow> w | Some k \<Rightarrow> free_key (key_ptr k) w) else w)"

definition gap_after :: "map_elem list \<Rightarrow> int \<Rightarrow> bool" where
  "gap_after t n \<longleftrightarrow> (\<exists>D. 0 < D \<and> D \<le> int (length t div 2) \<and> slot_key t (n + D) = None)"

lemma clear_elem_ok:
  assumes ok: "map_ok m" and n: "n < length (table m)" and s: "slot_key (table m) (int n) = Some s"
    and gap: "gap_after (table m) (int n)"
  obtains m' where "clear_elem free_key m n w = (m', release free_key m (table m ! n) w)"
    and "map_ok m'" and "map_abs m' = (map_abs m)(s := None)" and "m_length m' = m_length m - 1"
    and "m_flags m' = m_flags m" and "m_dtor m' = m_dtor m" and "table_size m' = table_size m"
proof -
  let ?t = "table m" and ?N = "int (length (table m))"
  let ?v = "?t[n := empty_elem]"
  from ok have t: "table_ok ?t" "table_size m = length ?t" "m_length m = length (entries ?t)"
    by (simp_all add: map_ok_def)
  from t(1) obtain k where k: "1 \<le> k" "length ?t = 2 ^ k" "?t \<noteq> []" "length ?t > 0"
    "distinct (map fst (assoc ?t))" "probe_ok ?t" by (rule table_okE)
  have pn: "pos ?t (int n) = n" using n by simp
  have pv: "pos ?v i = pos ?t i" for i by (simp add: pos_def)
  have v: "slot_key ?v i = (if pos ?t i = n then None else slot_key ?t i)" for i
    using slot_key_upd [OF k(3) n] by (simp add: empty_elem_def)
  let ?P = "\<lambda>D. 0 < D \<and> D \<le> length ?t div 2 \<and> slot_key ?t (int n + int D) = None"
  from gap obtain D0 where "0 < D0" "D0 \<le> int (length ?t div 2)" "slot_key ?t (int n + D0) = None"
    by (auto simp: gap_after_def)
  then have "?P (nat D0)" by auto
  then have ex: "\<exists>D. ?P D" by blast
  define D where "D = (LEAST D. ?P D)"
  have D: "0 < D" "D \<le> length ?t div 2" "slot_key ?t (int n + int D) = None"
    using LeastI_ex [OF ex] by (simp_all add: D_def)
  have half: "length ?t div 2 < length ?t" using k(4) by simp
  have near: "pos ?t j \<noteq> n" if "int n < j" "j \<le> int n + int D" for j
  proof -
    have "j < int n + ?N" using that D(2) half by linarith
    from near_not_cong [OF that(1) this] pos_eq_iff [OF k(3)] pn show ?thesis by metis
  qed
  have run: "slot_key ?v j \<noteq> None" if "int n < j" "j < int n + int D" for j
  proof
    assume "slot_key ?v j = None"
    then have "slot_key ?t j = None" using near [of j] that by (simp add: v)
    with that D have "?P (nat (j - int n))" by auto
    then have "D \<le> nat (j - int n)" unfolding D_def by (rule Least_le)
    with that show False by linarith
  qed
  have hole: "hole_ok ?v (int n)"
    unfolding hole_ok_def
  proof (intro conjI allI impI)
    show "slot_key ?v (int n) = None" by (simp add: v pn)
    fix i s'
    assume "slot_key ?v i = Some s'"
    then have "slot_key ?t i = Some s'" by (simp add: v split: if_splits)
    note i = probe_okD [OF k(6) this]
    show "disp (length ?v) i s' < int (length ?v div 2)" using i(1) by simp
    fix j
    assume "i - disp (length ?v) i s' \<le> j \<and> j \<le> i"
    then have "slot_key ?t j \<noteq> None" using i(2) by simp
    then show "slot_key ?v j \<noteq> None \<or> j mod int (length ?v) = int n mod int (length ?v)"
      using pos_eq_iff [OF k(3), of j "int n"] pn by (simp add: v)
  qed
  have "\<exists>h' t'. shift_loop (length ?t div 2) (length ?v) (pos ?v (int n)) (pos ?v (int n + 1)) ?v = (h', t') \<and>
      h' < length t' \<and> length t' = length ?v \<and> probe_ok (t'[h' := empty_elem]) \<and>
      mset (entries (t'[h' := empty_elem])) = mset (entries (?v[pos ?v (int n) := empty_elem]))"
  proof (rule shift_loop_ok)
    show "length ?v = 2 ^ k" "1 \<le> k" using k by simp_all
    show "hole_ok (?v[pos ?v (int n) := empty_elem]) (int n)" using hole by (simp add: pv pn)
    show "int n < int n + 1" "int n + 1 \<le> int n + int D" using D(1) by simp_all
    show "int n + int D \<le> int n + int (length ?v div 2)" using D(2) by simp
    show "slot_key (?v[pos ?v (int n) := empty_elem]) (int n + int D) = None"
      using D(3) by (simp add: pv pn v)
    show "\<And>j. int n < j \<Longrightarrow> j < int n + int D \<Longrightarrow> slot_key (?v[pos ?v (int n) := empty_elem]) j \<noteq> None"
      using run by (simp add: pv pn)
    show "int n + int D - (int n + 1) \<le> int (length ?t div 2)" using D(2) by simp
  qed auto
  then obtain h' t' where sh: "shift_loop (length ?t div 2) (length ?t) n (pos ?t (int n + 1)) ?v = (h', t')"
    "h' < length t'" "length t' = length ?t" "probe_ok (t'[h' := empty_elem])"
    "mset (entries (t'[h' := empty_elem])) = mset (entries ?v)" by (auto simp: pv pn)
  let ?t' = "t'[h' := empty_elem]"
  have nx: "MAP_PROBE_NEXT (length ?t) n = pos ?t (int n + 1)" using probe_next [OF k(2), of "int n"] pn by simp
  let ?m = "m\<lparr>m_length := m_length m - 1, table := ?t'\<rparr>"
  have "clear_elem free_key m n w = (?m, release free_key m (?t ! n) w)"
    using sh(1) nx t(2) by (simp add: clear_elem_def Let_def release_def MAP_PROBE_LEN_half empty_elem_def)
  moreover have occ: "occupied (?t ! n)" using s pn by (auto simp: occupied_def slot_key_def)
  have "?t ! n \<in># mset (entries ?t)" using n occ by (auto simp: entries_def occupied_def)
  then obtain M where M: "mset (entries ?t) = add_mset (?t ! n) M" by (rule mset_add)
  have M': "mset (entries ?t') = M"
    using mset_entries_update [OF n, of empty_elem] sh(5) M occ
    by (simp add: occupied_def empty_elem_def)
  obtain ps where ps: "mset ps = image_mset entry_pair M" using ex_mset by blast
  have pair: "entry_pair (?t ! n) = (s, me_data (?t ! n))"
    using s pn by (auto simp: entry_pair_def slot_key_def)
  have a: "mset (assoc ?t) = mset ((s, me_data (?t ! n)) # ps)" "mset (assoc ?t') = mset ps"
    using M M' ps pair by (simp_all add: assoc_def)
  have "mset (map fst (assoc ?t)) = mset (map fst ((s, me_data (?t ! n)) # ps))" using a(1) by simp
  then have dist: "distinct (map fst ((s, me_data (?t ! n)) # ps))"
    using k(5) mset_eq_imp_distinct_iff by blast
  then have dist': "distinct (map fst ps)" "s \<notin> fst ` set ps" by simp_all
  have "map_abs ?m = (map_abs m)(s := None)"
    using map_of_assoc_mset(1) [OF a(1) dist] map_of_assoc_mset(1) [OF a(2) dist'(1)] dist'(2)
    by (auto simp: map_abs_def fun_eq_iff map_of_eq_None_iff)
  moreover have "length (entries ?t') = m_length m - 1"
  proof -
    have "size (mset (entries ?t)) = size (mset (entries ?t')) + 1" using M M' by simp
    then show ?thesis using t(3) by simp
  qed
  moreover have "NULL \<notin> snd ` set (assoc ?t')"
    using mset_eq_setD [OF a(1)] mset_eq_setD [OF a(2)] t(1) by (auto simp: table_ok_def)
  ultimately show ?thesis
    using sh(3,4) map_of_assoc_mset(2) [OF a(2) dist'(1)] k(1,2) t(2)
    by (intro that [of ?m]) (auto simp: map_ok_def table_ok_def)
qed

text \<open>A table at most half full has a gap behind every entry.\<close>

lemma half_full_gap:
  assumes ne: "t \<noteq> []" and "length (entries t) \<le> length t div 2" and occ: "slot_key t n \<noteq> None"
  shows "gap_after t n"
proof (rule ccontr)
  assume a: "\<not> gap_after t n"
  have "slot_key t (n + j) \<noteq> None" if j: "0 \<le> j" "j < int (length t div 2 + 1)" for j
  proof (cases "j = 0")
    case False
    with j a show ?thesis unfolding gap_after_def by force
  qed (use occ in simp)
  moreover have "length t div 2 + 1 \<le> length t" using ne by (cases t) auto
  ultimately have "length t div 2 + 1 \<le> length (entries t)"
    using occupied_run [OF ne] by blast
  with assms(2) show False by simp
qed

subsection \<open>The contract\<close>

lemma card_dom_abs: "map_ok m \<Longrightarrow> card (dom (map_abs m)) = m_length m"
proof -
  assume ok: "map_ok m"
  then have d: "distinct (map fst (assoc (table m)))" unfolding map_ok_def using table_okE by blast
  have "card (dom (map_abs m)) = card (set (map fst (assoc (table m))))"
    by (simp add: map_abs_def dom_map_of_conv_image_fst)
  also have "\<dots> = length (assoc (table m))" using distinct_card [OF d] by simp
  finally show ?thesis using ok by (simp add: map_ok_def assoc_def)
qed

lemma map_ok_size: "map_ok m \<Longrightarrow> 2 \<le> table_size m \<and> table m \<noteq> [] \<and> even (table_size m)"
proof -
  assume "map_ok m"
  then have t: "table_ok (table m)" "table_size m = length (table m)" by (simp_all add: map_ok_def)
  from t(1) obtain k where k: "1 \<le> k" "length (table m) = 2 ^ k" "table m \<noteq> []" by (rule table_okE)
  then show ?thesis using t(2) by (cases k) auto
qed

lemma map_abs_nonnull: "map_ok m \<Longrightarrow> map_abs m s \<noteq> Some NULL"
  by (auto simp: map_ok_def table_ok_def map_abs_def dest!: map_of_SomeD intro: rev_image_eqI)

text \<open>A map at most half full does not grow.\<close>

lemma hashmap_put_direct:
  assumes ok: "map_ok m" and half: "m_length m \<le> table_size m div 2"
    and room: "map_abs m (key_str key) \<noteq> None \<or> m_length m < table_size m div 2"
  obtains i where "hashmap_entry_find m (key_str key) True = Some i"
    and "\<And>w. hashmap_put cal1 cal2 m (Some key) value w = put_at m i key value w"
proof -
  obtain i where i: "hashmap_entry_find m (key_str key) True = Some i"
  proof (cases "map_abs m (key_str key)")
    case None
    then show ?thesis using half_full_find [OF ok] room that by blast
  next
    case (Some d)
    from entry_find_present [OF ok Some, of True] that show ?thesis by metis
  qed
  have "\<not> table_size m \<le> hashmap_table_min_size_calc (m_length m)"
    using half map_ok_size [OF ok] by (auto simp: hashmap_table_min_size_calc_def)
  with i show ?thesis by (intro that [of i]) (simp_all add: hashmap_put_def)
qed

lemma put_at_size [simp]: "table_size (fst (snd (put_at m i key v w))) = table_size m"
  by (simp add: put_at_def Let_def)

type_synonym map_store = "ptr list m_map option \<times> ptr list"

fun hm_put :: "map_store \<Rightarrow> ptr \<Rightarrow> string \<Rightarrow> ptr \<Rightarrow> int \<times> map_store" where
  "hm_put (mp, w) p k d = (let (r, mp', w') = m_map_put p NULL NULL mp (Some \<lparr>key_ptr = p, key_str = k\<rparr>) d w
     in (r, (mp', w')))"

fun hm_get :: "map_store \<Rightarrow> string \<Rightarrow> ptr" where
  "hm_get (mp, w) k = m_map_get mp (Some k)"

fun hm_rem :: "map_store \<Rightarrow> string \<Rightarrow> int \<times> map_store" where
  "hm_rem (mp, w) k = m_map_remove (\<lambda>_ w. w) mp (Some k) w"

fun hm_ok :: "map_store \<Rightarrow> bool" where
  "hm_ok (None, w) = False"
| "hm_ok (Some m, w) = (map_ok m \<and> m_dtor m = log_dtor)"

fun hm_abs :: "map_store \<Rightarrow> string \<rightharpoonup> ptr" where
  "hm_abs (None, w) = (\<lambda>_. None)"
| "hm_abs (Some m, w) = map_abs m"

fun hm_upd :: "map_store \<Rightarrow> bool" where
  "hm_upd (None, w) = False"
| "hm_upd (Some m, w) = (m_flags m AND M_MAP_VAL_ALLOW_UPDATE \<noteq> 0)"

fun hm_room :: "map_store \<Rightarrow> nat" where
  "hm_room (None, w) = 0"
| "hm_room (Some m, w) = table_size m div 2"

fun hm_log :: "map_store \<Rightarrow> ptr list" where
  "hm_log (mp, w) = w"

lemma hm_okE:
  assumes "hm_ok s"
  obtains m w where "s = (Some m, w)" and "map_ok m" and "m_dtor m = log_dtor"
  using assms by (cases s rule: hm_ok.cases) auto

text \<open>A call of \<^verbatim>\<open>m_map_put\<close> with a key pointer, reduced to the insertion.\<close>

lemma m_map_put_stored:
  assumes "p \<noteq> NULL" and "d \<noteq> NULL"
  shows "m_map_put p c1 c2 (Some m) (Some \<lparr>key_ptr = p, key_str = k\<rparr>) d w =
    (case hashmap_put c1 c2 m (Some \<lparr>key_ptr = p, key_str = k\<rparr>) d w of (r, m', w') \<Rightarrow> (r, Some m', w'))"
  using assms by (simp add: m_map_put_def Let_def)

lemma m_map_get_ok:
  assumes "map_ok m"
  shows "m_map_get (Some m) (Some k) = (case map_abs m k of None \<Rightarrow> NULL | Some d \<Rightarrow> d)"
proof (cases "map_abs m k")
  case None
  then show ?thesis using entry_find_absent(1) [OF assms None] by (simp add: m_map_get_def)
next
  case (Some d)
  then have "dom (map_abs m) \<noteq> {}" by auto
  then have "m_length m > 0"
    using card_dom_abs [OF assms] by (metis card_0_eq finite_dom_map_of map_abs_def neq0_conv)
  with Some show ?thesis
    by (elim entry_find_present [OF assms, where fe = False])
      (simp add: Some m_map_get_def m_map_len_def del: neq0_conv)
qed

lemma m_map_remove_absent:
  assumes "map_ok m" and "map_abs m k = None"
  shows "m_map_remove fr (Some m) (Some k) w =
    (if map_abs m = (\<lambda>_. None) then - EINVAL else - ENOENT, Some m, w)"
proof -
  have "m_length m = 0 \<longleftrightarrow> map_abs m = (\<lambda>_. None)"
    using card_dom_abs [OF assms(1)]
    by (metis card_0_eq card.empty dom_eq_empty_conv finite_dom_map_of map_abs_def)
  with entry_find_absent(1) [OF assms] show ?thesis
    by (simp add: m_map_remove_def m_map_len_def)
qed

lemma m_map_remove_present:
  assumes ok: "map_ok m" and s: "map_abs m k = Some d" and half: "m_length m \<le> table_size m div 2"
  obtains m' e where "m_map_remove fr (Some m) (Some k) w = (0, Some m', release fr m e w)"
    and "me_data e = d" and "map_option key_str (me_key e) = Some k"
    and "map_ok m'" and "map_abs m' = (map_abs m)(k := None)" and "m_flags m' = m_flags m"
    and "m_dtor m' = m_dtor m" and "table_size m' = table_size m"
proof -
  obtain n where n: "hashmap_entry_find m k False = Some n" "n < length (table m)"
    "map_option key_str (me_key (table m ! n)) = Some k" "me_data (table m ! n) = d"
    "slot_key (table m) (int n) = Some k"
    by (rule entry_find_present [OF ok s])
  have "gap_after (table m) (int n)"
    using map_ok_size [OF ok] half n(5) ok by (intro half_full_gap) (auto simp: map_ok_def)
  from clear_elem_ok [OF ok n(2,5) this] obtain m' where
    m': "clear_elem fr m n w = (m', release fr m (table m ! n) w)" "map_ok m'"
      "map_abs m' = (map_abs m)(k := None)" "m_flags m' = m_flags m" "m_dtor m' = m_dtor m"
      "table_size m' = table_size m" by metis
  have "m_length m > 0"
    using s card_dom_abs [OF ok] by (metis card_0_eq dom_eq_empty_conv finite_dom_map_of map_abs_def
        neq0_conv option.distinct(1))
  then have "m_map_remove fr (Some m) (Some k) w = (0, Some m', release fr m (table m ! n) w)"
    using n(1) m'(1) by (simp add: m_map_remove_def m_map_len_def)
  then show ?thesis by (rule that) (use n m' in simp_all)
qed

interpretation hmp: assoc_map hm_put hm_get hm_rem hm_ok hm_abs hm_upd hm_room hm_log
proof unfold_locales
  fix s :: map_store and k
  assume "hm_ok s"
  then obtain m w where s: "s = (Some m, w)" "map_ok m" "m_dtor m = log_dtor" by (rule hm_okE)
  then show "hm_get s k = (case hm_abs s k of None \<Rightarrow> NULL | Some d \<Rightarrow> d)"
    by (simp add: m_map_get_ok)
next
  fix s :: map_store and k p d
  assume a: "hm_ok s" "card (insert k (dom (hm_abs s))) \<le> hm_room s" "p \<noteq> NULL" "d \<noteq> NULL"
  then obtain m w where s: "s = (Some m, w)" "map_ok m" "m_dtor m = log_dtor" using hm_okE by blast
  let ?key = "\<lparr>key_ptr = p, key_str = k\<rparr>"
  have fin: "finite (dom (map_abs m))" by (simp add: map_abs_def finite_dom_map_of)
  have "card (dom (map_abs m)) \<le> table_size m div 2"
    using a(2) s card_insert_le [of "dom (map_abs m)" k] by simp
  then have half: "m_length m \<le> table_size m div 2" using card_dom_abs [OF s(2)] by simp
  have room: "map_abs m k \<noteq> None \<or> m_length m < table_size m div 2"
    using a(2) s card_dom_abs [OF s(2)] fin by (cases "k \<in> dom (map_abs m)") (auto simp: card_insert_if)
  obtain i where i: "hashmap_entry_find m k True = Some i"
    "\<And>w. hashmap_put NULL NULL m (Some ?key) d w = put_at m i ?key d w"
    using hashmap_put_direct [OF s(2) half, of ?key NULL NULL d] room by auto
  obtain r m' w' where res: "put_at m i ?key d w = (r, m', w')" by (cases "put_at m i ?key d w")
  have out: "put_outcome m k d w (r, m', w')" "r \<noteq> - ENOMEM" "table_size m' = table_size m"
    using put_at_ok [OF s(2), of ?key i d w] i(1) a(4) res put_at_size [of m i ?key d w] by simp_all
  have put: "hm_put s p k d = (r, (Some m', w'))"
    using m_map_put_stored [OF a(3,4), of NULL NULL m k w] unfolding i(2) res s(1) by simp
  {
    assume "hm_abs s k = None \<or> hm_upd s"
    then have "r = 0" using out(1,2) s(1) by (auto simp: put_outcome_def split: if_splits)
    with out s put show "\<exists>s'. hm_put s p k d = (0, s') \<and> hm_ok s' \<and> hm_abs s' = (hm_abs s)(k \<mapsto> d) \<and>
        hm_upd s' = hm_upd s \<and> hm_room s' = hm_room s \<and>
        hm_log s' = (case hm_abs s k of None \<Rightarrow> hm_log s
          | Some old \<Rightarrow> if old \<noteq> d then hm_log s @ [old] else hm_log s)"
      by (intro exI [of _ "(Some m', w')"])
        (cases "map_abs m k"; simp add: put_outcome_def log_dtor_def)
  }
  {
    fix old
    assume "hm_abs s k = Some old" "\<not> hm_upd s"
    then have "r = - EPERM" using out(1,2) s(1) by (auto simp: put_outcome_def split: if_splits)
    with put res s(1) show "hm_put s p k d = (- EPERM, s)"
      by (auto simp: put_at_def Let_def split: if_splits)
  }
next
  fix s :: map_store and k d
  assume a: "hm_ok s" "card (dom (hm_abs s)) \<le> hm_room s" "hm_abs s k = Some d"
  then obtain m w where s: "s = (Some m, w)" "map_ok m" "m_dtor m = log_dtor" using hm_okE by blast
  have half: "m_length m \<le> table_size m div 2" using a(2) s card_dom_abs [OF s(2)] by simp
  have ab: "map_abs m k = Some d" using a(3) s(1) by simp
  obtain m' e where m': "m_map_remove (\<lambda>_ w. w) (Some m) (Some k) w = (0, Some m', release (\<lambda>_ w. w) m e w)"
    "me_data e = d" "map_ok m'" "map_abs m' = (map_abs m)(k := None)" "m_flags m' = m_flags m"
    "m_dtor m' = m_dtor m" "table_size m' = table_size m"
    by (rule m_map_remove_present [OF s(2) ab half])
  have rel: "release (\<lambda>_ w. w) m e w = w @ [d]"
    using m'(2) s(3) by (simp add: release_def log_dtor_def split: option.splits)
  have rm: "hm_rem s k = (0, (Some m', w @ [d]))" using m'(1) s(1) unfolding rel by simp
  show "\<exists>s'. hm_rem s k = (0, s') \<and> hm_ok s' \<and> hm_abs s' = (hm_abs s)(k := None) \<and>
      hm_upd s' = hm_upd s \<and> hm_room s' = hm_room s \<and> hm_log s' = hm_log s @ [d]"
    by (rule exI [of _ "(Some m', w @ [d])"]) (use rm m'(3-7) s in \<open>simp del: hm_rem.simps\<close>)
next
  fix s :: map_store and k
  assume a: "hm_ok s" "hm_abs s k = None"
  then obtain m w where s: "s = (Some m, w)" "map_ok m" using hm_okE by blast
  then have "map_abs m k = None" using a(2) by simp
  with s show "hm_rem s k = (if hm_abs s = (\<lambda>_. None) then - EINVAL else - ENOENT, s)"
    using m_map_remove_absent [OF s(2)] by simp
qed

subsection \<open>Removing everything\<close>

definition count_ok :: "'w m_map \<Rightarrow> bool" where
  "count_ok m \<longleftrightarrow> table_size m = length (table m) \<and> (\<exists>k\<ge>1. length (table m) = 2 ^ k) \<and>
     m_length m = length (entries (table m))"

lemma map_ok_count: "map_ok m \<Longrightarrow> count_ok m"
  by (simp add: map_ok_def count_ok_def table_ok_def)

text \<open>Removing the first entry of the table, whatever the clusters are.\<close>

lemma clear_elem_first:
  assumes ok: "count_ok m" and n: "n < length (table m)" and occ: "occupied (table m ! n)"
    and front: "\<forall>j<n. me_key (table m ! j) = None"
  obtains m' where "clear_elem fr m n w = (m', release fr m (table m ! n) w)" and "count_ok m'"
    and "mset (entries (table m)) = add_mset (table m ! n) (mset (entries (table m')))"
    and "\<forall>j<n. me_key (table m' ! j) = None" and "m_flags m' = m_flags m" and "m_dtor m' = m_dtor m"
    and "table_size m' = table_size m" and "m_length m = Suc (m_length m')"
proof -
  let ?t = "table m" and ?v = "(table m)[n := empty_elem]"
  from ok obtain k where k: "1 \<le> k" "length ?t = 2 ^ k" "table_size m = length ?t"
    "m_length m = length (entries ?t)" by (auto simp: count_ok_def)
  let ?x = "MAP_PROBE_NEXT (length ?t) n"
  have x: "?x = Suc n mod length ?t" using k(2) by (simp add: MAP_PROBE_NEXT_def MAP_SIZE_MOD_mod)
  then have xl: "?x < length ?v" and xc: "n \<le> ?x \<or> ?x = 0" using n by (auto simp: mod_Suc)
  obtain h t' where sh: "shift_loop (length ?t div 2) (length ?v) n ?x ?v = (h, t')" "h < length t'"
    "length t' = length ?v" "mset (t'[h := empty_elem]) = mset (?v[n := empty_elem])"
    using shift_loop_mset [of n ?v ?x k "length ?t div 2"] n xl k(2) by auto
  have "\<forall>j<n. me_key (?v ! j) = None" using front by simp
  with shift_loop_front [OF sh(1) _ _ xc xl] k(2) have fr: "n \<le> h" "\<forall>j<n. me_key (t' ! j) = None"
    by simp_all
  let ?t' = "t'[h := empty_elem]"
  let ?m = "m\<lparr>m_length := m_length m - 1, table := ?t'\<rparr>"
  have "clear_elem fr m n w = (?m, release fr m (?t ! n) w)"
    using sh(1) k(3) by (simp add: clear_elem_def Let_def release_def MAP_PROBE_LEN_half empty_elem_def)
  moreover have "mset (entries ?t') = mset (entries ?v)" using sh(4) by (simp add: entries_def mset_filter)
  then have ms: "mset (entries ?t) = add_mset (?t ! n) (mset (entries ?t'))"
    using mset_entries_update [OF n, of empty_elem] occ n
    by (simp add: occupied_def empty_elem_def entries_def)
  moreover have "length (entries ?t) = Suc (length (entries ?t'))"
    using arg_cong [OF ms, of size] by simp
  ultimately show ?thesis using fr sh(3) k by (intro that [of ?m]) (auto simp: count_ok_def)
qed

definition log2_dtor :: "(ptr list \<times> ptr list) dtor" where
  "log2_dtor = Some (\<lambda>p w. (fst w @ [p], snd w))"

definition free2 :: "ptr \<Rightarrow> ptr list \<times> ptr list \<Rightarrow> ptr list \<times> ptr list" where
  "free2 p w = (fst w, snd w @ [p])"

text \<open>What a sequence of removals leaves in the two logs.\<close>

definition released :: "'w m_map \<Rightarrow> map_elem multiset \<Rightarrow> ptr list \<times> ptr list \<Rightarrow> ptr list \<times> ptr list \<Rightarrow> bool" where
  "released m es w w' \<longleftrightarrow> mset (fst w') = mset (fst w) + image_mset me_data es \<and>
     mset (snd w') = mset (snd w) + (if m_flags m AND M_MAP_KEY_AUTOFREE \<noteq> 0
       then image_mset (\<lambda>e. key_ptr (the (me_key e))) es else {#})"

lemma released_step:
  assumes "m_dtor m = log2_dtor" and "occupied e" and "m_flags m' = m_flags m"
    and "released m' es (release free2 m e w) w'"
  shows "released m (add_mset e es) w w'"
  using assms by (auto simp: released_def release_def log2_dtor_def free2_def occupied_def)

lemma find_none_entries:
  assumes "List.find (\<lambda>j. me_key (t ! j) \<noteq> None) [c..<length t] = None"
    and "\<forall>j<c. me_key (t ! j) = None"
  shows "entries t = []"
proof -
  have "me_key (t ! j) = None" if "j < length t" for j
    using assms that by (cases "j < c") (auto simp: find_None_iff)
  then show ?thesis by (auto simp: entries_def filter_empty_conv in_set_conv_nth)
qed

lemma find_some_first:
  assumes "List.find (\<lambda>j. me_key (t ! j) \<noteq> None) [c..<length t] = Some n"
    and "\<forall>j<c. me_key (t ! j) = None"
  shows "n < length t" and "occupied (t ! n)" and "\<forall>j<n. me_key (t ! j) = None"
proof -
  from assms(1) obtain i where i: "i < length t - c" "n = c + i" "me_key (t ! n) \<noteq> None"
    "\<forall>j<i. me_key (t ! (c + j)) = None" by (auto simp: find_Some_iff)
  then show "n < length t" "occupied (t ! n)" by (auto simp: occupied_def)
  show "\<forall>j<n. me_key (t ! j) = None"
  proof (intro allI impI)
    fix j
    assume "j < n"
    then show "me_key (t ! j) = None"
      using assms(2) i(2) i(4) [rule_format, of "j - c"] by (cases "j < c") auto
  qed
qed

lemma map_clear_loop_ok:
  "count_ok m \<Longrightarrow> m_dtor m = log2_dtor \<Longrightarrow> n < length (table m) \<Longrightarrow> occupied (table m ! n) \<Longrightarrow>
   \<forall>j<n. me_key (table m ! j) = None \<Longrightarrow>
   \<exists>m' w'. map_clear_loop free2 m (Some \<lparr>mi_curr = Some n, mi_table = table_size m, mi_removed = False\<rparr>) w =
       Some (m', w') \<and> count_ok m' \<and> entries (table m') = [] \<and> table_size m' = table_size m \<and>
     released m (mset (entries (table m))) w w'"
proof (induction "m_length m" arbitrary: m n w rule: less_induct)
  case less
  let ?it = "\<lparr>mi_curr = Some n, mi_table = table_size m, mi_removed = False\<rparr>"
  obtain m1 where m1: "clear_elem free2 m n w = (m1, release free2 m (table m ! n) w)" "count_ok m1"
    "mset (entries (table m)) = add_mset (table m ! n) (mset (entries (table m1)))"
    "\<forall>j<n. me_key (table m1 ! j) = None" "m_flags m1 = m_flags m" "m_dtor m1 = m_dtor m"
    "table_size m1 = table_size m" "m_length m = Suc (m_length m1)"
    by (rule clear_elem_first [OF less.prems(1,3,4,5), of free2 w])
  let ?w = "release free2 m (table m ! n) w"
  have sz: "table_size m = length (table m)" "table_size m1 = length (table m1)"
    using less.prems(1) m1(2) by (simp_all add: count_ok_def)
  have rm: "m_map_itr_remove free2 m (Some ?it) w = Some (0, m1, Some (?it\<lparr>mi_removed := True\<rparr>), ?w)"
    using less.prems(3) m1(1) sz(1) by (simp add: m_map_itr_remove_def itr_entry_def)
  let ?find = "List.find (\<lambda>j. me_key (table m1 ! j) \<noteq> None) [n..<length (table m1)]"
  have nx: "m_map_itr_next m1 (Some (?it\<lparr>mi_removed := True\<rparr>)) =
      Some (0, map_option (\<lambda>j. \<lparr>mi_curr = Some j, mi_table = table_size m1, mi_removed = False\<rparr>) ?find)"
    using m1(7) sz by (simp add: m_map_itr_next_def Let_def)
  show ?case
  proof (cases ?find)
    case None
    have "entries (table m1) = []" by (rule find_none_entries [OF None m1(4)])
    moreover have "map_clear_loop free2 m (Some ?it) w = Some (m1, ?w)"
      using rm nx None by (simp add: map_clear_loop.simps [of free2 m] map_clear_loop.simps [of free2 m1 None])
    moreover have "released m1 (mset (entries (table m1))) ?w ?w" using calculation(1) by (simp add: released_def)
    ultimately show ?thesis
      using released_step [OF less.prems(2,4) m1(5)] m1(2,3,7) by (intro exI [of _ m1] exI [of _ ?w]) simp
  next
    case (Some n1)
    note n1 = find_some_first [OF Some m1(4)]
    have "m_length m1 < m_length m" using m1(8) by simp
    from less.hyps [OF this m1(2) _ n1, of ?w] less.prems(2) m1(6) obtain m' w' where
      IH: "map_clear_loop free2 m1 (Some \<lparr>mi_curr = Some n1, mi_table = table_size m1, mi_removed = False\<rparr>) ?w =
          Some (m', w')" "count_ok m'" "entries (table m') = []" "table_size m' = table_size m1"
        "released m1 (mset (entries (table m1))) ?w w'" by auto
    have "map_clear_loop free2 m (Some ?it) w = Some (m', w')"
      using rm nx Some IH(1) by (subst map_clear_loop.simps) simp
    with IH released_step [OF less.prems(2,4) m1(5) IH(5)] m1(3,7) show ?thesis by auto
  qed
qed

lemma m_map_clear_ok:
  assumes ok: "count_ok m" and dtor: "m_dtor m = log2_dtor" and "cal \<noteq> NULL"
  obtains m' w' where "m_map_clear free2 cal (Some m) w = Some (0, Some m', w')" and "count_ok m'"
    and "entries (table m') = []" and "released m (mset (entries (table m))) w w'"
proof -
  have sz: "table_size m = length (table m)" "m_length m = length (entries (table m))"
    using ok by (simp_all add: count_ok_def)
  show ?thesis
  proof (cases "entries (table m) = []")
    case True
    then have "m_map_itr_new cal (Some m) = Some None" using sz by (simp add: m_map_itr_new_def m_map_len_def)
    then have "m_map_clear free2 cal (Some m) w = Some (0, Some m, w)"
      by (simp add: m_map_clear_def map_clear_loop.simps [of free2 m None])
    with True ok show ?thesis by (intro that [of m w]) (simp_all add: released_def)
  next
    case False
    let ?find = "List.find (\<lambda>j. me_key (table m ! j) \<noteq> None) [0..<length (table m)]"
    have "?find \<noteq> None" using find_none_entries [of "table m" 0] False by auto
    then obtain n where n: "?find = Some n" by auto
    note first = find_some_first [OF n]
    have "m_map_itr_new cal (Some m) =
        Some (Some \<lparr>mi_curr = Some n, mi_table = table_size m, mi_removed = False\<rparr>)"
      using False sz n assms(3) by (simp add: m_map_itr_new_def m_map_len_def m_map_itr_next_def Let_def)
    moreover obtain m' w' where "map_clear_loop free2 m
        (Some \<lparr>mi_curr = Some n, mi_table = table_size m, mi_removed = False\<rparr>) w = Some (m', w')"
      "count_ok m'" "entries (table m') = []" "released m (mset (entries (table m))) w w'"
      using map_clear_loop_ok [OF ok dtor first, of w] by blast
    ultimately show ?thesis by (intro that [of m' w']) (simp_all add: m_map_clear_def)
  qed
qed

subsection \<open>Iteration with a callback that leaves the map alone\<close>

definition pure_cb :: "(mkey \<Rightarrow> ptr \<Rightarrow> 'v \<Rightarrow> int \<times> 'v) \<Rightarrow> mkey \<Rightarrow> ptr \<Rightarrow> 'w m_map \<times> 'v \<Rightarrow> int \<times> 'w m_map \<times> 'v" where
  "pure_cb g k d mv = (case g k d (snd mv) of (rc, v') \<Rightarrow> (rc, fst mv, v'))"

lemma map_iterate_loop_pure:
  assumes sz: "table_size m = length (table m)"
  shows "map_iterate_loop (pure_cb g) i m v =
    (case iter_list (\<lambda>e. g (the (me_key e)) (me_data e)) (entries (drop i (table m))) v of
       (rc, v') \<Rightarrow> Some (rc, m, v'))"
proof (induction "length (table m) - i" arbitrary: i v)
  case 0
  then show ?case using sz by (subst map_iterate_loop.simps) (simp add: entries_def)
next
  case (Suc n)
  then have i: "i < length (table m)" and d: "drop i (table m) = table m ! i # drop (Suc i) (table m)"
    by (simp_all add: Cons_nth_drop_Suc)
  have IH: "map_iterate_loop (pure_cb g) (Suc i) m v =
      (case iter_list (\<lambda>e. g (the (me_key e)) (me_data e)) (entries (drop (Suc i) (table m))) v of
         (rc, v') \<Rightarrow> Some (rc, m, v'))" for v
    using Suc.hyps(1) [of "Suc i" v] Suc.hyps(2) by simp
  show ?case
  proof (cases "me_key (table m ! i)")
    case None
    with IH [of v] sz i show ?thesis by (subst map_iterate_loop.simps) (simp add: d entries_def)
  next
    case (Some k)
    obtain rc v' where g: "g k (me_data (table m ! i)) v = (rc, v')" by fastforce
    with Some IH [of v'] sz i show ?thesis
      by (subst map_iterate_loop.simps) (simp add: d entries_def pure_cb_def)
  qed
qed

subsection \<open>Properties\<close>

lemma m_map_new_ok:
  assumes "c1 \<noteq> NULL" and "c2 \<noteq> NULL"
  obtains m where "m_map_new c1 c2 flags d = Some m" and "map_ok m" and "map_abs m = (\<lambda>_. None)"
    and "m_dtor m = d" and "table_size m = 256" and "m_length m = 0"
    and "m_flags m = (if flags AND M_MAP_KEY_DUP \<noteq> 0 then flags OR M_MAP_KEY_AUTOFREE else flags)"
proof -
  have t: "table_ok (replicate MAP_SIZE_DEFAULT empty_elem)"
    using table_ok_empty [of 8] by (simp add: MAP_SIZE_DEFAULT_def push_bit_eq_mult)
  let ?f = "if flags AND M_MAP_KEY_DUP \<noteq> 0 then flags OR M_MAP_KEY_AUTOFREE else flags"
  let ?m = "\<lparr>table_size = MAP_SIZE_DEFAULT, m_length = 0, m_flags = ?f,
     table = replicate MAP_SIZE_DEFAULT empty_elem, m_dtor = d\<rparr>"
  show ?thesis
    by (rule that [of ?m]) (use assms t in \<open>simp_all add: m_map_new_def map_ok_def map_abs_def assoc_def
      MAP_SIZE_DEFAULT_def push_bit_eq_mult\<close>)
qed

lemma hm_new:
  fixes flags
  assumes "c1 \<noteq> NULL" and "c2 \<noteq> NULL"
  defines "s \<equiv> (m_map_new c1 c2 flags log_dtor, [])"
  shows "hm_ok s" and "hm_abs s = (\<lambda>_. None)" and "hm_room s = 128" and "hm_log s = []"
    and "hm_upd s \<longleftrightarrow> flags AND M_MAP_VAL_ALLOW_UPDATE \<noteq> 0"
proof -
  obtain m where m: "m_map_new c1 c2 flags log_dtor = Some m" "map_ok m" "map_abs m = (\<lambda>_. None)"
    "m_dtor m = (log_dtor :: ptr list dtor)" "table_size m = 256"
    "m_flags m = (if flags AND M_MAP_KEY_DUP \<noteq> 0 then flags OR M_MAP_KEY_AUTOFREE else flags)"
    by (rule m_map_new_ok [OF assms(1,2)])
  have "(flags OR M_MAP_KEY_AUTOFREE) AND M_MAP_VAL_ALLOW_UPDATE = flags AND M_MAP_VAL_ALLOW_UPDATE"
    by (rule bit_eqI) (auto simp: M_MAP_KEY_AUTOFREE_def M_MAP_VAL_ALLOW_UPDATE_def bit_simps)
  with m show "hm_ok s" "hm_abs s = (\<lambda>_. None)" "hm_room s = 128" "hm_log s = []"
    "hm_upd s \<longleftrightarrow> flags AND M_MAP_VAL_ALLOW_UPDATE \<noteq> 0" by (simp_all add: s_def)
qed

text \<open>
  C11. A new map is a finite map: any history of insertions, lookups and removals over at most
  128 distinct keys returns what the ideal map returns (with the update flag as given), calls the
  destructor on exactly the values replaced or removed, and needs no allocation beyond the
  first table.
\<close>

theorem map_history:
  assumes "c1 \<noteq> NULL" and "c2 \<noteq> NULL" and "puts_valid cs" and "card (put_keys cs) \<le> 128"
  shows "\<exists>s'. map_run hm_put hm_get hm_rem cs (m_map_new c1 c2 flags log_dtor, []) =
      (fst (ideal_map (flags AND M_MAP_VAL_ALLOW_UPDATE \<noteq> 0) cs (\<lambda>_. None) []), s') \<and>
    (hm_abs s', hm_log s') = snd (ideal_map (flags AND M_MAP_VAL_ALLOW_UPDATE \<noteq> 0) cs (\<lambda>_. None) [])"
proof -
  note new = hm_new [OF assms(1,2), of flags]
  have "finite (put_keys cs)" by (induction cs rule: put_keys.induct) simp_all
  from hmp.map_run_ideal [OF new(1) this _ _ assms(3)] new assms(4) show ?thesis by auto
qed

theorem map_history_witness:
  "\<exists>s'. map_run hm_put hm_get hm_rem [Put 1 ''a'' 10, Put 2 ''b'' 20, Put 3 ''a'' 30, Get ''a'', Rem ''b'', Get ''b'', Rem ''b'']
      (m_map_new 7 8 M_MAP_VAL_ALLOW_UPDATE log_dtor, []) =
    ([Inl 0, Inl 0, Inl 0, Inr 30, Inl 0, Inr 0, Inl (- ENOENT)], s') \<and> hm_log s' = [10, 20]"
proof -
  let ?cs = "[Put 1 ''a'' 10, Put 2 ''b'' 20, Put 3 ''a'' 30, Get ''a'', Rem ''b'', Get ''b'', Rem ''b'']"
  have u: "M_MAP_VAL_ALLOW_UPDATE AND M_MAP_VAL_ALLOW_UPDATE \<noteq> 0" by (simp add: M_MAP_VAL_ALLOW_UPDATE_def)
  have "card (put_keys ?cs) \<le> 128" by (simp add: card_insert_if)
  with map_history [of 7 8 ?cs M_MAP_VAL_ALLOW_UPDATE] u show ?thesis
    by (auto simp: fun_eq_iff simp del: map_run.simps)
qed

text \<open>
  C12. Inserting into any well-formed map, however full, with growth and every allocation
  failure included: the map stays well formed; on success exactly the key given changes, and
  the value it replaces is destroyed once unless it is the value itself; on failure nothing
  changes: the reason is memory, or a key that could not be copied where the map copies its keys,
  or a key that was there while updates are not allowed.
\<close>

theorem map_put_any:
  assumes "map_ok m" and "value \<noteq> NULL"
  shows "\<exists>r m' w'. m_map_put dup c1 c2 (Some m) (Some key) value w = (r, Some m', w') \<and> map_ok m' \<and>
    (if r = 0 then
       (\<forall>k. m_map_get (Some m') (Some k) = (if k = key_str key then value else m_map_get (Some m) (Some k))) \<and>
       w' = (let old = m_map_get (Some m) (Some (key_str key))
             in if old \<noteq> NULL \<and> old \<noteq> value then call_dtor (m_dtor m) old w else w)
     else
       (\<forall>k. m_map_get (Some m') (Some k) = m_map_get (Some m) (Some k)) \<and> w' = w \<and>
       (if m_flags m AND M_MAP_KEY_DUP \<noteq> 0 \<and> dup = NULL then r = - EINVAL
        else r = - ENOMEM \<or> r = - EPERM \<and> m_map_contains (Some m) (Some (key_str key)) \<and>
          m_flags m AND M_MAP_VAL_ALLOW_UPDATE = 0))"
proof (cases "m_flags m AND M_MAP_KEY_DUP \<noteq> 0 \<and> dup = NULL")
  case True
  then have "m_map_put dup c1 c2 (Some m) (Some key) value w = (- EINVAL, Some m, w)"
    using assms(2) by (simp add: m_map_put_def hashmap_put_def)
  with True assms(1) show ?thesis by simp
next
  case nodup: False
  let ?key = "if m_flags m AND M_MAP_KEY_DUP \<noteq> 0 then key\<lparr>key_ptr := dup\<rparr> else key"
  obtain r m' w' where res: "hashmap_put c1 c2 m (Some ?key) value w = (r, m', w')"
    by (cases "hashmap_put c1 c2 m (Some ?key) value w")
  have ks: "key_str ?key = key_str key" by simp
  have out: "put_outcome m (key_str key) value w (r, m', w')"
    using hashmap_put_ok [OF assms(1,2), of ?key w c1 c2] unfolding res ks .
  have put: "m_map_put dup c1 c2 (Some m) (Some key) value w = (r, Some m', w')"
    using res assms(2) nodup by (auto simp: m_map_put_def Let_def split: if_splits)
  have ok': "map_ok m'" using out by (simp add: put_outcome_def)
  note get = m_map_get_ok [OF ok'] m_map_get_ok [OF assms(1)]
  show ?thesis
  proof (intro exI conjI)
    show "m_map_put dup c1 c2 (Some m) (Some key) value w = (r, Some m', w')" by (fact put)
    show "map_ok m'" by (fact ok')
    show "if r = 0 then
       (\<forall>k. m_map_get (Some m') (Some k) = (if k = key_str key then value else m_map_get (Some m) (Some k))) \<and>
       w' = (let old = m_map_get (Some m) (Some (key_str key))
             in if old \<noteq> NULL \<and> old \<noteq> value then call_dtor (m_dtor m) old w else w)
     else
       (\<forall>k. m_map_get (Some m') (Some k) = m_map_get (Some m) (Some k)) \<and> w' = w \<and>
       (if m_flags m AND M_MAP_KEY_DUP \<noteq> 0 \<and> dup = NULL then r = - EINVAL
        else r = - ENOMEM \<or> r = - EPERM \<and> m_map_contains (Some m) (Some (key_str key)) \<and>
          m_flags m AND M_MAP_VAL_ALLOW_UPDATE = 0)"
      using out nodup map_abs_nonnull [OF assms(1), of "key_str key"]
      by (cases "map_abs m (key_str key)") (auto simp: put_outcome_def get m_map_contains_def Let_def)
  qed
qed

lemma map_sample:
  obtains m :: "ptr list m_map" where "m_map_new 7 8 0 log_dtor = Some m" and "map_ok m"
    and "map_abs m = (\<lambda>_. None)" and "table_size m = 256" and "m_length m = 0" and "m_flags m = 0"
    and "m_dtor m = log_dtor"
  by (rule m_map_new_ok [of 7 8 0 log_dtor]) simp_all

theorem map_put_any_witness:
  "\<exists>m r m' w'. m_map_new 7 8 0 log_dtor = Some m \<and>
    m_map_put 5 0 0 (Some m) (Some \<lparr>key_ptr = 4, key_str = ''k''\<rparr>) 9 [] = (r, Some m', w') \<and>
    (r = 0 \<and> m_map_get (Some m') (Some ''k'') = 9 \<or> r \<noteq> 0 \<and> m_map_get (Some m') (Some ''k'') = 0)"
proof -
  obtain m :: "ptr list m_map" where m: "m_map_new 7 8 0 log_dtor = Some m" "map_ok m"
    "map_abs m = (\<lambda>_. None)" by (rule map_sample)
  have "m_map_get (Some m) (Some ''k'') = 0" using m_map_get_ok [OF m(2)] m(3) by simp
  with map_put_any [OF m(2), of 9 5 0 0 "\<lparr>key_ptr = 4, key_str = ''k''\<rparr>" "[]"] m(1) show ?thesis
    by (auto split: if_splits)
qed

text \<open>
  C13. While less than half of the table is in use, inserting never answers \<open>- ENOMEM\<close>: no growth is
  attempted and an empty slot is found within the probe limit. What can fail is the copy of the key,
  in a map that copies its keys, and then nothing else does; and an update that is not allowed.
\<close>

theorem map_put_half_full:
  assumes "map_ok m" and "value \<noteq> NULL" and "m_map_len (Some m) < int (table_size m) div 2"
  shows "fst (m_map_put dup c1 c2 (Some m) (Some key) value w) \<in>
    (if m_flags m AND M_MAP_KEY_DUP \<noteq> 0 \<and> dup = NULL then {- EINVAL} else {0, - EPERM})"
proof (cases "m_flags m AND M_MAP_KEY_DUP \<noteq> 0 \<and> dup = NULL")
  case True
  then show ?thesis using assms(2) by (simp add: m_map_put_def hashmap_put_def)
next
  case nodup: False
  let ?key = "if m_flags m AND M_MAP_KEY_DUP \<noteq> 0 then key\<lparr>key_ptr := dup\<rparr> else key"
  have half: "m_length m < table_size m div 2" using assms(3) by (simp add: m_map_len_def)
  obtain r m' w' where res: "hashmap_put c1 c2 m (Some ?key) value w = (r, m', w')"
    by (cases "hashmap_put c1 c2 m (Some ?key) value w")
  have "put_outcome m (key_str ?key) value w (r, m', w')"
    using hashmap_put_ok [OF assms(1,2), of ?key w c1 c2] unfolding res .
  moreover have "r \<noteq> - ENOMEM"
    using hashmap_put_half_full [OF assms(1,2) half, of c1 c2 ?key w] unfolding res by simp
  ultimately have "r \<in> {0, - EPERM}" by (auto simp: put_outcome_def split: if_splits)
  then show ?thesis using res assms(2) nodup by (auto simp: m_map_put_def Let_def split: if_splits)
qed

theorem map_put_half_full_witness:
  "\<exists>m. m_map_new 7 8 0 log_dtor = Some m \<and>
    fst (m_map_put 5 0 0 (Some m) (Some \<lparr>key_ptr = 4, key_str = ''k''\<rparr>) 9 []) \<in> {0, - EPERM}"
proof -
  obtain m :: "ptr list m_map" where m: "m_map_new 7 8 0 log_dtor = Some m" "map_ok m"
    "table_size m = 256" "m_length m = 0" by (rule map_sample)
  with map_put_half_full [OF m(2), of 9 5 0 0 "\<lparr>key_ptr = 4, key_str = ''k''\<rparr>" "[]"] show ?thesis
    by (simp add: m_map_len_def split: if_splits)
qed

lemma one_key_map:
  fixes d :: "'w dtor"
  obtains m where "m_map_put 5 0 0 (m_map_new 7 8 0 d) (Some \<lparr>key_ptr = 4, key_str = ''k''\<rparr>) 9 w = (0, Some m, w)"
    and "map_ok m" and "map_abs m = [''k'' \<mapsto> 9]" and "m_flags m = 0" and "m_dtor m = d"
    and "table_size m = 256" and "m_length m = 1"
proof -
  let ?key = "\<lparr>key_ptr = 4, key_str = ''k''\<rparr>"
  obtain m where m: "m_map_new 7 8 0 d = Some m" "map_ok m"
    "map_abs m = (\<lambda>_. None)" "table_size m = 256" "m_length m = 0" "m_flags m = 0" "m_dtor m = d"
    by (rule m_map_new_ok [of 7 8 0 d]) simp_all
  obtain i where i: "hashmap_entry_find m ''k'' True = Some i"
    "\<And>w. hashmap_put 0 0 m (Some ?key) 9 w = put_at m i ?key 9 w"
    using hashmap_put_direct [OF m(2), of ?key 0 0 9] m(4,5) by auto
  obtain r m1 w1 where res: "put_at m i ?key 9 w = (r, m1, w1)" by (cases "put_at m i ?key 9 w")
  have out: "put_outcome m ''k'' 9 w (r, m1, w1)" "r \<noteq> - ENOMEM"
    using put_at_ok [OF m(2), of ?key i 9 w] i(1) res by simp_all
  then have r: "r = 0" using m(3) by (auto simp: put_outcome_def split: if_splits)
  with out m(3,6,7) have m1: "map_ok m1" "map_abs m1 = [''k'' \<mapsto> 9]" "m_flags m1 = 0" "m_dtor m1 = d" "w1 = w"
    by (auto simp: put_outcome_def)
  have "m_length m1 = 1" using card_dom_abs [OF m1(1)] m1(2) by simp
  moreover have "table_size m1 = 256" using put_at_size [of m i ?key 9 w] res m(4) by simp
  moreover have "m_map_put 5 0 0 (Some m) (Some ?key) 9 w = (0, Some m1, w)"
    using i(2) res r m(6) m1(5) by (simp add: m_map_put_def Let_def)
  ultimately show ?thesis using m1 m(1) by (intro that [of m1]) simp_all
qed

text \<open>
  C14. Removing a key from any well-formed map in which the table has a free slot at most half
  its size behind the key's entry (which holds whenever the table is at most half full): the map
  stays well formed, exactly this key is gone, its value is destroyed once, and its key released
  if the map owns its keys.
\<close>

theorem map_remove_gap:
  assumes "map_ok m" and "map_abs m k = Some d"
    and "\<forall>n. slot_key (table m) n = Some k \<longrightarrow> gap_after (table m) n"
  shows "\<exists>m' e. m_map_remove fr (Some m) (Some k) w = (0, Some m', release fr m e w) \<and>
    me_data e = d \<and> map_option key_str (me_key e) = Some k \<and> map_ok m' \<and>
    m_map_len (Some m') = m_map_len (Some m) - 1 \<and>
    (\<forall>k'. m_map_get (Some m') (Some k') = (if k' = k then NULL else m_map_get (Some m) (Some k')))"
proof -
  obtain n where n: "hashmap_entry_find m k False = Some n" "n < length (table m)"
    "map_option key_str (me_key (table m ! n)) = Some k" "me_data (table m ! n) = d"
    "slot_key (table m) (int n) = Some k"
    by (rule entry_find_present [OF assms(1,2)])
  have "gap_after (table m) (int n)" using assms(3) n(5) by blast
  from clear_elem_ok [OF assms(1) n(2,5) this] obtain m' where
    m': "clear_elem fr m n w = (m', release fr m (table m ! n) w)" "map_ok m'"
      "map_abs m' = (map_abs m)(k := None)" "m_length m' = m_length m - 1" by metis
  have pos: "m_length m > 0"
    using assms(2) card_dom_abs [OF assms(1)] by (metis card_0_eq dom_eq_empty_conv finite_dom_map_of
        map_abs_def neq0_conv option.distinct(1))
  have "m_map_remove fr (Some m) (Some k) w = (0, Some m', release fr m (table m ! n) w)"
    using n(1) m'(1) pos by (simp add: m_map_remove_def m_map_len_def)
  moreover have "\<forall>k'. m_map_get (Some m') (Some k') =
      (if k' = k then NULL else m_map_get (Some m) (Some k'))"
    using m'(3) by (simp add: m_map_get_ok [OF m'(2)] m_map_get_ok [OF assms(1)])
  moreover have "m_map_len (Some m') = m_map_len (Some m) - 1" using m'(4) pos by (simp add: m_map_len_def)
  ultimately show ?thesis using n(3,4) m'(2) by blast
qed

theorem map_remove_gap_witness:
  "\<exists>m1 m2. m_map_put 5 0 0 (m_map_new 7 8 0 log_dtor) (Some \<lparr>key_ptr = 4, key_str = ''k''\<rparr>) 9 [] = (0, Some m1, []) \<and>
    m_map_remove (\<lambda>_ w. w) (Some m1) (Some ''k'') [] = (0, Some m2, [9]) \<and>
    m_map_get (Some m2) (Some ''k'') = 0"
proof -
  obtain m1 where m1: "m_map_put 5 0 0 (m_map_new 7 8 0 log_dtor) (Some \<lparr>key_ptr = 4, key_str = ''k''\<rparr>) 9 [] = (0, Some m1, [])"
    "map_ok m1" "map_abs m1 = [''k'' \<mapsto> 9]" "m_flags m1 = 0" "m_dtor m1 = log_dtor"
    "table_size m1 = 256" "m_length m1 = 1" by (rule one_key_map [of log_dtor "[]"])
  have "\<forall>n. slot_key (table m1) n = Some ''k'' \<longrightarrow> gap_after (table m1) n"
    using m1(2,6,7) map_ok_size [OF m1(2)] by (auto simp: map_ok_def intro!: half_full_gap)
  then obtain m2 e where m2: "m_map_remove (\<lambda>_ w. w) (Some m1) (Some ''k'') [] =
      (0, Some m2, release (\<lambda>_ w. w) m1 e [])" "me_data e = 9"
    "m_map_get (Some m2) (Some ''k'') = 0"
    using map_remove_gap [OF m1(2), of "''k''" 9 "\<lambda>_ w. w" "[]"] m1(3) by auto
  have "release (\<lambda>_ w. w) m1 e [] = [9]" using m2(2) m1(4,5) by (simp add: release_def log_dtor_def)
  with m2 m1(1) show ?thesis by auto
qed

text \<open>
  C15. Freeing a map, whatever its probe clusters are: it terminates with success and the caller's handle
  nulled. If the iterator can be allocated every value is destroyed exactly once, and every key
  released exactly once if the map owns its keys and none otherwise; if it cannot, nothing is
  destroyed or released, and all values and keys are lost.
\<close>

theorem map_free_all:
  assumes "map_ok m" and "m_dtor m = log2_dtor"
  shows "\<exists>vs ks. m_map_free free2 cal (Some (Some m)) ([], []) = Some (0, Some None, (vs, ks)) \<and>
    (if cal = NULL then vs = [] \<and> ks = []
     else mset vs = image_mset me_data (mset (entries (table m))) \<and>
       mset ks = (if m_flags m AND M_MAP_KEY_AUTOFREE \<noteq> 0
         then image_mset (\<lambda>e. key_ptr (the (me_key e))) (mset (entries (table m))) else {#}))"
proof (cases "cal = NULL")
  case True
  then show ?thesis
    by (simp add: m_map_free_def m_map_clear_def m_map_itr_new_def map_clear_loop.simps [of free2 m None])
next
  case False
  obtain m' w' where "m_map_clear free2 cal (Some m) ([], []) = Some (0, Some m', w')"
    "released m (mset (entries (table m))) ([], []) w'"
    by (rule m_map_clear_ok [OF map_ok_count [OF assms(1)] assms(2) False, of "([], [])"])
  then show ?thesis using False by (cases w') (auto simp: m_map_free_def released_def)
qed

lemma entries_one:
  assumes "map_ok m" and "map_abs m = [k \<mapsto> d]" and "m_length m = 1"
  obtains e where "entries (table m) = [e]" and "me_data e = d"
proof -
  from assms(1,3) have "length (entries (table m)) = 1" by (simp add: map_ok_def)
  then obtain e where e: "entries (table m) = [e]" by (auto simp: length_Suc_conv)
  then have "map_abs m = [fst (entry_pair e) \<mapsto> me_data e]"
    by (simp add: map_abs_def assoc_def entry_pair_def)
  with assms(2) have "me_data e = d" by (metis fun_upd_same fun_upd_other option.inject option.distinct(1))
  with e that show ?thesis by blast
qed

theorem map_free_all_witness:
  "\<exists>m. fst (snd (m_map_put 5 0 0 (m_map_new 7 8 0 log2_dtor) (Some \<lparr>key_ptr = 4, key_str = ''k''\<rparr>) 9 ([], []))) = Some m \<and>
    m_map_free free2 3 (Some (Some m)) ([], []) = Some (0, Some None, ([9], []))"
proof -
  obtain m where m: "m_map_put 5 0 0 (m_map_new 7 8 0 log2_dtor) (Some \<lparr>key_ptr = 4, key_str = ''k''\<rparr>) 9 ([], []) =
      (0, Some m, ([], []))" "map_ok m" "map_abs m = [''k'' \<mapsto> 9]" "m_flags m = 0" "m_dtor m = log2_dtor"
    "m_length m = 1" by (rule one_key_map [of log2_dtor "([], [])"])
  obtain e where "entries (table m) = [e]" "me_data e = 9" by (rule entries_one [OF m(2,3,6)])
  with map_free_all [OF m(2,5), of 3] m(1,4) show ?thesis by auto
qed

text \<open>
  Iterating with a callback that does not touch the map calls it on every entry exactly
  once, in table order, until it returns something else than 0.
\<close>

theorem map_iterate_all:
  assumes "map_ok m" and "m_length m > 0"
  shows "m_map_iterate (Some m) (Some (\<lambda>up. pure_cb (g up))) up v =
    (case iter_list (\<lambda>e. g up (the (me_key e)) (me_data e)) (entries (table m)) v of
       (rc, v') \<Rightarrow> Some (rc, Some m, v'))"
  using assms map_iterate_loop_pure [of m "g up" 0 v]
  by (simp add: m_map_iterate_def m_map_len_def map_ok_def split: prod.splits)


theorem map_iterate_all_witness:
  "\<exists>m. fst (snd (m_map_put 5 0 0 (m_map_new 7 8 0 log_dtor) (Some \<lparr>key_ptr = 4, key_str = ''k''\<rparr>) 9 [])) = Some m \<and>
    m_map_iterate (Some m) (Some (\<lambda>up. pure_cb (\<lambda>k d v. (0, v @ [d])))) 1 [] = Some (0, Some m, [9])"
proof -
  obtain m where m: "m_map_put 5 0 0 (m_map_new 7 8 0 log_dtor) (Some \<lparr>key_ptr = 4, key_str = ''k''\<rparr>) 9 [] =
      (0, Some m, [])" "map_ok m" "map_abs m = [''k'' \<mapsto> 9]" "m_length m = 1" by (rule one_key_map [of log_dtor "[]"])
  obtain e where "entries (table m) = [e]" "me_data e = 9" by (rule entries_one [OF m(2-4)])
  with map_iterate_all [OF m(2), of "\<lambda>up k d v. (0, v @ [d])" 1 "[]"] m(1,4) show ?thesis by auto
qed

end
