(* ===== verification/Bst.thy ===== *)
theory Bst
  imports Itr
begin

text \<open>
  The binary search tree of \<^verbatim>\<open>Lib/structs/bst.c\<close>, over a store of nodes with parent pointers.
  A \<^verbatim>\<open>bst_node **\<close> is a slot: the root pointer, the left, right or parent pointer of a node, or
  the \<^verbatim>\<open>prev\<close> field of the iterator at hand, all of which the code dereferences through one
  pointer type. The comparator and the destructor are the user's.
\<close>

record bst_node =
  b_userptr :: ptr
  b_parent :: ptr
  b_right :: ptr
  b_left :: ptr

type_synonym bst_nodes = "ptr \<rightharpoonup> bst_node"

datatype bslot = RootSlot | LeftOf ptr | RightOf ptr | ParentOf ptr | PrevField

record 'w m_bst =
  t_len :: nat
  t_root :: ptr
  t_comp :: "ptr \<Rightarrow> ptr \<Rightarrow> int"
  t_dtor :: "'w dtor"
  t_nodes :: bst_nodes

record bst_itr =
  bi_removed :: bool
  bi_curr :: bslot
  bi_prev :: ptr

datatype bst_order = M_BST_PRE | M_BST_POST | M_BST_IN

subsection \<open>Memory accesses\<close>

definition bnode_at :: "bst_nodes \<Rightarrow> ptr \<Rightarrow> bst_node option" where
  "bnode_at ns p = (if p = NULL then None else ns p)"

fun bslot_get :: "ptr \<Rightarrow> ptr \<Rightarrow> bst_nodes \<Rightarrow> bslot \<Rightarrow> ptr option" where
  "bslot_get root prev ns RootSlot = Some root"
| "bslot_get root prev ns (LeftOf p) = map_option b_left (bnode_at ns p)"
| "bslot_get root prev ns (RightOf p) = map_option b_right (bnode_at ns p)"
| "bslot_get root prev ns (ParentOf p) = map_option b_parent (bnode_at ns p)"
| "bslot_get root prev ns PrevField = Some prev"

text \<open>No function writes through a pointer to a parent or \<^verbatim>\<open>prev\<close> field.\<close>

fun bslot_set :: "ptr \<Rightarrow> bst_nodes \<Rightarrow> bslot \<Rightarrow> ptr \<Rightarrow> (ptr \<times> bst_nodes) option" where
  "bslot_set root ns RootSlot v = Some (v, ns)"
| "bslot_set root ns (LeftOf p) v =
     map_option (\<lambda>n. (root, ns(p \<mapsto> n\<lparr>b_left := v\<rparr>))) (bnode_at ns p)"
| "bslot_set root ns (RightOf p) v =
     map_option (\<lambda>n. (root, ns(p \<mapsto> n\<lparr>b_right := v\<rparr>))) (bnode_at ns p)"
| "bslot_set root ns (ParentOf p) v = None"
| "bslot_set root ns PrevField v = None"

definition set_parent :: "bst_nodes \<Rightarrow> ptr \<Rightarrow> ptr \<Rightarrow> bst_nodes option" where
  "set_parent ns p v = map_option (\<lambda>n. ns(p \<mapsto> n\<lparr>b_parent := v\<rparr>)) (bnode_at ns p)"

definition set_data :: "bst_nodes \<Rightarrow> ptr \<Rightarrow> ptr \<Rightarrow> bst_nodes option" where
  "set_data ns p v = map_option (\<lambda>n. ns(p \<mapsto> n\<lparr>b_userptr := v\<rparr>)) (bnode_at ns p)"

definition free_bnode :: "bst_nodes \<Rightarrow> ptr \<Rightarrow> bst_nodes option" where
  "free_bnode ns p = map_option (\<lambda>n. ns(p := None)) (bnode_at ns p)"

subsection \<open>Internal functions\<close>

definition bst_insert_node :: "ptr \<Rightarrow> 'w m_bst \<Rightarrow> bslot \<Rightarrow> ptr \<Rightarrow> ptr \<Rightarrow> (int \<times> 'w m_bst) option" where
  "bst_insert_node cal l elem parent data =
     (if cal = NULL then Some (- ENOMEM, l)
      else do {
        (root, ns) \<leftarrow> bslot_set (t_root l)
          ((t_nodes l)(cal \<mapsto> \<lparr>b_userptr = data, b_parent = parent, b_right = NULL, b_left = NULL\<rparr>)) elem cal;
        Some (0, l\<lparr>t_root := root, t_nodes := ns, t_len := t_len l + 1\<rparr>) })"

partial_function (option) find_min_subtree :: "ptr \<Rightarrow> ptr \<Rightarrow> bst_nodes \<Rightarrow> bslot \<Rightarrow> bslot option" where
  "find_min_subtree root prev ns node =
     Option.bind (bslot_get root prev ns node) (\<lambda>p.
       Option.bind (bnode_at ns p) (\<lambda>n.
         if b_left n \<noteq> NULL then find_min_subtree root prev ns (LeftOf p) else Some node))"

partial_function (option) bst_remove_node ::
    "'w m_bst \<Rightarrow> bslot \<Rightarrow> 'w \<Rightarrow> (int \<times> 'w m_bst \<times> 'w) option" where
  "bst_remove_node l elem w =
     Option.bind (bslot_get (t_root l) NULL (t_nodes l) elem) (\<lambda>node.
       if node \<noteq> NULL then
         Option.bind (bnode_at (t_nodes l) node) (\<lambda>n.
           if b_left n = NULL \<or> b_right n = NULL then
             (let child = (if b_left n \<noteq> NULL then b_left n else b_right n) in
              Option.bind (bslot_set (t_root l) (t_nodes l) elem child) (\<lambda>(root, ns).
              Option.bind (bnode_at ns node) (\<lambda>n.
              Option.bind (if child \<noteq> NULL then set_parent ns child (b_parent n) else Some ns) (\<lambda>ns.
              Option.bind (free_bnode ns node) (\<lambda>ns.
                Some (0, l\<lparr>t_root := root, t_nodes := ns, t_len := t_len l - 1\<rparr>,
                      call_dtor (t_dtor l) (b_userptr n) w))))))
           else
             Option.bind (find_min_subtree (t_root l) NULL (t_nodes l) (RightOf node)) (\<lambda>tmp.
             Option.bind (bslot_get (t_root l) NULL (t_nodes l) tmp) (\<lambda>m.
             Option.bind (bnode_at (t_nodes l) m) (\<lambda>mn.
             Option.bind (set_data (t_nodes l) node (b_userptr mn)) (\<lambda>ns.
               bst_remove_node (l\<lparr>t_nodes := ns\<rparr>) tmp w)))))
       else Some (- ENOENT, l, w))"

text \<open>\<^verbatim>\<open>(userdata - node_data)\<close> returned as an \<^verbatim>\<open>int\<close>.\<close>

definition ptrcmp :: "ptr \<Rightarrow> ptr \<Rightarrow> int" where
  "ptrcmp userdata node_data = signed_take_bit 31 (int userdata - int node_data)"

partial_function (option) traverse_preorder ::
    "bst_nodes \<Rightarrow> (ptr \<Rightarrow> 'v \<Rightarrow> int \<times> 'v) \<Rightarrow> ptr \<Rightarrow> 'v \<Rightarrow> (int \<times> 'v) option" where
  "traverse_preorder ns cb node v =
     (if node = NULL then Some (0, v)
      else Option.bind (bnode_at ns node) (\<lambda>n.
        case cb (b_userptr n) v of (ret, v) \<Rightarrow>
          if ret = 0 then
            Option.bind (traverse_preorder ns cb (b_left n) v) (\<lambda>r. case r of (ret, v) \<Rightarrow>
              if ret = 0 then traverse_preorder ns cb (b_right n) v else Some (ret, v))
          else Some (ret, v)))"

partial_function (option) traverse_postorder ::
    "bst_nodes \<Rightarrow> (ptr \<Rightarrow> 'v \<Rightarrow> int \<times> 'v) \<Rightarrow> ptr \<Rightarrow> 'v \<Rightarrow> (int \<times> 'v) option" where
  "traverse_postorder ns cb node v =
     (if node = NULL then Some (0, v)
      else Option.bind (bnode_at ns node) (\<lambda>n.
        Option.bind (traverse_postorder ns cb (b_left n) v) (\<lambda>r. case r of (ret, v) \<Rightarrow>
          if ret = 0 then
            Option.bind (traverse_postorder ns cb (b_right n) v) (\<lambda>r. case r of (ret, v) \<Rightarrow>
              if ret = 0 then Some (cb (b_userptr n) v) else Some (ret, v))
          else Some (ret, v))))"

partial_function (option) traverse_inorder ::
    "bst_nodes \<Rightarrow> (ptr \<Rightarrow> 'v \<Rightarrow> int \<times> 'v) \<Rightarrow> ptr \<Rightarrow> 'v \<Rightarrow> (int \<times> 'v) option" where
  "traverse_inorder ns cb node v =
     (if node = NULL then Some (0, v)
      else Option.bind (bnode_at ns node) (\<lambda>n.
        Option.bind (traverse_inorder ns cb (b_left n) v) (\<lambda>r. case r of (ret, v) \<Rightarrow>
          if ret = 0 then
            (case cb (b_userptr n) v of (ret, v) \<Rightarrow>
              if ret = 0 then traverse_inorder ns cb (b_right n) v else Some (ret, v))
          else Some (ret, v))))"

text \<open>\<open>bst_find\<close> returns the slot it stopped at and what it left in \<^verbatim>\<open>*parent\<close>.\<close>

partial_function (option) bst_find ::
    "ptr \<Rightarrow> bst_nodes \<Rightarrow> (ptr \<Rightarrow> ptr \<Rightarrow> int) \<Rightarrow> ptr \<Rightarrow> bslot \<Rightarrow> ptr \<Rightarrow> (bslot \<times> ptr) option" where
  "bst_find root ns comp_fn data tmp parent =
     Option.bind (bslot_get root NULL ns tmp) (\<lambda>p.
       if p \<noteq> NULL then
         Option.bind (bnode_at ns p) (\<lambda>n.
           (let ret = comp_fn data (b_userptr n) in
            if ret \<noteq> 0 then
              if ret > 0 then bst_find root ns comp_fn data (RightOf p) p
              else bst_find root ns comp_fn data (LeftOf p) p
            else Some (tmp, parent)))
       else Some (tmp, parent))"

partial_function (option) bst_climb :: "ptr \<Rightarrow> ptr \<Rightarrow> bst_nodes \<Rightarrow> bslot \<Rightarrow> bslot \<Rightarrow> bslot option" where
  "bst_climb root prev ns node parent =
     Option.bind (bslot_get root prev ns parent) (\<lambda>pp.
       if pp \<noteq> NULL then
         Option.bind (bslot_get root prev ns node) (\<lambda>np.
         Option.bind (bnode_at ns pp) (\<lambda>pn.
           if np = b_right pn then bst_climb root prev ns parent (ParentOf pp) else Some parent))
       else Some parent)"

definition bst_next :: "ptr \<Rightarrow> ptr \<Rightarrow> bst_nodes \<Rightarrow> bslot \<Rightarrow> bslot option" where
  "bst_next root prev ns node = do {
     p \<leftarrow> bslot_get root prev ns node;
     if p \<noteq> NULL then do {
       n \<leftarrow> bnode_at ns p;
       if b_right n \<noteq> NULL then find_min_subtree root prev ns (RightOf p)
       else bst_climb root prev ns node (ParentOf p) }
     else Some node }"

subsection \<open>Public functions\<close>

definition m_bst_new :: "ptr \<Rightarrow> (ptr \<Rightarrow> ptr \<Rightarrow> int) option \<Rightarrow> 'w dtor \<Rightarrow> 'w m_bst option" where
  "m_bst_new cal comp_fn fn =
     (if cal = NULL then None
      else Some \<lparr>t_len = 0, t_root = NULL, t_comp = (case comp_fn of None \<Rightarrow> ptrcmp | Some c \<Rightarrow> c),
                 t_dtor = fn, t_nodes = (\<lambda>_. None)\<rparr>)"

definition m_bst_len :: "'w m_bst option \<Rightarrow> int" where
  "m_bst_len lp = (case lp of None \<Rightarrow> - EINVAL | Some l \<Rightarrow> int (t_len l))"

definition m_bst_insert :: "ptr \<Rightarrow> 'w m_bst option \<Rightarrow> ptr \<Rightarrow> (int \<times> 'w m_bst option) option" where
  "m_bst_insert cal lp data =
     (case lp of None \<Rightarrow> Some (- EINVAL, None)
      | Some l \<Rightarrow>
          if data = NULL then Some (- EINVAL, lp)
          else do {
            (node, parent) \<leftarrow> bst_find (t_root l) (t_nodes l) (t_comp l) data RootSlot NULL;
            p \<leftarrow> bslot_get (t_root l) NULL (t_nodes l) node;
            if p \<noteq> NULL then Some (- EEXIST, lp)
            else do {
              (r, l') \<leftarrow> bst_insert_node cal l node parent data;
              Some (r, Some l') } })"

definition m_bst_remove :: "'w m_bst option \<Rightarrow> ptr \<Rightarrow> 'w \<Rightarrow> (int \<times> 'w m_bst option \<times> 'w) option" where
  "m_bst_remove lp data w =
     (if \<not> m_bst_len lp > 0 then Some (- EINVAL, lp, w)
      else if data = NULL then Some (- EINVAL, lp, w)
      else case lp of None \<Rightarrow> None
      | Some l \<Rightarrow> do {
          (node, parent) \<leftarrow> bst_find (t_root l) (t_nodes l) (t_comp l) data RootSlot NULL;
          (r, l', w') \<leftarrow> bst_remove_node l node w;
          Some (r, Some l', w') })"

definition m_bst_find :: "'w m_bst option \<Rightarrow> ptr \<Rightarrow> ptr option" where
  "m_bst_find lp data =
     (case lp of None \<Rightarrow> Some NULL
      | Some l \<Rightarrow>
          if data = NULL then Some NULL
          else do {
            (node, parent) \<leftarrow> bst_find (t_root l) (t_nodes l) (t_comp l) data RootSlot NULL;
            p \<leftarrow> bslot_get (t_root l) NULL (t_nodes l) node;
            if p \<noteq> NULL then map_option b_userptr (bnode_at (t_nodes l) p) else Some NULL })"

text \<open>The order is \<open>None\<close> for a value outside the enumeration.\<close>

definition m_bst_traverse ::
    "'w m_bst option \<Rightarrow> bst_order option \<Rightarrow> (ptr \<Rightarrow> ptr \<Rightarrow> 'v \<Rightarrow> int \<times> 'v) option \<Rightarrow> ptr \<Rightarrow> 'v \<Rightarrow> (int \<times> 'v) option" where
  "m_bst_traverse lp type cb up v =
     (case lp of None \<Rightarrow> Some (- EINVAL, v)
      | Some l \<Rightarrow> (case cb of None \<Rightarrow> Some (- EINVAL, v)
        | Some f \<Rightarrow> map_option (\<lambda>(ret, v'). (if ret \<ge> 0 then 0 else ret, v'))
            (case type of
               Some M_BST_PRE \<Rightarrow> traverse_preorder (t_nodes l) (f up) (t_root l) v
             | Some M_BST_POST \<Rightarrow> traverse_postorder (t_nodes l) (f up) (t_root l) v
             | Some M_BST_IN \<Rightarrow> traverse_inorder (t_nodes l) (f up) (t_root l) v
             | None \<Rightarrow> Some (- EINVAL, v))))"

definition m_bst_iterate ::
    "'w m_bst option \<Rightarrow> (ptr \<Rightarrow> ptr \<Rightarrow> 'v \<Rightarrow> int \<times> 'v) option \<Rightarrow> ptr \<Rightarrow> 'v \<Rightarrow> (int \<times> 'v) option" where
  "m_bst_iterate lp cb up v = m_bst_traverse lp (Some M_BST_PRE) cb up v"

definition m_bst_itr_new :: "ptr \<Rightarrow> 'w m_bst option \<Rightarrow> bst_itr option option" where
  "m_bst_itr_new cal lp =
     (if \<not> m_bst_len lp > 0 then Some None
      else if cal = NULL then Some None
      else case lp of None \<Rightarrow> None
      | Some l \<Rightarrow> do {
          curr \<leftarrow> find_min_subtree (t_root l) NULL (t_nodes l) RootSlot;
          Some (Some \<lparr>bi_removed = False, bi_curr = curr, bi_prev = NULL\<rparr>) })"

definition m_bst_itr_next :: "'w m_bst \<Rightarrow> bst_itr option \<Rightarrow> (int \<times> bst_itr option) option" where
  "m_bst_itr_next l it =
     (case it of None \<Rightarrow> Some (- EINVAL, None)
      | Some i \<Rightarrow> do {
          i \<leftarrow> (if \<not> bi_removed i then do {
                  p \<leftarrow> bslot_get (t_root l) (bi_prev i) (t_nodes l) (bi_curr i);
                  curr \<leftarrow> bst_next (t_root l) p (t_nodes l) (bi_curr i);
                  Some (i\<lparr>bi_prev := p, bi_curr := curr\<rparr>) }
                else if bi_prev i \<noteq> NULL then do {
                  curr \<leftarrow> bst_next (t_root l) (bi_prev i) (t_nodes l) PrevField;
                  Some (i\<lparr>bi_curr := curr\<rparr>) }
                else if t_root l \<noteq> NULL then do {
                  curr \<leftarrow> find_min_subtree (t_root l) (bi_prev i) (t_nodes l) RootSlot;
                  Some (i\<lparr>bi_curr := curr\<rparr>) }
                else Some (i\<lparr>bi_curr := RootSlot\<rparr>));
          let i = i\<lparr>bi_removed := False\<rparr>;
          p \<leftarrow> bslot_get (t_root l) (bi_prev i) (t_nodes l) (bi_curr i);
          Some (0, if p = NULL then None else Some i) })"

definition m_bst_itr_remove ::
    "'w m_bst \<Rightarrow> bst_itr option \<Rightarrow> 'w \<Rightarrow> (int \<times> 'w m_bst \<times> bst_itr option \<times> 'w) option" where
  "m_bst_itr_remove l it w =
     (case it of None \<Rightarrow> Some (- EINVAL, l, it, w)
      | Some i \<Rightarrow>
          if bi_removed i then Some (- EINVAL, l, it, w)
          else do {
            c \<leftarrow> bslot_get (t_root l) (bi_prev i) (t_nodes l) (bi_curr i);
            if c = NULL then Some (- EINVAL, l, it, w)
            else do {
              n \<leftarrow> bnode_at (t_nodes l) c;
              node \<leftarrow> (if b_parent n \<noteq> NULL then do {
                         pn \<leftarrow> bnode_at (t_nodes l) (b_parent n);
                         Some (if c = b_right pn then RightOf (b_parent n) else LeftOf (b_parent n)) }
                       else Some RootSlot);
              (ret, l', w') \<leftarrow> bst_remove_node l node w;
              Some (ret, l', Some (i\<lparr>bi_removed := (ret = 0)\<rparr>), w') } })"

definition m_bst_itr_get_data :: "'w m_bst \<Rightarrow> bst_itr option \<Rightarrow> ptr option" where
  "m_bst_itr_get_data l it =
     (case it of None \<Rightarrow> Some NULL
      | Some i \<Rightarrow>
          if bi_removed i then Some NULL
          else do {
            c \<leftarrow> bslot_get (t_root l) (bi_prev i) (t_nodes l) (bi_curr i);
            if c = NULL then Some NULL else map_option b_userptr (bnode_at (t_nodes l) c) })"

partial_function (option) bst_clear_loop ::
    "'w m_bst \<Rightarrow> bst_itr option \<Rightarrow> 'w \<Rightarrow> ('w m_bst \<times> 'w) option" where
  "bst_clear_loop l it w =
     (if it = None then Some (l, w)
      else Option.bind (m_bst_itr_remove l it w) (\<lambda>r. case r of (r1, l1, it1, w1) \<Rightarrow>
             Option.bind (m_bst_itr_next l1 it1) (\<lambda>s. case s of (r2, it2) \<Rightarrow>
               bst_clear_loop l1 it2 w1)))"

definition m_bst_clear :: "ptr \<Rightarrow> 'w m_bst option \<Rightarrow> 'w \<Rightarrow> (int \<times> 'w m_bst option \<times> 'w) option" where
  "m_bst_clear cal lp w =
     (if \<not> m_bst_len lp > 0 then Some (- EINVAL, lp, w)
      else case lp of None \<Rightarrow> None
      | Some l \<Rightarrow> do {
          it \<leftarrow> m_bst_itr_new cal lp;
          (l', w') \<leftarrow> bst_clear_loop l it w;
          Some (0, Some (l'\<lparr>t_root := NULL\<rparr>), w') })"

text \<open>\<^verbatim>\<open>m_bst_free(m_bst_t **l)\<close>: the outer option is the pointer to the handle.\<close>

definition m_bst_free ::
    "ptr \<Rightarrow> 'w m_bst option option \<Rightarrow> 'w \<Rightarrow> (int \<times> 'w m_bst option option \<times> 'w) option" where
  "m_bst_free cal lpp w =
     (case lpp of None \<Rightarrow> Some (- EINVAL, None, w)
      | Some lp \<Rightarrow> do {
          (_, lp', w') \<leftarrow> m_bst_clear cal lp w;
          Some (0, Some None, w') })"

text \<open>The loops compute.\<close>

declare find_min_subtree.simps [code]
  bst_remove_node.simps [code]
  traverse_preorder.simps [code]
  traverse_postorder.simps [code]
  traverse_inorder.simps [code]
  bst_find.simps [code]
  bst_climb.simps [code]
  bst_clear_loop.simps [code]

end
