(* ===== verification/Ordered.thy ===== *)
theory Ordered
  imports Prelude
begin

text \<open>
  What a client of the search tree relies on (the event sources of a module are kept in one
  tree per type): a comparator that is a total preorder on the data it is given
  (\<open>comparator\<close>), and a container that behaves as a sorted list without equal elements
  (\<open>ordered_set\<close>). \<open>bst.c\<close> provides the second for any comparator that is the first.
\<close>

subsection \<open>Sorted lists under a comparator\<close>

definition ordered :: "(ptr \<Rightarrow> ptr \<Rightarrow> int) \<Rightarrow> ptr list \<Rightarrow> bool" where
  "ordered cmp = sorted_wrt (\<lambda>x y. cmp x y < 0)"

definition below :: "(ptr \<Rightarrow> ptr \<Rightarrow> int) \<Rightarrow> ptr \<Rightarrow> ptr list \<Rightarrow> ptr list" where
  "below cmp d = takeWhile (\<lambda>x. cmp d x > 0)"

definition upward :: "(ptr \<Rightarrow> ptr \<Rightarrow> int) \<Rightarrow> ptr \<Rightarrow> ptr list \<Rightarrow> ptr list" where
  "upward cmp d = dropWhile (\<lambda>x. cmp d x > 0)"

definition set_find :: "(ptr \<Rightarrow> ptr \<Rightarrow> int) \<Rightarrow> ptr \<Rightarrow> ptr list \<Rightarrow> ptr" where
  "set_find cmp d xs = (case upward cmp d xs of [] \<Rightarrow> NULL | x # _ \<Rightarrow> if cmp d x = 0 then x else NULL)"

definition set_insert :: "(ptr \<Rightarrow> ptr \<Rightarrow> int) \<Rightarrow> ptr \<Rightarrow> ptr list \<Rightarrow> ptr list" where
  "set_insert cmp d xs = below cmp d xs @ d # upward cmp d xs"

definition set_delete :: "(ptr \<Rightarrow> ptr \<Rightarrow> int) \<Rightarrow> ptr \<Rightarrow> ptr list \<Rightarrow> ptr list" where
  "set_delete cmp d xs = below cmp d xs @ tl (upward cmp d xs)"

lemma set_ops_hit:
  assumes "\<forall>x\<in>set ls. cmp d x > 0" and "cmp d x = 0"
  shows "set_find cmp d (ls @ x # rs) = x" and "set_delete cmp d (ls @ x # rs) = ls @ rs"
  using assms by (simp_all add: set_find_def set_delete_def below_def upward_def)

lemma set_ops_miss:
  assumes "\<forall>x\<in>set ls. cmp d x > 0" and "\<forall>x\<in>set rs. cmp d x < 0"
  shows "set_find cmp d (ls @ rs) = NULL" and "set_insert cmp d (ls @ rs) = ls @ d # rs"
proof -
  have "takeWhile (\<lambda>x. cmp d x > 0) rs = []" "dropWhile (\<lambda>x. cmp d x > 0) rs = rs"
    using assms(2) by (cases rs; simp)+
  with assms show "set_find cmp d (ls @ rs) = NULL" "set_insert cmp d (ls @ rs) = ls @ d # rs"
    by (auto simp: set_find_def set_insert_def below_def upward_def split: list.splits)
qed

lemma ordered_simps [simp]:
  "ordered cmp []"
  "ordered cmp (x # xs) \<longleftrightarrow> (\<forall>y\<in>set xs. cmp x y < 0) \<and> ordered cmp xs"
  "ordered cmp (xs @ ys) \<longleftrightarrow> ordered cmp xs \<and> ordered cmp ys \<and> (\<forall>x\<in>set xs. \<forall>y\<in>set ys. cmp x y < 0)"
  by (auto simp: ordered_def sorted_wrt_append)

locale comparator =
  fixes cmp :: "ptr \<Rightarrow> ptr \<Rightarrow> int" and D :: "ptr set"
  assumes flip: "x \<in> D \<Longrightarrow> y \<in> D \<Longrightarrow> cmp y x > 0 \<longleftrightarrow> cmp x y < 0"
    and trans: "x \<in> D \<Longrightarrow> y \<in> D \<Longrightarrow> z \<in> D \<Longrightarrow> cmp x y \<le> 0 \<Longrightarrow> cmp y z \<le> 0 \<Longrightarrow> cmp x z \<le> 0"
begin

lemma refl: "x \<in> D \<Longrightarrow> cmp x x = 0"
  using flip [of x x] by linarith

lemma le_less: "x \<in> D \<Longrightarrow> y \<in> D \<Longrightarrow> z \<in> D \<Longrightarrow> cmp x y \<le> 0 \<Longrightarrow> cmp y z < 0 \<Longrightarrow> cmp x z < 0"
  using trans [of x y z] trans [of z x y] flip [of x z] flip [of z x] flip [of y z] flip [of z y]
  by linarith

lemma less_le: "x \<in> D \<Longrightarrow> y \<in> D \<Longrightarrow> z \<in> D \<Longrightarrow> cmp x y < 0 \<Longrightarrow> cmp y z \<le> 0 \<Longrightarrow> cmp x z < 0"
  using trans [of x y z] trans [of y z x] flip [of x z] flip [of z x] flip [of x y] flip [of y x]
  by linarith

text \<open>Where a datum stands with respect to the elements on both sides of one it was compared with.\<close>

lemma greater_left:
  "ordered cmp (ls @ x # rs) \<Longrightarrow> insert d (insert x (set ls)) \<subseteq> D \<Longrightarrow> cmp d x \<ge> 0 \<Longrightarrow>
   \<forall>y\<in>set ls. cmp d y > 0"
proof
  fix y
  assume "ordered cmp (ls @ x # rs)" "insert d (insert x (set ls)) \<subseteq> D" "cmp d x \<ge> 0" "y \<in> set ls"
  then have "cmp y x < 0" "y \<in> D" "x \<in> D" "d \<in> D" "cmp d x \<ge> 0" by auto
  then show "cmp d y > 0" using less_le [of y x d] flip [of d x] flip [of y d] flip [of x d] by linarith
qed

lemma smaller_right:
  "ordered cmp (ls @ x # rs) \<Longrightarrow> insert d (insert x (set rs)) \<subseteq> D \<Longrightarrow> cmp d x \<le> 0 \<Longrightarrow>
   \<forall>y\<in>set rs. cmp d y < 0"
proof
  fix y
  assume "ordered cmp (ls @ x # rs)" "insert d (insert x (set rs)) \<subseteq> D" "cmp d x \<le> 0" "y \<in> set rs"
  then show "cmp d y < 0" using le_less [of d x y] by auto
qed

text \<open>Insertion keeps the list sorted and makes the datum the one that is found.\<close>

lemma split_at:
  "ordered cmp xs \<Longrightarrow> insert d (set xs) \<subseteq> D \<Longrightarrow>
   xs = below cmp d xs @ upward cmp d xs \<and> (\<forall>x\<in>set (below cmp d xs). cmp d x > 0) \<and>
   (\<forall>x\<in>set (upward cmp d xs). cmp d x \<le> 0)"
proof (induction xs)
  case (Cons x xs)
  show ?case
  proof (cases "cmp d x > 0")
    case True
    with Cons show ?thesis by (simp add: below_def upward_def)
  next
    case False
    with Cons.prems smaller_right [of "[]" x xs d] show ?thesis by (force simp: below_def upward_def)
  qed
qed (simp add: below_def upward_def)

lemma ordered_split:
  assumes "ordered cmp (ls @ rs)" and "insert d (set ls \<union> set rs) \<subseteq> D"
    and "\<forall>x\<in>set ls. cmp d x > 0" and "\<forall>x\<in>set rs. cmp d x < 0"
  shows "ordered cmp (ls @ d # rs)"
  using assms flip by (auto simp: subset_iff)

end

subsection \<open>Sorted containers\<close>

text \<open>
  A history of calls: insertions with the address the allocator returned (\<open>NULL\<close> when it
  failed), lookups and removals. \<open>set_admissible\<close>: the allocator returned \<open>NULL\<close> or an
  address not in use, and every datum is one the comparator orders.
\<close>

datatype set_call = Insert ptr ptr | Find ptr | Remove ptr

primrec set_step :: "(ptr \<Rightarrow> 's \<Rightarrow> ptr \<Rightarrow> (int \<times> 's) option) \<Rightarrow> ('s \<Rightarrow> ptr \<Rightarrow> ptr option) \<Rightarrow>
    ('s \<Rightarrow> ptr \<Rightarrow> (int \<times> 's) option) \<Rightarrow> set_call \<Rightarrow> 's \<Rightarrow> ((int + ptr) \<times> 's) option" where
  "set_step ins fnd rem (Insert a d) s = map_option (map_prod Inl id) (ins a s d)"
| "set_step ins fnd rem (Find d) s = map_option (\<lambda>v. (Inr v, s)) (fnd s d)"
| "set_step ins fnd rem (Remove d) s = map_option (map_prod Inl id) (rem s d)"

primrec set_run :: "(set_call \<Rightarrow> 's \<Rightarrow> ((int + ptr) \<times> 's) option) \<Rightarrow> set_call list \<Rightarrow> 's \<Rightarrow>
    ((int + ptr) list \<times> 's) option" where
  "set_run step [] s = Some ([], s)"
| "set_run step (c # cs) s = Option.bind (step c s) (\<lambda>(v, s'). map_option (map_prod ((#) v) id) (set_run step cs s'))"

primrec datum_of :: "set_call \<Rightarrow> ptr" where
  "datum_of (Insert a d) = d" | "datum_of (Find d) = d" | "datum_of (Remove d) = d"

primrec may_alloc :: "('s \<Rightarrow> ptr \<Rightarrow> bool) \<Rightarrow> set_call \<Rightarrow> 's \<Rightarrow> bool" where
  "may_alloc fresh (Insert a d) s = (a = NULL \<or> fresh s a)"
| "may_alloc fresh (Find d) s = True"
| "may_alloc fresh (Remove d) s = True"

primrec set_admissible :: "(set_call \<Rightarrow> 's \<Rightarrow> ((int + ptr) \<times> 's) option) \<Rightarrow> ('s \<Rightarrow> ptr \<Rightarrow> bool) \<Rightarrow>
    set_call list \<Rightarrow> 's \<Rightarrow> bool" where
  "set_admissible step fresh [] s = True"
| "set_admissible step fresh (c # cs) s = (may_alloc fresh c s \<and>
     (case step c s of None \<Rightarrow> True | Some (v, s') \<Rightarrow> set_admissible step fresh cs s'))"

text \<open>The same history on a sorted list.\<close>

primrec ideal_step :: "(ptr \<Rightarrow> ptr \<Rightarrow> int) \<Rightarrow> set_call \<Rightarrow> ptr list \<Rightarrow> (int + ptr) \<times> ptr list" where
  "ideal_step cmp (Insert a d) xs =
     (if set_find cmp d xs \<noteq> NULL then (Inl (- EEXIST), xs)
      else if a = NULL then (Inl (- ENOMEM), xs) else (Inl 0, set_insert cmp d xs))"
| "ideal_step cmp (Find d) xs = (Inr (set_find cmp d xs), xs)"
| "ideal_step cmp (Remove d) xs =
     (if set_find cmp d xs \<noteq> NULL then (Inl 0, set_delete cmp d xs)
      else (Inl (if xs = [] then - EINVAL else - ENOENT), xs))"

primrec ideal_set :: "(ptr \<Rightarrow> ptr \<Rightarrow> int) \<Rightarrow> set_call list \<Rightarrow> ptr list \<Rightarrow> (int + ptr) list \<times> ptr list" where
  "ideal_set cmp [] xs = ([], xs)"
| "ideal_set cmp (c # cs) xs =
     (case ideal_step cmp c xs of (v, xs') \<Rightarrow> map_prod ((#) v) id (ideal_set cmp cs xs'))"

locale ordered_set =
  fixes ins :: "ptr \<Rightarrow> 's \<Rightarrow> ptr \<Rightarrow> (int \<times> 's) option" and fnd :: "'s \<Rightarrow> ptr \<Rightarrow> ptr option"
    and rem :: "'s \<Rightarrow> ptr \<Rightarrow> (int \<times> 's) option" and fresh :: "'s \<Rightarrow> ptr \<Rightarrow> bool"
    and cmp :: "'s \<Rightarrow> ptr \<Rightarrow> ptr \<Rightarrow> int" and ok :: "'s \<Rightarrow> ptr set \<Rightarrow> bool" and elems :: "'s \<Rightarrow> ptr list"
  assumes ins_new: "ok s D \<Longrightarrow> d \<in> D \<Longrightarrow> fresh s a \<Longrightarrow> set_find (cmp s) d (elems s) = NULL \<Longrightarrow>
      \<exists>s'. ins a s d = Some (0, s') \<and> ok s' D \<and> cmp s' = cmp s \<and>
           elems s' = set_insert (cmp s) d (elems s)"
    and ins_dup: "ok s D \<Longrightarrow> d \<in> D \<Longrightarrow> set_find (cmp s) d (elems s) \<noteq> NULL \<Longrightarrow> ins a s d = Some (- EEXIST, s)"
    and ins_oom: "ok s D \<Longrightarrow> d \<in> D \<Longrightarrow> set_find (cmp s) d (elems s) = NULL \<Longrightarrow> ins NULL s d = Some (- ENOMEM, s)"
    and fnd_ok: "ok s D \<Longrightarrow> d \<in> D \<Longrightarrow> fnd s d = Some (set_find (cmp s) d (elems s))"
    and rem_ok: "ok s D \<Longrightarrow> d \<in> D \<Longrightarrow> set_find (cmp s) d (elems s) \<noteq> NULL \<Longrightarrow>
      \<exists>s'. rem s d = Some (0, s') \<and> ok s' D \<and> cmp s' = cmp s \<and>
           elems s' = set_delete (cmp s) d (elems s)"
    and rem_none: "ok s D \<Longrightarrow> d \<in> D \<Longrightarrow> set_find (cmp s) d (elems s) = NULL \<Longrightarrow>
      rem s d = Some (if elems s = [] then - EINVAL else - ENOENT, s)"
begin

lemma step_ideal:
  assumes "ok s D" and "datum_of c \<in> D" and "may_alloc fresh c s"
  shows "\<exists>s'. set_step ins fnd rem c s = Some (fst (ideal_step (cmp s) c (elems s)), s') \<and> ok s' D \<and>
    cmp s' = cmp s \<and> elems s' = snd (ideal_step (cmp s) c (elems s))"
proof (cases c)
  case (Insert a d)
  show ?thesis
  proof (cases "set_find (cmp s) d (elems s) = NULL")
    case True
    show ?thesis
    proof (cases "a = NULL")
      case True
      with ins_oom [OF assms(1), of d] assms Insert \<open>set_find (cmp s) d (elems s) = NULL\<close>
      show ?thesis by simp
    next
      case False
      with assms Insert have "fresh s a" "d \<in> D" by simp_all
      from ins_new [OF assms(1) this(2,1) True] False True Insert show ?thesis by auto
    qed
  next
    case False
    with ins_dup [OF assms(1) _ False, of a] assms Insert show ?thesis by simp
  qed
next
  case (Find d)
  with fnd_ok [OF assms(1), of d] assms show ?thesis by simp
next
  case (Remove d)
  show ?thesis
  proof (cases "set_find (cmp s) d (elems s) = NULL")
    case True
    with rem_none [OF assms(1) _ True] assms Remove show ?thesis by simp
  next
    case False
    with rem_ok [OF assms(1) _ False] assms Remove show ?thesis by auto
  qed
qed

lemma set_run_ideal:
  "ok s D \<Longrightarrow> datum_of ` set cs \<subseteq> D \<Longrightarrow> set_admissible (set_step ins fnd rem) fresh cs s \<Longrightarrow>
   \<exists>s'. set_run (set_step ins fnd rem) cs s = Some (fst (ideal_set (cmp s) cs (elems s)), s') \<and>
        ok s' D \<and> elems s' = snd (ideal_set (cmp s) cs (elems s))"
proof (induction cs arbitrary: s)
  case (Cons c cs)
  then have "datum_of c \<in> D" "may_alloc fresh c s" by simp_all
  from step_ideal [OF Cons.prems(1) this] obtain s1 where s1:
    "set_step ins fnd rem c s = Some (fst (ideal_step (cmp s) c (elems s)), s1)" "ok s1 D"
    "cmp s1 = cmp s" "elems s1 = snd (ideal_step (cmp s) c (elems s))" by blast
  moreover have "set_admissible (set_step ins fnd rem) fresh cs s1" using Cons.prems(3) s1(1) by simp
  ultimately show ?case using Cons.IH [OF s1(2)] Cons.prems(2)
    by (auto simp: case_prod_beta)
qed simp

end

end
