(* ===== verification/BstFacts.thy ===== *)
theory BstFacts
  imports Bst Ordered "HOL-Library.Tree"
begin

text \<open>
  What the operations on the search tree do. \<open>tree_at\<close> relates the store to a tree of node
  addresses; a slot inside it is a context (\<open>frame list\<close>, innermost frame first). \<open>bst_ok\<close> is
  the invariant, \<open>bst_list\<close> the abstraction: the user pointers in order.
\<close>

subsection \<open>Trees of addresses\<close>

primrec tree_at :: "bst_nodes \<Rightarrow> ptr \<Rightarrow> ptr \<Rightarrow> ptr tree \<Rightarrow> bool" where
  "tree_at ns par p Leaf \<longleftrightarrow> p = NULL"
| "tree_at ns par p (Node l a r) \<longleftrightarrow> p = a \<and>
     (case bnode_at ns a of None \<Rightarrow> False
      | Some n \<Rightarrow> b_parent n = par \<and> tree_at ns a (b_left n) l \<and> tree_at ns a (b_right n) r)"

lemma tree_at_Node [simp]:
  "tree_at ns par p (Node l a r) \<longleftrightarrow> p = a \<and> a \<noteq> NULL \<and>
     (\<exists>n. ns a = Some n \<and> b_parent n = par \<and> tree_at ns a (b_left n) l \<and> tree_at ns a (b_right n) r)"
  by (auto simp: bnode_at_def split: option.splits)

declare tree_at.simps(2) [simp del]

lemma tree_at_NULL [simp]: "tree_at ns par NULL t \<longleftrightarrow> t = Leaf"
  by (cases t) auto

lemma tree_at_Leaf_iff: "tree_at ns par p t \<Longrightarrow> t = Leaf \<longleftrightarrow> p = NULL"
  by (cases t) auto

lemma tree_at_root: "tree_at ns par p t \<Longrightarrow> p \<noteq> NULL \<Longrightarrow> p \<in> set (inorder t)"
  by (cases t) auto

definition same_links :: "bst_nodes \<Rightarrow> bst_nodes \<Rightarrow> ptr \<Rightarrow> bool" where
  "same_links ns ns' a \<longleftrightarrow>
     map_option (\<lambda>n. (b_parent n, b_left n, b_right n)) (ns a) =
     map_option (\<lambda>n. (b_parent n, b_left n, b_right n)) (ns' a)"

lemma tree_at_cong:
  "(\<And>a. a \<in> set (inorder t) \<Longrightarrow> same_links ns ns' a) \<Longrightarrow> tree_at ns par p t = tree_at ns' par p t"
proof (induction t arbitrary: par p)
  case (Node l a r)
  have "same_links ns ns' a" by (rule Node.prems) simp
  then show ?case
    using Node.IH(1) [OF Node.prems] Node.IH(2) [OF Node.prems]
    by (cases "ns a"; cases "ns' a") (auto simp: same_links_def)
qed simp

lemma same_links_refl [simp]: "same_links ns ns a"
  by (simp add: same_links_def)

lemma same_links_upd [simp]: "b \<noteq> a \<Longrightarrow> same_links ns (ns(a := v)) b"
  by (simp add: same_links_def)

lemma tree_at_upd: "a \<notin> set (inorder t) \<Longrightarrow> tree_at (ns(a := v)) par p t = tree_at ns par p t"
  by (rule sym, rule tree_at_cong) (metis same_links_upd)

text \<open>Reading the tree off the store, with fuel for its height.\<close>

primrec read_tree :: "bst_nodes \<Rightarrow> nat \<Rightarrow> ptr \<Rightarrow> ptr tree" where
  "read_tree ns 0 p = Leaf"
| "read_tree ns (Suc k) p = (case bnode_at ns p of None \<Rightarrow> Leaf
     | Some n \<Rightarrow> Node (read_tree ns k (b_left n)) p (read_tree ns k (b_right n)))"

lemma read_tree_at: "tree_at ns par p t \<Longrightarrow> height t \<le> k \<Longrightarrow> read_tree ns k p = t"
proof (induction t arbitrary: par p k)
  case Leaf
  then show ?case by (cases k) (simp_all add: bnode_at_def)
next
  case (Node l a r)
  then show ?case by (cases k) (auto simp: bnode_at_def)
qed

lemma height_le_length: "height t \<le> length (inorder t)"
  by (induction t) auto

subsection \<open>Contexts\<close>

datatype frame = Lf ptr "ptr tree" | Rf "ptr tree" ptr

primrec plug :: "frame \<Rightarrow> ptr tree \<Rightarrow> ptr tree" where
  "plug (Lf a r) t = Node t a r"
| "plug (Rf l a) t = Node l a t"

primrec fill :: "frame list \<Rightarrow> ptr tree \<Rightarrow> ptr tree" where
  "fill [] t = t"
| "fill (f # fs) t = fill fs (plug f t)"

primrec frame_node :: "frame \<Rightarrow> ptr" where
  "frame_node (Lf a r) = a"
| "frame_node (Rf l a) = a"

definition ctx_top :: "frame list \<Rightarrow> ptr" where
  "ctx_top fs = (case fs of [] \<Rightarrow> NULL | f # _ \<Rightarrow> frame_node f)"

definition slot_of :: "frame list \<Rightarrow> bslot" where
  "slot_of fs = (case fs of [] \<Rightarrow> RootSlot | Lf a r # _ \<Rightarrow> LeftOf a | Rf l a # _ \<Rightarrow> RightOf a)"

lemma ctx_top_simps [simp]: "ctx_top [] = NULL" "ctx_top (f # fs) = frame_node f"
  by (simp_all add: ctx_top_def)

lemma slot_of_simps [simp]:
  "slot_of [] = RootSlot" "slot_of (Lf a r # fs) = LeftOf a" "slot_of (Rf l a # fs) = RightOf a"
  by (simp_all add: slot_of_def)

primrec lefts :: "frame list \<Rightarrow> ptr list" where
  "lefts [] = []"
| "lefts (f # fs) = lefts fs @ (case f of Lf a r \<Rightarrow> [] | Rf l a \<Rightarrow> inorder l @ [a])"

primrec rights :: "frame list \<Rightarrow> ptr list" where
  "rights [] = []"
| "rights (f # fs) = (case f of Lf a r \<Rightarrow> a # inorder r | Rf l a \<Rightarrow> []) @ rights fs"

lemma inorder_fill: "inorder (fill fs t) = lefts fs @ inorder t @ rights fs"
proof (induction fs arbitrary: t)
  case (Cons f fs)
  then show ?case by (cases f) simp_all
qed simp

primrec ctx_at :: "bst_nodes \<Rightarrow> ptr \<Rightarrow> frame list \<Rightarrow> ptr \<Rightarrow> bool" where
  "ctx_at ns root [] p \<longleftrightarrow> root = p"
| "ctx_at ns root (f # fs) p \<longleftrightarrow> (\<exists>n. bnode_at ns (frame_node f) = Some n \<and> b_parent n = ctx_top fs \<and>
     (case f of Lf a r \<Rightarrow> b_left n = p \<and> tree_at ns a (b_right n) r
              | Rf l a \<Rightarrow> b_right n = p \<and> tree_at ns a (b_left n) l) \<and> ctx_at ns root fs (frame_node f))"

lemma fill_at: "tree_at ns NULL root (fill fs t) \<longleftrightarrow> (\<exists>p. ctx_at ns root fs p \<and> tree_at ns (ctx_top fs) p t)"
proof (induction fs arbitrary: t)
  case (Cons f fs)
  show ?case unfolding fill.simps Cons.IH by (cases f) (auto simp: bnode_at_def)
qed auto

lemma ctx_at_get: "ctx_at ns root fs p \<Longrightarrow> bslot_get root prev ns (slot_of fs) = Some p"
proof (cases fs)
  case (Cons f gs)
  then show "ctx_at ns root fs p \<Longrightarrow> bslot_get root prev ns (slot_of fs) = Some p"
    by (cases f) (auto simp: bnode_at_def split: if_splits)
qed simp

lemma ctx_at_cong:
  "(\<And>a. a \<in> set (lefts fs @ rights fs) \<Longrightarrow> same_links ns ns' a) \<Longrightarrow> ctx_at ns root fs p = ctx_at ns' root fs p"
proof (induction fs arbitrary: p)
  case (Cons f fs)
  have fn: "same_links ns ns' (frame_node f)" by (rule Cons.prems) (cases f; simp)
  have IH: "ctx_at ns root fs q = ctx_at ns' root fs q" for q
    by (rule Cons.IH, rule Cons.prems) auto
  have sub: "tree_at ns b q (case f of Lf a r \<Rightarrow> r | Rf l a \<Rightarrow> l) =
      tree_at ns' b q (case f of Lf a r \<Rightarrow> r | Rf l a \<Rightarrow> l)" for b q
    by (rule tree_at_cong, rule Cons.prems) (cases f; simp)
  show ?case
    using fn IH sub by (cases f; cases "ns (frame_node f)"; cases "ns' (frame_node f)")
      (auto simp: same_links_def bnode_at_def)
qed simp

lemma ctx_at_inj: "ctx_at ns root fs p \<Longrightarrow> ctx_at ns root fs q \<Longrightarrow> p = q"
  using ctx_at_get [of ns root fs p NULL] ctx_at_get [of ns root fs q NULL] by simp

text \<open>Writing the slot of a context.\<close>

lemma ctx_set:
  assumes ctx: "ctx_at ns root fs p" and dist: "distinct (lefts fs @ rights fs)"
  shows "\<exists>root' ns'. bslot_set root ns (slot_of fs) q = Some (root', ns') \<and> ctx_at ns' root' fs q \<and>
    (\<forall>b. b \<notin> set (lefts fs @ rights fs) \<longrightarrow> ns' b = ns b) \<and>
    (\<forall>b. map_option b_userptr (ns' b) = map_option b_userptr (ns b))"
proof (cases fs)
  case Nil
  with ctx show ?thesis by simp
next
  case (Cons f gs)
  let ?a = "frame_node f"
  from ctx Cons obtain n where n: "ns ?a = Some n" "?a \<noteq> NULL" "b_parent n = ctx_top gs"
    "ctx_at ns root gs ?a" by (auto simp: bnode_at_def split: if_splits)
  have out: "?a \<notin> set (lefts gs @ rights gs)" using dist Cons by (cases f) auto
  have keep: "ctx_at (ns(?a := v)) root gs ?a" for v
    using n(4) ctx_at_cong [of gs ns "ns(?a := v)" root ?a] out by (metis same_links_upd)
  show ?thesis
  proof (cases f)
    case (Lf a r)
    have "a \<notin> set (inorder r)" using dist Cons Lf by simp
    then have "tree_at (ns(a := v)) a c r = tree_at ns a c r" for v c
      by (rule tree_at_upd)
    then show ?thesis
      using keep [of "Some (n\<lparr>b_left := q\<rparr>)"] n ctx Cons Lf by (simp add: bnode_at_def)
  next
    case (Rf l a)
    have "a \<notin> set (inorder l)" using dist Cons Rf by simp
    then have "tree_at (ns(a := v)) a c l = tree_at ns a c l" for v c
      by (rule tree_at_upd)
    then show ?thesis
      using keep [of "Some (n\<lparr>b_right := q\<rparr>)"] n ctx Cons Rf by (simp add: bnode_at_def)
  qed
qed

text \<open>Every position of the inorder list is a node in a context.\<close>

lemma split_tree:
  "inorder t = xs @ a # ys \<Longrightarrow>
   \<exists>fs l r. t = fill fs (Node l a r) \<and> lefts fs @ inorder l = xs \<and> inorder r @ rights fs = ys"
proof -
  have "inorder t = xs @ a # ys \<Longrightarrow>
   \<exists>fs l r. fill gs t = fill fs (Node l a r) \<and> lefts fs @ inorder l = lefts gs @ xs \<and>
      inorder r @ rights fs = ys @ rights gs" for gs
  proof (induction t arbitrary: gs xs ys)
    case (Node l b r)
    then consider (left) us where "inorder l = xs @ a # us" "ys = us @ b # inorder r"
      | (here) "inorder l = xs" "a = b" "ys = inorder r"
      | (right) us where "inorder r = us @ a # ys" "xs = inorder l @ b # us"
      by (auto simp: append_eq_append_conv2 append_eq_Cons_conv Cons_eq_append_conv)
    then show ?case
    proof cases
      case left
      from Node.IH(1) [OF left(1), of "Lf b r # gs"] left(2) show ?thesis by simp
    next
      case here
      then show ?thesis by (intro exI [of _ gs] exI [of _ l] exI [of _ r]) simp
    next
      case right
      from Node.IH(2) [OF right(1), of "Rf l b # gs"] right(2) show ?thesis by simp
    qed
  qed simp
  from this [of "[]"] show "inorder t = xs @ a # ys \<Longrightarrow> ?thesis" by simp
qed

subsection \<open>Representation\<close>

definition datum :: "bst_nodes \<Rightarrow> ptr \<Rightarrow> ptr" where
  "datum ns a = (case ns a of None \<Rightarrow> NULL | Some n \<Rightarrow> b_userptr n)"

abbreviation data :: "bst_nodes \<Rightarrow> ptr list \<Rightarrow> ptr list" where
  "data ns as \<equiv> List.map (datum ns) as"

definition bst_rep :: "'w m_bst \<Rightarrow> ptr tree \<Rightarrow> bool" where
  "bst_rep l t \<longleftrightarrow> tree_at (t_nodes l) NULL (t_root l) t \<and> distinct (inorder t) \<and>
     dom (t_nodes l) = set (inorder t) \<and> t_len l = length (inorder t) \<and>
     NULL \<notin> set (data (t_nodes l) (inorder t))"

definition bst_tree :: "'w m_bst \<Rightarrow> ptr tree" where
  "bst_tree l = read_tree (t_nodes l) (t_len l) (t_root l)"

definition bst_ok :: "'w m_bst \<Rightarrow> bool" where
  "bst_ok l \<longleftrightarrow> bst_rep l (bst_tree l)"

definition bst_list :: "'w m_bst \<Rightarrow> ptr list" where
  "bst_list l = data (t_nodes l) (inorder (bst_tree l))"

lemma bst_rep_tree: "bst_rep l t \<Longrightarrow> bst_tree l = t"
  using height_le_length [of t] read_tree_at by (auto simp: bst_rep_def bst_tree_def)

lemma bst_repI: "bst_rep l t \<Longrightarrow> bst_ok l" "bst_rep l t \<Longrightarrow> bst_list l = data (t_nodes l) (inorder t)"
  using bst_rep_tree [of l t] by (auto simp: bst_ok_def bst_list_def)

lemma bst_okE:
  assumes "bst_ok l"
  obtains t where "bst_rep l t" and "bst_list l = data (t_nodes l) (inorder t)" and "bst_tree l = t"
  using assms by (auto simp: bst_ok_def bst_list_def)

lemma bst_rep_fill:
  "bst_rep l (fill fs t) \<longleftrightarrow>
     (\<exists>p. ctx_at (t_nodes l) (t_root l) fs p \<and> tree_at (t_nodes l) (ctx_top fs) p t) \<and>
     distinct (lefts fs @ inorder t @ rights fs) \<and>
     dom (t_nodes l) = set (lefts fs @ inorder t @ rights fs) \<and>
     t_len l = length (lefts fs @ inorder t @ rights fs) \<and>
     NULL \<notin> set (data (t_nodes l) (lefts fs @ inorder t @ rights fs))"
  unfolding bst_rep_def fill_at inorder_fill by simp

lemma bst_len_pos: "m_bst_len lp > 0 \<longleftrightarrow> (\<exists>l. lp = Some l \<and> t_len l \<noteq> 0)"
  by (cases lp) (auto simp: m_bst_len_def)

lemma bst_rep_len: "bst_rep l t \<Longrightarrow> t_len l = 0 \<longleftrightarrow> t = Leaf"
  by (cases t) (auto simp: bst_rep_def)

subsection \<open>Descent\<close>

context comparator
begin

lemma bst_find_descend:
  assumes "ctx_at ns root fs p" and "tree_at ns (ctx_top fs) p t"
    and "ordered cmp (data ns (inorder t))" and "insert d (set (data ns (inorder t))) \<subseteq> D"
    and "\<forall>x\<in>set (data ns (lefts fs)). cmp d x > 0" and "\<forall>x\<in>set (data ns (rights fs)). cmp d x < 0"
  shows "\<exists>gs u q. bst_find root ns cmp d (slot_of fs) (ctx_top fs) = Some (slot_of gs, ctx_top gs) \<and>
    fill fs t = fill gs u \<and> ctx_at ns root gs q \<and> tree_at ns (ctx_top gs) q u \<and>
    (\<forall>x\<in>set (data ns (lefts gs)). cmp d x > 0) \<and>
    (u = Leaf \<and> (\<forall>x\<in>set (data ns (rights gs)). cmp d x < 0) \<or>
     (\<exists>l a r. u = Node l a r \<and> cmp d (datum ns a) = 0 \<and>
       (\<forall>x\<in>set (data ns (inorder l)). cmp d x > 0)))"
  using assms
proof (induction t arbitrary: fs p)
  case Leaf
  then show ?case
    by (subst bst_find.simps) (auto simp: ctx_at_get intro!: exI [of _ fs] exI [of _ Leaf])
next
  case (Node l a r)
  from Node.prems(2) obtain n where n: "p = a" "a \<noteq> NULL" "ns a = Some n" "b_parent n = ctx_top fs"
    "tree_at ns a (b_left n) l" "tree_at ns a (b_right n) r" by auto
  have at: "bnode_at ns a = Some n" "datum ns a = b_userptr n" using n by (simp_all add: bnode_at_def datum_def)
  have ord: "ordered cmp (data ns (inorder l) @ datum ns a # data ns (inorder r))"
    using Node.prems(3) by simp
  have step: "bst_find root ns cmp d (slot_of fs) (ctx_top fs) =
      (if cmp d (datum ns a) = 0 then Some (slot_of fs, ctx_top fs)
       else if cmp d (datum ns a) > 0 then bst_find root ns cmp d (RightOf a) a
       else bst_find root ns cmp d (LeftOf a) a)"
    using ctx_at_get [OF Node.prems(1), of NULL] n(1,2) at by (subst bst_find.simps) simp
  consider "cmp d (datum ns a) = 0" | "cmp d (datum ns a) > 0" | "cmp d (datum ns a) < 0" by linarith
  then show ?case
  proof cases
    case 1
    have "\<forall>x\<in>set (data ns (inorder l)). cmp d x > 0"
      using greater_left [OF ord, of d] Node.prems(4) 1 by simp
    with 1 step Node.prems(1,2,5) show ?thesis
      by (intro exI [of _ fs] exI [of _ "Node l a r"] exI [of _ p]) simp
  next
    case 2
    have "\<forall>x\<in>set (data ns (inorder l)). cmp d x > 0"
      using greater_left [OF ord, of d] Node.prems(4) 2 by simp
    then have "\<forall>x\<in>set (data ns (lefts (Rf l a # fs))). cmp d x > 0" using Node.prems(5) 2 by auto
    moreover have "ctx_at ns root (Rf l a # fs) (b_right n)" using n at Node.prems(1) by simp
    ultimately show ?thesis
      using Node.IH(2) [of "Rf l a # fs" "b_right n"] n ord Node.prems(4,6) step 2 by simp
  next
    case 3
    have "\<forall>x\<in>set (data ns (inorder r)). cmp d x < 0"
      using smaller_right [OF ord, of d] Node.prems(4) 3 by simp
    then have "\<forall>x\<in>set (data ns (rights (Lf a r # fs))). cmp d x < 0" using Node.prems(6) 3 by auto
    moreover have "ctx_at ns root (Lf a r # fs) (b_left n)" using n at Node.prems(1) by simp
    ultimately show ?thesis
      using Node.IH(1) [of "Lf a r # fs" "b_left n"] n ord Node.prems(4,5) step 3 by simp
  qed
qed

end

subsection \<open>The least node of a subtree\<close>

lemma fill_append: "fill (gs @ fs) t = fill fs (fill gs t)"
  by (induction gs arbitrary: t) simp_all

lemma lefts_append [simp]: "lefts (gs @ fs) = lefts fs @ lefts gs"
  by (induction gs) simp_all

lemma rights_append [simp]: "rights (gs @ fs) = rights gs @ rights fs"
  by (induction gs) simp_all

lemma find_min_ok:
  assumes "ctx_at ns root fs p" and "tree_at ns (ctx_top fs) p t" and "t \<noteq> Leaf"
  shows "\<exists>gs m r. find_min_subtree root prev ns (slot_of fs) = Some (slot_of (gs @ fs)) \<and>
    t = fill gs (Node Leaf m r) \<and> lefts gs = [] \<and> ctx_at ns root (gs @ fs) m \<and>
    tree_at ns (ctx_top (gs @ fs)) m (Node Leaf m r)"
  using assms
proof (induction t arbitrary: fs p)
  case (Node l a r)
  from Node.prems(2) obtain n where n: "p = a" "a \<noteq> NULL" "ns a = Some n" "b_parent n = ctx_top fs"
    "tree_at ns a (b_left n) l" "tree_at ns a (b_right n) r" by auto
  have step: "find_min_subtree root prev ns (slot_of fs) =
      (if b_left n \<noteq> NULL then find_min_subtree root prev ns (LeftOf a) else Some (slot_of fs))"
    using ctx_at_get [OF Node.prems(1), of prev] n(1-3)
    by (subst find_min_subtree.simps) (simp add: bnode_at_def)
  show ?case
  proof (cases "b_left n = NULL")
    case True
    with n(5) have "l = Leaf" by simp
    with True step Node.prems(1,2) n(1) show ?thesis
      by (intro exI [of _ "[]"] exI [of _ a] exI [of _ r]) simp
  next
    case False
    then have "l \<noteq> Leaf" using n(5) by auto
    moreover have "ctx_at ns root (Lf a r # fs) (b_left n)"
      using n Node.prems(1) by (simp add: bnode_at_def)
    ultimately obtain gs m k where
      "find_min_subtree root prev ns (slot_of (Lf a r # fs)) = Some (slot_of (gs @ Lf a r # fs))"
      "l = fill gs (Node Leaf m k)" "lefts gs = []" "ctx_at ns root (gs @ Lf a r # fs) m"
      "tree_at ns (ctx_top (gs @ Lf a r # fs)) m (Node Leaf m k)"
      using Node.IH(1) [of "Lf a r # fs" "b_left n"] n(5) by auto
    with step False show ?thesis
      by (intro exI [of _ "gs @ [Lf a r]"] exI [of _ m] exI [of _ k]) (simp add: fill_append)
  qed
qed simp

lemma data_same:
  "(\<And>b. b \<notin> A \<Longrightarrow> datum ns' b = datum ns b) \<Longrightarrow> A \<inter> set xs = {} \<Longrightarrow> data ns' xs = data ns xs"
  by (rule map_cong) auto

subsection \<open>Insertion\<close>

lemma datum_upd [simp]: "datum (ns(a := v)) b = (if b = a then (case v of None \<Rightarrow> NULL | Some n \<Rightarrow> b_userptr n) else datum ns b)"
  by (simp add: datum_def)

lemma datum_cong: "map_option b_userptr (ns' b) = map_option b_userptr (ns b) \<Longrightarrow> datum ns' b = datum ns b"
  by (cases "ns' b"; cases "ns b") (simp_all add: datum_def)

lemma dom_cong: "\<forall>b. map_option b_userptr (ns' b) = map_option b_userptr (ns b) \<Longrightarrow> dom ns' = dom ns"
  by (auto simp: dom_def) (metis option.map_disc_iff option.distinct(1) not_None_eq)+

lemma bst_insert_node_ok:
  assumes rep: "bst_rep l (fill fs Leaf)" and cal: "cal \<noteq> NULL" "t_nodes l cal = None" and d: "d \<noteq> NULL"
  shows "\<exists>l'. bst_insert_node cal l (slot_of fs) (ctx_top fs) d = Some (0, l') \<and>
    bst_rep l' (fill fs (Node Leaf cal Leaf)) \<and> t_comp l' = t_comp l \<and> t_dtor l' = t_dtor l \<and>
    data (t_nodes l') (lefts fs) = data (t_nodes l) (lefts fs) \<and> datum (t_nodes l') cal = d \<and>
    data (t_nodes l') (rights fs) = data (t_nodes l) (rights fs)"
proof -
  let ?n = "\<lparr>b_userptr = d, b_parent = ctx_top fs, b_right = NULL, b_left = NULL\<rparr>"
  let ?ns = "(t_nodes l)(cal \<mapsto> ?n)"
  from rep obtain p where ctx: "ctx_at (t_nodes l) (t_root l) fs p" and dist: "distinct (lefts fs @ rights fs)"
    and dom: "dom (t_nodes l) = set (lefts fs @ rights fs)" and len: "t_len l = length (lefts fs @ rights fs)"
    and nn: "NULL \<notin> set (data (t_nodes l) (lefts fs @ rights fs))"
    unfolding bst_rep_fill by auto
  have out: "cal \<notin> set (lefts fs @ rights fs)" using dom cal(2) by blast
  have "ctx_at ?ns (t_root l) fs p"
    using ctx ctx_at_cong [of fs "t_nodes l" ?ns "t_root l" p] out by (metis same_links_upd)
  from ctx_set [OF this dist, of cal] obtain root' ns' where
    set: "bslot_set (t_root l) ?ns (slot_of fs) cal = Some (root', ns')" "ctx_at ns' root' fs cal"
    "\<forall>b. b \<notin> set (lefts fs @ rights fs) \<longrightarrow> ns' b = ?ns b"
    "\<forall>b. map_option b_userptr (ns' b) = map_option b_userptr (?ns b)" by blast
  have at: "ns' cal = Some ?n" using set(3) out by simp
  have dom': "dom ns' = insert cal (dom (t_nodes l))" using dom_cong [of ns' ?ns] set(4) by (simp flip: fun_upd_def)
  have dat: "datum ns' b = (if b = cal then d else datum (t_nodes l) b)" for b
    using datum_cong [of ns' b ?ns] set(4) by simp
  have same: "data ns' (lefts fs) = data (t_nodes l) (lefts fs)" "data ns' (rights fs) = data (t_nodes l) (rights fs)"
    using dat out by auto
  let ?l = "l\<lparr>t_root := root', t_nodes := ns', t_len := t_len l + 1\<rparr>"
  have "bst_rep ?l (fill fs (Node Leaf cal Leaf))"
    unfolding bst_rep_fill using set(2) at cal(1) dom' dom len dist out nn d same dat by auto
  moreover have "bst_insert_node cal l (slot_of fs) (ctx_top fs) d = Some (0, ?l)"
    using set(1) cal(1) by (simp add: bst_insert_node_def)
  ultimately show ?thesis using same dat by auto
qed

subsection \<open>Removal\<close>

lemma tree_reparent:
  "tree_at ns par p t \<Longrightarrow> distinct (inorder t) \<Longrightarrow> ns p = Some n \<Longrightarrow> p \<noteq> NULL \<Longrightarrow>
   tree_at (ns(p \<mapsto> n\<lparr>b_parent := par'\<rparr>)) par' p t"
  by (cases t) (auto simp: tree_at_upd)

text \<open>Unlinking a node with at most one child; \<open>c\<close> is the subtree that takes its place.\<close>

lemma bst_unlink:
  assumes rep: "bst_rep l (fill fs (Node lt a rt))" and c: "lt = Leaf \<and> c = rt \<or> rt = Leaf \<and> c = lt"
  shows "\<exists>l'. bst_remove_node l (slot_of fs) w =
      Some (0, l', call_dtor (t_dtor l) (datum (t_nodes l) a) w) \<and> bst_rep l' (fill fs c) \<and>
    t_comp l' = t_comp l \<and> t_dtor l' = t_dtor l \<and>
    (\<forall>b. b \<noteq> a \<longrightarrow> datum (t_nodes l') b = datum (t_nodes l) b)"
proof -
  let ?out = "lefts fs @ rights fs"
  have inc: "inorder lt @ inorder rt = inorder c" using c by auto
  from rep obtain n where ctx: "ctx_at (t_nodes l) (t_root l) fs a" and a: "a \<noteq> NULL" "t_nodes l a = Some n"
      "b_parent n = ctx_top fs" "tree_at (t_nodes l) a (b_left n) lt" "tree_at (t_nodes l) a (b_right n) rt"
    and dist: "distinct (lefts fs @ (inorder lt @ a # inorder rt) @ rights fs)"
    and dom: "dom (t_nodes l) = set (lefts fs @ (inorder lt @ a # inorder rt) @ rights fs)"
    and len: "t_len l = Suc (length (lefts fs @ (inorder lt @ inorder rt) @ rights fs))"
    and nn: "NULL \<notin> set (data (t_nodes l) (lefts fs @ (inorder lt @ a # inorder rt) @ rights fs))"
    unfolding bst_rep_fill by auto
  define pc where "pc = (if b_left n \<noteq> NULL then b_left n else b_right n)"
  have pc: "tree_at (t_nodes l) a pc c" "b_left n = NULL \<or> b_right n = NULL"
    using c a(4,5) by (auto simp: pc_def)
  have dc: "distinct (inorder c)" "a \<notin> set (inorder c)" "set (inorder c) \<inter> set ?out = {}" "distinct ?out"
      "a \<notin> set ?out"
    using dist inc c by auto
  from ctx_set [OF ctx dc(4), of pc] obtain root1 ns1 where
    s1: "bslot_set (t_root l) (t_nodes l) (slot_of fs) pc = Some (root1, ns1)" "ctx_at ns1 root1 fs pc"
      "\<forall>b. b \<notin> set ?out \<longrightarrow> ns1 b = t_nodes l b"
      "\<forall>b. map_option b_userptr (ns1 b) = map_option b_userptr (t_nodes l b)" by blast
  have n1: "ns1 a = Some n" using s1(3) dc(5) a(2) by simp
  have "same_links (t_nodes l) ns1 b" if "b \<in> set (inorder c)" for b
  proof -
    have "b \<notin> set ?out" using that dc(3) by blast
    with s1(3) show ?thesis by (simp add: same_links_def)
  qed
  then have t1: "tree_at ns1 a pc c" using pc(1) tree_at_cong [of c "t_nodes l" ns1 a pc] by blast
  obtain ns2 where
    s2: "(if pc \<noteq> NULL then set_parent ns1 pc (b_parent n) else Some ns1) = Some ns2"
      "tree_at ns2 (ctx_top fs) pc c" "\<forall>b. b \<notin> set (inorder c) \<longrightarrow> ns2 b = ns1 b"
      "\<forall>b. map_option b_userptr (ns2 b) = map_option b_userptr (ns1 b)"
  proof (cases "pc = NULL")
    case True
    with t1 that [of ns1] show ?thesis by simp
  next
    case False
    with t1 obtain m where "ns1 pc = Some m" "pc \<in> set (inorder c)" by (cases c) auto
    with that [of "ns1(pc \<mapsto> m\<lparr>b_parent := ctx_top fs\<rparr>)"] False tree_reparent [OF t1 dc(1), of m "ctx_top fs"] a(3)
    show ?thesis by (auto simp: set_parent_def bnode_at_def)
  qed
  let ?ns = "ns2(a := None)"
  let ?l = "l\<lparr>t_root := root1, t_nodes := ?ns, t_len := t_len l - 1\<rparr>"
  have n2: "ns2 a = Some n" using s2(3) dc(2) n1 by simp
  have us: "map_option b_userptr (ns2 b) = map_option b_userptr (t_nodes l b)" for b
    using s2(4) s1(4) by simp
  have run: "bst_remove_node l (slot_of fs) w = Some (0, ?l, call_dtor (t_dtor l) (datum (t_nodes l) a) w)"
  proof (cases "b_left n = NULL")
    case True
    then have "pc = b_right n" by (simp add: pc_def)
    with True ctx_at_get [OF ctx, of NULL] a s1(1) s2(1) n1 n2 show ?thesis
      by (cases "pc = NULL"; subst bst_remove_node.simps)
        (simp_all add: bnode_at_def datum_def free_bnode_def Let_def)
  next
    case False
    then have "pc = b_left n" by (simp add: pc_def)
    with False ctx_at_get [OF ctx, of NULL] a pc(2) s1(1) s2(1) n1 n2 show ?thesis
      by (subst bst_remove_node.simps) (simp add: bnode_at_def datum_def free_bnode_def Let_def)
  qed
  have tree: "tree_at ?ns (ctx_top fs) pc c" using s2(2) dc(2) by (simp add: tree_at_upd)
  have "ctx_at ?ns root1 fs pc"
  proof -
    have "same_links ns1 ?ns b" if "b \<in> set ?out" for b
    proof -
      have "b \<noteq> a" "b \<notin> set (inorder c)" using that dc(3,5) by blast+
      then show ?thesis using s2(3) by (simp add: same_links_def)
    qed
    with ctx_at_cong [of fs ns1 ?ns root1 pc] s1(2) show ?thesis by blast
  qed
  moreover have "dom ?ns = set (lefts fs @ inorder c @ rights fs)"
  proof -
    have "dom ns2 = dom (t_nodes l)" by (rule dom_cong) (use us in simp)
    then have "dom ?ns = dom (t_nodes l) - {a}" by auto
    also have "\<dots> = set (lefts fs @ inorder c @ rights fs)"
      unfolding dom inc [symmetric] using dist by auto
    finally show ?thesis .
  qed
  moreover have dat: "datum ?ns b = datum (t_nodes l) b" if "b \<noteq> a" for b
    using us [of b] that datum_cong [of ns2 b "t_nodes l"] by simp
  moreover have "distinct (lefts fs @ inorder c @ rights fs)"
    unfolding inc [symmetric] using dist by auto
  moreover have "t_len ?l = length (lefts fs @ inorder c @ rights fs)"
    unfolding inc [symmetric] using len by simp
  moreover have "NULL \<notin> set (data ?ns (lefts fs @ inorder c @ rights fs))"
  proof -
    have "data ?ns (lefts fs @ inorder c @ rights fs) = data (t_nodes l) (lefts fs @ inorder c @ rights fs)"
      using dat dc(2,5) by auto
    with nn show ?thesis unfolding inc [symmetric] by auto
  qed
  ultimately have "bst_rep ?l (fill fs c)" unfolding bst_rep_fill using tree by auto
  with run dat show ?thesis by auto
qed

text \<open>
  A node with two children stays: it takes the datum of the least node of its right subtree,
  which is unlinked. The destructor is called on the datum that moved.
\<close>

lemma bst_remove_two_tree:
  assumes rep: "bst_rep l (fill fs (Node lt a rt))" and two: "lt \<noteq> Leaf" "rt \<noteq> Leaf"
  shows "\<exists>gs m r l'. rt = fill gs (Node Leaf m r) \<and> lefts gs = [] \<and>
    bst_remove_node l (slot_of fs) w = Some (0, l', call_dtor (t_dtor l) (datum (t_nodes l) m) w) \<and>
    bst_rep l' (fill (gs @ Rf lt a # fs) r) \<and> t_comp l' = t_comp l \<and> t_dtor l' = t_dtor l \<and>
    datum (t_nodes l') a = datum (t_nodes l) m \<and>
    (\<forall>b. b \<noteq> m \<longrightarrow> b \<noteq> a \<longrightarrow> datum (t_nodes l') b = datum (t_nodes l) b)"
proof -
  let ?ns = "t_nodes l" and ?root = "t_root l" and ?f = "Rf lt a # fs"
  from rep obtain n where ctx: "ctx_at ?ns ?root fs a" and a: "a \<noteq> NULL" "?ns a = Some n"
      "b_parent n = ctx_top fs" "tree_at ?ns a (b_left n) lt" "tree_at ?ns a (b_right n) rt"
    unfolding bst_rep_fill by auto
  have kids: "b_left n \<noteq> NULL" "b_right n \<noteq> NULL"
    using tree_at_Leaf_iff [OF a(4)] tree_at_Leaf_iff [OF a(5)] two by simp_all
  have ctx1: "ctx_at ?ns ?root ?f (b_right n)" using ctx a by (simp add: bnode_at_def)
  obtain gs m r where min: "find_min_subtree ?root NULL ?ns (slot_of ?f) = Some (slot_of (gs @ ?f))"
      "rt = fill gs (Node Leaf m r)" "lefts gs = []" "ctx_at ?ns ?root (gs @ ?f) m"
      "tree_at ?ns (ctx_top (gs @ ?f)) m (Node Leaf m r)"
    using find_min_ok [OF ctx1 _ two(2)] a(5) by (metis ctx_top_simps(2) frame_node.simps(2))
  from min(5) obtain mn where mn: "?ns m = Some mn" "m \<noteq> NULL" by auto
  define ns1 where "ns1 = ?ns(a \<mapsto> n\<lparr>b_userptr := b_userptr mn\<rparr>)"
  let ?l1 = "l\<lparr>t_nodes := ns1\<rparr>"
  have eq: "fill fs (Node lt a rt) = fill (gs @ ?f) (Node Leaf m r)" by (simp add: fill_append min(2))
  have rt: "inorder rt = m # inorder r @ rights gs" unfolding min(2) inorder_fill by (simp add: min(3))
  have am: "a \<noteq> m" using rep rt by (auto simp: bst_rep_fill)
  have d1: "datum ns1 b = (if b = a then datum ?ns m else datum ?ns b)" for b
    using mn by (simp add: ns1_def datum_def)
  have "datum ?ns m \<noteq> NULL" using rep rt by (auto simp: bst_rep_fill)
  then have "NULL \<notin> set (data ns1 (inorder (fill fs (Node lt a rt))))"
    using rep d1 by (auto simp: bst_rep_def)
  moreover have "tree_at ns1 NULL ?root t = tree_at ?ns NULL ?root t" for t
    by (rule tree_at_cong) (use a in \<open>simp add: same_links_def ns1_def\<close>)
  moreover have "dom ns1 = dom ?ns" using a by (auto simp: ns1_def)
  ultimately have rep1: "bst_rep ?l1 (fill (gs @ ?f) (Node Leaf m r))"
    using rep unfolding eq [symmetric] bst_rep_def by simp
  from bst_unlink [OF rep1, of r w] obtain l' where
    un: "bst_remove_node ?l1 (slot_of (gs @ ?f)) w = Some (0, l', call_dtor (t_dtor l) (datum ns1 m) w)"
      "bst_rep l' (fill (gs @ ?f) r)" "t_comp l' = t_comp l" "t_dtor l' = t_dtor l"
      "\<forall>b. b \<noteq> m \<longrightarrow> datum (t_nodes l') b = datum ns1 b" by auto
  have run: "bst_remove_node l (slot_of fs) w = bst_remove_node ?l1 (slot_of (gs @ ?f)) w"
    using ctx_at_get [OF ctx, of NULL] ctx_at_get [OF min(4), of NULL] a(1,2) kids min(1) mn
    by (subst bst_remove_node.simps) (simp add: bnode_at_def set_data_def ns1_def)
  have "datum ns1 m = datum ?ns m" using d1 am by simp
  moreover have "datum (t_nodes l') a = datum ?ns m" using un(5) d1 am by simp
  moreover have "\<forall>b. b \<noteq> m \<longrightarrow> b \<noteq> a \<longrightarrow> datum (t_nodes l') b = datum ?ns b" using un(5) d1 by simp
  ultimately show ?thesis using run un(1-4) min(2,3)
    by (intro exI [of _ gs] exI [of _ m] exI [of _ r] exI [of _ l'] conjI) simp_all
qed

lemma bst_remove_two:
  assumes rep: "bst_rep l (fill fs (Node lt a rt))" and two: "lt \<noteq> Leaf" "rt \<noteq> Leaf"
  shows "\<exists>l' t' bs. bst_remove_node l (slot_of fs) w =
      Some (0, l', call_dtor (t_dtor l) (hd (data (t_nodes l) (inorder rt))) w) \<and> bst_rep l' t' \<and>
    t_comp l' = t_comp l \<and> t_dtor l' = t_dtor l \<and> inorder t' = (lefts fs @ inorder lt) @ bs \<and>
    data (t_nodes l') (lefts fs @ inorder lt) = data (t_nodes l) (lefts fs @ inorder lt) \<and>
    data (t_nodes l') bs = data (t_nodes l) (inorder rt @ rights fs)"
proof -
  from bst_remove_two_tree [OF rep two, of w] obtain gs m r l' where
    un: "rt = fill gs (Node Leaf m r)" "lefts gs = []"
      "bst_remove_node l (slot_of fs) w = Some (0, l', call_dtor (t_dtor l) (datum (t_nodes l) m) w)"
      "bst_rep l' (fill (gs @ Rf lt a # fs) r)" "t_comp l' = t_comp l" "t_dtor l' = t_dtor l"
    and da: "datum (t_nodes l') a = datum (t_nodes l) m"
    and dat: "\<forall>b. b \<noteq> m \<longrightarrow> b \<noteq> a \<longrightarrow> datum (t_nodes l') b = datum (t_nodes l) b" by blast
  have rt: "inorder rt = m # inorder r @ rights gs" unfolding un(1) inorder_fill by (simp add: un(2))
  have dist: "distinct (lefts fs @ (inorder lt @ a # inorder rt) @ rights fs)"
    using rep unfolding bst_rep_fill by simp
  have "data (t_nodes l') (inorder r @ rights gs @ rights fs) = data (t_nodes l) (inorder r @ rights gs @ rights fs)"
    by (rule data_same [of "{a, m}"]) (use dat dist rt in auto)
  then have tail: "data (t_nodes l') (a # inorder r @ rights gs @ rights fs) = data (t_nodes l) (inorder rt @ rights fs)"
    unfolding rt using da by simp
  have pre: "data (t_nodes l') (lefts fs @ inorder lt) = data (t_nodes l) (lefts fs @ inorder lt)"
    by (rule data_same [of "{a, m}"]) (use dat dist rt in auto)
  have ino: "inorder (fill (gs @ Rf lt a # fs) r) = (lefts fs @ inorder lt) @ a # inorder r @ rights gs @ rights fs"
    unfolding inorder_fill using un(2) by simp
  have "hd (data (t_nodes l) (inorder rt)) = datum (t_nodes l) m" using rt by simp
  with un(3-6) tail pre ino show ?thesis
    by (intro exI [of _ l'] exI [of _ "fill (gs @ Rf lt a # fs) r"]
        exI [of _ "a # inorder r @ rights gs @ rights fs"]) simp
qed

lemma bst_remove_node_ok:
  assumes rep: "bst_rep l (fill fs (Node lt a rt))"
  shows "\<exists>l' t' bs. bst_remove_node l (slot_of fs) w =
      Some (0, l', call_dtor (t_dtor l) (if lt = Leaf \<or> rt = Leaf then datum (t_nodes l) a
                                         else hd (data (t_nodes l) (inorder rt))) w) \<and> bst_rep l' t' \<and>
    t_comp l' = t_comp l \<and> t_dtor l' = t_dtor l \<and> inorder t' = (lefts fs @ inorder lt) @ bs \<and>
    data (t_nodes l') (lefts fs @ inorder lt) = data (t_nodes l) (lefts fs @ inorder lt) \<and>
    data (t_nodes l') bs = data (t_nodes l) (inorder rt @ rights fs)"
proof (cases "lt = Leaf \<or> rt = Leaf")
  case True
  then obtain c where c: "lt = Leaf \<and> c = rt \<or> rt = Leaf \<and> c = lt" by blast
  from bst_unlink [OF rep c, of w] obtain l' where
    un: "bst_remove_node l (slot_of fs) w = Some (0, l', call_dtor (t_dtor l) (datum (t_nodes l) a) w)"
      "bst_rep l' (fill fs c)" "t_comp l' = t_comp l" "t_dtor l' = t_dtor l"
      "\<forall>b. b \<noteq> a \<longrightarrow> datum (t_nodes l') b = datum (t_nodes l) b" by auto
  have dist: "distinct (lefts fs @ (inorder lt @ a # inorder rt) @ rights fs)"
    using rep unfolding bst_rep_fill by simp
  have ino: "inorder (fill fs c) = (lefts fs @ inorder lt) @ (inorder rt @ rights fs)"
    unfolding inorder_fill using c by auto
  have "data (t_nodes l') (lefts fs @ inorder lt) = data (t_nodes l) (lefts fs @ inorder lt)"
    by (rule data_same [of "{a}"]) (use dist un(5) in auto)
  moreover have "data (t_nodes l') (inorder rt @ rights fs) = data (t_nodes l) (inorder rt @ rights fs)"
    by (rule data_same [of "{a}"]) (use dist un(5) in auto)
  ultimately show ?thesis using un(1-4) ino True
    by (intro exI [of _ l'] exI [of _ "fill fs c"] exI [of _ "inorder rt @ rights fs"]) simp
next
  case False
  then show ?thesis using bst_remove_two [OF rep, of w] by simp
qed

subsection \<open>The tree as a sorted container\<close>

text \<open>The invariant of a tree whose data lie in a set that the comparator orders.\<close>

definition bst_in :: "'w m_bst \<Rightarrow> ptr set \<Rightarrow> bool" where
  "bst_in l D \<longleftrightarrow> bst_ok l \<and> comparator (t_comp l) D \<and> NULL \<notin> D \<and>
     ordered (t_comp l) (bst_list l) \<and> set (bst_list l) \<subseteq> D"

lemma bst_in_nonnull: "bst_in l D \<Longrightarrow> d \<in> D \<Longrightarrow> d \<noteq> NULL"
  by (metis bst_in_def)

lemma bst_find_cases:
  assumes "bst_in l D" and "d \<in> D"
  obtains (miss) fs where "bst_find (t_root l) (t_nodes l) (t_comp l) d RootSlot NULL = Some (slot_of fs, ctx_top fs)"
      "bslot_get (t_root l) NULL (t_nodes l) (slot_of fs) = Some NULL" "bst_rep l (fill fs Leaf)"
      "bst_list l = data (t_nodes l) (lefts fs) @ data (t_nodes l) (rights fs)"
      "\<forall>x\<in>set (data (t_nodes l) (lefts fs)). t_comp l d x > 0"
      "\<forall>x\<in>set (data (t_nodes l) (rights fs)). t_comp l d x < 0"
      "set_find (t_comp l) d (bst_list l) = NULL"
      "set_insert (t_comp l) d (bst_list l) = data (t_nodes l) (lefts fs) @ d # data (t_nodes l) (rights fs)"
    | (hit) fs lt a rt where "bst_find (t_root l) (t_nodes l) (t_comp l) d RootSlot NULL = Some (slot_of fs, ctx_top fs)"
      "bslot_get (t_root l) NULL (t_nodes l) (slot_of fs) = Some a" "a \<noteq> NULL" "bst_rep l (fill fs (Node lt a rt))"
      "bst_list l = data (t_nodes l) (lefts fs @ inorder lt) @ datum (t_nodes l) a # data (t_nodes l) (inorder rt @ rights fs)"
      "set_find (t_comp l) d (bst_list l) = datum (t_nodes l) a" "datum (t_nodes l) a \<noteq> NULL"
      "set_delete (t_comp l) d (bst_list l) = data (t_nodes l) (lefts fs @ inorder lt) @ data (t_nodes l) (inorder rt @ rights fs)"
proof -
  let ?find = "bst_find (t_root l) (t_nodes l) (t_comp l) d RootSlot NULL"
  from assms(1) obtain t where t: "bst_rep l t" "bst_list l = data (t_nodes l) (inorder t)"
    by (auto simp: bst_in_def elim: bst_okE)
  from assms have comp: "comparator (t_comp l) D" and ord: "ordered (t_comp l) (data (t_nodes l) (inorder t))"
    and dom: "insert d (set (data (t_nodes l) (inorder t))) \<subseteq> D" using t(2) by (auto simp: bst_in_def)
  have ctx: "ctx_at (t_nodes l) (t_root l) [] (t_root l)" "tree_at (t_nodes l) (ctx_top []) (t_root l) t"
    using t(1) by (simp_all add: bst_rep_def)
  from comparator.bst_find_descend [OF comp ctx ord dom] obtain gs u q where
    f: "?find = Some (slot_of gs, ctx_top gs)" "t = fill gs u" "ctx_at (t_nodes l) (t_root l) gs q"
      "tree_at (t_nodes l) (ctx_top gs) q u" "\<forall>x\<in>set (data (t_nodes l) (lefts gs)). t_comp l d x > 0"
      "u = Leaf \<and> (\<forall>x\<in>set (data (t_nodes l) (rights gs)). t_comp l d x < 0) \<or>
       (\<exists>lt a rt. u = Node lt a rt \<and> t_comp l d (datum (t_nodes l) a) = 0 \<and>
         (\<forall>x\<in>set (data (t_nodes l) (inorder lt)). t_comp l d x > 0))"
    by auto
  note get = ctx_at_get [OF f(3), of NULL]
  from f(6) show ?thesis
  proof (elim disjE exE conjE)
    assume u: "u = Leaf" "\<forall>x\<in>set (data (t_nodes l) (rights gs)). t_comp l d x < 0"
    have list: "bst_list l = data (t_nodes l) (lefts gs) @ data (t_nodes l) (rights gs)"
      using t(2) f(2) u(1) inorder_fill [of gs Leaf] by simp
    show ?thesis
    proof (rule miss)
      show "?find = Some (slot_of gs, ctx_top gs)" by (fact f(1))
      show "bslot_get (t_root l) NULL (t_nodes l) (slot_of gs) = Some NULL" using get f(4) u(1) by simp
      show "bst_rep l (fill gs Leaf)" using t(1) f(2) u(1) by simp
      show "set_find (t_comp l) d (bst_list l) = NULL" unfolding list using f(5) u(2) by (rule set_ops_miss)
      show "set_insert (t_comp l) d (bst_list l) = data (t_nodes l) (lefts gs) @ d # data (t_nodes l) (rights gs)"
        unfolding list using f(5) u(2) by (rule set_ops_miss)
    qed (fact list f(5) u(2))+
  next
    fix lt a rt
    assume u: "u = Node lt a rt" "t_comp l d (datum (t_nodes l) a) = 0"
      "\<forall>x\<in>set (data (t_nodes l) (inorder lt)). t_comp l d x > 0"
    have rep: "bst_rep l (fill gs (Node lt a rt))" using t(1) f(2) u(1) by simp
    let ?ls = "data (t_nodes l) (lefts gs @ inorder lt)" and ?rs = "data (t_nodes l) (inorder rt @ rights gs)"
    have list: "bst_list l = ?ls @ datum (t_nodes l) a # ?rs"
      using t(2) f(2) u(1) inorder_fill [of gs "Node lt a rt"] by simp
    have ls: "\<forall>x\<in>set ?ls. t_comp l d x > 0" using f(5) u(3) by auto
    show ?thesis
    proof (rule hit)
      show "?find = Some (slot_of gs, ctx_top gs)" by (fact f(1))
      show "bslot_get (t_root l) NULL (t_nodes l) (slot_of gs) = Some a" "a \<noteq> NULL"
        using get f(4) u(1) by simp_all
      show "datum (t_nodes l) a \<noteq> NULL" using rep by (auto simp: bst_rep_fill)
      show "set_find (t_comp l) d (bst_list l) = datum (t_nodes l) a"
        unfolding list using ls u(2) by (rule set_ops_hit)
      show "set_delete (t_comp l) d (bst_list l) = ?ls @ ?rs" unfolding list using ls u(2) by (rule set_ops_hit)
    qed (fact rep list)+
  qed
qed

text \<open>The operations, with the world their destructor calls change.\<close>

type_synonym 'w bst_store = "'w m_bst option \<times> 'w"

fun bs_ins :: "ptr \<Rightarrow> 'w bst_store \<Rightarrow> ptr \<Rightarrow> (int \<times> 'w bst_store) option" where
  "bs_ins cal (lp, w) d = map_option (\<lambda>(r, lp'). (r, lp', w)) (m_bst_insert cal lp d)"

fun bs_fnd :: "'w bst_store \<Rightarrow> ptr \<Rightarrow> ptr option" where
  "bs_fnd (lp, w) d = m_bst_find lp d"

fun bs_rem :: "'w bst_store \<Rightarrow> ptr \<Rightarrow> (int \<times> 'w bst_store) option" where
  "bs_rem (lp, w) d = m_bst_remove lp d w"

fun bs_fresh :: "'w bst_store \<Rightarrow> ptr \<Rightarrow> bool" where
  "bs_fresh (lp, w) a = (a \<noteq> NULL \<and> (case lp of None \<Rightarrow> False | Some l \<Rightarrow> t_nodes l a = None))"

fun bs_cmp :: "'w bst_store \<Rightarrow> ptr \<Rightarrow> ptr \<Rightarrow> int" where
  "bs_cmp (lp, w) = (case lp of None \<Rightarrow> ptrcmp | Some l \<Rightarrow> t_comp l)"

fun bs_in :: "'w bst_store \<Rightarrow> ptr set \<Rightarrow> bool" where
  "bs_in (lp, w) D = (case lp of None \<Rightarrow> False | Some l \<Rightarrow> bst_in l D)"

fun bs_list :: "'w bst_store \<Rightarrow> ptr list" where
  "bs_list (lp, w) = (case lp of None \<Rightarrow> [] | Some l \<Rightarrow> bst_list l)"

lemma bs_inE:
  assumes "bs_in s D"
  obtains l w where "s = (Some l, w)" and "bst_in l D"
  using assms by (cases s) (auto split: option.splits)

lemma m_bst_insert_new:
  assumes "bst_in l D" and "d \<in> D" and "cal \<noteq> NULL" and "t_nodes l cal = None"
    and "set_find (t_comp l) d (bst_list l) = NULL"
  shows "\<exists>l'. m_bst_insert cal (Some l) d = Some (0, Some l') \<and> bst_in l' D \<and> t_comp l' = t_comp l \<and>
    t_dtor l' = t_dtor l \<and> bst_list l' = set_insert (t_comp l) d (bst_list l)"
proof -
  have d: "d \<noteq> NULL" using assms(1,2) by (rule bst_in_nonnull)
  from assms(1,2) show ?thesis
  proof (cases rule: bst_find_cases)
    case (miss fs)
    from bst_insert_node_ok [OF miss(3) assms(3,4) d] obtain l' where
      l': "bst_insert_node cal l (slot_of fs) (ctx_top fs) d = Some (0, l')"
        "bst_rep l' (fill fs (Node Leaf cal Leaf))" "t_comp l' = t_comp l" "t_dtor l' = t_dtor l"
        "data (t_nodes l') (lefts fs) = data (t_nodes l) (lefts fs)" "datum (t_nodes l') cal = d"
        "data (t_nodes l') (rights fs) = data (t_nodes l) (rights fs)" by blast
    have ins: "bst_list l' = data (t_nodes l) (lefts fs) @ d # data (t_nodes l) (rights fs)"
      using bst_repI(2) [OF l'(2)] l'(5-7) by (simp add: inorder_fill)
    have list: "bst_list l' = set_insert (t_comp l) d (bst_list l)"
      using ins miss(8) by simp
    have "ordered (t_comp l) (bst_list l')" unfolding ins
      by (rule comparator.ordered_split [where D = D])
        (use assms(1,2) miss(4-6) in \<open>auto simp: bst_in_def\<close>)
    then have "bst_in l' D" using assms(1,2) ins l'(3) miss(4) bst_repI(1) [OF l'(2)] by (simp add: bst_in_def)
    moreover have "m_bst_insert cal (Some l) d = Some (0, Some l')"
      using d miss(1,2) l'(1) by (simp add: m_bst_insert_def)
    ultimately show ?thesis using l'(3,4) list by blast
  next
    case (hit fs lt a rt)
    with assms(5) show ?thesis by simp
  qed
qed

lemma m_bst_insert_fails:
  assumes "bst_in l D" and "d \<in> D"
  shows "set_find (t_comp l) d (bst_list l) \<noteq> NULL \<Longrightarrow> m_bst_insert cal (Some l) d = Some (- EEXIST, Some l)"
    and "set_find (t_comp l) d (bst_list l) = NULL \<Longrightarrow> m_bst_insert NULL (Some l) d = Some (- ENOMEM, Some l)"
proof -
  have d: "d \<noteq> NULL" using assms by (rule bst_in_nonnull)
  from assms show "m_bst_insert cal (Some l) d = Some (- EEXIST, Some l)"
    if "set_find (t_comp l) d (bst_list l) \<noteq> NULL"
  proof (cases rule: bst_find_cases)
    case (miss fs)
    with that show ?thesis by simp
  qed (use d in \<open>simp add: m_bst_insert_def\<close>)
  from assms show "m_bst_insert NULL (Some l) d = Some (- ENOMEM, Some l)"
    if "set_find (t_comp l) d (bst_list l) = NULL"
  proof (cases rule: bst_find_cases)
    case (hit fs lt a rt)
    with that show ?thesis by simp
  qed (use d in \<open>simp add: m_bst_insert_def bst_insert_node_def\<close>)
qed

lemma m_bst_find_ok:
  assumes "bst_in l D" and "d \<in> D"
  shows "m_bst_find (Some l) d = Some (set_find (t_comp l) d (bst_list l))"
proof -
  have d: "d \<noteq> NULL" using assms by (rule bst_in_nonnull)
  from assms show ?thesis
  proof (cases rule: bst_find_cases)
    case (miss fs)
    with d show ?thesis by (simp add: m_bst_find_def)
  next
    case (hit fs lt a rt)
    then have "map_option b_userptr (bnode_at (t_nodes l) a) = Some (datum (t_nodes l) a)"
      by (cases "t_nodes l a") (simp_all add: bnode_at_def datum_def)
    with d hit show ?thesis by (simp add: m_bst_find_def)
  qed
qed

lemma bst_in_len: "bst_in l D \<Longrightarrow> m_bst_len (Some l) > 0 \<longleftrightarrow> bst_list l \<noteq> []"
proof -
  assume "bst_in l D"
  then obtain t where "bst_rep l t" "bst_list l = data (t_nodes l) (inorder t)"
    by (auto simp: bst_in_def elim: bst_okE)
  then show ?thesis using bst_rep_len [of l t] by (auto simp: bst_len_pos)
qed

lemma bst_node_datum: "bst_rep l (fill fs (Node lt a rt)) \<Longrightarrow>
  \<exists>n. t_nodes l a = Some n \<and> datum (t_nodes l) a = b_userptr n \<and>
    (b_left n = NULL \<longleftrightarrow> lt = Leaf) \<and> (b_right n = NULL \<longleftrightarrow> rt = Leaf)"
proof -
  assume "bst_rep l (fill fs (Node lt a rt))"
  then obtain n where n: "t_nodes l a = Some n" "tree_at (t_nodes l) a (b_left n) lt"
      "tree_at (t_nodes l) a (b_right n) rt" unfolding bst_rep_fill by auto
  from tree_at_Leaf_iff [OF n(2)] tree_at_Leaf_iff [OF n(3)] n(1) show ?thesis by (simp add: datum_def)
qed

text \<open>
  The element found leaves the list. The destructor is called on it when its node has at most
  one child, on the next greater element (which stays) otherwise.
\<close>

lemma m_bst_remove_ok:
  assumes "bst_in l D" and "d \<in> D" and "set_find (t_comp l) d (bst_list l) \<noteq> NULL"
  shows "\<exists>slot parent a n v l'. bst_find (t_root l) (t_nodes l) (t_comp l) d RootSlot NULL = Some (slot, parent) \<and>
    bslot_get (t_root l) NULL (t_nodes l) slot = Some a \<and> t_nodes l a = Some n \<and>
    b_userptr n = set_find (t_comp l) d (bst_list l) \<and>
    m_bst_remove (Some l) d w = Some (0, Some l', call_dtor (t_dtor l) v w) \<and> bst_in l' D \<and>
    t_comp l' = t_comp l \<and> t_dtor l' = t_dtor l \<and> bst_list l' = set_delete (t_comp l) d (bst_list l) \<and>
    (if b_left n = NULL \<or> b_right n = NULL then v = b_userptr n
     else v \<in> set (bst_list l') \<and> t_comp l (b_userptr n) v < 0 \<and>
       (\<exists>xs ys. bst_list l = xs @ b_userptr n # v # ys \<and> bst_list l' = xs @ v # ys))"
proof -
  have d: "d \<noteq> NULL" using assms(1,2) by (rule bst_in_nonnull)
  from assms(1,2) show ?thesis
  proof (cases rule: bst_find_cases)
    case (miss fs)
    with assms(3) show ?thesis by simp
  next
    case (hit fs lt a rt)
    let ?v = "if lt = Leaf \<or> rt = Leaf then datum (t_nodes l) a else hd (data (t_nodes l) (inorder rt))"
    from bst_remove_node_ok [OF hit(4), of w] obtain l' t' bs where
      r: "bst_remove_node l (slot_of fs) w = Some (0, l', call_dtor (t_dtor l) ?v w)" "bst_rep l' t'"
        "t_comp l' = t_comp l" "t_dtor l' = t_dtor l" "inorder t' = (lefts fs @ inorder lt) @ bs"
        "data (t_nodes l') (lefts fs @ inorder lt) = data (t_nodes l) (lefts fs @ inorder lt)"
        "data (t_nodes l') bs = data (t_nodes l) (inorder rt @ rights fs)" by blast
    from bst_node_datum [OF hit(4)] obtain n where n: "t_nodes l a = Some n" "datum (t_nodes l) a = b_userptr n"
      "b_left n = NULL \<longleftrightarrow> lt = Leaf" "b_right n = NULL \<longleftrightarrow> rt = Leaf" by metis
    have list: "bst_list l' = data (t_nodes l) (lefts fs @ inorder lt) @ data (t_nodes l) (inorder rt @ rights fs)"
      using bst_repI(2) [OF r(2)] r(5-7) by simp
    then have del: "bst_list l' = set_delete (t_comp l) d (bst_list l)" using hit(8) by simp
    have ok: "bst_in l' D" using assms(1) bst_repI(1) [OF r(2)] list r(3) hit(5)
      by (auto simp: bst_in_def)
    have "m_bst_len (Some l) > 0" using bst_in_len [OF assms(1)] hit(5) by simp
    then have run: "m_bst_remove (Some l) d w = Some (0, Some l', call_dtor (t_dtor l) ?v w)"
      using d hit(1) r(1) by (simp add: m_bst_remove_def)
    have "?v \<in> set (bst_list l') \<and> t_comp l (b_userptr n) ?v < 0 \<and>
       (\<exists>xs ys. bst_list l = xs @ b_userptr n # ?v # ys \<and> bst_list l' = xs @ ?v # ys)"
      if two: "lt \<noteq> Leaf" "rt \<noteq> Leaf"
    proof -
      obtain m ms where m: "inorder rt = m # ms" using two(2) by (cases "inorder rt") auto
      have "t_comp l (datum (t_nodes l) a) (datum (t_nodes l) m) < 0"
        using assms(1) hit(5) m by (auto simp: bst_in_def)
      moreover have "bst_list l = data (t_nodes l) (lefts fs @ inorder lt) @ b_userptr n # ?v # data (t_nodes l) (ms @ rights fs)"
        "bst_list l' = data (t_nodes l) (lefts fs @ inorder lt) @ ?v # data (t_nodes l) (ms @ rights fs)"
        using two m n(2) list hit(5) by simp_all
      moreover have "?v \<in> set (bst_list l')" using two m list by simp
      moreover have "t_comp l (b_userptr n) ?v < 0" if "t_comp l (datum (t_nodes l) a) (datum (t_nodes l) m) < 0"
        using that two m n(2) by simp
      ultimately show ?thesis by blast
    qed
    with n have v: "if b_left n = NULL \<or> b_right n = NULL then ?v = b_userptr n
        else ?v \<in> set (bst_list l') \<and> t_comp l (b_userptr n) ?v < 0 \<and>
          (\<exists>xs ys. bst_list l = xs @ b_userptr n # ?v # ys \<and> bst_list l' = xs @ ?v # ys)" by simp
    have found: "b_userptr n = set_find (t_comp l) d (bst_list l)" using hit(6) n(2) by simp
    show ?thesis
    proof (intro exI conjI)
      show "bst_find (t_root l) (t_nodes l) (t_comp l) d RootSlot NULL = Some (slot_of fs, ctx_top fs)"
        by (fact hit(1))
      show "m_bst_remove (Some l) d w = Some (0, Some l', call_dtor (t_dtor l) ?v w)" by (fact run)
      show "if b_left n = NULL \<or> b_right n = NULL then ?v = b_userptr n
        else ?v \<in> set (bst_list l') \<and> t_comp l (b_userptr n) ?v < 0 \<and>
          (\<exists>xs ys. bst_list l = xs @ b_userptr n # ?v # ys \<and> bst_list l' = xs @ ?v # ys)" by (fact v)
    qed (fact hit(2) n(1) found ok r(3,4) del)+
  qed
qed

lemma m_bst_remove_hit:
  assumes "bst_in l D" and "d \<in> D" and "set_find (t_comp l) d (bst_list l) \<noteq> NULL"
  shows "\<exists>l' v. m_bst_remove (Some l) d w = Some (0, Some l', call_dtor (t_dtor l) v w) \<and> bst_in l' D \<and>
    t_comp l' = t_comp l \<and> t_dtor l' = t_dtor l \<and> bst_list l' = set_delete (t_comp l) d (bst_list l)"
  using m_bst_remove_ok [OF assms, of w] by blast

lemma m_bst_remove_miss:
  assumes "bst_in l D" and "d \<in> D" and "set_find (t_comp l) d (bst_list l) = NULL"
  shows "m_bst_remove (Some l) d w = Some (if bst_list l = [] then - EINVAL else - ENOENT, Some l, w)"
proof -
  have d: "d \<noteq> NULL" using assms(1,2) by (rule bst_in_nonnull)
  from assms(1,2) show ?thesis
  proof (cases rule: bst_find_cases)
    case (miss fs)
    have "bst_remove_node l (slot_of fs) w = Some (- ENOENT, l, w)"
      using miss(2) by (subst bst_remove_node.simps) simp
    with d miss(1) bst_in_len [OF assms(1)] show ?thesis by (simp add: m_bst_remove_def)
  next
    case (hit fs lt a rt)
    with assms(3) show ?thesis by simp
  qed
qed

interpretation bst: ordered_set bs_ins bs_fnd bs_rem bs_fresh bs_cmp bs_in bs_list
proof unfold_locales
  fix s :: "'w bst_store" and D d
  assume "bs_in s D" and d: "d \<in> D"
  then obtain l w where s: "s = (Some l, w)" "bst_in l D" by (blast elim: bs_inE)
  show "bs_fnd s d = Some (set_find (bs_cmp s) d (bs_list s))" using m_bst_find_ok [OF s(2) d] s(1) by simp
  {
    fix a
    assume "bs_fresh s a" "set_find (bs_cmp s) d (bs_list s) = NULL"
    then obtain l' where "m_bst_insert a (Some l) d = Some (0, Some l')" "bst_in l' D" "t_comp l' = t_comp l"
        "bst_list l' = set_insert (t_comp l) d (bst_list l)"
      using m_bst_insert_new [OF s(2) d] s(1) by auto
    then show "\<exists>s'. bs_ins a s d = Some (0, s') \<and> bs_in s' D \<and> bs_cmp s' = bs_cmp s \<and>
        bs_list s' = set_insert (bs_cmp s) d (bs_list s)"
      using s(1) by (intro exI [of _ "(Some l', w)"]) simp
  }
  {
    fix a
    assume "set_find (bs_cmp s) d (bs_list s) \<noteq> NULL"
    then show "bs_ins a s d = Some (- EEXIST, s)" using m_bst_insert_fails(1) [OF s(2) d] s(1) by simp
  }
  {
    assume "set_find (bs_cmp s) d (bs_list s) \<noteq> NULL"
    then obtain l' v where "m_bst_remove (Some l) d w = Some (0, Some l', call_dtor (t_dtor l) v w)" "bst_in l' D"
        "t_comp l' = t_comp l" "bst_list l' = set_delete (t_comp l) d (bst_list l)"
      using m_bst_remove_hit [OF s(2) d, of w] s(1) by auto
    then show "\<exists>s'. bs_rem s d = Some (0, s') \<and> bs_in s' D \<and> bs_cmp s' = bs_cmp s \<and>
        bs_list s' = set_delete (bs_cmp s) d (bs_list s)"
      using s(1) by (intro exI [of _ "(Some l', call_dtor (t_dtor l) v w)"]) simp
  }
  {
    assume "set_find (bs_cmp s) d (bs_list s) = NULL"
    then show "bs_rem s d = Some (if bs_list s = [] then - EINVAL else - ENOENT, s)"
      "bs_ins NULL s d = Some (- ENOMEM, s)"
      using m_bst_remove_miss [OF s(2) d] m_bst_insert_fails(2) [OF s(2) d] s(1) by simp_all
  }
qed

end
