(* ===== verification/BstWalk.thy ===== *)
theory BstWalk
  imports BstFacts
begin

text \<open>
  The iterator of the search tree, the loops that use it and the recursive traversals. The
  iterator walks the nodes in order; \<open>bst_at\<close> says where it stands.
\<close>

subsection \<open>The next node\<close>

lemma tree_at_nonnull: "tree_at ns par p t \<Longrightarrow> NULL \<notin> set (inorder t)"
  by (induction t arbitrary: par p) auto

lemma bst_rep_nonnull: "bst_rep l t \<Longrightarrow> NULL \<notin> set (inorder t)"
  using tree_at_nonnull by (auto simp: bst_rep_def)

lemma bst_climb_ok:
  assumes "ctx_at ns root fs c" and "ns c = Some n" and "b_parent n = ctx_top fs" and "c \<noteq> NULL"
    and "c \<notin> set (lefts fs @ rights fs)" and "distinct (lefts fs @ rights fs)"
    and "bslot_get root prev ns node = Some c"
  shows "\<exists>s. bst_climb root prev ns node (ParentOf c) = Some s \<and>
    bslot_get root prev ns s = Some (first_or_null (rights fs))"
  using assms
proof (induction fs arbitrary: c n node)
  case Nil
  then show ?case by (subst bst_climb.simps) (simp add: bnode_at_def)
next
  case (Cons f fs)
  let ?a = "frame_node f"
  have par: "bslot_get root prev ns (ParentOf c) = Some ?a" using Cons.prems(2-4) by (simp add: bnode_at_def)
  obtain m where m: "ns ?a = Some m" "?a \<noteq> NULL" "b_parent m = ctx_top fs" "ctx_at ns root fs ?a"
    using Cons.prems(1) by (auto simp: bnode_at_def split: if_splits)
  have step: "bst_climb root prev ns node (ParentOf c) =
      (if c = b_right m then bst_climb root prev ns (ParentOf c) (ParentOf ?a) else Some (ParentOf c))"
    using Cons.prems(2-4,7) m(1,2) by (subst bst_climb.simps) (simp add: bnode_at_def)
  show ?case
  proof (cases f)
    case (Lf a r)
    with Cons.prems(1) m have "tree_at ns a (b_right m) r" by (simp add: bnode_at_def)
    with Cons.prems(4,5) Lf tree_at_root [of ns a "b_right m" r] have "c \<noteq> b_right m" by auto
    with step par Lf show ?thesis by simp
  next
    case (Rf l a)
    with Cons.prems(1) m have right: "c = b_right m" by (simp add: bnode_at_def)
    have "?a \<notin> set (lefts fs @ rights fs)" "distinct (lefts fs @ rights fs)"
      using Cons.prems(6) Rf by auto
    from Cons.IH [OF m(4,1,3,2) this par] step right Rf show ?thesis by simp
  qed
qed

lemma bst_next_ok:
  assumes rep: "bst_rep l (fill fs (Node lt a rt))" and slot: "bslot_get (t_root l) prev (t_nodes l) node = Some a"
  shows "\<exists>s. bst_next (t_root l) prev (t_nodes l) node = Some s \<and>
    bslot_get (t_root l) prev (t_nodes l) s = Some (first_or_null (inorder rt @ rights fs))"
proof -
  let ?ns = "t_nodes l" and ?root = "t_root l"
  from rep obtain n where ctx: "ctx_at ?ns ?root fs a" and a: "a \<noteq> NULL" "?ns a = Some n"
      "b_parent n = ctx_top fs" "tree_at ?ns a (b_left n) lt" "tree_at ?ns a (b_right n) rt"
    and dist: "distinct (lefts fs @ (inorder lt @ a # inorder rt) @ rights fs)"
    unfolding bst_rep_fill by auto
  show ?thesis
  proof (cases "b_right n = NULL")
    case True
    have "a \<notin> set (lefts fs @ rights fs)" "distinct (lefts fs @ rights fs)" using dist by auto
    from bst_climb_ok [OF ctx a(2,3,1) this slot] obtain s where
      "bst_climb ?root prev ?ns node (ParentOf a) = Some s"
      "bslot_get ?root prev ?ns s = Some (first_or_null (rights fs))" by blast
    moreover have "rt = Leaf" using a(5) True by simp
    ultimately show ?thesis using True a(1,2) slot by (simp add: bst_next_def bnode_at_def)
  next
    case False
    then have ne: "rt \<noteq> Leaf" using a(5) by auto
    have "ctx_at ?ns ?root (Rf lt a # fs) (b_right n)" using ctx a by (simp add: bnode_at_def)
    from find_min_ok [OF this _ ne, of prev] a(5) obtain gs m r where
      min: "find_min_subtree ?root prev ?ns (RightOf a) = Some (slot_of (gs @ Rf lt a # fs))"
        "rt = fill gs (Node Leaf m r)" "lefts gs = []" "ctx_at ?ns ?root (gs @ Rf lt a # fs) m"
      by auto
    have "inorder rt = m # inorder r @ rights gs" unfolding min(2) inorder_fill by (simp add: min(3))
    with min(1) ctx_at_get [OF min(4), of prev] False a(1,2) slot show ?thesis
      by (simp add: bst_next_def bnode_at_def)
  qed
qed

lemma bslot_get_prev: "bslot_get root prev ns s = Some q \<Longrightarrow> bslot_get root q ns s = Some q"
  by (cases s) auto

subsection \<open>The iterator as a cursor\<close>

text \<open>
  The state of a loop over a tree: the tree, the iterator, the world, and the user pointers that
  the loop asked to remove.
\<close>

type_synonym 'w bst_cursor = "'w m_bst \<times> bst_itr option \<times> 'w \<times> ptr list"

fun bst_live :: "'w bst_cursor \<Rightarrow> bool" where
  "bst_live (l, it, w, asked) = (it \<noteq> None)"

fun bst_nxt :: "'w bst_cursor \<Rightarrow> 'w bst_cursor option" where
  "bst_nxt (l, it, w, asked) = map_option (\<lambda>(r, it'). (l, it', w, asked)) (m_bst_itr_next l it)"

fun bst_get :: "'w bst_cursor \<Rightarrow> ptr" where
  "bst_get (l, it, w, asked) = (case m_bst_itr_get_data l it of None \<Rightarrow> NULL | Some d \<Rightarrow> d)"

fun bst_rm :: "'w bst_cursor \<Rightarrow> (int \<times> 'w bst_cursor) option" where
  "bst_rm (l, it, w, asked) = map_option (\<lambda>(r, l', it', w'). (r, l', it', w', asked @ [bst_get (l, it, w, asked)]))
     (m_bst_itr_remove l it w)"

fun bst_asked :: "'w bst_cursor \<Rightarrow> ptr list" where
  "bst_asked (l, it, w, asked) = asked"

definition bst_pos :: "'w m_bst \<Rightarrow> bst_itr option \<Rightarrow> ptr list \<Rightarrow> ptr list \<Rightarrow> bool" where
  "bst_pos l it xs ys \<longleftrightarrow> (\<exists>t. bst_rep l t \<and> inorder t = xs @ ys) \<and>
     (case it of None \<Rightarrow> ys = []
      | Some i \<Rightarrow> \<not> bi_removed i \<and> bi_prev i = last_or_null xs \<and> ys \<noteq> [] \<and>
          bslot_get (t_root l) (bi_prev i) (t_nodes l) (bi_curr i) = Some (hd ys))"

definition bst_hole :: "'w m_bst \<Rightarrow> bst_itr option \<Rightarrow> ptr list \<Rightarrow> ptr list \<Rightarrow> bool" where
  "bst_hole l it xs ys \<longleftrightarrow> (\<exists>t. bst_rep l t \<and> inorder t = xs @ ys) \<and>
     (\<exists>i. it = Some i \<and> bi_removed i \<and> bi_prev i = last_or_null xs)"

lemma bst_pos_node:
  assumes "bst_pos l it xs (a # ys)"
  obtains i fs lt rt where "it = Some i" and "\<not> bi_removed i" and "bi_prev i = last_or_null xs"
    and "bslot_get (t_root l) (bi_prev i) (t_nodes l) (bi_curr i) = Some a"
    and "bst_rep l (fill fs (Node lt a rt))" and "lefts fs @ inorder lt = xs" and "inorder rt @ rights fs = ys"
    and "a \<noteq> NULL"
proof -
  from assms obtain t i where t: "bst_rep l t" "inorder t = xs @ a # ys" and i: "it = Some i" "\<not> bi_removed i"
    "bi_prev i = last_or_null xs" "bslot_get (t_root l) (bi_prev i) (t_nodes l) (bi_curr i) = Some a"
    by (cases it) (auto simp: bst_pos_def)
  from split_tree [OF t(2)] obtain fs lt rt where "t = fill fs (Node lt a rt)"
    "lefts fs @ inorder lt = xs" "inorder rt @ rights fs = ys" by blast
  moreover from this t(1) have "a \<noteq> NULL" by (auto simp: bst_rep_fill)
  ultimately show ?thesis using that [of i fs lt rt] t(1) i by simp
qed

lemma bst_itr_next_ok:
  assumes pos: "bst_pos l it xs (a # ys)"
  shows "\<exists>it'. m_bst_itr_next l it = Some (0, it') \<and> bst_pos l it' (xs @ [a]) ys"
proof -
  from pos obtain i fs lt rt where i: "it = Some i" "\<not> bi_removed i" "bi_prev i = last_or_null xs"
      "bslot_get (t_root l) (bi_prev i) (t_nodes l) (bi_curr i) = Some a"
    and rep: "bst_rep l (fill fs (Node lt a rt))" and ino: "lefts fs @ inorder lt = xs" "inorder rt @ rights fs = ys"
    by (rule bst_pos_node)
  from bst_next_ok [OF rep bslot_get_prev [OF i(4)]] obtain s where
    s: "bst_next (t_root l) a (t_nodes l) (bi_curr i) = Some s"
      "bslot_get (t_root l) a (t_nodes l) s = Some (first_or_null ys)" using ino(2) by auto
  let ?it = "if first_or_null ys = NULL then None else Some (i\<lparr>bi_prev := a, bi_curr := s, bi_removed := False\<rparr>)"
  have nz: "ys \<noteq> [] \<longleftrightarrow> first_or_null ys \<noteq> NULL"
  proof (cases ys)
    case (Cons b zs)
    have "b \<in> set (inorder (fill fs (Node lt a rt)))" using ino(2) Cons unfolding inorder_fill by auto
    with bst_rep_nonnull [OF rep] have "b \<noteq> NULL" by metis
    with Cons show ?thesis by simp
  qed simp
  have "inorder (fill fs (Node lt a rt)) = (xs @ [a]) @ ys" using ino by (simp add: inorder_fill)
  with rep nz s(2) have "bst_pos l ?it (xs @ [a]) ys" unfolding bst_pos_def by (cases ys) auto
  moreover have "m_bst_itr_next l it = Some (0, ?it)"
    using i(1,2,4) s by (simp add: m_bst_itr_next_def Let_def)
  ultimately show ?thesis by blast
qed

lemma bst_itr_new_ok:
  assumes "bst_rep l t" and "cal \<noteq> NULL"
  shows "\<exists>it. m_bst_itr_new cal (Some l) = Some it \<and> bst_pos l it [] (inorder t)"
proof (cases "t = Leaf")
  case True
  with assms(1) bst_rep_len [of l t] show ?thesis
    by (intro exI [of _ None]) (auto simp: m_bst_itr_new_def bst_len_pos bst_pos_def intro!: exI [of _ Leaf])
next
  case False
  have "ctx_at (t_nodes l) (t_root l) [] (t_root l)" "tree_at (t_nodes l) (ctx_top []) (t_root l) t"
    using assms(1) by (simp_all add: bst_rep_def)
  from find_min_ok [OF this False, of NULL] obtain gs m r where
    min: "find_min_subtree (t_root l) NULL (t_nodes l) RootSlot = Some (slot_of gs)"
      "t = fill gs (Node Leaf m r)" "lefts gs = []" "ctx_at (t_nodes l) (t_root l) gs m" by auto
  have "inorder t = m # inorder r @ rights gs" unfolding min(2) inorder_fill by (simp add: min(3))
  with min(1) ctx_at_get [OF min(4), of NULL] assms bst_rep_len [OF assms(1)] False show ?thesis
    by (auto simp: m_bst_itr_new_def bst_len_pos bst_pos_def)
qed

lemma itr_slot:
  assumes rep: "bst_rep l (fill fs (Node lt a rt))"
  shows "\<exists>n. bnode_at (t_nodes l) a = Some n \<and>
    (if b_parent n \<noteq> NULL then do {
       pn \<leftarrow> bnode_at (t_nodes l) (b_parent n);
       Some (if a = b_right pn then RightOf (b_parent n) else LeftOf (b_parent n)) }
     else Some RootSlot) = Some (slot_of fs)"
proof -
  from rep obtain n where ctx: "ctx_at (t_nodes l) (t_root l) fs a" and n: "a \<noteq> NULL" "t_nodes l a = Some n"
      "b_parent n = ctx_top fs"
    and dist: "distinct (lefts fs @ (inorder lt @ a # inorder rt) @ rights fs)"
    unfolding bst_rep_fill by auto
  show ?thesis
  proof (cases fs)
    case Nil
    with n show ?thesis by (simp add: bnode_at_def)
  next
    case (Cons f gs)
    show ?thesis
    proof (cases f)
      case (Lf b r)
      with ctx Cons obtain m where m: "t_nodes l b = Some m" "b \<noteq> NULL" "tree_at (t_nodes l) b (b_right m) r"
        by (auto simp: bnode_at_def split: if_splits)
      have "a \<notin> set (inorder r)" using dist Cons Lf by auto
      with tree_at_root [OF m(3)] n(1) have "a \<noteq> b_right m" by auto
      with m n Cons Lf show ?thesis by (simp add: bnode_at_def)
    next
      case (Rf k b)
      with ctx Cons obtain m where m: "t_nodes l b = Some m" "b \<noteq> NULL" "b_right m = a"
        by (auto simp: bnode_at_def split: if_splits)
      with n Cons Rf show ?thesis by (simp add: bnode_at_def)
    qed
  qed
qed

lemma bst_itr_remove_ok:
  assumes pos: "bst_pos l it xs (a # ys)"
  shows "\<exists>l' it' v bs. m_bst_itr_remove l it w = Some (0, l', it', call_dtor (t_dtor l) v w) \<and>
    bst_hole l' it' xs bs \<and> t_comp l' = t_comp l \<and> t_dtor l' = t_dtor l \<and>
    data (t_nodes l') xs = data (t_nodes l) xs \<and> data (t_nodes l') bs = data (t_nodes l) ys \<and>
    (xs = [] \<longrightarrow> v = datum (t_nodes l) a)"
proof -
  from pos obtain i fs lt rt where i: "it = Some i" "\<not> bi_removed i" "bi_prev i = last_or_null xs"
      "bslot_get (t_root l) (bi_prev i) (t_nodes l) (bi_curr i) = Some a"
    and rep: "bst_rep l (fill fs (Node lt a rt))" and ino: "lefts fs @ inorder lt = xs" "inorder rt @ rights fs = ys"
    and a: "a \<noteq> NULL"
    by (rule bst_pos_node)
  let ?v = "if lt = Leaf \<or> rt = Leaf then datum (t_nodes l) a else hd (data (t_nodes l) (inorder rt))"
  from bst_remove_node_ok [OF rep, of w] obtain l' t' bs where
    r: "bst_remove_node l (slot_of fs) w = Some (0, l', call_dtor (t_dtor l) ?v w)" "bst_rep l' t'"
      "t_comp l' = t_comp l" "t_dtor l' = t_dtor l" "inorder t' = xs @ bs"
      "data (t_nodes l') xs = data (t_nodes l) xs" "data (t_nodes l') bs = data (t_nodes l) ys"
    unfolding ino by blast
  from itr_slot [OF rep] obtain n where "bnode_at (t_nodes l) a = Some n"
    "(if b_parent n \<noteq> NULL then do {
       pn \<leftarrow> bnode_at (t_nodes l) (b_parent n);
       Some (if a = b_right pn then RightOf (b_parent n) else LeftOf (b_parent n)) }
     else Some RootSlot) = Some (slot_of fs)" by blast
  then have "m_bst_itr_remove l it w = Some (0, l', Some (i\<lparr>bi_removed := True\<rparr>), call_dtor (t_dtor l) ?v w)"
    unfolding m_bst_itr_remove_def using i(1,2,4) a r(1) by simp
  moreover have "bst_hole l' (Some (i\<lparr>bi_removed := True\<rparr>)) xs bs"
    using r(2,5) i(3) by (auto simp: bst_hole_def)
  moreover have "xs = [] \<longrightarrow> ?v = datum (t_nodes l) a" using ino(1) by (cases lt) auto
  ultimately show ?thesis using r(3,4,6,7) by blast
qed

lemma bst_itr_next_hole:
  assumes "bst_hole l it xs ys"
  shows "\<exists>it'. m_bst_itr_next l it = Some (0, it') \<and> bst_pos l it' xs ys"
proof -
  from assms obtain t i where t: "bst_rep l t" "inorder t = xs @ ys" and i: "it = Some i" "bi_removed i"
    "bi_prev i = last_or_null xs" by (auto simp: bst_hole_def)
  have nz: "ys \<noteq> [] \<longleftrightarrow> first_or_null ys \<noteq> NULL"
    using bst_rep_nonnull [OF t(1)] t(2) by (cases ys) auto
  have "\<exists>s. m_bst_itr_next l it = Some (0, if first_or_null ys = NULL then None
        else Some (i\<lparr>bi_curr := s, bi_removed := False\<rparr>)) \<and>
      bslot_get (t_root l) (bi_prev i) (t_nodes l) s = Some (first_or_null ys)"
  proof (cases xs rule: rev_cases)
    case Nil
    then have p: "bi_prev i = NULL" using i(3) by simp
    show ?thesis
    proof (cases "t = Leaf")
      case True
      with t Nil have "t_root l = NULL" "ys = []" by (simp_all add: bst_rep_def)
      with i p show ?thesis by (intro exI [of _ RootSlot]) (simp add: m_bst_itr_next_def Let_def)
    next
      case False
      have ctx: "ctx_at (t_nodes l) (t_root l) [] (t_root l)" "tree_at (t_nodes l) (ctx_top []) (t_root l) t"
        using t(1) by (simp_all add: bst_rep_def)
      from find_min_ok [OF ctx False, of NULL] obtain gs m r where
        min: "find_min_subtree (t_root l) NULL (t_nodes l) RootSlot = Some (slot_of gs)"
          "t = fill gs (Node Leaf m r)" "lefts gs = []" "ctx_at (t_nodes l) (t_root l) gs m" by auto
      have "inorder t = m # inorder r @ rights gs" unfolding min(2) inorder_fill by (simp add: min(3))
      then have "first_or_null ys = m" using t(2) Nil by (metis append_Nil first_or_null_simps(2))
      moreover have "t_root l \<noteq> NULL" using ctx(2) False tree_at_Leaf_iff by blast
      ultimately show ?thesis using i p min(1) ctx_at_get [OF min(4), of NULL]
        by (intro exI [of _ "slot_of gs"]) (simp add: m_bst_itr_next_def Let_def)
    qed
  next
    case (snoc zs b)
    then have p: "bi_prev i = b" using i(3) by simp
    from split_tree [of t zs b ys] t(2) snoc obtain fs lt rt where
      f: "t = fill fs (Node lt b rt)" "inorder rt @ rights fs = ys" by auto
    have "b \<noteq> NULL" using bst_rep_nonnull [OF t(1)] t(2) snoc by auto
    moreover have "bslot_get (t_root l) b (t_nodes l) PrevField = Some b" by simp
    from bst_next_ok [OF _ this, of fs lt rt] t(1) f obtain s where
      "bst_next (t_root l) b (t_nodes l) PrevField = Some s"
      "bslot_get (t_root l) b (t_nodes l) s = Some (first_or_null ys)" by auto
    ultimately show ?thesis using i(1,2) p
      by (intro exI [of _ s]) (simp add: m_bst_itr_next_def Let_def)
  qed
  then obtain s where s: "m_bst_itr_next l it = Some (0, if first_or_null ys = NULL then None
        else Some (i\<lparr>bi_curr := s, bi_removed := False\<rparr>))"
      "bslot_get (t_root l) (bi_prev i) (t_nodes l) s = Some (first_or_null ys)" by blast
  then show ?thesis using t nz i(3) by (cases ys) (auto simp: bst_pos_def)
qed

fun bst_at :: "'w bst_cursor \<Rightarrow> ptr list \<Rightarrow> ptr list \<Rightarrow> bool" where
  "bst_at (l, it, w, asked) ks rs \<longleftrightarrow>
     (\<exists>xs ys. bst_pos l it xs ys \<and> data (t_nodes l) xs = ks \<and> data (t_nodes l) ys = rs)"

fun bst_gone :: "'w bst_cursor \<Rightarrow> ptr list \<Rightarrow> ptr list \<Rightarrow> bool" where
  "bst_gone (l, it, w, asked) ks rs \<longleftrightarrow>
     (\<exists>xs ys. bst_hole l it xs ys \<and> data (t_nodes l) xs = ks \<and> data (t_nodes l) ys = rs)"

lemma bst_at_get:
  assumes "bst_pos l it xs (a # ys)"
  shows "bst_get (l, it, w, asked) = datum (t_nodes l) a"
proof -
  from assms obtain i fs lt rt where "it = Some i" "\<not> bi_removed i" "a \<noteq> NULL"
      "bslot_get (t_root l) (bi_prev i) (t_nodes l) (bi_curr i) = Some a"
    "bst_rep l (fill fs (Node lt a rt))" by (rule bst_pos_node)
  then show ?thesis by (auto simp: m_bst_itr_get_data_def bnode_at_def datum_def bst_rep_fill)
qed

interpretation bst_itr: iterable bst_live bst_nxt bst_get bst_rm bst_asked bst_at bst_gone
proof unfold_locales
  fix c :: "'w bst_cursor" and ks rs
  obtain l it w asked where c: "c = (l, it, w, asked)" by (cases c)
  {
    assume "bst_at c ks rs"
    then show "bst_live c = (rs \<noteq> [])" using c by (cases it) (auto simp: bst_pos_def)
  }
  {
    assume "bst_gone c ks rs"
    then obtain xs ys where h: "bst_hole l it xs ys" "data (t_nodes l) xs = ks" "data (t_nodes l) ys = rs"
      using c by auto
    from bst_itr_next_hole [OF h(1)] h(2,3) c
    show "\<exists>c'. bst_nxt c = Some c' \<and> bst_at c' ks rs \<and> bst_asked c' = bst_asked c" by auto
  }
  fix x
  assume "bst_at c ks (x # rs)"
  then obtain xs a ys where p: "bst_pos l it xs (a # ys)" "data (t_nodes l) xs = ks" "datum (t_nodes l) a = x"
    "data (t_nodes l) ys = rs" using c by auto
  show "bst_get c = x" using bst_at_get [OF p(1)] p(3) c by simp
  show "\<exists>c'. bst_nxt c = Some c' \<and> bst_at c' (ks @ [x]) rs \<and> bst_asked c' = bst_asked c"
    using bst_itr_next_ok [OF p(1)] p(2-4) c by fastforce
  from bst_itr_remove_ok [OF p(1), of w] obtain l' it' v bs where
    r: "m_bst_itr_remove l it w = Some (0, l', it', call_dtor (t_dtor l) v w)" "bst_hole l' it' xs bs"
    "data (t_nodes l') xs = data (t_nodes l) xs" "data (t_nodes l') bs = data (t_nodes l) ys" by blast
  then show "\<exists>c'. bst_rm c = Some (0, c') \<and> bst_gone c' ks rs \<and> bst_asked c' = bst_asked c @ [x]"
    using bst_at_get [OF p(1)] p(2-4) c by auto
qed

subsection \<open>Clearing\<close>

text \<open>\<^verbatim>\<open>m_bst_clear\<close> removes the least node until none is left; that node never has two children.\<close>

lemma bst_clear_loop_ok:
  "bst_pos l it [] ys \<Longrightarrow> \<exists>l'. bst_clear_loop l it w = Some (l', fold (call_dtor (t_dtor l)) (data (t_nodes l) ys) w) \<and>
     bst_rep l' Leaf \<and> t_comp l' = t_comp l \<and> t_dtor l' = t_dtor l"
proof (induction "length ys" arbitrary: l it ys w)
  case 0
  then have "it = None" "bst_rep l Leaf" by (auto simp: bst_pos_def split: option.splits)
  with 0 show ?case by (subst bst_clear_loop.simps) simp
next
  case (Suc k)
  then obtain a zs where ys: "ys = a # zs" by (cases ys) auto
  from bst_itr_remove_ok [OF Suc.prems [unfolded ys], of w] obtain l1 it1 bs where
    r: "m_bst_itr_remove l it w = Some (0, l1, it1, call_dtor (t_dtor l) (datum (t_nodes l) a) w)"
      "bst_hole l1 it1 [] bs" "t_comp l1 = t_comp l" "t_dtor l1 = t_dtor l"
      "data (t_nodes l1) bs = data (t_nodes l) zs" by auto
  from bst_itr_next_hole [OF r(2)] obtain it2 where
    n: "m_bst_itr_next l1 it1 = Some (0, it2)" "bst_pos l1 it2 [] bs" by blast
  have "length bs = length zs" using arg_cong [OF r(5), of length] by simp
  then have "k = length bs" using Suc.hyps(2) ys by simp
  from Suc.hyps(1) [OF this n(2)] obtain l2 where
    l2: "bst_clear_loop l1 it2 (call_dtor (t_dtor l) (datum (t_nodes l) a) w) =
        Some (l2, fold (call_dtor (t_dtor l1)) (data (t_nodes l1) bs) (call_dtor (t_dtor l) (datum (t_nodes l) a) w))"
      "bst_rep l2 Leaf" "t_comp l2 = t_comp l1" "t_dtor l2 = t_dtor l1" by blast
  obtain i where "it = Some i" using Suc.prems ys by (cases it) (auto simp: bst_pos_def)
  then have "bst_clear_loop l it w = Some (l2, fold (call_dtor (t_dtor l)) (data (t_nodes l) ys) w)"
    using r(1,4,5) n(1) l2(1) ys by (subst bst_clear_loop.simps) simp
  with l2 r(3,4) show ?case by auto
qed

lemma m_bst_clear_ok:
  assumes "bst_ok l" and "bst_list l \<noteq> []" and "cal \<noteq> NULL"
  shows "\<exists>l'. m_bst_clear cal (Some l) w = Some (0, Some l', fold (call_dtor (t_dtor l)) (bst_list l) w) \<and>
    bst_rep l' Leaf \<and> t_comp l' = t_comp l \<and> t_dtor l' = t_dtor l"
proof -
  from assms(1) obtain t where t: "bst_rep l t" "bst_list l = data (t_nodes l) (inorder t)" by (rule bst_okE)
  from bst_itr_new_ok [OF t(1) assms(3)] obtain it where
    it: "m_bst_itr_new cal (Some l) = Some it" "bst_pos l it [] (inorder t)" by blast
  from bst_clear_loop_ok [OF it(2), of w] obtain l' where
    l': "bst_clear_loop l it w = Some (l', fold (call_dtor (t_dtor l)) (bst_list l) w)" "bst_rep l' Leaf"
      "t_comp l' = t_comp l" "t_dtor l' = t_dtor l" unfolding t(2) by blast
  have "l'\<lparr>t_root := NULL\<rparr> = l'" using l'(2) by (simp add: bst_rep_def)
  moreover have "m_bst_len (Some l) > 0" using assms(2) t bst_rep_len [OF t(1)] by (auto simp: bst_len_pos)
  ultimately show ?thesis using it(1) l' by (simp add: m_bst_clear_def)
qed

lemma m_bst_clear_oom_ok:
  assumes "bst_ok l" and "bst_list l \<noteq> []"
  shows "m_bst_clear NULL (Some l) w = Some (0, Some (l\<lparr>t_root := NULL\<rparr>), w)"
proof -
  from assms(1) obtain t where t: "bst_rep l t" "bst_list l = data (t_nodes l) (inorder t)" by (rule bst_okE)
  then have pos: "m_bst_len (Some l) > 0" using assms(2) bst_rep_len [OF t(1)] by (auto simp: bst_len_pos)
  have "bst_clear_loop l None w = Some (l, w)" by (subst bst_clear_loop.simps) simp
  with pos show ?thesis by (simp add: m_bst_clear_def m_bst_itr_new_def)
qed

subsection \<open>Traversals\<close>

text \<open>A traversal stops at the first callback that does not return 0 and returns what it returned.\<close>

primrec until_nonzero :: "('a \<Rightarrow> 'v \<Rightarrow> int \<times> 'v) \<Rightarrow> 'a list \<Rightarrow> 'v \<Rightarrow> int \<times> 'v" where
  "until_nonzero f [] v = (0, v)"
| "until_nonzero f (x # xs) v = (case f x v of (r, v') \<Rightarrow> if r = 0 then until_nonzero f xs v' else (r, v'))"

lemma until_nonzero_append:
  "until_nonzero f (xs @ ys) v =
     (case until_nonzero f xs v of (r, v') \<Rightarrow> if r = 0 then until_nonzero f ys v' else (r, v'))"
  by (induction xs arbitrary: v) (auto split: prod.splits)

lemma until_nonzero_iter:
  "until_nonzero f xs v = (r, v') \<Longrightarrow> iter_list f xs v = (if r \<ge> 0 then 0 else r, v')"
  by (induction xs arbitrary: v) (auto split: prod.splits if_splits)

lemma datum_Some: "ns a = Some n \<Longrightarrow> datum ns a = b_userptr n"
  by (simp add: datum_def)

lemma traverse_ok:
  assumes "tree_at ns par p t"
  shows "traverse_preorder ns cb p v = Some (until_nonzero cb (data ns (preorder t)) v)"
    and "traverse_inorder ns cb p v = Some (until_nonzero cb (data ns (inorder t)) v)"
    and "traverse_postorder ns cb p v = Some (until_nonzero cb (data ns (postorder t)) v)"
  using assms
proof (induction t arbitrary: par p v)
  case Leaf
  { case 1 then show ?case by (subst traverse_preorder.simps) simp }
  { case 2 then show ?case by (subst traverse_inorder.simps) simp }
  { case 3 then show ?case by (subst traverse_postorder.simps) simp }
next
  case (Node l a r)
  {
    case 1
    then obtain n where n: "p = a" "a \<noteq> NULL" "ns a = Some n" "tree_at ns a (b_left n) l" "tree_at ns a (b_right n) r"
      by auto
    from Node.IH(1) [OF n(4)] Node.IH(4) [OF n(5)] n(1-3) show ?case
      by (subst traverse_preorder.simps)
        (auto simp: bnode_at_def datum_Some [where ns = ns and a = a] until_nonzero_append split: prod.splits)
  }
  {
    case 2
    then obtain n where n: "p = a" "a \<noteq> NULL" "ns a = Some n" "tree_at ns a (b_left n) l" "tree_at ns a (b_right n) r"
      by auto
    from Node.IH(2) [OF n(4)] Node.IH(5) [OF n(5)] n(1-3) show ?case
      by (subst traverse_inorder.simps)
        (auto simp: bnode_at_def datum_Some [where ns = ns and a = a] until_nonzero_append split: prod.splits)
  }
  {
    case 3
    then obtain n where n: "p = a" "a \<noteq> NULL" "ns a = Some n" "tree_at ns a (b_left n) l" "tree_at ns a (b_right n) r"
      by auto
    from Node.IH(3) [OF n(4)] Node.IH(6) [OF n(5)] n(1-3) show ?case
      by (subst traverse_postorder.simps)
        (auto simp: bnode_at_def datum_Some [where ns = ns and a = a] until_nonzero_append split: prod.splits)
  }
qed

subsection \<open>The comparator used when none is given\<close>

interpretation ptr_order: comparator ptrcmp "{d. d < 2 ^ 31}"
proof unfold_locales
  fix x y z :: ptr
  have sub: "ptrcmp a b = int a - int b" if "a \<in> {d. d < 2 ^ 31}" "b \<in> {d. d < 2 ^ 31}" for a b
    unfolding ptrcmp_def by (rule signed_take_bit_int_eq_self) (use that in simp_all)
  assume a: "x \<in> {d. d < 2 ^ 31}" "y \<in> {d. d < 2 ^ 31}"
  then show "0 < ptrcmp y x \<longleftrightarrow> ptrcmp x y < 0" by (simp add: sub)
  assume "z \<in> {d. d < 2 ^ 31}" "ptrcmp x y \<le> 0" "ptrcmp y z \<le> 0"
  with a show "ptrcmp x z \<le> 0" by (simp add: sub)
qed

text \<open>The difference of two pointers is truncated to 32 bits: distinct pointers can compare equal.\<close>

lemma ptrcmp_truncates: "ptrcmp d e = 0 \<longleftrightarrow> int d mod 2 ^ 32 = int e mod 2 ^ 32"
proof -
  have "ptrcmp d e = 0 \<longleftrightarrow> take_bit 32 (int d - int e) = 0"
    unfolding ptrcmp_def using signed_take_bit_eq_iff_take_bit_eq [of 31 "int d - int e" 0] by simp
  then show ?thesis by (simp add: take_bit_eq_mod mod_eq_dvd_iff dvd_eq_mod_eq_0)
qed

subsection \<open>Properties\<close>

text \<open>
  C16. On a tree whose data lie in a set that its comparator orders, every history of insertions,
  lookups and removals (allocation failures and duplicates included) returns what the same
  history returns on a sorted list, makes no bad memory access, terminates, and leaves the
  elements of that list in order.
\<close>

theorem bst_history:
  assumes "bs_in s D" and "datum_of ` set cs \<subseteq> D"
    and "set_admissible (set_step bs_ins bs_fnd bs_rem) bs_fresh cs s"
  shows "\<exists>s'. set_run (set_step bs_ins bs_fnd bs_rem) cs s =
      Some (fst (ideal_set (bs_cmp s) cs (bs_list s)), s') \<and> bs_in s' D \<and>
    bs_list s' = snd (ideal_set (bs_cmp s) cs (bs_list s))"
  using assms by (rule bst.set_run_ideal)

lemma comparator_subset: "comparator cmp D \<Longrightarrow> E \<subseteq> D \<Longrightarrow> comparator cmp E"
  unfolding comparator_def by (meson subsetD)

lemma bst_new_in: "cal \<noteq> NULL \<Longrightarrow> \<exists>l. m_bst_new cal None fn = Some l \<and> bst_in l {0<..<2 ^ 31} \<and>
    bst_list l = [] \<and> t_comp l = ptrcmp \<and> t_dtor l = fn \<and> t_nodes l = (\<lambda>_. None)"
proof -
  assume cal: "cal \<noteq> NULL"
  let ?l = "\<lparr>t_len = 0, t_root = NULL, t_comp = ptrcmp, t_dtor = fn, t_nodes = \<lambda>_. None\<rparr> :: 'a m_bst"
  have "bst_rep ?l Leaf" by (simp add: bst_rep_def)
  then have "bst_ok ?l" "bst_list ?l = []" using bst_repI by force+
  moreover have "comparator ptrcmp {0<..<2 ^ 31}"
    by (rule comparator_subset [OF ptr_order.comparator_axioms]) auto
  ultimately show ?thesis using cal by (simp add: m_bst_new_def bst_in_def)
qed

theorem bst_history_witness:
  "\<exists>s'. set_run (set_step bs_ins bs_fnd bs_rem)
      [Insert 9 50, Insert 8 30, Insert 7 50, Insert 0 60, Find 30, Remove 50, Find 50, Remove 50]
      (m_bst_new 2 None log_dtor, []) =
    Some ([Inl 0, Inl 0, Inl (- EEXIST), Inl (- ENOMEM), Inr 30, Inl 0, Inr 0, Inl (- ENOENT)], s') \<and>
    bs_list s' = [30]"
proof -
  let ?cs = "[Insert 9 50, Insert 8 30, Insert 7 50, Insert 0 60, Find 30, Remove 50, Find 50, Remove 50]"
  let ?s = "(m_bst_new 2 None log_dtor, [])"
  have adm: "set_admissible (set_step bs_ins bs_fnd bs_rem) bs_fresh ?cs ?s" by code_simp
  have ideal: "ideal_set ptrcmp ?cs [] =
      ([Inl 0, Inl 0, Inl (- EEXIST), Inl (- ENOMEM), Inr 30, Inl 0, Inr 0, Inl (- ENOENT)], [30])" by code_simp
  from bst_new_in [of 2 log_dtor] obtain l where l: "m_bst_new 2 None log_dtor = Some l"
    "bst_in l {0<..<2 ^ 31}" "bst_list l = []" "t_comp l = ptrcmp" by auto
  then have c: "bs_cmp ?s = ptrcmp" "bs_list ?s = []" by simp_all
  have "bs_in ?s {0<..<2 ^ 31}" "datum_of ` set ?cs \<subseteq> {0<..<2 ^ 31}" using l by simp_all
  from bst_history [OF this adm, unfolded c ideal fst_conv snd_conv] show ?thesis by blast
qed

text \<open>
  C17. Removing an element: it is the one that the comparator finds, it leaves the sorted list
  and nothing else does. The destructor is called on it when its node has at most one child;
  when the node has two, the destructor is called on the next element of the sorted list, which
  stays in the tree, and never on the element removed.
\<close>

theorem bst_remove_destroys:
  assumes "bst_in l D" and "d \<in> D" and "set_find (t_comp l) d (bst_list l) \<noteq> NULL"
  shows "\<exists>slot parent a n v l'. bst_find (t_root l) (t_nodes l) (t_comp l) d RootSlot NULL = Some (slot, parent) \<and>
    bslot_get (t_root l) NULL (t_nodes l) slot = Some a \<and> t_nodes l a = Some n \<and>
    b_userptr n = set_find (t_comp l) d (bst_list l) \<and>
    m_bst_remove (Some l) d w = Some (0, Some l', call_dtor (t_dtor l) v w) \<and> bst_in l' D \<and>
    t_comp l' = t_comp l \<and> t_dtor l' = t_dtor l \<and> bst_list l' = set_delete (t_comp l) d (bst_list l) \<and>
    (if b_left n = NULL \<or> b_right n = NULL then v = b_userptr n
     else v \<in> set (bst_list l') \<and> t_comp l (b_userptr n) v < 0 \<and>
       (\<exists>xs ys. bst_list l = xs @ b_userptr n # v # ys \<and> bst_list l' = xs @ v # ys))"
  using assms by (rule m_bst_remove_ok)

definition bst_sample :: "ptr list m_bst" where
  "bst_sample = \<lparr>t_len = 3, t_root = 9, t_comp = ptrcmp, t_dtor = log_dtor, t_nodes =
     [9 \<mapsto> \<lparr>b_userptr = 50, b_parent = 0, b_right = 7, b_left = 8\<rparr>,
      8 \<mapsto> \<lparr>b_userptr = 30, b_parent = 9, b_right = 0, b_left = 0\<rparr>,
      7 \<mapsto> \<lparr>b_userptr = 70, b_parent = 9, b_right = 0, b_left = 0\<rparr>]\<rparr>"

lemma bst_sample_rep: "bst_rep bst_sample (Node (Node Leaf 8 Leaf) 9 (Node Leaf 7 Leaf))"
  by (auto simp: bst_rep_def bst_sample_def datum_def)

lemma bst_sample_list: "bst_ok bst_sample" "bst_list bst_sample = [30, 50, 70]"
  using bst_repI [OF bst_sample_rep] by (simp_all add: bst_sample_def datum_def)

lemma bst_sample_in: "bst_in bst_sample {0<..<2 ^ 31}" "t_comp bst_sample = ptrcmp" "t_dtor bst_sample = log_dtor"
proof -
  show c: "t_comp bst_sample = ptrcmp" "t_dtor bst_sample = log_dtor" by (simp_all add: bst_sample_def)
  have "comparator ptrcmp {0<..<2 ^ 31}"
    by (rule comparator_subset [OF ptr_order.comparator_axioms]) auto
  moreover have "ordered ptrcmp [30, 50, 70]" by (simp add: ptrcmp_def)
  ultimately show "bst_in bst_sample {0<..<2 ^ 31}" using c bst_sample_list by (simp add: bst_in_def)
qed

theorem bst_remove_destroys_witness:
  "\<exists>l' v. m_bst_remove (Some bst_sample) 50 [] = Some (0, Some l', [v]) \<and>
    bst_list l' = [30, 70] \<and> v = 70"
proof -
  have f: "set_find ptrcmp 50 [30, 50, 70] = 50" "set_delete ptrcmp 50 [30, 50, 70] = [30, 70]" by code_simp+
  have find: "bst_find (t_root bst_sample) (t_nodes bst_sample) (t_comp bst_sample) 50 RootSlot NULL = Some (RootSlot, NULL)"
    by code_simp
  have r: "bslot_get (t_root bst_sample) NULL (t_nodes bst_sample) RootSlot = Some 9"
    "t_nodes bst_sample 9 = Some \<lparr>b_userptr = 50, b_parent = 0, b_right = 7, b_left = 8\<rparr>"
    by (simp_all add: bst_sample_def)
  from bst_remove_destroys [OF bst_sample_in(1), of 50 "[]", unfolded bst_sample_in(2,3) bst_sample_list(2) f]
  obtain slot parent a n v l' where *: "bst_find (t_root bst_sample) (t_nodes bst_sample) ptrcmp 50 RootSlot NULL = Some (slot, parent)"
    "bslot_get (t_root bst_sample) NULL (t_nodes bst_sample) slot = Some a" "t_nodes bst_sample a = Some n"
    "m_bst_remove (Some bst_sample) 50 [] = Some (0, Some l', call_dtor log_dtor v [])" "bst_list l' = [30, 70]"
    "if b_left n = NULL \<or> b_right n = NULL then v = b_userptr n
     else v \<in> set (bst_list l') \<and> ptrcmp (b_userptr n) v < 0 \<and>
       (\<exists>xs ys. [30, 50, 70] = xs @ b_userptr n # v # ys \<and> bst_list l' = xs @ v # ys)" by auto
  from *(1-3) find r have "n = \<lparr>b_userptr = 50, b_parent = 0, b_right = 7, b_left = 8\<rparr>"
    by (simp add: bst_sample_in(2))
  with *(4-6) show ?thesis by (auto simp: log_dtor_def Cons_eq_append_conv append_eq_Cons_conv)
qed

text \<open>
  C18. The loop that removes elements while iterating over a tree: its body is run on every element
  once, in order, removal is asked for those that satisfy the predicate, and the others stay in order.
\<close>

theorem bst_foreach_prune:
  assumes "bst_ok l" and "cal \<noteq> NULL"
  shows "\<exists>it l' w'. m_bst_itr_new cal (Some l) = Some it \<and>
    itr_foreach (\<lambda>x. bst_live (fst x)) (beside bst_nxt) (watch bst_get (prune bst_get bst_rm P)) 0 ((l, it, w, []), []) =
      Some ((l', None, w', filter P (bst_list l)), bst_list l) \<and>
    bst_ok l' \<and> bst_list l' = filter (\<lambda>x. \<not> P x) (bst_list l)"
proof -
  from assms(1) obtain t where t: "bst_rep l t" "bst_list l = data (t_nodes l) (inorder t)" by (rule bst_okE)
  from bst_itr_new_ok [OF t(1) assms(2)] obtain it where
    it: "m_bst_itr_new cal (Some l) = Some it" "bst_pos l it [] (inorder t)" by blast
  have "bst_at (l, it, w, []) [] (bst_list l)" using it(2) t(2) by auto
  from bst_itr.foreach_watch_prune [OF this, of P 0 "[]"] obtain s' where
    s': "itr_foreach (\<lambda>x. bst_live (fst x)) (beside bst_nxt) (watch bst_get (prune bst_get bst_rm P)) 0 ((l, it, w, []), []) =
        Some (s', bst_list l)"
      "bst_at s' (filter (\<lambda>x. \<not> P x) (bst_list l)) []" "bst_asked s' = filter P (bst_list l)"
    by (auto simp del: bst_at.simps)
  obtain l' it' w' asked where c: "s' = (l', it', w', asked)" by (cases s')
  from s'(2) have "\<exists>xs. bst_pos l' it' xs [] \<and> data (t_nodes l') xs = filter (\<lambda>x. \<not> P x) (bst_list l)"
    unfolding c by simp
  then obtain xs where p: "bst_pos l' it' xs []" "data (t_nodes l') xs = filter (\<lambda>x. \<not> P x) (bst_list l)"
    by blast
  then have "it' = None" by (cases it') (auto simp: bst_pos_def)
  moreover from p(1) obtain t' where "bst_rep l' t'" "inorder t' = xs" by (auto simp: bst_pos_def)
  then have "bst_ok l'" "bst_list l' = filter (\<lambda>x. \<not> P x) (bst_list l)" using bst_repI [of l' t'] p(2) by auto
  ultimately show ?thesis using it(1) s'(1,3) c by auto
qed

theorem bst_foreach_prune_witness:
  "\<exists>it l' w'. m_bst_itr_new 3 (Some bst_sample) = Some it \<and>
    itr_foreach (\<lambda>x. bst_live (fst x)) (beside bst_nxt) (watch bst_get (prune bst_get bst_rm (\<lambda>x. x < 60))) 0
      ((bst_sample, it, [], []), []) = Some ((l', None, w', [30, 50]), [30, 50, 70]) \<and> bst_list l' = [70]"
  using bst_foreach_prune [OF bst_sample_list(1), of 3 "\<lambda>x. x < 60" "[]"]
  by (auto simp: bst_sample_list(2))

text \<open>
  Freeing a tree destroys every element once, in order, and nulls the handle when its
  iterator can be allocated; otherwise no element is destroyed, and the nodes are lost.
\<close>

theorem bst_free_all:
  assumes "bst_ok l"
  shows "m_bst_free cal (Some (Some l)) w =
    Some (0, Some None, if cal = NULL then w else fold (call_dtor (t_dtor l)) (bst_list l) w)"
proof (cases "bst_list l = []")
  case True
  obtain t where "bst_rep l t" "bst_list l = data (t_nodes l) (inorder t)" using assms by (rule bst_okE)
  with True have "\<not> m_bst_len (Some l) > 0" by (auto simp: bst_len_pos bst_rep_def)
  with True show ?thesis by (simp add: m_bst_free_def m_bst_clear_def)
next
  case False
  show ?thesis
  proof (cases "cal = NULL")
    case True
    then show ?thesis using m_bst_clear_oom_ok [OF assms False, of w] by (simp add: m_bst_free_def)
  next
    case cal: False
    from m_bst_clear_ok [OF assms False cal, of w] show ?thesis using cal by (auto simp: m_bst_free_def)
  qed
qed

theorem bst_free_all_witness:
  "m_bst_free 3 (Some (Some bst_sample)) [] = Some (0, Some None, [30, 50, 70])"
  using bst_free_all [OF bst_sample_list(1), of 3 "[]"] by (simp add: bst_sample_list bst_sample_in log_dtor_def)

text \<open>
  C19. Clearing a tree that is not empty when no iterator can be allocated reports success,
  leaves the length as it was over an empty root, and the next iterator made over the tree
  dereferences a null pointer.
\<close>

theorem bst_clear_oom:
  assumes "bst_ok l" and "bst_list l \<noteq> []"
  shows "\<exists>l'. m_bst_clear NULL (Some l) w = Some (0, Some l', w) \<and>
    m_bst_len (Some l') = int (length (bst_list l)) \<and> (\<forall>d. m_bst_find (Some l') d = Some NULL) \<and>
    (\<forall>cal. m_bst_itr_new (Suc cal) (Some l') = None)"
proof -
  obtain t where t: "bst_rep l t" "bst_list l = data (t_nodes l) (inorder t)" using assms(1) by (rule bst_okE)
  let ?l = "l\<lparr>t_root := NULL\<rparr>"
  have len: "t_len l = length (bst_list l)" using t by (simp add: bst_rep_def)
  have "m_bst_find (Some ?l) d = Some NULL" for d
    by (cases "d = NULL") (simp_all add: m_bst_find_def bst_find.simps)
  moreover have "m_bst_itr_new (Suc cal) (Some ?l) = None" for cal
    using assms(2) len by (simp add: m_bst_itr_new_def m_bst_len_def find_min_subtree.simps bnode_at_def)
  ultimately show ?thesis using m_bst_clear_oom_ok [OF assms, of w] len by (auto simp: m_bst_len_def)
qed

theorem bst_clear_oom_witness:
  "\<exists>l'. m_bst_clear NULL (Some bst_sample) [] = Some (0, Some l', []) \<and> m_bst_len (Some l') = 3 \<and>
    m_bst_itr_new 5 (Some l') = None"
proof -
  have "bst_list bst_sample \<noteq> []" by (simp add: bst_sample_list)
  from bst_clear_oom [OF bst_sample_list(1) this, of "[]"] obtain l' where
    l': "m_bst_clear NULL (Some bst_sample) [] = Some (0, Some l', [])" "m_bst_len (Some l') = 3"
      "\<forall>cal. m_bst_itr_new (Suc cal) (Some l') = None" by (auto simp: bst_sample_list)
  from spec [OF l'(3), of 4] l'(1,2) show ?thesis by simp
qed

lemma bst_traverse_lists:
  assumes "bst_ok l"
  shows "m_bst_traverse (Some l) (Some M_BST_IN) (Some f) up v = Some (iter_list (f up) (bst_list l) v)"
    and "m_bst_traverse (Some l) (Some M_BST_PRE) (Some f) up v =
      Some (iter_list (f up) (data (t_nodes l) (preorder (bst_tree l))) v)"
    and "m_bst_traverse (Some l) (Some M_BST_POST) (Some f) up v =
      Some (iter_list (f up) (data (t_nodes l) (postorder (bst_tree l))) v)"
    and "m_bst_iterate (Some l) (Some f) up v =
      Some (iter_list (f up) (data (t_nodes l) (preorder (bst_tree l))) v)"
proof -
  obtain t where t: "bst_rep l t" "bst_list l = data (t_nodes l) (inorder t)" "bst_tree l = t"
    using assms by (rule bst_okE)
  have at: "tree_at (t_nodes l) NULL (t_root l) t" using t(1) by (simp add: bst_rep_def)
  note tr = traverse_ok [OF at, of "f up" v]
  have stop: "(case until_nonzero (f up) xs v of (ret, v') \<Rightarrow> (if ret \<ge> 0 then 0 else ret, v')) =
      iter_list (f up) xs v" for xs
    by (cases "until_nonzero (f up) xs v") (simp add: until_nonzero_iter)
  show "m_bst_traverse (Some l) (Some M_BST_IN) (Some f) up v = Some (iter_list (f up) (bst_list l) v)"
    using tr(2) stop t(2) by (simp add: m_bst_traverse_def)
  show pre: "m_bst_traverse (Some l) (Some M_BST_PRE) (Some f) up v =
      Some (iter_list (f up) (data (t_nodes l) (preorder (bst_tree l))) v)"
    using tr(1) stop t(3) by (simp add: m_bst_traverse_def)
  then show "m_bst_iterate (Some l) (Some f) up v =
      Some (iter_list (f up) (data (t_nodes l) (preorder (bst_tree l))) v)" by (simp add: m_bst_iterate_def)
  show "m_bst_traverse (Some l) (Some M_BST_POST) (Some f) up v =
      Some (iter_list (f up) (data (t_nodes l) (postorder (bst_tree l))) v)"
    using tr(3) stop t(3) by (simp add: m_bst_traverse_def)
qed

text \<open>
  C20. The three traversals call the callback on the user pointers in preorder, in order and in
  postorder, up to the first call that does not return 0, which decides the result: a negative
  value is returned, a positive one gives 0. Iterating is the traversal in preorder.
\<close>

theorem bst_traverse_orders:
  assumes "bst_ok l"
  shows "m_bst_traverse (Some l) (Some M_BST_IN) (Some f) up v = Some (iter_list (f up) (bst_list l) v) \<and>
    m_bst_traverse (Some l) (Some M_BST_PRE) (Some f) up v =
      Some (iter_list (f up) (data (t_nodes l) (preorder (bst_tree l))) v) \<and>
    m_bst_traverse (Some l) (Some M_BST_POST) (Some f) up v =
      Some (iter_list (f up) (data (t_nodes l) (postorder (bst_tree l))) v) \<and>
    m_bst_iterate (Some l) (Some f) up v =
      Some (iter_list (f up) (data (t_nodes l) (preorder (bst_tree l))) v)"
  by (intro conjI bst_traverse_lists [OF assms])

theorem bst_traverse_orders_witness:
  "m_bst_traverse (Some bst_sample) (Some M_BST_IN) (Some (\<lambda>up d v. (0, v @ [d]))) 0 [] = Some (0, [30, 50, 70]) \<and>
   m_bst_traverse (Some bst_sample) (Some M_BST_PRE) (Some (\<lambda>up d v. (0, v @ [d]))) 0 [] = Some (0, [50, 30, 70]) \<and>
   m_bst_traverse (Some bst_sample) (Some M_BST_POST) (Some (\<lambda>up d v. (0, v @ [d]))) 0 [] = Some (0, [30, 70, 50])"
  using bst_traverse_orders [OF bst_sample_list(1), of "\<lambda>up d v. (0, v @ [d])" 0 "[]"]
    bst_rep_tree [OF bst_sample_rep]
  by (simp add: bst_sample_list(2)) (simp add: bst_sample_def datum_def)

end
