(* ===== verification/BstTree.thy ===== *)
theory BstTree
  imports BstWalk
begin

text \<open>
  The shape of the search tree as a functional tree, for callers whose comparator is no order.
  The three operations are refined by \<open>bst.c\<close> for every comparator; the comparator of the
  functional operations may be undefined on an element (\<open>None\<close>).
\<close>

subsection \<open>Functional operations\<close>

fun tfind :: "('a \<Rightarrow> int option) \<Rightarrow> 'a tree \<Rightarrow> 'a option option" where
  "tfind c Leaf = Some None"
| "tfind c (Node l x r) = Option.bind (c x) (\<lambda>k.
     if k = 0 then Some (Some x) else if k > 0 then tfind c r else tfind c l)"

text \<open>\<open>Some None\<close>: an equal element is there.\<close>

fun tinsert :: "('a \<Rightarrow> int option) \<Rightarrow> 'a \<Rightarrow> 'a tree \<Rightarrow> 'a tree option option" where
  "tinsert c d Leaf = Some (Some (Node Leaf d Leaf))"
| "tinsert c d (Node l x r) = Option.bind (c x) (\<lambda>k.
     if k = 0 then Some None
     else if k > 0 then map_option (map_option (\<lambda>r'. Node l x r')) (tinsert c d r)
     else map_option (map_option (\<lambda>l'. Node l' x r)) (tinsert c d l))"

fun tmin :: "'a tree \<Rightarrow> ('a \<times> 'a tree) option" where
  "tmin Leaf = None"
| "tmin (Node l x r) = (case tmin l of None \<Rightarrow> Some (x, r) | Some (m, l') \<Rightarrow> Some (m, Node l' x r))"

text \<open>The element handed to the destructor, and the tree that is left.\<close>

fun tremove_root :: "'a tree \<Rightarrow> ('a \<times> 'a tree) option" where
  "tremove_root Leaf = None"
| "tremove_root (Node l x r) =
     (case (l, tmin r) of (Leaf, _) \<Rightarrow> Some (x, r) | (_, None) \<Rightarrow> Some (x, l)
      | (_, Some (m, r')) \<Rightarrow> Some (m, Node l m r'))"

fun tremove :: "('a \<Rightarrow> int option) \<Rightarrow> 'a tree \<Rightarrow> ('a \<times> 'a tree) option option" where
  "tremove c Leaf = Some None"
| "tremove c (Node l x r) = Option.bind (c x) (\<lambda>k.
     if k = 0 then Some (tremove_root (Node l x r))
     else if k > 0 then map_option (map_option (map_prod id (\<lambda>r'. Node l x r'))) (tremove c r)
     else map_option (map_option (map_prod id (\<lambda>l'. Node l' x r))) (tremove c l))"

subsection \<open>Paths\<close>

primrec steers :: "(ptr \<Rightarrow> int) \<Rightarrow> frame \<Rightarrow> bool" where
  "steers c (Lf a r) \<longleftrightarrow> c a < 0"
| "steers c (Rf l a) \<longleftrightarrow> c a > 0"

primrec map_frame :: "(ptr \<Rightarrow> ptr) \<Rightarrow> frame \<Rightarrow> frame" where
  "map_frame g (Lf a r) = Lf (g a) (map_tree g r)"
| "map_frame g (Rf l a) = Rf (map_tree g l) (g a)"

lemma map_fill: "map_tree g (fill fs t) = fill (List.map (map_frame g) fs) (map_tree g t)"
proof (induction fs arbitrary: t)
  case (Cons f fs)
  then show ?case by (cases f) simp_all
qed simp

lemma fill_Nil: "fill [] = id"
  by (simp add: fun_eq_iff)

lemma path_ops:
  assumes "\<forall>f\<in>set fs. steers c f"
  shows "tfind (\<lambda>x. Some (c x)) (fill fs t) = tfind (\<lambda>x. Some (c x)) t"
    and "tinsert (\<lambda>x. Some (c x)) d (fill fs t) = map_option (map_option (fill fs)) (tinsert (\<lambda>x. Some (c x)) d t)"
    and "tremove (\<lambda>x. Some (c x)) (fill fs t) =
      map_option (map_option (map_prod id (fill fs))) (tremove (\<lambda>x. Some (c x)) t)"
  using assms
proof (induction fs arbitrary: t)
  case (Cons f fs)
  { case 1 with Cons(1) show ?case by (cases f) auto }
  { case 2 with Cons(2) show ?case by (cases f) (auto simp: option.map_comp comp_def) }
  { case 3 with Cons(3) show ?case by (cases f) (auto simp: option.map_comp prod.map_comp comp_def id_def) }
qed (simp_all add: fill_Nil option.map_id0 prod.map_id0 option.map_id prod.map_id)

lemma bst_find_path:
  assumes "ctx_at ns root fs p" and "tree_at ns (ctx_top fs) p t"
  shows "\<exists>gs u q. bst_find root ns cmp d (slot_of fs) (ctx_top fs) = Some (slot_of (gs @ fs), ctx_top (gs @ fs)) \<and>
    t = fill gs u \<and> (\<forall>f\<in>set gs. steers (\<lambda>a. cmp d (datum ns a)) f) \<and>
    ctx_at ns root (gs @ fs) q \<and> tree_at ns (ctx_top (gs @ fs)) q u \<and>
    (u = Leaf \<or> (\<exists>l a r. u = Node l a r \<and> cmp d (datum ns a) = 0))"
  using assms
proof (induction t arbitrary: fs p)
  case Leaf
  then show ?case
    by (subst bst_find.simps) (auto simp: ctx_at_get intro!: exI [of _ "[]"] exI [of _ Leaf])
next
  case (Node l a r)
  from Node.prems(2) obtain n where n: "p = a" "a \<noteq> NULL" "ns a = Some n" "b_parent n = ctx_top fs"
    "tree_at ns a (b_left n) l" "tree_at ns a (b_right n) r" by auto
  have at: "bnode_at ns a = Some n" "datum ns a = b_userptr n" using n by (simp_all add: bnode_at_def datum_def)
  have step: "bst_find root ns cmp d (slot_of fs) (ctx_top fs) =
      (if cmp d (datum ns a) = 0 then Some (slot_of fs, ctx_top fs)
       else if cmp d (datum ns a) > 0 then bst_find root ns cmp d (RightOf a) a
       else bst_find root ns cmp d (LeftOf a) a)"
    using ctx_at_get [OF Node.prems(1), of NULL] n(1,2) at by (subst bst_find.simps) simp
  consider "cmp d (datum ns a) = 0" | "cmp d (datum ns a) > 0" | "cmp d (datum ns a) < 0" by linarith
  then show ?case
  proof cases
    case 1
    with step Node.prems show ?thesis
      by (intro exI [of _ "[]"] exI [of _ "Node l a r"] exI [of _ p]) simp
  next
    case 2
    have "ctx_at ns root (Rf l a # fs) (b_right n)" using n at Node.prems(1) by simp
    from Node.IH(2) [OF this] n(6) obtain gs u q where g:
      "bst_find root ns cmp d (RightOf a) a = Some (slot_of (gs @ Rf l a # fs), ctx_top (gs @ Rf l a # fs))"
      "r = fill gs u" "\<forall>f\<in>set gs. steers (\<lambda>a. cmp d (datum ns a)) f" "ctx_at ns root (gs @ Rf l a # fs) q"
      "tree_at ns (ctx_top (gs @ Rf l a # fs)) q u" "u = Leaf \<or> (\<exists>l a r. u = Node l a r \<and> cmp d (datum ns a) = 0)"
      by auto
    with step 2 show ?thesis
      by (intro exI [of _ "gs @ [Rf l a]"] exI [of _ u] exI [of _ q]) (simp add: fill_append)
  next
    case 3
    have "ctx_at ns root (Lf a r # fs) (b_left n)" using n at Node.prems(1) by simp
    from Node.IH(1) [OF this] n(5) obtain gs u q where g:
      "bst_find root ns cmp d (LeftOf a) a = Some (slot_of (gs @ Lf a r # fs), ctx_top (gs @ Lf a r # fs))"
      "l = fill gs u" "\<forall>f\<in>set gs. steers (\<lambda>a. cmp d (datum ns a)) f" "ctx_at ns root (gs @ Lf a r # fs) q"
      "tree_at ns (ctx_top (gs @ Lf a r # fs)) q u" "u = Leaf \<or> (\<exists>l a r. u = Node l a r \<and> cmp d (datum ns a) = 0)"
      by auto
    with step 3 show ?thesis
      by (intro exI [of _ "gs @ [Lf a r]"] exI [of _ u] exI [of _ q]) (simp add: fill_append)
  qed
qed

subsection \<open>Refinement\<close>

definition bst_shape :: "'w m_bst \<Rightarrow> ptr tree" where
  "bst_shape l = map_tree (datum (t_nodes l)) (bst_tree l)"

abbreviation bst_cmp :: "'w m_bst \<Rightarrow> ptr \<Rightarrow> ptr \<Rightarrow> int option" where
  "bst_cmp l d \<equiv> \<lambda>x. Some (t_comp l d x)"

lemma bst_shape_rep: "bst_rep l t \<Longrightarrow> bst_shape l = map_tree (datum (t_nodes l)) t"
  by (simp add: bst_shape_def bst_rep_tree)

lemma inorder_map_tree: "inorder (map_tree g t) = List.map g (inorder t)"
  by (induction t) simp_all

lemma inorder_shape: "bst_ok l \<Longrightarrow> inorder (bst_shape l) = bst_list l"
  by (simp add: bst_shape_def bst_list_def inorder_map_tree)

lemma steers_map: "(\<forall>f\<in>set fs. steers (\<lambda>a. c (g a)) f) \<Longrightarrow> \<forall>f\<in>set (List.map (map_frame g) fs). steers c f"
proof clarsimp
  fix f
  assume "\<forall>f\<in>set fs. steers (\<lambda>a. c (g a)) f" "f \<in> set fs"
  then show "steers c (map_frame g f)" by (cases f) force+
qed

text \<open>The outcome of a search, over the tree of user pointers.\<close>

lemma bst_path_cases:
  assumes "bst_ok l"
  obtains (miss) fs where "bst_find (t_root l) (t_nodes l) (t_comp l) d RootSlot NULL = Some (slot_of fs, ctx_top fs)"
      "bslot_get (t_root l) NULL (t_nodes l) (slot_of fs) = Some NULL" "bst_rep l (fill fs Leaf)"
      "\<forall>f\<in>set (List.map (map_frame (datum (t_nodes l))) fs). steers (t_comp l d) f"
      "bst_shape l = fill (List.map (map_frame (datum (t_nodes l))) fs) Leaf"
    | (hit) fs lt a rt where "bst_find (t_root l) (t_nodes l) (t_comp l) d RootSlot NULL = Some (slot_of fs, ctx_top fs)"
      "bslot_get (t_root l) NULL (t_nodes l) (slot_of fs) = Some a" "a \<noteq> NULL" "bst_rep l (fill fs (Node lt a rt))"
      "\<forall>f\<in>set (List.map (map_frame (datum (t_nodes l))) fs). steers (t_comp l d) f"
      "bst_shape l = fill (List.map (map_frame (datum (t_nodes l))) fs)
         (Node (map_tree (datum (t_nodes l)) lt) (datum (t_nodes l) a) (map_tree (datum (t_nodes l)) rt))"
      "t_comp l d (datum (t_nodes l) a) = 0"
proof -
  obtain t where t: "bst_rep l t" using assms by (rule bst_okE)
  have "ctx_at (t_nodes l) (t_root l) [] (t_root l)" "tree_at (t_nodes l) (ctx_top []) (t_root l) t"
    using t by (simp_all add: bst_rep_def)
  from bst_find_path [OF this, of "t_comp l" d] obtain gs u q where
    g: "bst_find (t_root l) (t_nodes l) (t_comp l) d RootSlot NULL = Some (slot_of gs, ctx_top gs)" "t = fill gs u"
      "\<forall>f\<in>set gs. steers (\<lambda>a. t_comp l d (datum (t_nodes l) a)) f" "ctx_at (t_nodes l) (t_root l) gs q"
      "tree_at (t_nodes l) (ctx_top gs) q u" and u: "u = Leaf \<or> (\<exists>l' a r. u = Node l' a r \<and> t_comp l d (datum (t_nodes l) a) = 0)"
    by auto
  note st = steers_map [where c = "t_comp l d" and g = "datum (t_nodes l)", OF g(3)] and get = ctx_at_get [OF g(4), of NULL]
  have shape: "bst_shape l = fill (List.map (map_frame (datum (t_nodes l))) gs) (map_tree (datum (t_nodes l)) u)"
    using bst_shape_rep [OF t] g(2) by (simp add: map_fill)
  from u show ?thesis
  proof (elim disjE exE conjE)
    assume "u = Leaf"
    with g get shape t st show ?thesis by (intro miss [of gs]) simp_all
  next
    fix l' a r
    assume "u = Node l' a r" "t_comp l d (datum (t_nodes l) a) = 0"
    with g get shape t st show ?thesis by (intro hit [of gs a l' r]) simp_all
  qed
qed

lemma map_fill_cong:
  "(\<And>b. b \<in> set (lefts fs @ rights fs) \<Longrightarrow> g b = h b) \<Longrightarrow> List.map (map_frame g) fs = List.map (map_frame h) fs"
proof (induction fs)
  case (Cons f fs)
  have "map_frame g f = map_frame h f"
  proof (cases f)
    case (Lf a r)
    then have "map_tree g r = map_tree h r" by (intro tree.map_cong refl Cons.prems) auto
    with Lf Cons.prems show ?thesis by simp
  next
    case (Rf l a)
    then have "map_tree g l = map_tree h l" by (intro tree.map_cong refl Cons.prems) auto
    with Rf Cons.prems show ?thesis by simp
  qed
  moreover have "List.map (map_frame g) fs = List.map (map_frame h) fs" by (intro Cons.IH Cons.prems) auto
  ultimately show ?case by simp
qed simp

lemma m_bst_find_shape:
  assumes "bst_ok l" and "d \<noteq> NULL"
  shows "m_bst_find (Some l) d = map_option (case_option NULL id) (tfind (bst_cmp l d) (bst_shape l))"
  using assms(1)
proof (cases rule: bst_path_cases [where d = d])
  case (miss fs)
  with assms(2) show ?thesis by (simp add: m_bst_find_def path_ops(1))
next
  case (hit fs lt a rt)
  then have "map_option b_userptr (bnode_at (t_nodes l) a) = Some (datum (t_nodes l) a)"
    using bst_node_datum [OF hit(4)] by (auto simp: bnode_at_def)
  with hit assms(2) show ?thesis by (simp add: m_bst_find_def path_ops(1))
qed

lemma m_bst_insert_shape:
  assumes "bst_ok l" and "d \<noteq> NULL" and "cal \<noteq> NULL" and "t_nodes l cal = None"
  shows "case tinsert (bst_cmp l d) d (bst_shape l) of None \<Rightarrow> False
    | Some None \<Rightarrow> m_bst_insert cal (Some l) d = Some (- EEXIST, Some l)
    | Some (Some t) \<Rightarrow> \<exists>l'. m_bst_insert cal (Some l) d = Some (0, Some l') \<and> bst_ok l' \<and> bst_shape l' = t \<and>
        t_comp l' = t_comp l \<and> t_dtor l' = t_dtor l"
  using assms(1)
proof (cases rule: bst_path_cases [where d = d])
  case (miss fs)
  from bst_insert_node_ok [OF miss(3) assms(3,4,2)] obtain l' where
    l': "bst_insert_node cal l (slot_of fs) (ctx_top fs) d = Some (0, l')" "bst_rep l' (fill fs (Node Leaf cal Leaf))"
      "t_comp l' = t_comp l" "t_dtor l' = t_dtor l" "data (t_nodes l') (lefts fs) = data (t_nodes l) (lefts fs)"
      "datum (t_nodes l') cal = d" "data (t_nodes l') (rights fs) = data (t_nodes l) (rights fs)" by blast
  have same: "List.map (map_frame (datum (t_nodes l'))) fs = List.map (map_frame (datum (t_nodes l))) fs"
    by (rule map_fill_cong) (use l'(5,7) in auto)
  have "bst_shape l' = fill (List.map (map_frame (datum (t_nodes l))) fs) (Node Leaf d Leaf)"
    unfolding bst_shape_rep [OF l'(2)] map_fill same using l'(6) by simp
  moreover have "m_bst_insert cal (Some l) d = Some (0, Some l')"
    using miss(1,2) l'(1) assms(2) by (simp add: m_bst_insert_def)
  ultimately show ?thesis using miss(4,5) l'(3,4) bst_repI(1) [OF l'(2)] by (simp add: path_ops(2))
next
  case (hit fs lt a rt)
  with assms(2) show ?thesis by (simp add: m_bst_insert_def path_ops(2))
qed

lemma tmin_fill: "lefts gs = [] \<Longrightarrow> tmin (fill gs (Node Leaf m r)) = Some (m, fill gs r)"
proof (induction gs rule: rev_induct)
  case (snoc f gs)
  then obtain a k where "f = Lf a k" "lefts gs = []" by (cases f) auto
  with snoc show ?case by (simp add: fill_append)
qed simp

lemma lefts_map: "lefts (List.map (map_frame g) gs) = List.map g (lefts gs)"
  by (induction gs) (auto simp: inorder_map_tree split: frame.splits)

lemma tremove_root_one: "lt = Leaf \<and> c = rt \<or> rt = Leaf \<and> c = lt \<Longrightarrow> tremove_root (Node lt x rt) = Some (x, c)"
  by (cases lt) (auto split: option.splits)

lemma tremove_root_two: "lt \<noteq> Leaf \<Longrightarrow> tmin rt = Some (m, r') \<Longrightarrow> tremove_root (Node lt x rt) = Some (m, Node lt m r')"
  by (cases lt) simp_all

lemma bst_remove_node_shape:
  assumes rep: "bst_rep l (fill fs (Node lt a rt))"
  shows "\<exists>v t l'. tremove_root (map_tree (datum (t_nodes l)) (Node lt a rt)) = Some (v, t) \<and>
    bst_remove_node l (slot_of fs) w = Some (0, l', call_dtor (t_dtor l) v w) \<and> bst_ok l' \<and>
    bst_shape l' = fill (List.map (map_frame (datum (t_nodes l))) fs) t \<and> t_comp l' = t_comp l \<and> t_dtor l' = t_dtor l"
proof -
  let ?g = "datum (t_nodes l)"
  have dist: "distinct (lefts fs @ (inorder lt @ a # inorder rt) @ rights fs)"
    using rep unfolding bst_rep_fill by simp
  show ?thesis
  proof (cases "lt = Leaf \<or> rt = Leaf")
    case True
    then obtain c where c: "lt = Leaf \<and> c = rt \<or> rt = Leaf \<and> c = lt" by blast
    from bst_unlink [OF rep c, of w] obtain l' where
      un: "bst_remove_node l (slot_of fs) w = Some (0, l', call_dtor (t_dtor l) (?g a) w)" "bst_rep l' (fill fs c)"
        "t_comp l' = t_comp l" "t_dtor l' = t_dtor l" and dat: "\<forall>b. b \<noteq> a \<longrightarrow> datum (t_nodes l') b = ?g b" by blast
    have fs: "List.map (map_frame (datum (t_nodes l'))) fs = List.map (map_frame ?g) fs"
      by (rule map_fill_cong) (use dat dist in auto)
    have "map_tree (datum (t_nodes l')) c = map_tree ?g c"
      by (intro tree.map_cong refl) (use dat dist c in auto)
    with bst_shape_rep [OF un(2)] have "bst_shape l' = fill (List.map (map_frame ?g) fs) (map_tree ?g c)"
      by (simp only: map_fill fs)
    moreover have "tremove_root (map_tree ?g (Node lt a rt)) = Some (?g a, map_tree ?g c)"
      unfolding tree.map by (rule tremove_root_one) (use c in auto)
    ultimately show ?thesis using un(1,3,4) bst_repI(1) [OF un(2)] by blast
  next
    case False
    then have two: "lt \<noteq> Leaf" "rt \<noteq> Leaf" by simp_all
    from bst_remove_two_tree [OF rep two, of w] obtain gs m r l' where
      un: "rt = fill gs (Node Leaf m r)" "lefts gs = []"
        "bst_remove_node l (slot_of fs) w = Some (0, l', call_dtor (t_dtor l) (?g m) w)"
        "bst_rep l' (fill (gs @ Rf lt a # fs) r)" "t_comp l' = t_comp l" "t_dtor l' = t_dtor l"
      and da: "datum (t_nodes l') a = ?g m"
      and dat: "\<forall>b. b \<noteq> m \<longrightarrow> b \<noteq> a \<longrightarrow> datum (t_nodes l') b = ?g b" by blast
    have rt: "inorder rt = m # inorder r @ rights gs" unfolding un(1) inorder_fill by (simp add: un(2))
    have fs: "List.map (map_frame (datum (t_nodes l'))) fs = List.map (map_frame ?g) fs"
      and gs: "List.map (map_frame (datum (t_nodes l'))) gs = List.map (map_frame ?g) gs"
      by (rule map_fill_cong; use dat dist rt un(2) in auto)+
    have r: "map_tree (datum (t_nodes l')) r = map_tree ?g r" and lt: "map_tree (datum (t_nodes l')) lt = map_tree ?g lt"
      by (intro tree.map_cong refl; use dat dist rt in auto)+
    let ?rt = "fill (List.map (map_frame ?g) gs) (map_tree ?g r)"
    have "bst_shape l' = fill (List.map (map_frame ?g) fs) (Node (map_tree ?g lt) (?g m) ?rt)"
      unfolding bst_shape_rep [OF un(4)] map_fill fill_append map_append list.map fs gs r
      by (simp add: da lt fill_append)
    moreover have "tmin (map_tree ?g rt) = Some (?g m, ?rt)"
      unfolding un(1) map_fill tree.map by (rule tmin_fill) (simp add: lefts_map un(2))
    then have "tremove_root (map_tree ?g (Node lt a rt)) = Some (?g m, Node (map_tree ?g lt) (?g m) ?rt)"
      unfolding tree.map by (intro tremove_root_two) (use two in auto)
    ultimately show ?thesis using un(3,5,6) bst_repI(1) [OF un(4)] by blast
  qed
qed

lemma m_bst_remove_shape:
  assumes "bst_ok l" and "d \<noteq> NULL"
  shows "case tremove (bst_cmp l d) (bst_shape l) of None \<Rightarrow> False
    | Some None \<Rightarrow> m_bst_remove (Some l) d w =
        Some (if bst_shape l = Leaf then - EINVAL else - ENOENT, Some l, w)
    | Some (Some (v, t)) \<Rightarrow> \<exists>l'. m_bst_remove (Some l) d w = Some (0, Some l', call_dtor (t_dtor l) v w) \<and>
        bst_ok l' \<and> bst_shape l' = t \<and> t_comp l' = t_comp l \<and> t_dtor l' = t_dtor l"
proof -
  obtain t where t: "bst_rep l t" using assms(1) by (rule bst_okE)
  have pos: "m_bst_len (Some l) > 0 \<longleftrightarrow> bst_shape l \<noteq> Leaf"
    using bst_rep_len [OF t] bst_shape_rep [OF t] by (cases t) (auto simp: bst_len_pos)
  from assms(1) show ?thesis
  proof (cases rule: bst_path_cases [where d = d])
    case (miss fs)
    have "bst_remove_node l (slot_of fs) w = Some (- ENOENT, l, w)"
      using miss(2) by (subst bst_remove_node.simps) simp
    with assms(2) miss pos show ?thesis by (simp add: m_bst_remove_def path_ops(3))
  next
    case (hit fs lt a rt)
    from bst_remove_node_shape [OF hit(4), of w] obtain v t l' where
      r: "tremove_root (map_tree (datum (t_nodes l)) (Node lt a rt)) = Some (v, t)"
        "bst_remove_node l (slot_of fs) w = Some (0, l', call_dtor (t_dtor l) v w)" "bst_ok l'"
        "bst_shape l' = fill (List.map (map_frame (datum (t_nodes l))) fs) t" "t_comp l' = t_comp l" "t_dtor l' = t_dtor l"
      by blast
    have "m_bst_len (Some l) > 0" using pos hit(6) inorder_fill [of "List.map (map_frame (datum (t_nodes l))) fs"
        "Node (map_tree (datum (t_nodes l)) lt) (datum (t_nodes l) a) (map_tree (datum (t_nodes l)) rt)"] by auto
    then have "m_bst_remove (Some l) d w = Some (0, Some l', call_dtor (t_dtor l) v w)"
      using assms(2) hit(1) r(2) by (simp add: m_bst_remove_def)
    with r hit(5-7) show ?thesis by (simp add: path_ops(3))
  qed
qed

subsection \<open>Properties\<close>

text \<open>
  C21. For every comparator, even one that is no order, the tree of \<^verbatim>\<open>bst.c\<close> behaves as the
  functional tree: insertion, lookup and removal end, make no bad memory access, keep the tree
  well formed, return what the functional operation says, leave the shape it computes, and
  call the destructor on the element it names.
\<close>

theorem bst_refines_tree:
  assumes "bst_ok l" and "d \<noteq> NULL" and "cal \<noteq> NULL" and "t_nodes l cal = None"
  shows "m_bst_find (Some l) d = map_option (case_option NULL id) (tfind (bst_cmp l d) (bst_shape l)) \<and>
    (case tinsert (bst_cmp l d) d (bst_shape l) of None \<Rightarrow> False
     | Some None \<Rightarrow> m_bst_insert cal (Some l) d = Some (- EEXIST, Some l)
     | Some (Some t) \<Rightarrow> \<exists>l'. m_bst_insert cal (Some l) d = Some (0, Some l') \<and> bst_ok l' \<and> bst_shape l' = t \<and>
         t_comp l' = t_comp l \<and> t_dtor l' = t_dtor l) \<and>
    (case tremove (bst_cmp l d) (bst_shape l) of None \<Rightarrow> False
     | Some None \<Rightarrow> m_bst_remove (Some l) d w =
         Some (if bst_shape l = Leaf then - EINVAL else - ENOENT, Some l, w)
     | Some (Some (v, t)) \<Rightarrow> \<exists>l'. m_bst_remove (Some l) d w = Some (0, Some l', call_dtor (t_dtor l) v w) \<and>
         bst_ok l' \<and> bst_shape l' = t \<and> t_comp l' = t_comp l \<and> t_dtor l' = t_dtor l)"
  using m_bst_find_shape [OF assms(1,2)] m_bst_insert_shape [OF assms] m_bst_remove_shape [OF assms(1,2), of w]
  by (intro conjI)

theorem bst_refines_tree_witness:
  "\<exists>l'. m_bst_remove (Some bst_sample) 50 [] = Some (0, Some l', [70]) \<and>
    bst_shape l' = Node (Node Leaf 30 Leaf) 70 Leaf"
proof -
  have sh: "bst_shape bst_sample = Node (Node Leaf 30 Leaf) 50 (Node Leaf 70 Leaf)"
    using bst_shape_rep [OF bst_sample_rep] by (simp add: bst_sample_def datum_def)
  have "tremove (\<lambda>x. Some (ptrcmp 50 x)) (Node (Node Leaf 30 Leaf) 50 (Node Leaf 70 Leaf)) =
      Some (Some (70, Node (Node Leaf 30 Leaf) 70 Leaf))" by code_simp
  with bst_refines_tree [OF bst_sample_list(1), of 50 3 "[]"] sh bst_sample_in(2,3) show ?thesis
    by (auto simp: bst_sample_def log_dtor_def)
qed

end
