(* ===== verification/Core.thy ===== *)
theory Core
  imports BstTree
begin

text \<open>
  The state of libmodule's core (\<^verbatim>\<open>Lib/core\<close>) and what every function of it uses: the context and
  its modules, event sources and events as reference-counted objects, messages in flight, and
  the guards that the macros \<^verbatim>\<open>M_MOD_ASSERT\<close>, \<^verbatim>\<open>M_MOD_ASSERT_STATE\<close>, \<^verbatim>\<open>M_MOD_CONSUME_TOKEN\<close>
  expand to.

  One thread and its context are modelled, as built by default on Linux: the epoll plugin and
  \<^verbatim>\<open>fs_noop.c\<close>. The containers appear through what is proved of them: a map is an association list
  in table order, a queue, a stack or a list is a list, a tree of sources is the functional
  tree that \<open>bst.c\<close> refines. A function is a partial function on states; \<open>None\<close> is undefined
  behaviour (a null or dangling dereference, a double free). What the kernel, the C library
  and the client's callbacks do are parameters (\<open>env\<close>, \<open>hooks\<close>). The memory of modules and
  contexts is not tracked (they are never reused), that of sources and events is.
\<close>

subsection \<open>Constants\<close>

datatype m_src_types = M_SRC_TYPE_PS | M_SRC_TYPE_FD | M_SRC_TYPE_TMR | M_SRC_TYPE_SGN
  | M_SRC_TYPE_PATH | M_SRC_TYPE_PID | M_SRC_TYPE_TASK | M_SRC_TYPE_THRESH

definition src_types :: "m_src_types list" where
  "src_types = [M_SRC_TYPE_PS, M_SRC_TYPE_FD, M_SRC_TYPE_TMR, M_SRC_TYPE_SGN,
     M_SRC_TYPE_PATH, M_SRC_TYPE_PID, M_SRC_TYPE_TASK, M_SRC_TYPE_THRESH]"

type_synonym flags = "32 word"

definition M_SRC_PRIO_LOW :: flags where "M_SRC_PRIO_LOW = push_bit 0 1"
definition M_SRC_PRIO_NORM :: flags where "M_SRC_PRIO_NORM = push_bit 1 1"
definition M_SRC_PRIO_HIGH :: flags where "M_SRC_PRIO_HIGH = push_bit 2 1"
definition M_SRC_AUTOFREE :: flags where "M_SRC_AUTOFREE = push_bit 3 1"
definition M_SRC_ONESHOT :: flags where "M_SRC_ONESHOT = push_bit 4 1"
definition M_SRC_DUP :: flags where "M_SRC_DUP = push_bit 5 1"
definition M_SRC_FD_AUTOCLOSE :: flags where "M_SRC_FD_AUTOCLOSE = push_bit 16 1"
definition M_SRC_TMR_ABSOLUTE :: flags where "M_SRC_TMR_ABSOLUTE = push_bit 24 1"
definition M_SRC_INTERNAL :: flags where "M_SRC_INTERNAL = push_bit 7 1"
definition M_SRC_PRIO_MASK :: flags where "M_SRC_PRIO_MASK = push_bit 1 M_SRC_PRIO_HIGH - 1"
definition M_PS_AUTOFREE :: flags where "M_PS_AUTOFREE = push_bit 0 1"

datatype m_mod_states = M_MOD_IDLE | M_MOD_RUNNING | M_MOD_PAUSED | M_MOD_STOPPED | M_MOD_ZOMBIE

definition M_MOD_NAME_DUP :: flags where "M_MOD_NAME_DUP = push_bit 0 1"
definition M_MOD_NAME_AUTOFREE :: flags where "M_MOD_NAME_AUTOFREE = push_bit 1 1"
definition M_MOD_ALLOW_REPLACE :: flags where "M_MOD_ALLOW_REPLACE = push_bit 8 1"
definition M_MOD_PERSIST :: flags where "M_MOD_PERSIST = push_bit 9 1"
definition M_MOD_DENY_CTX :: flags where "M_MOD_DENY_CTX = push_bit 16 1"
definition M_MOD_DENY_PUB :: flags where "M_MOD_DENY_PUB = push_bit 17 1"
definition M_MOD_DENY_SUB :: flags where "M_MOD_DENY_SUB = push_bit 18 1"

datatype m_ctx_states = M_CTX_IDLE | M_CTX_LOOPING

definition M_CTX_NAME_DUP :: flags where "M_CTX_NAME_DUP = push_bit 0 1"
definition M_CTX_NAME_AUTOFREE :: flags where "M_CTX_NAME_AUTOFREE = push_bit 1 1"
definition M_CTX_USERDATA_AUTOFREE :: flags where "M_CTX_USERDATA_AUTOFREE = push_bit 3 1"
definition M_CTX_PERSIST :: flags where "M_CTX_PERSIST = push_bit 2 1"

definition M_CTX_DEFAULT_EVENTS :: int where "M_CTX_DEFAULT_EVENTS = 64"

definition BILLION :: "64 word" where "BILLION = 1000000000"

abbreviation (input) EINTR :: int where "EINTR \<equiv> 4"

definition has :: "flags \<Rightarrow> flags \<Rightarrow> bool" where
  "has fl f \<longleftrightarrow> and fl f \<noteq> 0"

subsection \<open>Data\<close>

text \<open>
  Modules, sources and events are named by the addresses of their structs. The user pointer of
  an internal timer is the address of the field of the module it serves (\<^verbatim>\<open>&mod->batch\<close>,
  \<^verbatim>\<open>&mod->tb\<close>). A \<^verbatim>\<open>double\<close> is kept as its 64 bits.
\<close>

type_synonym mid = ptr
type_synonym sid = ptr
type_synonym eid = ptr

datatype uptr = User ptr | BatchOf mid | TbOf mid

type_synonym m_src_tmr = "int \<times> 64 word"

datatype src_key = KeyFd int | KeyTmr m_src_tmr | KeySgn "32 word" | KeyPath string "32 word"
  | KeyPid int "32 word" | KeyTask int ptr | KeyThresh "64 word" "64 word" | KeyTopic string

text \<open>
  A source: the descriptor at the start of its union, the registered data, whether it has
  epoll data, its \<^verbatim>\<open>alarm\<close> (threshold sources only), and its reference count. A subscription is
  a source whose data is its topic.
\<close>

record ev_src =
  es_type :: m_src_types
  es_fd :: int
  es_key :: src_key
  es_alarm :: "64 word \<times> 64 word"
  es_retval :: int
  es_flags :: flags
  es_ev :: bool
  es_mod :: mid
  es_userptr :: uptr
  es_refs :: nat

record ps_priv =
  ps_system :: bool
  ps_sender :: mid
  ps_topic :: "string option"
  ps_data :: ptr
  ps_flags :: flags
  ps_sub :: sid

datatype evt_data = NoData | PsData ps_priv | FdData int | TmrData "64 word" | SgnData "32 word"
  | PathData string "32 word" | PidData int "32 word" | TaskData int int | ThreshData "64 word" "64 word"

record evt_priv =
  ev_type :: m_src_types
  ev_src :: sid
  ev_data :: evt_data
  ev_userdata :: uptr
  ev_ts :: "64 word"
  ev_refs :: nat

record mod_stats =
  registration_time :: "64 word"
  last_seen :: "64 word"
  action_ctr :: "64 word"
  sent_msgs :: "64 word"
  recv_msgs :: "64 word"

text \<open>The client's callbacks are function pointers.\<close>

record m_mod_hook =
  on_start :: ptr
  on_eval :: ptr
  on_evt :: ptr
  on_stop :: ptr

text \<open>
  A module. The messages in its pipe are \<open>md_pipe\<close>. \<open>md_subs\<close> is the lazily created map of
  subscriptions: each entry is its key, the source that owns the string of the key (\<open>NULL\<close>:
  the client does) and the value.
\<close>

record m_mod =
  md_state :: m_mod_states
  md_flags :: flags
  md_fd0 :: int
  md_fd1 :: int
  md_pipe :: "ps_priv list"
  md_stats :: mod_stats
  md_hook :: m_mod_hook
  md_recvs :: "ptr list"
  md_userdata :: ptr
  md_name :: string
  md_name_at :: ptr
  md_batch_len :: "64 word"
  md_batch_timer :: m_src_tmr
  md_batch_events :: "eid list option"
  md_tb_rate :: "16 word"
  md_tb_burst :: "64 word"
  md_tb_tokens :: "64 word"
  md_tb_timer :: m_src_tmr
  md_dlhandle :: bool
  md_srcs :: "m_src_types \<Rightarrow> sid tree option"
  md_subs :: "(string \<times> sid \<times> sid) list option"
  md_stashed :: "eid list"
  md_bound :: "mid list"

text \<open>
  The thread's state: whether its key holds the context (\<open>s_key\<close>), the objects, the clock, the
  allocation counter, \<^verbatim>\<open>errno\<close>, the descriptors closed and the client's memory released so far;
  then the fields of \<^verbatim>\<open>struct _ctx\<close>. The last three are its \<^verbatim>\<open>ppriv\<close>: whether its data is allocated,
  the descriptor of epoll and whether the array of events is allocated. \<open>c_logger\<close> is \<open>None\<close> for
  \<^verbatim>\<open>default_logger\<close>.
\<close>

record sys =
  s_key :: bool
  s_mods :: "mid \<Rightarrow> m_mod"
  s_srcs :: "sid \<Rightarrow> ev_src option"
  s_evts :: "eid \<Rightarrow> evt_priv option"
  s_next :: nat
  s_now :: "64 word"
  s_errno :: int
  s_closed :: "int list"
  s_freed :: "ptr list"
  s_last_time :: "64 word"
  c_state :: m_ctx_states
  c_quit :: bool
  c_quit_code :: "8 word"
  c_finalized :: bool
  c_flags :: flags
  c_modules :: "(string \<times> mid) list"
  c_curr_mod :: mid
  c_max_events :: int
  c_looping_start :: "64 word"
  c_idle_time :: "64 word"
  c_recv_msgs :: "64 word"
  c_running :: "64 word"
  c_thpool :: bool
  c_tick_tmr :: m_src_tmr
  c_tick_src :: sid
  c_name :: string
  c_name_at :: ptr
  c_userdata :: ptr
  c_logger :: "ptr option"
  c_priv :: bool
  c_epfd :: int
  c_pevents :: bool

text \<open>
  The kernel and the C library: the outcome of \<^verbatim>\<open>epoll_ctl\<close> with the \<^verbatim>\<open>errno\<close> it leaves; the descriptor
  that \<^verbatim>\<open>timerfd_create\<close> with \<^verbatim>\<open>timerfd_settime\<close> (clock, absolute, interval, value), \<^verbatim>\<open>signalfd\<close>,
  \<^verbatim>\<open>inotify_init1\<close> with \<^verbatim>\<open>inotify_add_watch\<close>, \<^verbatim>\<open>pidfd_open\<close> and \<^verbatim>\<open>eventfd\<close> return; \<^verbatim>\<open>dup\<close>; \<^verbatim>\<open>pipe\<close>; how many pointers a pipe holds; \<^verbatim>\<open>regexec\<close> and \<^verbatim>\<open>regcomp\<close>; \<^verbatim>\<open>dlopen\<close> with
  \<^verbatim>\<open>dlsym\<close>; whether the n-th allocation succeeds; \<^verbatim>\<open>m_thpool_new\<close> and \<^verbatim>\<open>m_thpool_add\<close>; what the
  function of a task returns; reading the descriptor of a source (\<^verbatim>\<open>errno\<close>, 0 when the data
  came; length and mask of an inotify event); writing to an eventfd (\<^verbatim>\<open>errno\<close>);
  \<^verbatim>\<open>epoll_create1\<close>; \<^verbatim>\<open>epoll_wait\<close> (\<open>Inl errno\<close> or the sources ready, \<open>None\<close> for \<^verbatim>\<open>EPOLLERR\<close>); the slot order of names in a
  map, and whether a map of so many entries takes one more (its table may have to be doubled); \<^verbatim>\<open>double\<close> and \<^verbatim>\<open>long double\<close> arithmetic.
\<close>

datatype op_type = ADD | RM

record env =
  e_ctl :: "op_type \<Rightarrow> int \<Rightarrow> sys \<Rightarrow> int \<times> int"
  e_timerfd :: "int \<Rightarrow> bool \<Rightarrow> 64 word \<times> 64 word \<Rightarrow> 64 word \<times> 64 word \<Rightarrow> sys \<Rightarrow> int"
  e_signalfd :: "32 word \<Rightarrow> sys \<Rightarrow> int"
  e_inotify :: "string \<Rightarrow> 32 word \<Rightarrow> sys \<Rightarrow> int"
  e_pidfd :: "int \<Rightarrow> sys \<Rightarrow> int"
  e_eventfd :: "sys \<Rightarrow> int"
  e_dup :: "int \<Rightarrow> sys \<Rightarrow> int"
  e_pipe :: "sys \<Rightarrow> (int \<times> int) option"
  e_room :: nat
  e_match :: "string \<Rightarrow> string \<Rightarrow> bool"
  e_regcomp :: "string \<Rightarrow> int"
  e_dlopen :: "string option \<Rightarrow> m_mod_hook option"
  e_mem :: "nat \<Rightarrow> bool"
  e_thpool :: "sys \<Rightarrow> bool"
  e_task :: "sid \<Rightarrow> sys \<Rightarrow> int"
  e_taskfn :: "ptr \<Rightarrow> uptr \<Rightarrow> sys \<Rightarrow> int"
  e_read :: "ev_src \<Rightarrow> sys \<Rightarrow> int"
  e_inotify_evt :: "ev_src \<Rightarrow> sys \<Rightarrow> nat \<times> 32 word"
  e_notify :: "ev_src \<Rightarrow> sys \<Rightarrow> int"
  e_epoll :: "sys \<Rightarrow> int"
  e_wait :: "int \<Rightarrow> sys \<Rightarrow> int + (bool \<times> sid) list"
  e_slot :: "string \<Rightarrow> nat"
  e_grow :: "nat \<Rightarrow> sys \<Rightarrow> bool"
  e_freq :: "64 word \<Rightarrow> 64 word \<Rightarrow> 64 word"
  e_dge :: "64 word \<Rightarrow> 64 word \<Rightarrow> bool"
  e_thresh :: "src_key + ev_src \<Rightarrow> ev_src \<Rightarrow> int"

text \<open>The callbacks of the client, by function pointer.\<close>

record hooks =
  h_start :: "ptr \<Rightarrow> mid \<Rightarrow> sys \<Rightarrow> (bool \<times> sys) option"
  h_eval :: "ptr \<Rightarrow> mid \<Rightarrow> sys \<Rightarrow> (bool \<times> sys) option"
  h_stop :: "ptr \<Rightarrow> mid \<Rightarrow> sys \<Rightarrow> sys option"
  h_evt :: "ptr \<Rightarrow> mid \<Rightarrow> eid list option \<Rightarrow> sys \<Rightarrow> sys option"

type_synonym api = "sys \<Rightarrow> (int \<times> sys) option"

definition upd_mod :: "mid \<Rightarrow> (m_mod \<Rightarrow> m_mod) \<Rightarrow> sys \<Rightarrow> sys" where
  "upd_mod m f s = s\<lparr>s_mods := (s_mods s)(m := f (s_mods s m))\<rparr>"

definition upd_stats :: "mid \<Rightarrow> (mod_stats \<Rightarrow> mod_stats) \<Rightarrow> sys \<Rightarrow> sys" where
  "upd_stats m f = upd_mod m (\<lambda>d. d\<lparr>md_stats := f (md_stats d)\<rparr>)"

definition set_src :: "sid \<Rightarrow> ev_src \<Rightarrow> sys \<Rightarrow> sys" where
  "set_src i t s = s\<lparr>s_srcs := (s_srcs s)(i := Some t)\<rparr>"

subsection \<open>Memory, descriptors and iteration\<close>

text \<open>
  An allocation: a fresh address, or \<open>NULL\<close> with \<^verbatim>\<open>errno\<close> set. Memory of the client is released
  once; a second time is undefined.
\<close>

definition alloc :: "env \<Rightarrow> sys \<Rightarrow> ptr \<times> sys" where
  "alloc E s =
     (if e_mem E (s_next s) then (Suc (s_next s), s\<lparr>s_next := Suc (s_next s)\<rparr>)
      else (NULL, s\<lparr>s_next := Suc (s_next s), s_errno := ENOMEM\<rparr>))"

definition user_free :: "uptr \<Rightarrow> sys \<Rightarrow> sys option" where
  "user_free u s = (case u of
     User p \<Rightarrow> if p = NULL then Some s
               else if p \<in> set (s_freed s) then None
               else Some (s\<lparr>s_freed := p # s_freed s\<rparr>)
   | _ \<Rightarrow> None)"

definition close_fd :: "int \<Rightarrow> sys \<Rightarrow> sys" where
  "close_fd fd s = s\<lparr>s_closed := fd # s_closed s\<rparr>"

text \<open>
  The elements that \<^verbatim>\<open>m_itr_foreach\<close> visits: none when the container is empty or \<^verbatim>\<open>NULL\<close>, or when the
  iterator cannot be allocated.
\<close>

definition foreach_elems :: "env \<Rightarrow> 'a list \<Rightarrow> sys \<Rightarrow> 'a list \<times> sys" where
  "foreach_elems E xs s =
     (if xs = [] then ([], s) else case alloc E s of (p, s') \<Rightarrow> (if p = NULL then [] else xs, s'))"

primrec fold_opt :: "('a \<Rightarrow> 's \<Rightarrow> 's option) \<Rightarrow> 'a list \<Rightarrow> 's \<Rightarrow> 's option" where
  "fold_opt f [] s = Some s"
| "fold_opt f (x # xs) s = Option.bind (f x s) (fold_opt f xs)"

definition foreach :: "env \<Rightarrow> 'a list \<Rightarrow> ('a \<Rightarrow> sys \<Rightarrow> sys option) \<Rightarrow> sys \<Rightarrow> sys option" where
  "foreach E xs f s = (case foreach_elems E xs s of (ys, s') \<Rightarrow> fold_opt f ys s')"

text \<open>
  \<^verbatim>\<open>m_map_iterate\<close> over the modules of the context, whose callback may register and deregister
  modules: the entry is visited again when the callback removed it, and the walk stops with
  \<^verbatim>\<open>-EACCES\<close> when the map has changed otherwise. An entry is known by the address of its
  key, the name of its module.
\<close>

abbreviation key_of :: "sys \<Rightarrow> mid \<Rightarrow> ptr" where "key_of s m \<equiv> md_name_at (s_mods s m)"

partial_function (option) modules_walk ::
    "(mid \<Rightarrow> api) \<Rightarrow> nat \<Rightarrow> sys \<Rightarrow> (int \<times> sys) option" where
  "modules_walk fn i s =
     (if i \<ge> length (c_modules s) then Some (0, s)
      else let m = snd (c_modules s ! i) in do {
        (rc, s') \<leftarrow> fn m s;
        if rc < 0 then Some (rc, s')
        else if rc > 0 then Some (0, s')
        else if \<not> (i < length (c_modules s') \<and> key_of s' (snd (c_modules s' ! i)) = key_of s m)
        then modules_walk fn i s'
        else if length (c_modules s') \<noteq> length (c_modules s) then Some (- EACCES, s')
        else modules_walk fn (i + 1) s'
      })"

declare modules_walk.simps [code]

definition iterate_modules :: "(mid \<Rightarrow> api) \<Rightarrow> api" where
  "iterate_modules fn s = (if c_modules s = [] then Some (- EINVAL, s) else modules_walk fn 0 s)"

text \<open>Where \<^verbatim>\<open>m_map_put\<close> places a new key in table order, and \<^verbatim>\<open>m_map_remove\<close>.\<close>

definition slot_insert :: "env \<Rightarrow> string \<Rightarrow> 'a \<Rightarrow> (string \<times> 'a) list \<Rightarrow> (string \<times> 'a) list" where
  "slot_insert E k v xs =
     takeWhile (\<lambda>(j, _). e_slot E j \<le> e_slot E k) xs @ (k, v) #
     dropWhile (\<lambda>(j, _). e_slot E j \<le> e_slot E k) xs"

definition slot_remove :: "string \<Rightarrow> (string \<times> 'a) list \<Rightarrow> (string \<times> 'a) list" where
  "slot_remove k xs = List.filter (\<lambda>(j, _). j \<noteq> k) xs"

subsection \<open>Guards\<close>

definition m_mod_is :: "mid \<Rightarrow> m_mod_states list \<Rightarrow> sys \<Rightarrow> bool" where
  "m_mod_is m sts s \<longleftrightarrow> m \<noteq> NULL \<and> md_state (s_mods s m) \<in> set sts"

text \<open>Whether \<^verbatim>\<open>m_ctx()\<close> is the context; it is \<^verbatim>\<open>NULL\<close> otherwise.\<close>

definition m_ctx :: "sys \<Rightarrow> bool" where
  "m_ctx s \<longleftrightarrow> s_key s \<and>
     \<not> (c_curr_mod s \<noteq> NULL \<and> has (md_flags (s_mods s (c_curr_mod s))) M_MOD_DENY_CTX)"

definition M_RET_ASSERT :: "bool \<Rightarrow> int \<Rightarrow> api \<Rightarrow> api" where
  "M_RET_ASSERT c r k s = (if \<not> c then Some (r, s) else k s)"

definition M_CTX_ASSERT :: "api \<Rightarrow> api" where
  "M_CTX_ASSERT k s = (if \<not> m_ctx s then Some (- EPIPE, s) else k s)"

definition M_MOD_ASSERT :: "mid \<Rightarrow> api \<Rightarrow> api" where
  "M_MOD_ASSERT m k s =
     (if m = NULL then Some (- EINVAL, s)
      else if m_mod_is m [M_MOD_ZOMBIE] s then Some (- EACCES, s)
      else if \<not> m_ctx s then Some (- EPERM, s)
      else k s)"

definition M_MOD_ASSERT_PERM :: "mid \<Rightarrow> flags \<Rightarrow> api \<Rightarrow> api" where
  "M_MOD_ASSERT_PERM m perm k = M_MOD_ASSERT m (\<lambda>s.
     if has (md_flags (s_mods s m)) perm then Some (- EPERM, s) else k s)"

definition M_MOD_ASSERT_STATE :: "mid \<Rightarrow> m_mod_states list \<Rightarrow> api \<Rightarrow> api" where
  "M_MOD_ASSERT_STATE m sts k = M_MOD_ASSERT m (\<lambda>s.
     if \<not> m_mod_is m sts s then Some (- EACCES, s) else k s)"

text \<open>\<^verbatim>\<open>fetch_ms\<close> into the two statistics of the module; taking a token.\<close>

definition fetch_seen :: "mid \<Rightarrow> sys \<Rightarrow> sys" where
  "fetch_seen m s = upd_stats m (\<lambda>st. st\<lparr>last_seen := s_now s, action_ctr := action_ctr st + 1\<rparr>) s"

definition M_MOD_CONSUME_TOKEN :: "mid \<Rightarrow> api \<Rightarrow> api" where
  "M_MOD_CONSUME_TOKEN m k s =
     (if \<not> md_tb_tokens (s_mods s m) > 0 then Some (- EAGAIN, s)
      else k (fetch_seen m (upd_mod m (\<lambda>d. d\<lparr>md_tb_tokens := md_tb_tokens d - 1\<rparr>) s)))"

text \<open>\<^verbatim>\<open>M_SRC_ASSERT_PRIO_FLAGS\<close>: none or one of the three priorities, normal by default.\<close>

definition prio_ok :: "flags \<Rightarrow> bool" where
  "prio_ok fl \<longleftrightarrow> and fl M_SRC_PRIO_MASK \<in> {0, M_SRC_PRIO_LOW, M_SRC_PRIO_NORM, M_SRC_PRIO_HIGH}"

definition prio_fill :: "flags \<Rightarrow> flags" where
  "prio_fill fl = (if and fl M_SRC_PRIO_MASK = 0 then or fl M_SRC_PRIO_NORM else fl)"

definition M_SRC_ASSERT_PRIO_FLAGS :: "flags \<Rightarrow> (flags \<Rightarrow> api) \<Rightarrow> api" where
  "M_SRC_ASSERT_PRIO_FLAGS fl k s = (if \<not> prio_ok fl then Some (- EINVAL, s) else k (prio_fill fl) s)"

definition str_not_empty :: "string option \<Rightarrow> bool" where
  "str_not_empty str = (case str of None \<Rightarrow> False | Some cs \<Rightarrow> cs \<noteq> [])"

lemma fold_opt_append [simp]: "fold_opt f (xs @ ys) s = Option.bind (fold_opt f xs s) (fold_opt f ys)"
  by (induction xs arbitrary: s) (auto split: Option.bind_split)

end
