(* ===== verification/Src.thy ===== *)
theory Src
  imports Core
begin

text \<open>
  Event sources: \<^verbatim>\<open>src.c\<close> with the epoll plugin (\<^verbatim>\<open>poll/epoll.c\<close>, \<^verbatim>\<open>poll/cmn_linux.c\<close>). A module
  keeps one tree of sources per type; a source is freed when its last reference goes, which
  stops polling it and closes or frees what it owns.
\<close>

subsection \<open>The descriptors behind sources\<close>

definition create_timerfd :: "env \<Rightarrow> ev_src \<Rightarrow> sys \<Rightarrow> ev_src" where
  "create_timerfd E t s = (case es_key t of
     KeyTmr (clock, ns) \<Rightarrow>
       (let it_value = (ns div BILLION, ns mod BILLION);
            it_interval = (if has (es_flags t) M_SRC_ONESHOT then (0, 0) else it_value)
        in t\<lparr>es_fd := e_timerfd E clock (has (es_flags t) M_SRC_TMR_ABSOLUTE) it_interval it_value s\<rparr>)
   | _ \<Rightarrow> t)"

definition create_signalfd :: "env \<Rightarrow> ev_src \<Rightarrow> sys \<Rightarrow> ev_src" where
  "create_signalfd E t s = (case es_key t of KeySgn signo \<Rightarrow> t\<lparr>es_fd := e_signalfd E signo s\<rparr> | _ \<Rightarrow> t)"

definition create_inotifyfd :: "env \<Rightarrow> ev_src \<Rightarrow> sys \<Rightarrow> ev_src" where
  "create_inotifyfd E t s = (case es_key t of KeyPath path ev \<Rightarrow> t\<lparr>es_fd := e_inotify E path ev s\<rparr> | _ \<Rightarrow> t)"

definition create_pidfd :: "env \<Rightarrow> ev_src \<Rightarrow> sys \<Rightarrow> ev_src" where
  "create_pidfd E t s = (case es_key t of KeyPid pid ev \<Rightarrow> t\<lparr>es_fd := e_pidfd E pid s\<rparr> | _ \<Rightarrow> t)"

definition create_eventfd :: "env \<Rightarrow> ev_src \<Rightarrow> sys \<Rightarrow> ev_src" where
  "create_eventfd E t s = t\<lparr>es_fd := e_eventfd E s\<rparr>"

definition create_priv_fd :: "env \<Rightarrow> ev_src \<Rightarrow> sys \<Rightarrow> ev_src" where
  "create_priv_fd E t s = (case es_type t of
     M_SRC_TYPE_TMR \<Rightarrow> create_timerfd E t s
   | M_SRC_TYPE_SGN \<Rightarrow> create_signalfd E t s
   | M_SRC_TYPE_PATH \<Rightarrow> create_inotifyfd E t s
   | M_SRC_TYPE_PID \<Rightarrow> create_pidfd E t s
   | M_SRC_TYPE_TASK \<Rightarrow> create_eventfd E t s
   | M_SRC_TYPE_THRESH \<Rightarrow> create_eventfd E t s
   | _ \<Rightarrow> t)"

text \<open>
  \<^verbatim>\<open>poll_set_new_evt\<close> of epoll: epoll data is allocated on the first \<open>ADD\<close> and freed by \<open>RM\<close>, which
  also closes the descriptors the library made (those of types past \<open>M_SRC_TYPE_FD\<close>).
\<close>

definition poll_set_new_evt :: "env \<Rightarrow> sid \<Rightarrow> op_type \<Rightarrow> api" where
  "poll_set_new_evt E i op s = (case s_srcs s i of None \<Rightarrow> None | Some t \<Rightarrow>
     if \<not> es_ev t \<and> op = RM then Some (0, s)
     else case (if es_ev t then (i, s) else alloc E s) of (p, s1) \<Rightarrow>
       if p = NULL then Some (- ENOMEM, s1)
       else let
         s2 = s1\<lparr>s_errno := 0\<rparr>;
         t2 = (if op = ADD then create_priv_fd E (t\<lparr>es_ev := True\<rparr>) s2 else t);
         fd = es_fd t2;
         (r, err) = e_ctl E op fd s2;
         s3 = (if r = -1 then s2\<lparr>s_errno := err\<rparr> else s2);
         ret = (if r = -1 \<and> fd = 0 \<and> s_errno s3 = EPERM then 0 else r)
       in
         if op = RM then
           (if es_type t2 \<notin> {M_SRC_TYPE_PS, M_SRC_TYPE_FD}
            then Some (ret, close_fd fd (set_src i (t2\<lparr>es_ev := False, es_fd := -1\<rparr>) s3))
            else Some (ret, set_src i (t2\<lparr>es_ev := False\<rparr>) s3))
         else Some (ret, set_src i t2 s3))"

text \<open>
  The rest of the plugin: \<^verbatim>\<open>ppriv.data\<close> and its descriptor, the array that \<^verbatim>\<open>epoll_wait\<close> fills. The
  functions that free dereference \<^verbatim>\<open>ppriv.data\<close>.
\<close>

definition poll_create :: "env \<Rightarrow> sys \<Rightarrow> int \<times> sys" where
  "poll_create E s = (case alloc E s of (priv, s1) \<Rightarrow>
     if priv = NULL then (- ENOMEM, s1\<lparr>c_priv := False\<rparr>)
     else let fd = e_epoll E s1 in
       (if fd \<noteq> -1 then 0 else -1, s1\<lparr>c_priv := True, c_epfd := fd, c_pevents := False\<rparr>))"

definition poll_init :: "env \<Rightarrow> sys \<Rightarrow> int \<times> sys" where
  "poll_init E s = (case alloc E s of (pevents, s1) \<Rightarrow>
     if pevents = NULL then (- ENOMEM, s1\<lparr>c_pevents := False\<rparr>) else (0, s1\<lparr>c_pevents := True\<rparr>))"

definition poll_wait :: "env \<Rightarrow> int \<Rightarrow> sys \<Rightarrow> int + (bool \<times> sid) list" where
  "poll_wait E timeout s = e_wait E timeout s"

text \<open>An entry of the array: whether \<^verbatim>\<open>EPOLLERR\<close> is among its events, and its pointer.\<close>

definition poll_recv :: "bool \<times> sid \<Rightarrow> sid" where
  "poll_recv = (\<lambda>(err, p). if err then NULL else p)"

definition poll_get_fd :: "sys \<Rightarrow> int" where
  "poll_get_fd s = c_epfd s"

definition poll_clear :: "sys \<Rightarrow> sys option" where
  "poll_clear s = (if \<not> c_priv s then None else Some (s\<lparr>c_pevents := False\<rparr>))"

definition poll_destroy :: "sys \<Rightarrow> sys option" where
  "poll_destroy s = map_option (\<lambda>s1. close_fd (c_epfd s1) s1) (poll_clear s)"

definition poll_notify_userevent :: "env \<Rightarrow> sid \<Rightarrow> api" where
  "poll_notify_userevent E i s = (case s_srcs s i of None \<Rightarrow> None | Some t \<Rightarrow>
     let e = e_notify E t s in if e = 0 then Some (0, s) else Some (- e, s\<lparr>s_errno := e\<rparr>))"

text \<open>Reading what a descriptor has to say; the source is the one just polled.\<close>

definition read_src :: "env \<Rightarrow> ev_src \<Rightarrow> sys \<Rightarrow> int \<times> sys" where
  "read_src E t s = (let e = e_read E t s in if e = 0 then (0, s) else (- e, s\<lparr>s_errno := e\<rparr>))"

definition poll_consume_sgn :: "env \<Rightarrow> ev_src \<Rightarrow> sys \<Rightarrow> int \<times> sys" where
  "poll_consume_sgn = read_src"

definition poll_consume_tmr :: "env \<Rightarrow> ev_src \<Rightarrow> sys \<Rightarrow> int \<times> sys" where
  "poll_consume_tmr = read_src"

text \<open>
  The length is a \<^verbatim>\<open>size_t\<close>, so a failed read passes the test and the event is taken from an
  uninitialised buffer.
\<close>

definition poll_consume_pt :: "env \<Rightarrow> ev_src \<Rightarrow> sys \<Rightarrow> (int \<times> 32 word \<times> sys) option" where
  "poll_consume_pt E t s =
     (if e_read E t s \<noteq> 0 then None
      else case e_inotify_evt E t s of (len, ev) \<Rightarrow>
        if len \<noteq> 0 then Some (0, ev, s) else Some (- s_errno s, 0, s))"

definition poll_consume_pid :: "env \<Rightarrow> ev_src \<Rightarrow> sys \<Rightarrow> int \<times> 32 word" where
  "poll_consume_pid E t s = (0, 0)"

definition poll_consume_task :: "env \<Rightarrow> ev_src \<Rightarrow> sys \<Rightarrow> int \<times> int \<times> sys" where
  "poll_consume_task E t s = (case read_src E t s of (r, s') \<Rightarrow> (r, if r = 0 then es_retval t else 0, s'))"

definition poll_consume_thresh :: "env \<Rightarrow> ev_src \<Rightarrow> sys \<Rightarrow> int \<times> sys" where
  "poll_consume_thresh = read_src"

subsection \<open>Lifetime\<close>

definition src_priv_dtor :: "env \<Rightarrow> sid \<Rightarrow> sys \<Rightarrow> sys option" where
  "src_priv_dtor E i s = (case s_srcs s i of None \<Rightarrow> None | Some t0 \<Rightarrow> do {
     s1 \<leftarrow> (if m_mod_is (es_mod t0) [M_MOD_RUNNING] s
           then map_option snd (poll_set_new_evt E i RM s) else Some s);
     t \<leftarrow> s_srcs s1 i;
     let fd = (if has (es_flags t) M_SRC_FD_AUTOCLOSE \<and> es_type t \<in> {M_SRC_TYPE_PS, M_SRC_TYPE_FD}
               then es_fd t else -1);
     let s2 = (if fd \<noteq> -1 then close_fd fd s1 else s1);
     if has (es_flags t) M_SRC_AUTOFREE then user_free (es_userptr t) s2 else Some s2
   })"

definition subscribtions_dtor :: "sid \<Rightarrow> sys \<Rightarrow> sys option" where
  "subscribtions_dtor i s = (case s_srcs s i of None \<Rightarrow> None | Some t \<Rightarrow>
     if has (es_flags t) M_SRC_AUTOFREE then user_free (es_userptr t) s else Some s)"

text \<open>
  \<^verbatim>\<open>m_mem_ref\<close> and \<^verbatim>\<open>m_mem_unref\<close> on a source; the last reference runs the destructor it was
  created with.
\<close>

definition src_ref :: "sid \<Rightarrow> sys \<Rightarrow> sys option" where
  "src_ref i s =
     (if i = NULL then Some s
      else case s_srcs s i of None \<Rightarrow> None
      | Some t \<Rightarrow> Some (set_src i (t\<lparr>es_refs := es_refs t + 1\<rparr>) s))"

definition src_unref :: "env \<Rightarrow> sid \<Rightarrow> sys \<Rightarrow> sys option" where
  "src_unref E i s =
     (if i = NULL then Some s
      else case s_srcs s i of None \<Rightarrow> None
      | Some t \<Rightarrow>
          if es_refs t > 1 then Some (set_src i (t\<lparr>es_refs := es_refs t - 1\<rparr>) s)
          else do {
            s' \<leftarrow> (case es_key t of KeyTopic _ \<Rightarrow> subscribtions_dtor i s | _ \<Rightarrow> src_priv_dtor E i s);
            Some (s'\<lparr>s_srcs := (s_srcs s')(i := None)\<rparr>)
          })"

definition create_src :: "env \<Rightarrow> mid \<Rightarrow> m_src_types \<Rightarrow> src_key \<Rightarrow> flags \<Rightarrow> uptr \<Rightarrow> sys \<Rightarrow> sid \<times> sys" where
  "create_src E m type src_data fl userptr s = (case alloc E s of (i, s1) \<Rightarrow>
     if i = NULL then (NULL, s1)
     else let
       t = \<lparr>es_type = type, es_fd = -1, es_key = src_data, es_alarm = (0, 0), es_retval = 0,
            es_flags = fl, es_ev = False, es_mod = m, es_userptr = userptr, es_refs = 1\<rparr>;
       t' = (case src_data of
         KeyFd fd \<Rightarrow>
           (let t1 = (if has fl M_SRC_DUP
                      then t\<lparr>es_fd := e_dup E fd s1, es_flags := or fl M_SRC_FD_AUTOCLOSE\<rparr>
                      else t\<lparr>es_fd := fd\<rparr>)
            in if type = M_SRC_TYPE_FD then t1\<lparr>es_flags := or (es_flags t1) M_SRC_PRIO_HIGH\<rparr> else t1)
       | KeyTask _ _ \<Rightarrow> t\<lparr>es_flags := or fl M_SRC_ONESHOT\<rparr>
       | KeyThresh _ _ \<Rightarrow> t\<lparr>es_flags := or fl M_SRC_ONESHOT\<rparr>
       | _ \<Rightarrow> t)
     in (i, set_src i t' s1))"

subsection \<open>Comparators\<close>

text \<open>
  A comparator reads its first argument as the key struct of the type. Deregistration passes
  such a struct (\<open>Inl\<close>), but registration and the removal of one-shot sources pass the
  \<^verbatim>\<open>ev_src_t\<close> itself (\<open>Inr\<close>), and what is read then is the start of the union: the descriptor
  at offset 0, and at offset 8 the data of the source. Differences of \<^verbatim>\<open>int\<close>s must not overflow.
\<close>

definition int_sub :: "int \<Rightarrow> int \<Rightarrow> int option" where
  "int_sub a b = (if - (2 ^ 31) \<le> a - b \<and> a - b < 2 ^ 31 then Some (a - b) else None)"

definition fdcmp :: "src_key + ev_src \<Rightarrow> ev_src \<Rightarrow> int option" where
  "fdcmp my src = (case my of
     Inl (KeyFd fd) \<Rightarrow> int_sub fd (es_fd src) | Inr t \<Rightarrow> int_sub (es_fd t) (es_fd src) | _ \<Rightarrow> None)"

definition tmrcmp :: "src_key + ev_src \<Rightarrow> ev_src \<Rightarrow> int option" where
  "tmrcmp my src = (case es_key src of
     KeyTmr (_, ns) \<Rightarrow> (case my of
         Inl (KeyTmr (_, ns')) \<Rightarrow> Some (sint (ucast (ns' - ns) :: 32 word))
       | Inr t \<Rightarrow> (case es_key t of
           KeyTmr (clock, _) \<Rightarrow> Some (sint (ucast (word_of_int clock - ns) :: 32 word))
         | _ \<Rightarrow> None)
       | _ \<Rightarrow> None)
   | _ \<Rightarrow> None)"

definition sgncmp :: "src_key + ev_src \<Rightarrow> ev_src \<Rightarrow> int option" where
  "sgncmp my src = (case es_key src of
     KeySgn signo \<Rightarrow> (case my of
         Inl (KeySgn signo') \<Rightarrow> Some (sint (signo' - signo))
       | Inr t \<Rightarrow> Some (sint (word_of_int (es_fd t) - signo))
       | _ \<Rightarrow> None)
   | _ \<Rightarrow> None)"

definition char_diff :: "char option \<Rightarrow> char option \<Rightarrow> int" where
  "char_diff a b = (case a of None \<Rightarrow> 0 | Some c \<Rightarrow> of_char c) - (case b of None \<Rightarrow> 0 | Some c \<Rightarrow> of_char c)"

fun strcmp :: "string \<Rightarrow> string \<Rightarrow> int" where
  "strcmp (a # as) (b # bs) = (if a = b then strcmp as bs else char_diff (Some a) (Some b))"
| "strcmp [] [] = 0"
| "strcmp (a # as) [] = char_diff (Some a) None"
| "strcmp [] (b # bs) = char_diff None (Some b)"

definition pathcmp :: "src_key + ev_src \<Rightarrow> ev_src \<Rightarrow> int option" where
  "pathcmp my src = (case es_key src of
     KeyPath path _ \<Rightarrow> (case my of Inl (KeyPath path' _) \<Rightarrow> Some (strcmp path' path) | _ \<Rightarrow> None)
   | _ \<Rightarrow> None)"

definition pidcmp :: "src_key + ev_src \<Rightarrow> ev_src \<Rightarrow> int option" where
  "pidcmp my src = (case es_key src of
     KeyPid pid _ \<Rightarrow> (case my of Inl (KeyPid pid' _) \<Rightarrow> int_sub pid' pid | Inr t \<Rightarrow> int_sub (es_fd t) pid | _ \<Rightarrow> None)
   | _ \<Rightarrow> None)"

definition taskcmp :: "src_key + ev_src \<Rightarrow> ev_src \<Rightarrow> int option" where
  "taskcmp my src = (case es_key src of
     KeyTask tid _ \<Rightarrow> (case my of Inl (KeyTask tid' _) \<Rightarrow> int_sub tid' tid | Inr t \<Rightarrow> int_sub (es_fd t) tid | _ \<Rightarrow> None)
   | _ \<Rightarrow> None)"

definition threshcmp :: "env \<Rightarrow> src_key + ev_src \<Rightarrow> ev_src \<Rightarrow> int option" where
  "threshcmp E my src = Some (e_thresh E my src)"

definition src_cmp_map :: "env \<Rightarrow> m_src_types \<Rightarrow> src_key + ev_src \<Rightarrow> ev_src \<Rightarrow> int option" where
  "src_cmp_map E type = (case type of
     M_SRC_TYPE_PS \<Rightarrow> fdcmp
   | M_SRC_TYPE_FD \<Rightarrow> fdcmp
   | M_SRC_TYPE_TMR \<Rightarrow> tmrcmp
   | M_SRC_TYPE_SGN \<Rightarrow> sgncmp
   | M_SRC_TYPE_PATH \<Rightarrow> pathcmp
   | M_SRC_TYPE_PID \<Rightarrow> pidcmp
   | M_SRC_TYPE_TASK \<Rightarrow> taskcmp
   | M_SRC_TYPE_THRESH \<Rightarrow> threshcmp E)"

text \<open>The comparator of a tree of sources: a node is the address of a source.\<close>

definition node_cmp :: "env \<Rightarrow> m_src_types \<Rightarrow> src_key + ev_src \<Rightarrow> sys \<Rightarrow> sid \<Rightarrow> int option" where
  "node_cmp E type my s j = Option.bind (s_srcs s j) (src_cmp_map E type my)"

text \<open>\<^verbatim>\<open>m_bst_insert\<close> and \<^verbatim>\<open>m_bst_remove\<close> on \<^verbatim>\<open>mod->srcs[type]\<close>, whose destructor is \<^verbatim>\<open>mem_dtor\<close>.\<close>

definition set_tree :: "mid \<Rightarrow> m_src_types \<Rightarrow> sid tree \<Rightarrow> sys \<Rightarrow> sys" where
  "set_tree m type t = upd_mod m (\<lambda>d. d\<lparr>md_srcs := (md_srcs d)(type := Some t)\<rparr>)"

definition srcs_insert :: "env \<Rightarrow> mid \<Rightarrow> m_src_types \<Rightarrow> sid \<Rightarrow> api" where
  "srcs_insert E m type i s = (case md_srcs (s_mods s m) type of None \<Rightarrow> Some (- EINVAL, s) | Some tr \<Rightarrow> do {
     t \<leftarrow> s_srcs s i;
     r \<leftarrow> tinsert (node_cmp E type (Inr t) s) i tr;
     case r of None \<Rightarrow> Some (- EEXIST, s)
     | Some tr' \<Rightarrow> (case alloc E s of (p, s1) \<Rightarrow>
         if p = NULL then Some (- ENOMEM, s1) else Some (0, set_tree m type tr' s1))
   })"

definition srcs_remove :: "env \<Rightarrow> mid \<Rightarrow> m_src_types \<Rightarrow> src_key + ev_src \<Rightarrow> api" where
  "srcs_remove E m type my s = (case md_srcs (s_mods s m) type of
     None \<Rightarrow> Some (- EINVAL, s)
   | Some Leaf \<Rightarrow> Some (- EINVAL, s)
   | Some tr \<Rightarrow> do {
       r \<leftarrow> tremove (node_cmp E type my s) tr;
       case r of None \<Rightarrow> Some (- ENOENT, s)
       | Some (j, tr') \<Rightarrow> do {
           s' \<leftarrow> src_unref E j (set_tree m type tr' s);
           Some (0, s')
         }
     })"

definition srcs_list :: "mid \<Rightarrow> m_src_types \<Rightarrow> sys \<Rightarrow> sid list" where
  "srcs_list m type s = (case md_srcs (s_mods s m) type of None \<Rightarrow> [] | Some tr \<Rightarrow> inorder tr)"

subsection \<open>Registering sources\<close>

definition init_src :: "env \<Rightarrow> mid \<Rightarrow> m_src_types \<Rightarrow> sys \<Rightarrow> int \<times> sys" where
  "init_src E m type s = (case alloc E s of (p, s1) \<Rightarrow>
     if p = NULL then (- ENOMEM, upd_mod m (\<lambda>d. d\<lparr>md_srcs := (md_srcs d)(type := None)\<rparr>) s1)
     else (0, set_tree m type Leaf s1))"

text \<open>\<^verbatim>\<open>start_task\<close> hands the source to the pool of threads, created on first use.\<close>

definition start_task :: "env \<Rightarrow> sid \<Rightarrow> sys \<Rightarrow> int \<times> sys" where
  "start_task E i s =
     (let s1 = (if \<not> c_thpool s then s\<lparr>c_thpool := e_thpool E s\<rparr> else s) in
      if \<not> c_thpool s1 then (- ENOMEM, s1) else (e_task E i s1, s1))"

text \<open>What the pool's thread does with the source; nothing keeps the source alive until then.\<close>

definition task_thread :: "env \<Rightarrow> sid \<Rightarrow> sys \<Rightarrow> sys option" where
  "task_thread E i s = (case s_srcs s i of
     Some t \<Rightarrow> (case es_key t of
         KeyTask tid fn \<Rightarrow>
           map_option snd (poll_notify_userevent E i (set_src i (t\<lparr>es_retval := e_taskfn E fn (es_userptr t) s\<rparr>) s))
       | _ \<Rightarrow> None)
   | None \<Rightarrow> None)"

definition register_ctx_src :: "env \<Rightarrow> m_src_types \<Rightarrow> src_key \<Rightarrow> sys \<Rightarrow> (sid \<times> sys) option" where
  "register_ctx_src E type src_data s = (case create_src E NULL type src_data 0 (User NULL) s of (i, s1) \<Rightarrow>
     if i = NULL then Some (NULL, s1)
     else do {
       t \<leftarrow> s_srcs s1 i;
       let s2 = set_src i (t\<lparr>es_flags := or M_SRC_PRIO_HIGH M_SRC_INTERNAL\<rparr>) s1;
       s3 \<leftarrow> (if c_state s2 = M_CTX_LOOPING then map_option snd (poll_set_new_evt E i ADD s2) else Some s2);
       Some (i, s3)
     })"

text \<open>\<^verbatim>\<open>deregister_ctx_src\<close> on the address of the tick's field; \<^verbatim>\<open>fs_stop\<close> has the other call of it.\<close>

definition deregister_ctx_src :: "env \<Rightarrow> sys \<Rightarrow> sys option" where
  "deregister_ctx_src E s =
     (if c_tick_src s = NULL then Some s
      else do {
        (r, s1) \<leftarrow> poll_set_new_evt E (c_tick_src s) RM s;
        s2 \<leftarrow> src_unref E (c_tick_src s1) s1;
        Some (s2\<lparr>c_tick_src := NULL\<rparr>)
      })"

definition register_mod_src :: "env \<Rightarrow> mid \<Rightarrow> m_src_types \<Rightarrow> src_key \<Rightarrow> flags \<Rightarrow> uptr \<Rightarrow> api" where
  "register_mod_src E m type src_data fl userptr =
     M_MOD_ASSERT m (M_MOD_CONSUME_TOKEN m (M_SRC_ASSERT_PRIO_FLAGS fl (\<lambda>fl s.
       case create_src E m type src_data fl userptr s of (i, s1) \<Rightarrow>
         if i = NULL then Some (- EINVAL, s1)
         else do {
           (ret, s2) \<leftarrow> srcs_insert E m type i s1;
           if ret = 0 then
             (if m_mod_is m [M_MOD_RUNNING] s2 then do {
                (ret, s3) \<leftarrow> poll_set_new_evt E i ADD s2;
                let (ret, s4) = (if ret = 0 \<and> type = M_SRC_TYPE_TASK then start_task E i s3 else (ret, s3));
                Some (if ret = 0 then 0 else - s_errno s4, s4)
              } else Some (0, s2))
           else do {
             s3 \<leftarrow> src_unref E i s2;
             Some (ret, s3)
           }
         })))"

definition deregister_mod_src :: "env \<Rightarrow> mid \<Rightarrow> m_src_types \<Rightarrow> src_key \<Rightarrow> api" where
  "deregister_mod_src E m type src_data =
     M_MOD_ASSERT m (M_MOD_CONSUME_TOKEN m (srcs_remove E m type (Inl src_data)))"

subsection \<open>The public functions\<close>

text \<open>A pointer to a key struct is \<open>None\<close> when it is \<^verbatim>\<open>NULL\<close>.\<close>

definition m_mod_src_register_fd :: "env \<Rightarrow> mid \<Rightarrow> int \<Rightarrow> flags \<Rightarrow> ptr \<Rightarrow> api" where
  "m_mod_src_register_fd E m fd fl userptr =
     M_RET_ASSERT (fd \<ge> 0) (- EINVAL)
       (let prio_flags = and fl M_SRC_PRIO_MASK in
        M_RET_ASSERT (prio_flags = 0 \<or> prio_flags = M_SRC_PRIO_HIGH) (- EINVAL)
          (register_mod_src E m M_SRC_TYPE_FD (KeyFd fd) fl (User userptr)))"

definition m_mod_src_deregister_fd :: "env \<Rightarrow> mid \<Rightarrow> int \<Rightarrow> api" where
  "m_mod_src_deregister_fd E m fd =
     M_RET_ASSERT (fd \<ge> 0) (- EINVAL) (deregister_mod_src E m M_SRC_TYPE_FD (KeyFd fd))"

definition m_mod_src_register_tmr :: "env \<Rightarrow> mid \<Rightarrow> m_src_tmr option \<Rightarrow> flags \<Rightarrow> uptr \<Rightarrow> api" where
  "m_mod_src_register_tmr E m its fl userptr s = (case its of None \<Rightarrow> Some (- EINVAL, s) | Some (clock, ns) \<Rightarrow>
     M_RET_ASSERT (ns > 0) (- EINVAL) (register_mod_src E m M_SRC_TYPE_TMR (KeyTmr (clock, ns)) fl userptr) s)"

definition m_mod_src_deregister_tmr :: "env \<Rightarrow> mid \<Rightarrow> m_src_tmr option \<Rightarrow> api" where
  "m_mod_src_deregister_tmr E m its s = (case its of None \<Rightarrow> Some (- EINVAL, s) | Some (clock, ns) \<Rightarrow>
     M_RET_ASSERT (ns > 0) (- EINVAL) (deregister_mod_src E m M_SRC_TYPE_TMR (KeyTmr (clock, ns))) s)"

definition m_mod_src_register_sgn :: "env \<Rightarrow> mid \<Rightarrow> 32 word option \<Rightarrow> flags \<Rightarrow> ptr \<Rightarrow> api" where
  "m_mod_src_register_sgn E m sgs fl userptr s = (case sgs of None \<Rightarrow> Some (- EINVAL, s) | Some signo \<Rightarrow>
     M_RET_ASSERT (signo > 0) (- EINVAL) (register_mod_src E m M_SRC_TYPE_SGN (KeySgn signo) fl (User userptr)) s)"

definition m_mod_src_deregister_sgn :: "env \<Rightarrow> mid \<Rightarrow> 32 word option \<Rightarrow> api" where
  "m_mod_src_deregister_sgn E m sgs s = (case sgs of None \<Rightarrow> Some (- EINVAL, s) | Some signo \<Rightarrow>
     M_RET_ASSERT (signo > 0) (- EINVAL) (deregister_mod_src E m M_SRC_TYPE_SGN (KeySgn signo)) s)"

definition m_mod_src_register_path ::
    "env \<Rightarrow> mid \<Rightarrow> (string option \<times> 32 word) option \<Rightarrow> flags \<Rightarrow> ptr \<Rightarrow> api" where
  "m_mod_src_register_path E m pt fl userptr s = (case pt of None \<Rightarrow> Some (- EINVAL, s) | Some (path, events) \<Rightarrow>
     M_RET_ASSERT (str_not_empty path) (- EINVAL) (M_RET_ASSERT (events > 0) (- EINVAL)
       (register_mod_src E m M_SRC_TYPE_PATH (KeyPath (the path) events) fl (User userptr))) s)"

definition m_mod_src_deregister_path :: "env \<Rightarrow> mid \<Rightarrow> (string option \<times> 32 word) option \<Rightarrow> api" where
  "m_mod_src_deregister_path E m pt s = (case pt of None \<Rightarrow> Some (- EINVAL, s) | Some (path, events) \<Rightarrow>
     M_RET_ASSERT (str_not_empty path) (- EINVAL)
       (deregister_mod_src E m M_SRC_TYPE_PATH (KeyPath (the path) events)) s)"

definition m_mod_src_register_pid :: "env \<Rightarrow> mid \<Rightarrow> (int \<times> 32 word) option \<Rightarrow> flags \<Rightarrow> ptr \<Rightarrow> api" where
  "m_mod_src_register_pid E m p fl userptr s = (case p of None \<Rightarrow> Some (- EINVAL, s) | Some (pid, events) \<Rightarrow>
     M_RET_ASSERT (pid > 0) (- EINVAL) (register_mod_src E m M_SRC_TYPE_PID (KeyPid pid events) fl (User userptr)) s)"

definition m_mod_src_deregister_pid :: "env \<Rightarrow> mid \<Rightarrow> (int \<times> 32 word) option \<Rightarrow> api" where
  "m_mod_src_deregister_pid E m p s = (case p of None \<Rightarrow> Some (- EINVAL, s) | Some (pid, events) \<Rightarrow>
     M_RET_ASSERT (pid > 0) (- EINVAL) (deregister_mod_src E m M_SRC_TYPE_PID (KeyPid pid events)) s)"

definition m_mod_src_register_task :: "env \<Rightarrow> mid \<Rightarrow> (int \<times> ptr) option \<Rightarrow> flags \<Rightarrow> ptr \<Rightarrow> api" where
  "m_mod_src_register_task E m tk fl userptr s = (case tk of None \<Rightarrow> Some (- EINVAL, s) | Some (tid, fn) \<Rightarrow>
     M_RET_ASSERT (fn \<noteq> NULL) (- EINVAL) (register_mod_src E m M_SRC_TYPE_TASK (KeyTask tid fn) fl (User userptr)) s)"

definition m_mod_src_deregister_task :: "mid \<Rightarrow> (int \<times> ptr) option \<Rightarrow> api" where
  "m_mod_src_deregister_task m tk s = (case tk of None \<Rightarrow> Some (- EINVAL, s) | Some _ \<Rightarrow> Some (- EPERM, s))"

text \<open>A \<^verbatim>\<open>double\<close> is positive when its sign bit is clear, it is not zero and not a NaN.\<close>

definition dbl_pos :: "64 word \<Rightarrow> bool" where
  "dbl_pos b \<longleftrightarrow> 0 < b \<and> b \<le> 0x7FF0000000000000"

definition dbl_zero :: "64 word \<Rightarrow> bool" where
  "dbl_zero b \<longleftrightarrow> b = 0 \<or> b = 0x8000000000000000"

definition m_mod_src_register_thresh :: "env \<Rightarrow> mid \<Rightarrow> (64 word \<times> 64 word) option \<Rightarrow> flags \<Rightarrow> ptr \<Rightarrow> api" where
  "m_mod_src_register_thresh E m thr fl userptr s = (case thr of None \<Rightarrow> Some (- EINVAL, s)
   | Some (inactive_ms, activity_freq) \<Rightarrow>
     M_RET_ASSERT (dbl_pos activity_freq \<or> inactive_ms > 0) (- EINVAL)
       (register_mod_src E m M_SRC_TYPE_THRESH (KeyThresh inactive_ms activity_freq) fl (User userptr)) s)"

definition m_mod_src_deregister_thresh :: "env \<Rightarrow> mid \<Rightarrow> (64 word \<times> 64 word) option \<Rightarrow> api" where
  "m_mod_src_deregister_thresh E m thr s = (case thr of None \<Rightarrow> Some (- EINVAL, s)
   | Some (inactive_ms, activity_freq) \<Rightarrow>
     M_RET_ASSERT (dbl_pos activity_freq \<or> inactive_ms > 0) (- EINVAL)
       (deregister_mod_src E m M_SRC_TYPE_THRESH (KeyThresh inactive_ms activity_freq)) s)"

definition count_src :: "sid \<Rightarrow> int \<times> sys \<Rightarrow> (int \<times> sys) option" where
  "count_src i = (\<lambda>(len, s). case s_srcs s i of None \<Rightarrow> None
     | Some t \<Rightarrow> Some (if has (es_flags t) M_SRC_INTERNAL then len else len + 1, s))"

definition count_list :: "env \<Rightarrow> sid list \<Rightarrow> int \<times> sys \<Rightarrow> (int \<times> sys) option" where
  "count_list E is r = (case foreach_elems E is (snd r) of (js, s) \<Rightarrow> fold_opt count_src js (fst r, s))"

text \<open>The type asked for is a number, the last one allowed being \<^verbatim>\<open>M_SRC_TYPE_END\<close>; it is checked and not used.\<close>

definition M_SRC_TYPE_END :: int where "M_SRC_TYPE_END = int (length src_types)"

definition m_mod_src_len :: "env \<Rightarrow> mid \<Rightarrow> int \<Rightarrow> api" where
  "m_mod_src_len E m ty = M_MOD_ASSERT m (M_RET_ASSERT (0 \<le> ty \<and> ty \<le> M_SRC_TYPE_END) (- EINVAL) (\<lambda>s. do {
     r \<leftarrow> count_list E (case md_subs (s_mods s m) of None \<Rightarrow> [] | Some subs \<Rightarrow> List.map (snd \<circ> snd) subs) (0, s);
     fold_opt (\<lambda>ty r. count_list E (srcs_list m ty (snd r)) r) (tl src_types) r
   }))"

subsection \<open>Processing a polled source\<close>

text \<open>
  Each processor fills the data of the event \<open>e\<close> that was made for the source \<open>i\<close> and returns
  the source to go on with. The payload is allocated and not checked.
\<close>

definition set_evt :: "eid \<Rightarrow> evt_priv \<Rightarrow> sys \<Rightarrow> sys" where
  "set_evt e v s = s\<lparr>s_evts := (s_evts s)(e := Some v)\<rparr>"

definition with_payload ::
    "env \<Rightarrow> (ev_src \<Rightarrow> sys \<Rightarrow> (evt_data \<times> sys) option) \<Rightarrow> sid \<Rightarrow> eid \<Rightarrow> sys \<Rightarrow> (sid \<times> sys) option" where
  "with_payload E f i e s = (case alloc E s of (p, s1) \<Rightarrow>
     if p = NULL then None
     else do {
       t \<leftarrow> s_srcs s1 i;
       v \<leftarrow> s_evts s1 e;
       (d, s2) \<leftarrow> f t s1;
       Some (i, set_evt e (v\<lparr>ev_data := d\<rparr>) s2)
     })"

text \<open>The descriptor of a pubsub source is the read end of its module's pipe.\<close>

definition process_ps :: "env \<Rightarrow> sid \<Rightarrow> eid \<Rightarrow> sys \<Rightarrow> (sid \<times> sys) option" where
  "process_ps E i e s = do {
     t \<leftarrow> s_srcs s i;
     v \<leftarrow> s_evts s e;
     let d = s_mods s (es_mod t);
     case (if es_fd t = md_fd0 d then md_pipe d else []) of
       [] \<Rightarrow> Some (i, s\<lparr>s_errno := EAGAIN\<rparr>)
     | ps_msg # ms \<Rightarrow> do {
         s1 \<leftarrow> src_unref E i (set_evt e (v\<lparr>ev_data := PsData ps_msg, ev_src := ps_sub ps_msg\<rparr>)
                (upd_mod (es_mod t) (\<lambda>d. d\<lparr>md_pipe := ms\<rparr>) s));
         s2 \<leftarrow> src_ref (ps_sub ps_msg) s1;
         Some (ps_sub ps_msg, s2)
       }
   }"

definition process_fd :: "env \<Rightarrow> sid \<Rightarrow> eid \<Rightarrow> sys \<Rightarrow> (sid \<times> sys) option" where
  "process_fd E = with_payload E (\<lambda>t s. Some (FdData (es_fd t), s))"

definition process_tmr :: "env \<Rightarrow> sid \<Rightarrow> eid \<Rightarrow> sys \<Rightarrow> (sid \<times> sys) option" where
  "process_tmr E = with_payload E (\<lambda>t s. case (es_key t, poll_consume_tmr E t s) of
     (KeyTmr (_, ns), (r, s')) \<Rightarrow> Some (TmrData (if r = 0 then ns else 0), s') | _ \<Rightarrow> None)"

definition process_sgn :: "env \<Rightarrow> sid \<Rightarrow> eid \<Rightarrow> sys \<Rightarrow> (sid \<times> sys) option" where
  "process_sgn E = with_payload E (\<lambda>t s. case (es_key t, poll_consume_sgn E t s) of
     (KeySgn signo, (r, s')) \<Rightarrow> Some (SgnData (if r = 0 then signo else 0), s') | _ \<Rightarrow> None)"

definition process_path :: "env \<Rightarrow> sid \<Rightarrow> eid \<Rightarrow> sys \<Rightarrow> (sid \<times> sys) option" where
  "process_path E = with_payload E (\<lambda>t s. case (es_key t, poll_consume_pt E t s) of
     (KeyPath path _, Some (r, ev, s')) \<Rightarrow> Some (if r = 0 then PathData path ev else PathData [] ev, s') | _ \<Rightarrow> None)"

definition process_pid :: "env \<Rightarrow> sid \<Rightarrow> eid \<Rightarrow> sys \<Rightarrow> (sid \<times> sys) option" where
  "process_pid E = with_payload E (\<lambda>t s. case (es_key t, poll_consume_pid E t s) of
     (KeyPid pid _, (r, ev)) \<Rightarrow> Some (PidData (if r = 0 then pid else 0) ev, s) | _ \<Rightarrow> None)"

definition process_task :: "env \<Rightarrow> sid \<Rightarrow> eid \<Rightarrow> sys \<Rightarrow> (sid \<times> sys) option" where
  "process_task E = with_payload E (\<lambda>t s. case (es_key t, poll_consume_task E t s) of
     (KeyTask tid _, (r, retval, s')) \<Rightarrow> Some (TaskData (if r = 0 then tid else 0) retval, s') | _ \<Rightarrow> None)"

definition process_thresh :: "env \<Rightarrow> sid \<Rightarrow> eid \<Rightarrow> sys \<Rightarrow> (sid \<times> sys) option" where
  "process_thresh E = with_payload E (\<lambda>t s. case poll_consume_thresh E t s of
     (r, s') \<Rightarrow> Some (if r = 0 then ThreshData (fst (es_alarm t)) (snd (es_alarm t)) else ThreshData 0 0, s'))"

definition src_procs_map :: "env \<Rightarrow> m_src_types \<Rightarrow> sid \<Rightarrow> eid \<Rightarrow> sys \<Rightarrow> (sid \<times> sys) option" where
  "src_procs_map E type = (case type of
     M_SRC_TYPE_PS \<Rightarrow> process_ps E
   | M_SRC_TYPE_FD \<Rightarrow> process_fd E
   | M_SRC_TYPE_TMR \<Rightarrow> process_tmr E
   | M_SRC_TYPE_SGN \<Rightarrow> process_sgn E
   | M_SRC_TYPE_PATH \<Rightarrow> process_path E
   | M_SRC_TYPE_PID \<Rightarrow> process_pid E
   | M_SRC_TYPE_TASK \<Rightarrow> process_task E
   | M_SRC_TYPE_THRESH \<Rightarrow> process_thresh E)"

end
