(* ===== verification/Ps.thy ===== *)
theory Ps
  imports Src
begin

text \<open>
  Messages between modules: \<^verbatim>\<open>ps.c\<close>, with the events of \<^verbatim>\<open>evts.c\<close> that carry them. A message is
  copied for each recipient and its address written to the recipient's pipe, so the pipe of a
  module is a list of messages; a message belongs to the pipe, then to the event made for it.
\<close>

definition M_PS_CTX_STARTED :: string where "M_PS_CTX_STARTED = ''LIBMODULE_CTX_STARTED''"
definition M_PS_CTX_STOPPED :: string where "M_PS_CTX_STOPPED = ''LIBMODULE_CTX_STOPPED''"
definition M_PS_CTX_TICK :: string where "M_PS_CTX_TICK = ''LIBMODULE_CTX_TICK''"
definition M_PS_MOD_STARTED :: string where "M_PS_MOD_STARTED = ''LIBMODULE_MOD_STARTED''"
definition M_PS_MOD_STOPPED :: string where "M_PS_MOD_STOPPED = ''LIBMODULE_MOD_STOPPED''"
definition M_PS_MOD_POISONPILL :: string where "M_PS_MOD_POISONPILL = ''LIBMODULE_MOD_POISONPILL''"

subsection \<open>Events and messages as objects\<close>

definition ps_msg_dtor :: "ps_priv \<Rightarrow> sys \<Rightarrow> sys option" where
  "ps_msg_dtor msg s =
     (if has (ps_flags msg) M_PS_AUTOFREE then user_free (User (ps_data msg)) s else Some s)"

definition evt_dtor :: "env \<Rightarrow> evt_priv \<Rightarrow> sys \<Rightarrow> sys option" where
  "evt_dtor E v s = do {
     s' \<leftarrow> src_unref E (ev_src v) s;
     case ev_data v of PsData msg \<Rightarrow> ps_msg_dtor msg s' | _ \<Rightarrow> Some s'
   }"

definition evt_ref :: "eid \<Rightarrow> sys \<Rightarrow> sys option" where
  "evt_ref e s =
     (if e = NULL then Some s
      else case s_evts s e of None \<Rightarrow> None | Some v \<Rightarrow> Some (set_evt e (v\<lparr>ev_refs := ev_refs v + 1\<rparr>) s))"

definition evt_unref :: "env \<Rightarrow> eid \<Rightarrow> sys \<Rightarrow> sys option" where
  "evt_unref E e s =
     (if e = NULL then Some s
      else case s_evts s e of None \<Rightarrow> None
      | Some v \<Rightarrow>
          if ev_refs v > 1 then Some (set_evt e (v\<lparr>ev_refs := ev_refs v - 1\<rparr>) s)
          else do {
            s' \<leftarrow> evt_dtor E v s;
            Some (s'\<lparr>s_evts := (s_evts s')(e := None)\<rparr>)
          })"

text \<open>\<^verbatim>\<open>new_evt(NULL)\<close> dereferences its argument.\<close>

definition new_evt :: "env \<Rightarrow> sid \<Rightarrow> sys \<Rightarrow> (eid \<times> sys) option" where
  "new_evt E i s = (case alloc E s of (e, s1) \<Rightarrow>
     if e = NULL then Some (NULL, s1)
     else do {
       t \<leftarrow> (if i = NULL then None else s_srcs s1 i);
       s2 \<leftarrow> src_ref i s1;
       Some (e, set_evt e \<lparr>ev_type = es_type t, ev_src = i, ev_data = NoData, ev_userdata = User NULL,
                           ev_ts = 0, ev_refs = 1\<rparr> s2)
     })"

definition alloc_ps_msg :: "env \<Rightarrow> ps_priv \<Rightarrow> sid \<Rightarrow> sys \<Rightarrow> ps_priv option \<times> sys" where
  "alloc_ps_msg E msg sub s = (case alloc E s of (p, s1) \<Rightarrow>
     (if p = NULL then None else Some (msg\<lparr>ps_sub := sub\<rparr>), s1))"

text \<open>A queue of events (\<open>None\<close>: \<^verbatim>\<open>NULL\<close>): its allocation, insertion and release.\<close>

definition new_queue :: "env \<Rightarrow> sys \<Rightarrow> eid list option \<times> sys" where
  "new_queue E s = (case alloc E s of (p, s1) \<Rightarrow> (if p = NULL then None else Some [], s1))"

definition enqueue :: "env \<Rightarrow> eid list option \<Rightarrow> eid \<Rightarrow> sys \<Rightarrow> int \<times> eid list option \<times> sys" where
  "enqueue E q e s = (case q of None \<Rightarrow> (- EINVAL, q, s) | Some es \<Rightarrow>
     if e = NULL then (- EINVAL, q, s)
     else case alloc E s of (p, s1) \<Rightarrow> if p = NULL then (- ENOMEM, q, s1) else (0, Some (es @ [e]), s1))"

definition queue_len :: "eid list option \<Rightarrow> int" where
  "queue_len q = (case q of None \<Rightarrow> - EINVAL | Some es \<Rightarrow> int (length es))"

definition free_queue :: "env \<Rightarrow> eid list option \<Rightarrow> sys \<Rightarrow> sys option" where
  "free_queue E q s = (case q of None \<Rightarrow> Some s | Some es \<Rightarrow> fold_opt (evt_unref E) es s)"

subsection \<open>Sending\<close>

text \<open>
  \<^verbatim>\<open>m_map_get\<close> on the subscriptions compares the topic with the key of the entry: a key whose
  owner is gone is a dangling string.
\<close>

definition get_sub :: "(string \<times> sid \<times> sid) list option \<Rightarrow> string \<Rightarrow> sys \<Rightarrow> sid option" where
  "get_sub subs topic s = (case subs of None \<Rightarrow> Some NULL | Some xs \<Rightarrow>
     (case List.find (\<lambda>(k, _, _). k = topic) xs of
        None \<Rightarrow> Some NULL
      | Some (_, owner, sub) \<Rightarrow> if owner \<noteq> NULL \<and> s_srcs s owner = None then None else Some sub))"

primrec match_sub :: "env \<Rightarrow> string \<Rightarrow> sid list \<Rightarrow> sys \<Rightarrow> sid option" where
  "match_sub E topic [] s = Some NULL"
| "match_sub E topic (i # is) s = (case s_srcs s i of None \<Rightarrow> None | Some t \<Rightarrow>
     (case es_key t of KeyTopic reg \<Rightarrow> if e_match E reg topic then Some i else match_sub E topic is s
      | _ \<Rightarrow> None))"

definition fetch_sub :: "env \<Rightarrow> mid \<Rightarrow> string \<Rightarrow> sys \<Rightarrow> (sid \<times> sys) option" where
  "fetch_sub E m topic s = do {
     sub \<leftarrow> get_sub (md_subs (s_mods s m)) topic s;
     if sub \<noteq> NULL then Some (sub, s)
     else case foreach_elems E (case md_subs (s_mods s m) of None \<Rightarrow> [] | Some subs \<Rightarrow> List.map (snd \<circ> snd) subs) s of
       (subs, s1) \<Rightarrow> map_option (\<lambda>sub. (sub, s1)) (match_sub E topic subs s1)
   }"

definition is_system_message :: "string option \<Rightarrow> bool" where
  "is_system_message topic = (case topic of None \<Rightarrow> False
     | Some t \<Rightarrow> take (length ''LIBMODULE_'') t = ''LIBMODULE_'')"

text \<open>
  A failed write (no room, or no pipe) calls \<^verbatim>\<open>m_mem_unref\<close> on the message to copy, which is not
  a block of \<^verbatim>\<open>m_mem_new\<close> but a variable of the caller.
\<close>

definition tell_if :: "env \<Rightarrow> ps_priv \<Rightarrow> sid \<Rightarrow> mid \<Rightarrow> api" where
  "tell_if E msg key m s =
     (let sub = (if ps_topic msg \<noteq> None then key else NULL) in
      if md_state (s_mods s m) \<in> {M_MOD_RUNNING, M_MOD_PAUSED} \<and> (ps_topic msg = None \<or> sub \<noteq> NULL)
      then case alloc_ps_msg E msg sub s of
          (None, s1) \<Rightarrow> Some (0, s1)
        | (Some x, s1) \<Rightarrow>
            if md_fd1 (s_mods s1 m) = -1 \<or> length (md_pipe (s_mods s1 m)) \<ge> e_room E then None
            else Some (0, upd_mod m (\<lambda>d. d\<lparr>md_pipe := md_pipe d @ [x]\<rparr>) s1)
      else Some (0, s))"

definition tell_subscribers :: "env \<Rightarrow> ps_priv \<Rightarrow> string \<Rightarrow> sys \<Rightarrow> sys option" where
  "tell_subscribers E msg topic s = foreach E (List.map snd (c_modules s)) (\<lambda>m s.
     if m_mod_is m [M_MOD_RUNNING, M_MOD_PAUSED] s then do {
       (sub, s1) \<leftarrow> fetch_sub E m topic s;
       if sub \<noteq> NULL then map_option snd (tell_if E msg sub m s1) else Some s1
     } else Some s) s"

definition tell_pubsub_msg :: "env \<Rightarrow> ps_priv \<Rightarrow> mid \<Rightarrow> api" where
  "tell_pubsub_msg E msg recipient s = do {
     s' \<leftarrow> (if recipient \<noteq> NULL then map_option snd (tell_if E msg NULL recipient s)
           else case ps_topic msg of
               None \<Rightarrow> map_option snd (iterate_modules (tell_if E msg NULL) s)
             | Some topic \<Rightarrow> tell_subscribers E msg topic s);
     Some (0, s')
   }"

definition send_msg :: "env \<Rightarrow> mid \<Rightarrow> mid \<Rightarrow> string option \<Rightarrow> ptr \<Rightarrow> flags \<Rightarrow> api" where
  "send_msg E m recipient topic message fl = M_RET_ASSERT (message \<noteq> NULL) (- EINVAL) (\<lambda>s.
     tell_pubsub_msg E \<lparr>ps_system = False, ps_sender = m, ps_topic = topic, ps_data = message,
                         ps_flags = fl, ps_sub = NULL\<rparr> recipient
       (upd_stats m (\<lambda>st. st\<lparr>sent_msgs := sent_msgs st + 1\<rparr>) s))"

definition tell_system_pubsub_msg :: "env \<Rightarrow> mid \<Rightarrow> mid \<Rightarrow> string \<Rightarrow> api" where
  "tell_system_pubsub_msg E recipient sender topic s =
     tell_pubsub_msg E \<lparr>ps_system = True, ps_sender = sender, ps_topic = Some topic, ps_data = NULL,
                         ps_flags = 0, ps_sub = NULL\<rparr> recipient
       (if sender \<noteq> NULL then upd_stats sender (\<lambda>st. st\<lparr>sent_msgs := sent_msgs st + 1\<rparr>) s else s)"

subsection \<open>Receiving\<close>

definition call_pubsub_cb :: "env \<Rightarrow> hooks \<Rightarrow> mid \<Rightarrow> eid list option \<Rightarrow> sys \<Rightarrow> sys option" where
  "call_pubsub_cb E H m evts s = do {
     s' \<leftarrow> (if queue_len evts = 0 then Some s
           else do {
             let s1 = s\<lparr>c_curr_mod := m\<rparr>;
             let cb = (case md_recvs (s_mods s1 m) of c # _ \<Rightarrow> c | [] \<Rightarrow> on_evt (md_hook (s_mods s1 m)));
             s2 \<leftarrow> h_evt H cb m evts s1;
             let s3 = upd_stats m (\<lambda>st. st\<lparr>recv_msgs := recv_msgs st + word_of_int (queue_len evts)\<rparr>) s2;
             let s4 = upd_stats m (\<lambda>st. st\<lparr>last_seen := s_now s3\<rparr>) s3;
             Some (s4\<lparr>c_curr_mod := NULL\<rparr>)
           });
     free_queue E evts s'
   }"

primrec flush_loop ::
    "env \<Rightarrow> bool \<Rightarrow> mid \<Rightarrow> ps_priv list \<Rightarrow> eid list option \<Rightarrow> sys \<Rightarrow> (eid list option \<times> sys) option" where
  "flush_loop E stopping_mod m [] flushed s = Some (flushed, s\<lparr>s_errno := EAGAIN\<rparr>)"
| "flush_loop E stopping_mod m (mm # ms) flushed s =
     (if \<not> stopping_mod \<and> m_mod_is m [M_MOD_RUNNING] s then do {
        (msg, s1) \<leftarrow> new_evt E (ps_sub mm) s;
        if msg \<noteq> NULL \<and> flushed \<noteq> None then do {
          v \<leftarrow> s_evts s1 msg;
          case enqueue E flushed msg (set_evt msg (v\<lparr>ev_data := PsData mm\<rparr>) s1) of
            (r, flushed', s2) \<Rightarrow> flush_loop E stopping_mod m ms flushed' s2
        } else Option.bind (ps_msg_dtor mm s1) (flush_loop E stopping_mod m ms flushed)
      } else Option.bind (ps_msg_dtor mm s) (flush_loop E stopping_mod m ms flushed))"

definition flush_pubsub_msgs :: "env \<Rightarrow> hooks \<Rightarrow> bool \<Rightarrow> mid \<Rightarrow> api" where
  "flush_pubsub_msgs E H stopping_mod m s = (case new_queue E s of (flushed, s1) \<Rightarrow> do {
     (flushed, s2) \<leftarrow> (if md_fd0 (s_mods s1 m) \<noteq> -1
       then flush_loop E stopping_mod m (md_pipe (s_mods s1 m)) flushed (upd_mod m (\<lambda>d. d\<lparr>md_pipe := []\<rparr>) s1)
       else Some (flushed, s1));
     s3 \<leftarrow> call_pubsub_cb E H m flushed s2;
     Some (0, s3)
   })"

subsection \<open>The public functions\<close>

text \<open>
  \<^verbatim>\<open>m_map_put\<close> with \<^verbatim>\<open>M_MAP_VAL_ALLOW_UPDATE\<close>: a new value for a key already there replaces the old one,
  which is destroyed, and the key stays.
\<close>

definition put_sub :: "env \<Rightarrow> mid \<Rightarrow> string \<Rightarrow> sid \<Rightarrow> sid \<Rightarrow> api" where
  "put_sub E m topic owner sub s = do {
     let subs = (case md_subs (s_mods s m) of None \<Rightarrow> [] | Some xs \<Rightarrow> xs);
     old \<leftarrow> get_sub (Some subs) topic s;
     if \<not> e_grow E (length subs) s then Some (- ENOMEM, s)
     else if old = NULL then
       Some (0, upd_mod m (\<lambda>d. d\<lparr>md_subs := Some (slot_insert E topic (owner, sub) subs)\<rparr>) s)
     else do {
       s' \<leftarrow> src_unref E old s;
       Some (0, upd_mod m (\<lambda>d. d\<lparr>md_subs := Some (List.map (\<lambda>(k, o', v).
                  if k = topic then (k, o', sub) else (k, o', v)) subs)\<rparr>) s')
     }
   }"

definition m_mod_ps_subscribe :: "env \<Rightarrow> mid \<Rightarrow> string option \<Rightarrow> flags \<Rightarrow> uptr \<Rightarrow> api" where
  "m_mod_ps_subscribe E m topic fl userptr = M_MOD_ASSERT_PERM m M_MOD_DENY_SUB
     (M_RET_ASSERT (topic \<noteq> None) (- EINVAL) (M_SRC_ASSERT_PRIO_FLAGS fl (\<lambda>fl. M_MOD_CONSUME_TOKEN m (\<lambda>s.
       let top = the topic; ret = e_regcomp E top in
       if ret \<noteq> 0 then Some (ret, s)
       else do {
         (r, s1, old_sub) \<leftarrow> (if md_subs (s_mods s m) = None
           then (case alloc E s of (p, s1) \<Rightarrow>
             if p = NULL then Some (- ENOMEM, s1, NULL)
             else Some (0, upd_mod m (\<lambda>d. d\<lparr>md_subs := Some []\<rparr>) s1, NULL))
           else map_option (\<lambda>old. (0, s, old)) (get_sub (md_subs (s_mods s m)) top s));
         if r \<noteq> 0 then Some (r, s1)
         else do {
           same \<leftarrow> (if old_sub = NULL then Some None
                   else map_option (\<lambda>t. if es_flags t = fl then Some t else None) (s_srcs s1 old_sub));
           case same of
             Some t \<Rightarrow> Some (0, set_src old_sub (t\<lparr>es_userptr := userptr\<rparr>) s1)
           | None \<Rightarrow> (case alloc E s1 of (sub, s2) \<Rightarrow>
               if sub = NULL then Some (- ENOMEM, s2)
               else let
                 t = \<lparr>es_type = M_SRC_TYPE_PS, es_fd = -1, es_key = KeyTopic top, es_alarm = (0, 0),
                      es_retval = 0, es_flags = fl, es_ev = False, es_mod = m, es_userptr = userptr,
                      es_refs = 1\<rparr>;
                 s3 = set_src sub t s2
               in if has fl M_SRC_DUP
                 then (case alloc E s3 of (p, s4) \<Rightarrow>
                   if p = NULL then Some (- EINVAL, s4) else put_sub E m top sub sub s4)
                 else put_sub E m top NULL sub s3)
         }
       }))))"

text \<open>\<^verbatim>\<open>m_map_remove\<close> on the subscriptions.\<close>

definition remove_sub :: "env \<Rightarrow> mid \<Rightarrow> string \<Rightarrow> api" where
  "remove_sub E m topic s = (case md_subs (s_mods s m) of
     None \<Rightarrow> Some (- EINVAL, s)
   | Some [] \<Rightarrow> Some (- EINVAL, s)
   | Some subs \<Rightarrow> do {
       sub \<leftarrow> get_sub (Some subs) topic s;
       if sub = NULL then Some (- ENOENT, s)
       else do {
         s1 \<leftarrow> src_unref E sub s;
         Some (0, upd_mod m (\<lambda>d. d\<lparr>md_subs := Some (slot_remove topic subs)\<rparr>) s1)
       }
     })"

definition m_mod_ps_unsubscribe :: "env \<Rightarrow> mid \<Rightarrow> string option \<Rightarrow> api" where
  "m_mod_ps_unsubscribe E m topic = M_MOD_ASSERT_PERM m M_MOD_DENY_SUB
     (M_RET_ASSERT (topic \<noteq> None) (- EINVAL) (M_MOD_CONSUME_TOKEN m (\<lambda>s. do {
       (ret, s1) \<leftarrow> remove_sub E m (the topic) s;
       if ret = 0 \<and> md_subs (s_mods s1 m) = Some []
       then Some (ret, upd_mod m (\<lambda>d. d\<lparr>md_subs := None\<rparr>) s1)
       else Some (ret, s1)
     })))"

definition m_mod_ps_tell :: "env \<Rightarrow> mid \<Rightarrow> mid \<Rightarrow> ptr \<Rightarrow> flags \<Rightarrow> api" where
  "m_mod_ps_tell E m recipient message fl = M_MOD_ASSERT_PERM m M_MOD_DENY_PUB
     (M_RET_ASSERT (recipient \<noteq> NULL) (- EINVAL) (M_MOD_CONSUME_TOKEN m
       (send_msg E m recipient None message fl)))"

definition m_mod_ps_publish :: "env \<Rightarrow> mid \<Rightarrow> string option \<Rightarrow> ptr \<Rightarrow> flags \<Rightarrow> api" where
  "m_mod_ps_publish E m topic message fl = M_MOD_ASSERT_PERM m M_MOD_DENY_PUB
     (M_RET_ASSERT (\<not> is_system_message topic) (- EPERM) (M_MOD_CONSUME_TOKEN m
       (send_msg E m NULL topic message fl)))"

definition m_mod_ps_poisonpill :: "env \<Rightarrow> mid \<Rightarrow> mid \<Rightarrow> api" where
  "m_mod_ps_poisonpill E m recipient = M_MOD_ASSERT_PERM m M_MOD_DENY_PUB
     (M_RET_ASSERT (recipient \<noteq> NULL) (- EINVAL) (\<lambda>s. M_RET_ASSERT (m_mod_is recipient [M_MOD_RUNNING] s) (- EINVAL)
       (M_MOD_CONSUME_TOKEN m (tell_system_pubsub_msg E recipient m M_PS_MOD_POISONPILL)) s))"

end
