(* ===== verification/Evts.thy ===== *)
theory Evts
  imports Ps
begin

text \<open>
  What a module does with its events: \<^verbatim>\<open>evts.c\<close> (changing the receive callback, stashing,
  batching) and the delivery of a polled event, \<^verbatim>\<open>push_evt\<close> of \<^verbatim>\<open>ctx.c\<close>.
\<close>

definition m_mod_become :: "env \<Rightarrow> mid \<Rightarrow> ptr \<Rightarrow> api" where
  "m_mod_become E m new_on_evt = M_RET_ASSERT (new_on_evt \<noteq> NULL) (- EINVAL)
     (M_MOD_ASSERT_STATE m [M_MOD_RUNNING] (M_MOD_CONSUME_TOKEN m (\<lambda>s.
       case alloc E s of (p, s1) \<Rightarrow>
         if p = NULL then Some (- ENOMEM, s1)
         else Some (0, upd_mod m (\<lambda>d. d\<lparr>md_recvs := new_on_evt # md_recvs d\<rparr>) s1))))"

definition m_mod_unbecome :: "mid \<Rightarrow> api" where
  "m_mod_unbecome m = M_MOD_ASSERT_STATE m [M_MOD_RUNNING] (M_MOD_CONSUME_TOKEN m (\<lambda>s.
     case md_recvs (s_mods s m) of
       [] \<Rightarrow> Some (- EINVAL, s)
     | _ # rs \<Rightarrow> Some (0, upd_mod m (\<lambda>d. d\<lparr>md_recvs := rs\<rparr>) s)))"

definition m_mod_stash :: "env \<Rightarrow> mid \<Rightarrow> eid \<Rightarrow> api" where
  "m_mod_stash E m e = M_MOD_ASSERT_STATE m [M_MOD_RUNNING]
     (M_RET_ASSERT (e \<noteq> NULL) (- EINVAL) (M_MOD_CONSUME_TOKEN m (\<lambda>s. do {
       v \<leftarrow> s_evts s e;
       prio_flags \<leftarrow> (if ev_src v \<noteq> NULL
         then map_option (\<lambda>t. and (es_flags t) M_SRC_PRIO_MASK) (s_srcs s (ev_src v)) else Some 0);
       if has prio_flags M_SRC_PRIO_HIGH then Some (- EPERM, s)
       else do {
         s1 \<leftarrow> evt_ref e s;
         case enqueue E (Some (md_stashed (s_mods s1 m))) e s1 of (r, q, s2) \<Rightarrow>
           Some (r, upd_mod m (\<lambda>d. d\<lparr>md_stashed := the q\<rparr>) s2)
       }
     })))"

text \<open>The loop of \<^verbatim>\<open>m_mod_unstash\<close>: what it moved, what stays stashed.\<close>

primrec unstash_loop ::
    "env \<Rightarrow> 64 word \<Rightarrow> 64 word \<Rightarrow> eid list \<Rightarrow> eid list option \<Rightarrow> sys \<Rightarrow>
     (eid list option \<times> eid list \<times> sys) option" where
  "unstash_loop E len m_idx [] unstashed s = Some (unstashed, [], s)"
| "unstash_loop E len m_idx (e # es) unstashed s =
     (if m_idx + 1 = len then Some (unstashed, e # es, s)
      else do {
        s1 \<leftarrow> evt_ref e s;
        case enqueue E unstashed e s1 of (r, q, s2) \<Rightarrow> do {
          s3 \<leftarrow> evt_unref E e s2;
          unstash_loop E len (m_idx + 1) es q s3
        }
      })"

definition m_mod_unstash :: "env \<Rightarrow> hooks \<Rightarrow> mid \<Rightarrow> 64 word \<Rightarrow> api" where
  "m_mod_unstash E H m len = M_MOD_ASSERT_STATE m [M_MOD_RUNNING]
     (M_RET_ASSERT (len > 0) (- EINVAL) (M_MOD_CONSUME_TOKEN m (\<lambda>s.
       case new_queue E s of (unstashed, s1) \<Rightarrow>
         if unstashed = None then Some (- ENOMEM, s1)
         else case foreach_elems E (md_stashed (s_mods s1 m)) s1 of (es, s2) \<Rightarrow> do {
           (q, rest, s3) \<leftarrow> (if es = [] then Some (unstashed, md_stashed (s_mods s2 m), s2)
             else unstash_loop E len 0 es unstashed s2);
           let s4 = upd_mod m (\<lambda>d. d\<lparr>md_stashed := rest\<rparr>) s3;
           s5 \<leftarrow> call_pubsub_cb E H m q s4;
           Some (queue_len q, s5)
         })))"

definition m_mod_set_batch_size :: "mid \<Rightarrow> 64 word \<Rightarrow> api" where
  "m_mod_set_batch_size m len = M_MOD_ASSERT m (M_MOD_CONSUME_TOKEN m (\<lambda>s.
     Some (0, upd_mod m (\<lambda>d. d\<lparr>md_batch_len := len\<rparr>) s)))"

abbreviation (input) CLOCK_MONOTONIC :: int where "CLOCK_MONOTONIC \<equiv> 1"

definition m_mod_set_batch_timeout :: "env \<Rightarrow> mid \<Rightarrow> 64 word \<Rightarrow> api" where
  "m_mod_set_batch_timeout E m timeout_ns = M_MOD_ASSERT m (\<lambda>s. do {
     s1 \<leftarrow> (if snd (md_batch_timer (s_mods s m)) \<noteq> 0
           then map_option snd (m_mod_src_deregister_tmr E m (Some (md_batch_timer (s_mods s m))) s)
           else Some s);
     let s2 = upd_mod m (\<lambda>d. d\<lparr>md_batch_timer := (CLOCK_MONOTONIC, timeout_ns)\<rparr>) s1;
     if timeout_ns \<noteq> 0 then
       (let s3 = (if md_batch_len (s_mods s2 m) = 0
                  then upd_mod m (\<lambda>d. d\<lparr>md_batch_len := -1\<rparr>) s2 else s2)
        in m_mod_src_register_tmr E m (Some (md_batch_timer (s_mods s3 m)))
             (or M_SRC_INTERNAL M_SRC_PRIO_HIGH) (BatchOf m) s3)
     else Some (0, s2)
   })"

subsection \<open>Delivery\<close>

text \<open>
  The tail of \<^verbatim>\<open>push_evt\<close>: nothing to do without events, else the batch is handed to the callback
  when it is due, and a new queue takes its place. A queue that could not be allocated has
  length \<^verbatim>\<open>-EINVAL\<close>, which is neither 0 nor, as an unsigned number, below any batch length.
\<close>

definition flush_batch :: "env \<Rightarrow> hooks \<Rightarrow> mid \<Rightarrow> bool \<Rightarrow> sys \<Rightarrow> sys option" where
  "flush_batch E H m force s =
     (let n = queue_len (md_batch_events (s_mods s m)) in
      if n = 0 then Some s
      else if force \<or> word_of_int n \<ge> md_batch_len (s_mods s m) then
        (let evts = md_batch_events (s_mods s m) in
         case new_queue E s of (q, s1) \<Rightarrow>
           call_pubsub_cb E H m evts (upd_mod m (\<lambda>d. d\<lparr>md_batch_events := q\<rparr>) s1))
      else Some s)"

definition refill_token :: "mid \<Rightarrow> sys \<Rightarrow> sys" where
  "refill_token m = upd_mod m (\<lambda>d.
     if md_tb_tokens d < md_tb_burst d then d\<lparr>md_tb_tokens := md_tb_tokens d + 1\<rparr> else d)"

definition push_evt :: "env \<Rightarrow> hooks \<Rightarrow> mid \<Rightarrow> eid \<Rightarrow> sys \<Rightarrow> sys option" where
  "push_evt E H m e s = do {
     v \<leftarrow> s_evts s e;
     src \<leftarrow> (if ev_src v = NULL then Some None else map_option Some (s_srcs s (ev_src v)));
     case src of
       Some t \<Rightarrow>
         if has (es_flags t) M_SRC_INTERNAL then do {
           let is_batch_timer = (es_userptr t = BatchOf m);
           let is_tb_timer = (es_userptr t = TbOf m);
           s1 \<leftarrow> evt_unref E e s;
           flush_batch E H m is_batch_timer (if is_tb_timer then refill_token m s1 else s1)
         }
         else (case enqueue E (md_batch_events (s_mods s m)) e s of (r, q, s1) \<Rightarrow>
           let s2 = set_evt e (v\<lparr>ev_userdata := es_userptr t\<rparr>) (upd_mod m (\<lambda>d. d\<lparr>md_batch_events := q\<rparr>) s1) in
           if has (es_flags t) M_SRC_PRIO_HIGH then flush_batch E H m True s2
           else if has (es_flags t) M_SRC_PRIO_LOW then Some s2
           else flush_batch E H m False s2)
     | None \<Rightarrow> (case enqueue E (md_batch_events (s_mods s m)) e s of (r, q, s1) \<Rightarrow>
         flush_batch E H m False (upd_mod m (\<lambda>d. d\<lparr>md_batch_events := q\<rparr>) s1))
   }"

end
