(* ===== verification/Mod.thy ===== *)
theory Mod
  imports Evts
begin

text \<open>
  The life of a module: \<^verbatim>\<open>mod.c\<close>. The functions below follow the file's order, except that
  \<open>stop\<close> precedes \<open>start\<close>, which calls it. The hooks run with \<^verbatim>\<open>curr_mod\<close> set to the module.
\<close>

datatype mod_hook = MOD_EVAL | MOD_START | MOD_STOP

subsection \<open>The pipe and the sources of a module\<close>

definition mod_pipe :: "env \<Rightarrow> mid \<Rightarrow> sys \<Rightarrow> int \<times> sys" where
  "mod_pipe E m s = (case e_pipe E s of
     None \<Rightarrow> (-1, s\<lparr>s_errno := 24\<rparr>)
   | Some (r, w) \<Rightarrow> (0, upd_mod m (\<lambda>d. d\<lparr>md_fd0 := r, md_fd1 := w, md_pipe := []\<rparr>) s))"

definition init_pubsub_fd :: "env \<Rightarrow> mid \<Rightarrow> api" where
  "init_pubsub_fd E m s = (case mod_pipe E m s of (r, s1) \<Rightarrow>
     if r \<noteq> 0 then Some (- s_errno s1, s1)
     else do {
       (ret, s2) \<leftarrow> register_mod_src E m M_SRC_TYPE_PS (KeyFd (md_fd0 (s_mods s1 m)))
                     (or M_SRC_FD_AUTOCLOSE M_SRC_PRIO_HIGH) (User NULL) s1;
       if ret = 0 then Some (0, s2)
       else let s3 = close_fd (md_fd1 (s_mods s2 m)) (close_fd (md_fd0 (s_mods s2 m)) s2)
            in Some (- s_errno s3, upd_mod m (\<lambda>d. d\<lparr>md_fd0 := -1, md_fd1 := -1, md_pipe := []\<rparr>) s3)
     })"

text \<open>Removing the first node of a tree, which is where an iterator that removes everything is.\<close>

fun del_min :: "'a tree \<Rightarrow> 'a tree" where
  "del_min Leaf = Leaf"
| "del_min (Node Leaf x r) = r"
| "del_min (Node l x r) = Node (del_min l) x r"

definition manage_src :: "env \<Rightarrow> hooks \<Rightarrow> mid \<Rightarrow> op_type \<Rightarrow> bool \<Rightarrow> m_src_types \<Rightarrow> sid \<Rightarrow>
    int \<times> sys \<Rightarrow> (int \<times> sys) option" where
  "manage_src E H m flag stop ty i = (\<lambda>(ret, s). case s_srcs s i of None \<Rightarrow> None | Some t \<Rightarrow>
     if flag = RM \<and> stop then do {
       s1 \<leftarrow> (if es_type t = M_SRC_TYPE_PS then map_option snd (flush_pubsub_msgs E H True m s) else Some s);
       tr \<leftarrow> md_srcs (s_mods s1 m) ty;
       s2 \<leftarrow> src_unref E i (set_tree m ty (del_min tr) s1);
       Some (0, s2)
     } else do {
       (r, s1) \<leftarrow> poll_set_new_evt E i flag s;
       Some (if r = 0 \<and> es_type t = M_SRC_TYPE_TASK \<and> flag = ADD then start_task E i s1 else (r, s1))
     })"

definition manage_srcs :: "env \<Rightarrow> hooks \<Rightarrow> mid \<Rightarrow> op_type \<Rightarrow> bool \<Rightarrow> api" where
  "manage_srcs E H m flag stop s = fold_opt (\<lambda>ty (ret, s).
     case foreach_elems E (srcs_list m ty s) s of (is, s') \<Rightarrow>
       fold_opt (manage_src E H m flag stop ty) is (ret, s')) src_types (0, s)"

definition clear_subs :: "env \<Rightarrow> mid \<Rightarrow> sys \<Rightarrow> sys option" where
  "clear_subs E m s = (case md_subs (s_mods s m) of None \<Rightarrow> Some s | Some subs \<Rightarrow>
     (case foreach_elems E subs s of (xs, s1) \<Rightarrow>
        if xs = [] then Some s1
        else fold_opt (src_unref E) (List.map (snd \<circ> snd) xs) (upd_mod m (\<lambda>d. d\<lparr>md_subs := Some []\<rparr>) s1)))"

definition reset_module :: "env \<Rightarrow> mid \<Rightarrow> sys \<Rightarrow> sys option" where
  "reset_module E m s = do {
     let s1 = (if md_fd1 (s_mods s m) \<noteq> -1
               then upd_mod m (\<lambda>d. d\<lparr>md_fd0 := -1, md_fd1 := -1, md_pipe := []\<rparr>)
                      (close_fd (md_fd1 (s_mods s m)) s)
               else s);
     s2 \<leftarrow> clear_subs E m s1;
     let s3 = upd_mod m (\<lambda>d. d\<lparr>md_recvs := []\<rparr>) s2;
     s4 \<leftarrow> fold_opt (evt_unref E) (md_stashed (s_mods s3 m)) (upd_mod m (\<lambda>d. d\<lparr>md_stashed := []\<rparr>) s3);
     s5 \<leftarrow> free_queue E (md_batch_events (s_mods s4 m))
             (upd_mod m (\<lambda>d. d\<lparr>md_batch_events := map_option (\<lambda>_. []) (md_batch_events d)\<rparr>) s4);
     case foreach_elems E (md_bound (s_mods s5 m)) s5 of (bs, s6) \<Rightarrow>
       Some (upd_mod m (\<lambda>d. d\<lparr>md_bound := if bs = [] then md_bound d else [],
                                md_batch_len := 0, md_batch_timer := (0, 0),
                                md_tb_rate := 0, md_tb_burst := -1, md_tb_tokens := -1,
                                md_tb_timer := (0, 0)\<rparr>) s6)
   }"

definition optional_hook :: "hooks \<Rightarrow> mid \<Rightarrow> mod_hook \<Rightarrow> api" where
  "optional_hook H m req_hook s = do {
     let s1 = s\<lparr>c_curr_mod := m\<rparr>;
     let hk = md_hook (s_mods s1 m);
     (bool_ret, s2) \<leftarrow> (case req_hook of
         MOD_START \<Rightarrow> if on_start hk \<noteq> NULL then h_start H (on_start hk) m s1 else Some (True, s1)
       | MOD_STOP \<Rightarrow> if on_stop hk \<noteq> NULL then map_option (Pair True) (h_stop H (on_stop hk) m s1)
                    else Some (True, s1)
       | MOD_EVAL \<Rightarrow> if on_eval hk \<noteq> NULL then h_eval H (on_eval hk) m s1 else Some (True, s1));
     let s3 = s2\<lparr>c_curr_mod := NULL\<rparr>;
     Some (if m_mod_is m [M_MOD_ZOMBIE] s3 then - ENOENT else if bool_ret then 0 else -1, s3)
   }"

subsection \<open>Stopping and starting\<close>

definition stop :: "env \<Rightarrow> hooks \<Rightarrow> mid \<Rightarrow> bool \<Rightarrow> api" where
  "stop E H m stopping s = do {
     (ret, s1) \<leftarrow> manage_srcs E H m RM stopping s;
     if ret \<noteq> 0 then Some (ret, s1)
     else do {
       let s2 = (if m_mod_is m [M_MOD_RUNNING] s1 then s1\<lparr>c_running := c_running s1 - 1\<rparr> else s1);
       let s3 = upd_mod m (\<lambda>d. d\<lparr>md_state := if stopping then M_MOD_STOPPED else M_MOD_PAUSED\<rparr>) s2;
       (ret, s4) \<leftarrow> (if stopping then Option.bind (reset_module E m s3) (optional_hook H m MOD_STOP)
                    else Some (ret, s3));
       if ret = - ENOENT then Some (ret, s4)
       else do {
         (r, s5) \<leftarrow> tell_system_pubsub_msg E NULL m M_PS_MOD_STOPPED s4;
         Some (0, s5)
       }
     }
   }"

definition start :: "env \<Rightarrow> hooks \<Rightarrow> mid \<Rightarrow> bool \<Rightarrow> api" where
  "start E H m starting s = do {
     (ret, s1) \<leftarrow> (if starting then init_pubsub_fd E m s else Some (0, s));
     if ret \<noteq> 0 then Some (ret, s1)
     else do {
       (ret, s2) \<leftarrow> manage_srcs E H m ADD False s1;
       if ret \<noteq> 0 then Some (ret, s2)
       else do {
         let s3 = upd_mod m (\<lambda>d. d\<lparr>md_state := M_MOD_RUNNING\<rparr>) s2;
         let s4 = s3\<lparr>c_running := c_running s3 + 1\<rparr>;
         (ret, s5) \<leftarrow> (if starting then optional_hook H m MOD_START s4 else Some (ret, s4));
         if ret = 0 then do {
           (r, s6) \<leftarrow> tell_system_pubsub_msg E NULL m M_PS_MOD_STARTED s5;
           Some (ret, s6)
         }
         else if ret = -1 then do {
           (r, s6) \<leftarrow> stop E H m True s5;
           Some (0, s6)
         }
         else Some (ret, s5)
       }
     }
   }"

definition check_thresh :: "env \<Rightarrow> mid \<Rightarrow> 64 word \<Rightarrow> sid \<Rightarrow> sys \<Rightarrow> sys option" where
  "check_thresh E m curr_ms i s = (case s_srcs s i of None \<Rightarrow> None | Some t \<Rightarrow>
     (case es_key t of
       KeyThresh thr_inactive thr_freq \<Rightarrow> do {
         let st = md_stats (s_mods s m);
         let activity_freq = e_freq E (action_ctr st) (curr_ms - registration_time st);
         let a1 = (if \<not> dbl_zero thr_freq \<and> e_dge E activity_freq thr_freq
                   then (fst (es_alarm t), activity_freq) else es_alarm t);
         let inactive_ms = curr_ms - last_seen st;
         let a2 = (if thr_inactive \<noteq> 0 \<and> inactive_ms \<ge> thr_inactive then (inactive_ms, snd a1) else a1);
         let s1 = set_src i (t\<lparr>es_alarm := a2\<rparr>) s;
         if \<not> dbl_zero (snd a2) \<or> fst a2 \<noteq> 0 then map_option snd (poll_notify_userevent E i s1) else Some s1
       }
     | _ \<Rightarrow> None))"

definition evaluate_module :: "env \<Rightarrow> hooks \<Rightarrow> mid \<Rightarrow> api" where
  "evaluate_module E H m s = do {
     s1 \<leftarrow> (if m_mod_is m [M_MOD_RUNNING] s
           then foreach E (srcs_list m M_SRC_TYPE_THRESH s) (check_thresh E m (s_now s)) s else Some s);
     if m_mod_is m [M_MOD_IDLE] s1 then do {
       (ret, s2) \<leftarrow> optional_hook H m MOD_EVAL s1;
       s3 \<leftarrow> (if ret = 0 then map_option snd (start E H m True s2) else Some s2);
       Some (ret, s3)
     } else Some (0, s1)
   }"

subsection \<open>Registration\<close>

text \<open>
  \<^verbatim>\<open>mod_deregister\<close> calls \<^verbatim>\<open>m_ctx_deregister\<close>, which calls it back for each module: the call is the
  parameter \<open>dereg\<close>, closed below.
\<close>

definition mod_deregister_with :: "api \<Rightarrow> env \<Rightarrow> hooks \<Rightarrow> mid \<Rightarrow> api" where
  "mod_deregister_with dereg E H m = M_MOD_ASSERT m (\<lambda>s.
     if has (md_flags (s_mods s m)) M_MOD_PERSIST \<and> c_state s = M_CTX_LOOPING then Some (- EPERM, s)
     else if c_modules s = [] then Some (- EINVAL, s)
     else if map_of (c_modules s) (md_name (s_mods s m)) = None then Some (- ENOENT, s)
     else do {
       (r, s1) \<leftarrow> stop E H m True (s\<lparr>c_modules := slot_remove (md_name (s_mods s m)) (c_modules s)\<rparr>);
       let s2 = upd_mod m (\<lambda>d. d\<lparr>md_state := M_MOD_ZOMBIE\<rparr>) s1;
       if c_state s2 = M_CTX_IDLE \<and> c_modules s2 = [] \<and> \<not> has (c_flags s2) M_CTX_PERSIST then dereg s2
       else Some (0, s2)
     })"

definition ctx_destroy_mods :: "api \<Rightarrow> env \<Rightarrow> hooks \<Rightarrow> mid \<Rightarrow> api" where
  "ctx_destroy_mods dereg E H m = mod_deregister_with dereg E H m"

text \<open>
  The thread's key is cleared first, so that \<^verbatim>\<open>m_ctx()\<close> is \<^verbatim>\<open>NULL\<close> for the modules walked afterwards.
  What deregistering one of them would call is left undefined here: it is never reached.
\<close>

definition m_ctx_deregister :: "env \<Rightarrow> hooks \<Rightarrow> api" where
  "m_ctx_deregister E H = M_CTX_ASSERT (\<lambda>s.
     if c_state s \<noteq> M_CTX_IDLE then Some (- EINVAL, s)
     else do {
       (r, s1) \<leftarrow> iterate_modules (ctx_destroy_mods (\<lambda>_. None) E H) (s\<lparr>s_key := False\<rparr>);
       Some (0, s1)
     })"

definition mod_deregister :: "env \<Rightarrow> hooks \<Rightarrow> mid \<Rightarrow> api" where
  "mod_deregister E H = mod_deregister_with (m_ctx_deregister E H) E H"

definition m_mod_deregister :: "env \<Rightarrow> hooks \<Rightarrow> mid \<Rightarrow> api" where
  "m_mod_deregister E H m = mod_deregister E H m"

text \<open>A module fresh from \<^verbatim>\<open>calloc\<close>, with its flags and user data.\<close>

definition new_mod :: "flags \<Rightarrow> ptr \<Rightarrow> m_mod" where
  "new_mod fl userdata = \<lparr>md_state = M_MOD_IDLE,
     md_flags = (if has fl M_MOD_NAME_DUP then or fl M_MOD_NAME_AUTOFREE else fl),
     md_fd0 = 0, md_fd1 = 0, md_pipe = [],
     md_stats = \<lparr>registration_time = 0, last_seen = 0, action_ctr = 0, sent_msgs = 0, recv_msgs = 0\<rparr>,
     md_hook = \<lparr>on_start = NULL, on_eval = NULL, on_evt = NULL, on_stop = NULL\<rparr>,
     md_recvs = [], md_userdata = userdata, md_name = [], md_name_at = NULL,
     md_batch_len = 0, md_batch_timer = (0, 0), md_batch_events = None,
     md_tb_rate = 0, md_tb_burst = 0, md_tb_tokens = 0, md_tb_timer = (0, 0), md_dlhandle = False,
     md_srcs = (\<lambda>_. None), md_subs = None, md_stashed = [], md_bound = []\<rparr>"

primrec init_srcs :: "env \<Rightarrow> mid \<Rightarrow> m_src_types list \<Rightarrow> sys \<Rightarrow> sys" where
  "init_srcs E m [] s = s"
| "init_srcs E m (ty # tys) s = (case init_src E m ty s of (r, s1) \<Rightarrow> if r \<noteq> 0 then s1 else init_srcs E m tys s1)"

text \<open>
  The body of the \<^verbatim>\<open>do ... while (false)\<close> block of \<^verbatim>\<open>m_mod_register\<close>: the name, the hooks (those of
  the library loaded when none are given), the sources, then the four containers, and the map.
\<close>

definition name_mod :: "env \<Rightarrow> string \<times> ptr \<Rightarrow> flags \<Rightarrow> mid \<Rightarrow> sys \<Rightarrow> sys" where
  "name_mod E name fl m s = (case (if has fl M_MOD_NAME_DUP then alloc E s else (snd name, s)) of (at, s1) \<Rightarrow>
     upd_mod m (\<lambda>d. d\<lparr>md_name := fst name, md_name_at := at\<rparr>) s1)"

primrec alloc_all :: "env \<Rightarrow> nat \<Rightarrow> sys \<Rightarrow> bool \<times> sys" where
  "alloc_all E 0 s = (True, s)"
| "alloc_all E (Suc n) s = (case alloc E s of (p, s1) \<Rightarrow> if p = NULL then (False, s1) else alloc_all E n s1)"

definition build_mod :: "env \<Rightarrow> string \<times> ptr \<Rightarrow> m_mod_hook option \<Rightarrow> flags \<Rightarrow> mid \<Rightarrow> sys \<Rightarrow> int \<times> sys" where
  "build_mod E name hook fl m s =
     (let s1 = name_mod E name fl m s;
          at = md_name_at (s_mods s1 m);
          hk = (case hook of None \<Rightarrow> e_dlopen E (if at = NULL then None else Some (fst name)) | Some h \<Rightarrow> Some h)
      in case hk of
        None \<Rightarrow> (- EINVAL, s1)
      | Some h \<Rightarrow>
          let s2 = upd_mod m (\<lambda>d. d\<lparr>md_hook := h, md_dlhandle := (hook = None)\<rparr>) s1 in
          if on_evt h = NULL then (- EINVAL, s2)
          else case alloc_all E 4 (init_srcs E m src_types s2) of (ok, s3) \<Rightarrow>
            let s4 = upd_mod m (\<lambda>d. d\<lparr>md_batch_events := Some [], md_tb_burst := -1, md_tb_tokens := -1\<rparr>) s3 in
            if \<not> ok then (- ENOMEM, s3)
            else if at = NULL \<or> map_of (c_modules s4) (fst name) \<noteq> None \<or> \<not> e_grow E (length (c_modules s4)) s4
            then (- ENOMEM, s4)
            else (0, upd_mod m (\<lambda>d. d\<lparr>md_state := M_MOD_IDLE, md_fd0 := -1, md_fd1 := -1,
                      md_stats := (md_stats d)\<lparr>registration_time := s_now s4\<rparr>\<rparr>)
                    (s4\<lparr>c_modules := slot_insert E (fst name) m (c_modules s4)\<rparr>)))"

text \<open>The result and the new module, for the caller that asked for a reference.\<close>

definition create_mod ::
    "env \<Rightarrow> string \<times> ptr \<Rightarrow> m_mod_hook option \<Rightarrow> flags \<Rightarrow> ptr \<Rightarrow> sys \<Rightarrow> (int \<times> mid) \<times> sys" where
  "create_mod E name hook fl userdata s = (case alloc E s of (m, s1) \<Rightarrow>
     if m = NULL then ((- ENOMEM, NULL), s1)
     else case build_mod E name hook fl m (upd_mod m (\<lambda>_. new_mod fl userdata) s1) of
       (ret, s2) \<Rightarrow> ((ret, if ret = 0 then m else NULL), s2))"

definition replace_mod :: "env \<Rightarrow> hooks \<Rightarrow> string \<Rightarrow> api" where
  "replace_mod E H name s = (case map_of (c_modules s) name of
     None \<Rightarrow> Some (0, s)
   | Some old_mod \<Rightarrow>
       if \<not> has (md_flags (s_mods s old_mod)) M_MOD_ALLOW_REPLACE then Some (- EEXIST, s)
       else mod_deregister E H old_mod s)"

definition m_mod_register ::
    "env \<Rightarrow> hooks \<Rightarrow> (string \<times> ptr) option \<Rightarrow> m_mod_hook option \<Rightarrow> flags \<Rightarrow> ptr \<Rightarrow> sys \<Rightarrow>
     ((int \<times> mid) \<times> sys) option" where
  "m_mod_register E H namep hook fl userdata s =
     (if \<not> str_not_empty (map_option fst namep) then Some ((- EINVAL, NULL), s)
      else if hook \<noteq> None \<and> on_evt (the hook) = NULL then Some ((- EINVAL, NULL), s)
      else if \<not> m_ctx s then Some ((- EPIPE, NULL), s)
      else if c_finalized s then Some ((- EPERM, NULL), s)
      else do {
        (ret, s1) \<leftarrow> replace_mod E H (fst (the namep)) s;
        if ret \<noteq> 0 then Some ((ret, NULL), s1)
        else Some (create_mod E (the namep) hook fl userdata s1)
      })"

definition m_mod_set_tokenbucket :: "env \<Rightarrow> mid \<Rightarrow> 32 word \<Rightarrow> 64 word \<Rightarrow> api" where
  "m_mod_set_tokenbucket E m rate burst = M_MOD_ASSERT m
     (M_RET_ASSERT (rate \<le> ucast BILLION) (- EINVAL) (\<lambda>s. do {
        s1 \<leftarrow> (if snd (md_tb_timer (s_mods s m)) \<noteq> 0
              then map_option snd (m_mod_src_deregister_tmr E m (Some (md_tb_timer (s_mods s m))) s)
              else Some s);
        if rate = 0 then
          Some (0, upd_mod m (\<lambda>d. d\<lparr>md_tb_rate := 0, md_tb_burst := -1, md_tb_tokens := -1,
                                      md_tb_timer := (0, 0)\<rparr>) s1)
        else let
          timer = (CLOCK_MONOTONIC, ucast ((ucast BILLION :: 32 word) div rate));
          s2 = upd_mod m (\<lambda>d. d\<lparr>md_tb_rate := ucast rate, md_tb_burst := burst, md_tb_tokens := burst,
                                 md_tb_timer := timer\<rparr>) s1
        in m_mod_src_register_tmr E m (Some timer) (or M_SRC_INTERNAL M_SRC_PRIO_HIGH) (TbOf m) s2
      }))"

subsection \<open>Getters\<close>

definition m_mod_userdata :: "mid \<Rightarrow> sys \<Rightarrow> ptr" where
  "m_mod_userdata m s = (if m = NULL then NULL else md_userdata (s_mods s m))"

definition m_mod_name :: "mid \<Rightarrow> sys \<Rightarrow> string option" where
  "m_mod_name m s = (if m = NULL then None else Some (md_name (s_mods s m)))"

definition m_mod_state :: "mid \<Rightarrow> sys \<Rightarrow> int + m_mod_states" where
  "m_mod_state m s = (if m = NULL then Inl (- EINVAL) else Inr (md_state (s_mods s m)))"

text \<open>Inactivity, activity (a \<^verbatim>\<open>double\<close>), messages received and sent.\<close>

definition m_mod_stats :: "env \<Rightarrow> mid \<Rightarrow> bool \<Rightarrow> sys \<Rightarrow> int \<times> (64 word \<times> 64 word \<times> 64 word \<times> 64 word) option" where
  "m_mod_stats E m stats s =
     (if m = NULL then (- EINVAL, None)
      else if m_mod_is m [M_MOD_ZOMBIE] s then (- EACCES, None)
      else if \<not> m_ctx s then (- EPERM, None)
      else if \<not> stats then (- EINVAL, None)
      else let st = md_stats (s_mods s m) in
        (0, Some (s_now s - last_seen st, e_freq E (action_ctr st) (s_now s - registration_time st),
                  recv_msgs st, sent_msgs st)))"

definition m_mod_lookup :: "mid \<Rightarrow> string option \<Rightarrow> sys \<Rightarrow> mid" where
  "m_mod_lookup m name s =
     (if m = NULL then NULL else case name of None \<Rightarrow> NULL | Some n \<Rightarrow>
        if \<not> m_ctx s then NULL else case map_of (c_modules s) n of None \<Rightarrow> NULL | Some x \<Rightarrow> x)"

subsection \<open>State setters\<close>

text \<open>
  \<^verbatim>\<open>M_MOD_BOUND\<close> calls the same function on the bound modules, which do it on theirs: a frame
  is a module whose list is being iterated, the list, and what of it comes after the element
  visited. The call may change the list under its iterator, in two ways: by adding at the head
  (\<^verbatim>\<open>m_mod_bind\<close>) and by clearing it (\<^verbatim>\<open>reset_module\<close>). The iterator holds the address of the link to its
  element. That of the first is in the list itself, so that going on from it reads the list as
  it is now; those of the others are in the element before, which a clear has freed.
\<close>

definition bound_rest :: "mid list \<Rightarrow> mid list \<Rightarrow> mid list \<Rightarrow> mid list option" where
  "bound_rest now full rest =
     (if now = full then Some rest
      else if length full = Suc (length rest) then Some (tl now)
      else if drop (length now - length full) now = full then Some rest
      else None)"

partial_function (option) bound_walk ::
    "env \<Rightarrow> (mid \<Rightarrow> api) \<Rightarrow> (mid \<times> mid list \<times> mid list) list \<Rightarrow> sys \<Rightarrow> sys option" where
  "bound_walk E fn fs s = (case fs of
     [] \<Rightarrow> Some s
   | (m, full, rest) # fs' \<Rightarrow>
       Option.bind (bound_rest (md_bound (s_mods s m)) full rest) (\<lambda>rest'. case rest' of
         [] \<Rightarrow> bound_walk E fn fs' s
       | b # bs \<Rightarrow> do {
           (ret, s1) \<leftarrow> fn b s;
           if ret = 0 then
             (case foreach_elems E (md_bound (s_mods s1 b)) s1 of (xs, s2) \<Rightarrow>
               bound_walk E fn ((b, md_bound (s_mods s2 b), xs) # (m, md_bound (s_mods s m), bs) # fs') s2)
           else bound_walk E fn ((m, md_bound (s_mods s m), bs) # fs') s1
         }))"

declare bound_walk.simps [code]

definition with_bound :: "env \<Rightarrow> (mid \<Rightarrow> api) \<Rightarrow> mid \<Rightarrow> api" where
  "with_bound E fn m s = do {
     (ret, s1) \<leftarrow> fn m s;
     if ret = 0 then
       (case foreach_elems E (md_bound (s_mods s1 m)) s1 of (xs, s2) \<Rightarrow>
          map_option (Pair ret) (bound_walk E fn [(m, md_bound (s_mods s2 m), xs)] s2))
     else Some (ret, s1)
   }"

definition start_one :: "env \<Rightarrow> hooks \<Rightarrow> mid \<Rightarrow> api" where
  "start_one E H m = M_MOD_ASSERT_STATE m [M_MOD_IDLE, M_MOD_STOPPED] (M_MOD_CONSUME_TOKEN m (start E H m True))"

definition pause_one :: "env \<Rightarrow> hooks \<Rightarrow> mid \<Rightarrow> api" where
  "pause_one E H m = M_MOD_ASSERT_STATE m [M_MOD_RUNNING] (M_MOD_CONSUME_TOKEN m (stop E H m False))"

definition resume_one :: "env \<Rightarrow> hooks \<Rightarrow> mid \<Rightarrow> api" where
  "resume_one E H m = M_MOD_ASSERT_STATE m [M_MOD_PAUSED] (M_MOD_CONSUME_TOKEN m (start E H m False))"

definition stop_one :: "env \<Rightarrow> hooks \<Rightarrow> mid \<Rightarrow> api" where
  "stop_one E H m = M_MOD_ASSERT_STATE m [M_MOD_RUNNING, M_MOD_PAUSED] (M_MOD_CONSUME_TOKEN m (stop E H m True))"

definition m_mod_start :: "env \<Rightarrow> hooks \<Rightarrow> mid \<Rightarrow> api" where
  "m_mod_start E H = with_bound E (start_one E H)"

definition m_mod_pause :: "env \<Rightarrow> hooks \<Rightarrow> mid \<Rightarrow> api" where
  "m_mod_pause E H = with_bound E (pause_one E H)"

definition m_mod_resume :: "env \<Rightarrow> hooks \<Rightarrow> mid \<Rightarrow> api" where
  "m_mod_resume E H = with_bound E (resume_one E H)"

definition m_mod_stop :: "env \<Rightarrow> hooks \<Rightarrow> mid \<Rightarrow> api" where
  "m_mod_stop E H = with_bound E (stop_one E H)"

text \<open>A list without a comparator inserts at its head.\<close>

definition m_mod_bind :: "env \<Rightarrow> mid \<Rightarrow> mid \<Rightarrow> api" where
  "m_mod_bind E m ref = M_MOD_ASSERT m (M_MOD_ASSERT ref (M_MOD_CONSUME_TOKEN m (\<lambda>s.
     case alloc E s of (p, s1) \<Rightarrow>
       if p = NULL then Some (- ENOMEM, s1)
       else Some (0, upd_mod ref (\<lambda>d. d\<lparr>md_bound := m # md_bound d\<rparr>) s1))))"

end
