(* ===== verification/Ctx.thy ===== *)
theory Ctx
  imports Mod
begin

text \<open>
  The context and its loop: \<^verbatim>\<open>ctx.c\<close>. One turn of the loop takes what \<^verbatim>\<open>epoll_wait\<close> reports, makes an
  event of each source, delivers it, then evaluates all modules.
\<close>

subsection \<open>Starting and stopping the loop\<close>

definition loop_start :: "env \<Rightarrow> hooks \<Rightarrow> int \<Rightarrow> api" where
  "loop_start E H max_events s = (case poll_init E (s\<lparr>c_max_events := max_events\<rparr>) of (ret, s1) \<Rightarrow>
     if ret \<noteq> 0 then Some (ret, s1)
     else do {
       let s2 = s1\<lparr>c_looping_start := s_now s1, c_state := M_CTX_LOOPING, c_quit := False, c_quit_code := 0\<rparr>;
       (r, s3) \<leftarrow> iterate_modules (evaluate_module E H) s2;
       (r, s4) \<leftarrow> tell_system_pubsub_msg E NULL NULL M_PS_CTX_STARTED s3;
       s5 \<leftarrow> (if c_tick_src s4 \<noteq> NULL then map_option snd (poll_set_new_evt E (c_tick_src s4) ADD s4) else Some s4);
       Some (0, s5)
     })"

definition loop_stop :: "env \<Rightarrow> hooks \<Rightarrow> api" where
  "loop_stop E H s = do {
     (r, s1) \<leftarrow> tell_system_pubsub_msg E NULL NULL M_PS_CTX_STOPPED (s\<lparr>c_state := M_CTX_IDLE\<rparr>);
     (r, s2) \<leftarrow> iterate_modules (flush_pubsub_msgs E H False) s1;
     s3 \<leftarrow> (if c_tick_src s2 \<noteq> NULL then map_option snd (poll_set_new_evt E (c_tick_src s2) RM s2) else Some s2);
     s3 \<leftarrow> poll_clear s3;
     let s4 = s3\<lparr>c_thpool := False, c_max_events := 0, c_looping_start := 0, c_recv_msgs := 0, c_idle_time := 0\<rparr>;
     let ret = uint (c_quit_code s4);
     s5 \<leftarrow> (if c_modules s4 = [] \<and> \<not> has (c_flags s4) M_CTX_PERSIST
           then map_option snd (m_ctx_deregister E H s4) else Some s4);
     Some (ret, s5)
   }"

definition loop_quit :: "8 word \<Rightarrow> sys \<Rightarrow> sys" where
  "loop_quit quit_code s = s\<lparr>c_quit := True, c_quit_code := quit_code\<rparr>"

subsection \<open>Receiving events\<close>

definition process_tick :: "env \<Rightarrow> sid \<Rightarrow> sys \<Rightarrow> sys option" where
  "process_tick E i s = (case s_srcs s i of None \<Rightarrow> None | Some t \<Rightarrow>
     (case poll_consume_tmr E t s of (r, s1) \<Rightarrow>
        map_option snd (tell_system_pubsub_msg E NULL NULL M_PS_CTX_TICK s1)))"

text \<open>Removing a one-shot source: a subscription by its topic, another source from its tree.\<close>

definition drop_oneshot :: "env \<Rightarrow> mid \<Rightarrow> sid \<Rightarrow> sys \<Rightarrow> sys option" where
  "drop_oneshot E m p s =
     (if p = NULL then Some s
      else case s_srcs s p of None \<Rightarrow> None
      | Some t \<Rightarrow>
          if has (es_flags t) M_SRC_ONESHOT then
            (if es_type t \<noteq> M_SRC_TYPE_PS then map_option snd (srcs_remove E m (es_type t) (Inr t) s)
             else case es_key t of KeyTopic topic \<Rightarrow> map_option snd (remove_sub E m topic s) | _ \<Rightarrow> None)
          else Some s)"

definition is_poisonpill :: "evt_priv \<Rightarrow> bool" where
  "is_poisonpill v \<longleftrightarrow> ev_type v = M_SRC_TYPE_PS \<and>
     (case ev_data v of PsData msg \<Rightarrow> ps_topic msg = Some M_PS_MOD_POISONPILL | _ \<Rightarrow> False)"

text \<open>What the loop does with one event made for a source of module \<open>m\<close>: the new \<^verbatim>\<open>err\<close> and \<^verbatim>\<open>recved\<close>.\<close>

definition consume_evt ::
    "env \<Rightarrow> hooks \<Rightarrow> mid \<Rightarrow> sid \<Rightarrow> eid \<Rightarrow> int \<Rightarrow> sys \<Rightarrow> (int \<times> int \<times> sys) option" where
  "consume_evt E H m p e recved s =
     (let err = s_errno s in
      if err = 0 then do {
        s1 \<leftarrow> drop_oneshot E m p s;
        v \<leftarrow> s_evts s1 e;
        if ev_data v = NoData then map_option (\<lambda>s. (err, recved, s)) (evt_unref E e s1)
        else if \<not> is_poisonpill v then map_option (\<lambda>s. (err, recved + 1, s)) (push_evt E H m e s1)
        else do {
          (r, s2) \<leftarrow> stop E H m True s1;
          map_option (\<lambda>s. (err, recved + 1, s)) (evt_unref E e s2)
        }
      } else map_option (\<lambda>s. (err, recved, s)) (evt_unref E e s))"

definition recv_one :: "env \<Rightarrow> hooks \<Rightarrow> sid \<Rightarrow> int \<Rightarrow> sys \<Rightarrow> (int \<times> int \<times> sys) option" where
  "recv_one E H i recved s = (case s_srcs s i of None \<Rightarrow> None | Some t \<Rightarrow>
     if es_mod t = NULL then map_option (\<lambda>s. (0, recved + 1, s)) (process_tick E i s)
     else do {
       (e, s1) \<leftarrow> new_evt E i s;
       if e = NULL then (if s_errno s1 = 0 then None else Some (s_errno s1, recved, s1))
       else do {
         v \<leftarrow> s_evts s1 e;
         (p, s2) \<leftarrow> src_procs_map E (es_type t) i e (set_evt e (v\<lparr>ev_ts := s_now s1\<rparr>) s1);
         consume_evt E H (es_mod t) p e recved s2
       }
     })"

primrec recv_loop :: "env \<Rightarrow> hooks \<Rightarrow> (bool \<times> sid) list \<Rightarrow> int \<Rightarrow> int \<Rightarrow> sys \<Rightarrow> (int \<times> int \<times> sys) option" where
  "recv_loop E H [] err recved s = Some (err, recved, s)"
| "recv_loop E H (p # ps) err recved s =
     (if err \<noteq> 0 then Some (err, recved, s)
      else if poll_recv p = NULL then recv_loop E H ps EAGAIN recved s
      else do {
        (err, recved, s) \<leftarrow> recv_one E H (poll_recv p) recved s;
        recv_loop E H ps err recved s
      })"

text \<open>The wait, with the bookkeeping before and after it: what to receive from.\<close>

definition wait_events :: "env \<Rightarrow> int \<Rightarrow> sys \<Rightarrow> (bool \<times> sid) list \<times> sys" where
  "wait_events E timeout s =
     (let s1 = (if c_recv_msgs s = 0 then s\<lparr>s_last_time := s_now s\<rparr> else s);
          nfds = poll_wait E timeout (s1\<lparr>s_errno := 0\<rparr>);
          s2 = (case nfds of Inl e \<Rightarrow> s1\<lparr>s_errno := e\<rparr> | Inr _ \<Rightarrow> s1\<lparr>s_errno := 0\<rparr>)
      in (case nfds of Inl _ \<Rightarrow> [] | Inr ps \<Rightarrow> ps,
          s2\<lparr>c_idle_time := c_idle_time s2 + (s_now s2 - s_last_time s2)\<rparr>))"

text \<open>The end of a turn: all modules are evaluated when something came, a real error quits the loop.\<close>

definition end_turn :: "env \<Rightarrow> hooks \<Rightarrow> int \<Rightarrow> int \<Rightarrow> api" where
  "end_turn E H err recved s =
     (if recved > 0 \<and> err = 0 then do {
        (r, s1) \<leftarrow> iterate_modules (evaluate_module E H) s;
        Some (recved, s1\<lparr>c_recv_msgs := c_recv_msgs s1 + word_of_int recved\<rparr>)
      }
      else if err \<noteq> 0 \<and> err \<noteq> EINTR \<and> err \<noteq> EAGAIN then Some (-1, loop_quit (word_of_int err) s)
      else Some (recved, s))"

definition recv_events :: "env \<Rightarrow> hooks \<Rightarrow> int \<Rightarrow> api" where
  "recv_events E H timeout s = do {
     let (ps, s1) = wait_events E timeout s;
     (err, recved, s2) \<leftarrow> recv_loop E H ps (s_errno s1) 0 s1;
     (recved, s3) \<leftarrow> end_turn E H err recved s2;
     Some (recved, s3\<lparr>s_last_time := s_now s3\<rparr>)
   }"

partial_function (option) ctx_loop_while :: "env \<Rightarrow> hooks \<Rightarrow> sys \<Rightarrow> sys option" where
  "ctx_loop_while E H s =
     (if \<not> c_quit s \<and> c_running s > 0
      then Option.bind (recv_events E H (-1) s) (\<lambda>(r, s'). ctx_loop_while E H s')
      else Some s)"

declare ctx_loop_while.simps [code]

definition m_ctx_loop_events :: "env \<Rightarrow> hooks \<Rightarrow> int \<Rightarrow> api" where
  "m_ctx_loop_events E H max_events = M_RET_ASSERT (max_events > 0) (- EINVAL) (\<lambda>s.
     if c_state s \<noteq> M_CTX_IDLE then Some (- EINVAL, s)
     else do {
       (ret, s1) \<leftarrow> loop_start E H max_events s;
       if ret = 0 then Option.bind (ctx_loop_while E H s1) (loop_stop E H)
       else Some (ret, s1)
     })"

subsection \<open>The public functions\<close>

text \<open>
  What the last reference to a context releases. The modules hold references to it, so there are
  none left in its map then.
\<close>

definition ctx_dtor :: "env \<Rightarrow> sys \<Rightarrow> sys option" where
  "ctx_dtor E s = do {
     s1 \<leftarrow> deregister_ctx_src E s;
     s2 \<leftarrow> poll_destroy (s1\<lparr>c_modules := []\<rparr>);
     let s3 = s2\<lparr>c_priv := False\<rparr>;
     s4 \<leftarrow> (if has (c_flags s3) M_CTX_NAME_AUTOFREE then user_free (User (c_name_at s3)) s3 else Some s3);
     if has (c_flags s4) M_CTX_USERDATA_AUTOFREE then user_free (User (c_userdata s4)) s4 else Some s4
   }"

text \<open>
  A new context, filled with zeros by \<^verbatim>\<open>calloc\<close>; then the \<^verbatim>\<open>do ... while (false)\<close> block, in which a
  map that cannot be allocated leaves \<^verbatim>\<open>ret\<close> at 0.
\<close>

definition blank_ctx :: "sys \<Rightarrow> sys" where
  "blank_ctx s = s\<lparr>c_state := M_CTX_IDLE, c_quit := False, c_quit_code := 0,
     c_finalized := False, c_flags := 0, c_modules := [], c_curr_mod := NULL, c_max_events := 0,
     c_looping_start := 0, c_idle_time := 0, c_recv_msgs := 0, c_running := 0, c_thpool := False,
     c_tick_tmr := (0, 0), c_tick_src := NULL, c_name := [], c_name_at := NULL, c_userdata := NULL,
     c_logger := None, c_priv := False, c_epfd := 0, c_pevents := False\<rparr>"

definition fill_ctx :: "env \<Rightarrow> string \<times> ptr \<Rightarrow> flags \<Rightarrow> ptr \<Rightarrow> sys \<Rightarrow> int \<times> sys" where
  "fill_ctx E ctx_name fl userdata s = (case poll_create E s of (ret, s1) \<Rightarrow>
     if ret \<noteq> 0 then (ret, s1)
     else case alloc E (s1\<lparr>c_flags := fl, c_userdata := userdata, c_logger := None\<rparr>) of (modules, s2) \<Rightarrow>
       if modules = NULL then (ret, s2)
       else case (if has fl M_CTX_NAME_DUP then alloc E (s2\<lparr>c_flags := or fl M_CTX_NAME_AUTOFREE\<rparr>)
                  else (snd ctx_name, s2)) of (at, s3) \<Rightarrow>
         (0, s3\<lparr>c_name := fst ctx_name, c_name_at := at, s_key := True\<rparr>))"

definition ctx_new :: "env \<Rightarrow> string \<times> ptr \<Rightarrow> flags \<Rightarrow> ptr \<Rightarrow> api" where
  "ctx_new E ctx_name fl userdata s = (case alloc E s of (new_ctx, s1) \<Rightarrow>
     if new_ctx = NULL then Some (- ENOMEM, s1)
     else case fill_ctx E ctx_name fl userdata (blank_ctx s1) of (ret, s2) \<Rightarrow>
       if ret \<noteq> 0 then map_option (Pair ret) (ctx_dtor E s2) else Some (ret, s2))"

definition m_ctx_register :: "env \<Rightarrow> (string \<times> ptr) option \<Rightarrow> flags \<Rightarrow> ptr \<Rightarrow> api" where
  "m_ctx_register E ctx_name fl userdata = M_RET_ASSERT (str_not_empty (map_option fst ctx_name)) (- EINVAL) (\<lambda>s.
     if s_key s then Some (- EEXIST, s) else ctx_new E (the ctx_name) fl userdata s)"

definition m_ctx_set_logger :: "ptr \<Rightarrow> api" where
  "m_ctx_set_logger logger = M_CTX_ASSERT (M_RET_ASSERT (logger \<noteq> NULL) (- EINVAL) (\<lambda>s.
     Some (0, s\<lparr>c_logger := Some logger\<rparr>)))"

definition m_ctx_fd :: "env \<Rightarrow> api" where
  "m_ctx_fd E = M_CTX_ASSERT (\<lambda>s. Some (e_dup E (poll_get_fd s) s, s))"

definition m_ctx_name :: "sys \<Rightarrow> string option" where
  "m_ctx_name s = (if \<not> m_ctx s \<or> c_name_at s = NULL then None else Some (c_name s))"

definition m_ctx_userdata :: "sys \<Rightarrow> ptr" where
  "m_ctx_userdata s = (if \<not> m_ctx s then NULL else c_userdata s)"

definition m_ctx_loop :: "env \<Rightarrow> hooks \<Rightarrow> api" where
  "m_ctx_loop E H = M_CTX_ASSERT (m_ctx_loop_events E H M_CTX_DEFAULT_EVENTS)"

definition m_ctx_quit :: "8 word \<Rightarrow> api" where
  "m_ctx_quit quit_code = M_CTX_ASSERT (\<lambda>s.
     if c_state s \<noteq> M_CTX_LOOPING then Some (- EINVAL, s) else Some (0, loop_quit quit_code s))"

definition m_ctx_dispatch :: "env \<Rightarrow> hooks \<Rightarrow> api" where
  "m_ctx_dispatch E H = M_CTX_ASSERT (\<lambda>s.
     if c_state s = M_CTX_IDLE then loop_start E H M_CTX_DEFAULT_EVENTS s
     else if c_quit s \<or> c_running s = 0 then loop_stop E H s
     else recv_events E H 0 s)"

definition m_ctx_len :: api where
  "m_ctx_len = M_CTX_ASSERT (\<lambda>s. Some (int (length (c_modules s)), s))"

definition m_ctx_finalize :: api where
  "m_ctx_finalize = M_CTX_ASSERT (\<lambda>s. Some (0, s\<lparr>c_finalized := True\<rparr>))"

text \<open>Messages received, modules, running modules, idle and looping time, activity (a \<^verbatim>\<open>double\<close>).\<close>

definition m_ctx_stats :: "env \<Rightarrow> bool \<Rightarrow> sys \<Rightarrow>
    int \<times> (64 word \<times> nat \<times> 64 word \<times> 64 word \<times> 64 word \<times> 64 word) option" where
  "m_ctx_stats E stats s =
     (if \<not> m_ctx s then (- EPIPE, None)
      else if c_state s \<noteq> M_CTX_LOOPING then (- EINVAL, None)
      else if \<not> stats then (- EINVAL, None)
      else let total = s_now s - c_looping_start s in
        (0, Some (c_recv_msgs s, length (c_modules s), c_running s, c_idle_time s, total,
                  e_freq E (total - c_idle_time s) total)))"

definition m_ctx_set_tick :: "env \<Rightarrow> 64 word \<Rightarrow> api" where
  "m_ctx_set_tick E ns = M_CTX_ASSERT (\<lambda>s. do {
     s1 \<leftarrow> deregister_ctx_src E s;
     if ns \<noteq> 0 then do {
       let s2 = s1\<lparr>c_tick_tmr := (CLOCK_MONOTONIC, ns)\<rparr>;
       (i, s3) \<leftarrow> register_ctx_src E M_SRC_TYPE_TMR (KeyTmr (c_tick_tmr s2)) s2;
       Some (0, s3\<lparr>c_tick_src := i\<rparr>)
     } else Some (0, s1)
   })"

end
