(* ===== verification/Client.thy ===== *)
theory Client
  imports Ctx
begin

text \<open>
  The library as its client sees it: the public functions as calls, histories of calls, and
  clients whose callbacks are scripts of calls. The callbacks of a client of depth \<open>n + 1\<close> make
  their calls with the callbacks of depth \<open>n\<close>, so that nesting is bounded by the depth and
  nothing else; a nesting deeper than the depth is left undefined.
\<close>

datatype call =
    Register "(string \<times> ptr) option" "m_mod_hook option" flags ptr
  | Deregister mid | Start mid | Pause mid | Resume mid | Stop mid | Bind mid mid
  | Tell mid mid ptr flags | Publish mid "string option" ptr flags | Poisonpill mid mid
  | Subscribe mid "string option" flags ptr | Unsubscribe mid "string option"
  | RegFd mid int flags ptr | DeregFd mid int
  | RegTmr mid "m_src_tmr option" flags ptr | DeregTmr mid "m_src_tmr option"
  | RegSgn mid "32 word option" flags ptr | DeregSgn mid "32 word option"
  | RegPath mid "(string option \<times> 32 word) option" flags ptr | DeregPath mid "(string option \<times> 32 word) option"
  | RegPid mid "(int \<times> 32 word) option" flags ptr | DeregPid mid "(int \<times> 32 word) option"
  | RegTask mid "(int \<times> ptr) option" flags ptr
  | RegThresh mid "(64 word \<times> 64 word) option" flags ptr | DeregThresh mid "(64 word \<times> 64 word) option"
  | SrcLen mid int | Become mid ptr | Unbecome mid | Stash mid eid | Unstash mid "64 word"
  | BatchSize mid "64 word" | BatchTimeout mid "64 word" | TokenBucket mid "32 word" "64 word"
  | Loop | Dispatch | Quit "8 word" | Len | Finalize | SetTick "64 word" | CtxDeregister

text \<open>The modules a call is given; a pointer that is no module makes it undefined.\<close>

fun call_mods :: "call \<Rightarrow> mid list" where
  "call_mods (Bind m r) = [m, r]"
| "call_mods (Tell m r p fl) = [m, r]"
| "call_mods (Poisonpill m r) = [m, r]"
| "call_mods (Deregister m) = [m]"
| "call_mods (Start m) = [m]"
| "call_mods (Pause m) = [m]"
| "call_mods (Resume m) = [m]"
| "call_mods (Stop m) = [m]"
| "call_mods _ = []"

definition real_mods :: "mid list \<Rightarrow> sys \<Rightarrow> bool" where
  "real_mods ms s \<longleftrightarrow> (\<forall>m\<in>set ms. m \<le> s_next s)"

fun do_call :: "env \<Rightarrow> hooks \<Rightarrow> call \<Rightarrow> api" where
  "do_call E H (Register nm hk fl up) s = map_option (\<lambda>((r, m), s). (r, s)) (m_mod_register E H nm hk fl up s)"
| "do_call E H (Deregister m) s = m_mod_deregister E H m s"
| "do_call E H (Start m) s = m_mod_start E H m s"
| "do_call E H (Pause m) s = m_mod_pause E H m s"
| "do_call E H (Resume m) s = m_mod_resume E H m s"
| "do_call E H (Stop m) s = m_mod_stop E H m s"
| "do_call E H (Bind m r) s = m_mod_bind E m r s"
| "do_call E H (Tell m r p fl) s = m_mod_ps_tell E m r p fl s"
| "do_call E H (Publish m t p fl) s = m_mod_ps_publish E m t p fl s"
| "do_call E H (Poisonpill m r) s = m_mod_ps_poisonpill E m r s"
| "do_call E H (Subscribe m t fl u) s = m_mod_ps_subscribe E m t fl (User u) s"
| "do_call E H (Unsubscribe m t) s = m_mod_ps_unsubscribe E m t s"
| "do_call E H (RegFd m x fl p) s = m_mod_src_register_fd E m x fl p s"
| "do_call E H (DeregFd m x) s = m_mod_src_deregister_fd E m x s"
| "do_call E H (RegTmr m k fl u) s = m_mod_src_register_tmr E m k fl (User u) s"
| "do_call E H (DeregTmr m k) s = m_mod_src_deregister_tmr E m k s"
| "do_call E H (RegSgn m k fl p) s = m_mod_src_register_sgn E m k fl p s"
| "do_call E H (DeregSgn m k) s = m_mod_src_deregister_sgn E m k s"
| "do_call E H (RegPath m k fl p) s = m_mod_src_register_path E m k fl p s"
| "do_call E H (DeregPath m k) s = m_mod_src_deregister_path E m k s"
| "do_call E H (RegPid m k fl p) s = m_mod_src_register_pid E m k fl p s"
| "do_call E H (DeregPid m k) s = m_mod_src_deregister_pid E m k s"
| "do_call E H (RegTask m k fl p) s = m_mod_src_register_task E m k fl p s"
| "do_call E H (RegThresh m k fl p) s = m_mod_src_register_thresh E m k fl p s"
| "do_call E H (DeregThresh m k) s = m_mod_src_deregister_thresh E m k s"
| "do_call E H (SrcLen m ty) s = m_mod_src_len E m ty s"
| "do_call E H (Become m cb) s = m_mod_become E m cb s"
| "do_call E H (Unbecome m) s = m_mod_unbecome m s"
| "do_call E H (Stash m e) s = m_mod_stash E m e s"
| "do_call E H (Unstash m n) s = m_mod_unstash E H m n s"
| "do_call E H (BatchSize m n) s = m_mod_set_batch_size m n s"
| "do_call E H (BatchTimeout m n) s = m_mod_set_batch_timeout E m n s"
| "do_call E H (TokenBucket m r b) s = m_mod_set_tokenbucket E m r b s"
| "do_call E H Loop s = m_ctx_loop E H s"
| "do_call E H Dispatch s = m_ctx_dispatch E H s"
| "do_call E H (Quit q) s = m_ctx_quit q s"
| "do_call E H Len s = m_ctx_len s"
| "do_call E H Finalize s = m_ctx_finalize s"
| "do_call E H (SetTick n) s = m_ctx_set_tick E n s"
| "do_call E H CtxDeregister s = m_ctx_deregister E H s"

definition run_call :: "env \<Rightarrow> hooks \<Rightarrow> call \<Rightarrow> api" where
  "run_call E H c s = (if real_mods (call_mods c) s then do_call E H c s else None)"

primrec run_calls :: "env \<Rightarrow> hooks \<Rightarrow> call list \<Rightarrow> sys \<Rightarrow> sys option" where
  "run_calls E H [] s = Some s"
| "run_calls E H (c # cs) s = Option.bind (run_call E H c s) (\<lambda>(r, s'). run_calls E H cs s')"

subsection \<open>Clients\<close>

text \<open>
  A program: what each callback does, as calls chosen on the state of the moment, and what it
  answers on the state after them. Start and event callbacks make any calls; evaluation and stop
  callbacks make calls that leave the states of modules and the modules registered and bound
  alone, and run no callback: of the others the code does not keep its count of running modules.
\<close>

type_synonym script = "(sys \<Rightarrow> call) list"

record program =
  p_start :: "ptr \<Rightarrow> mid \<Rightarrow> script \<times> (sys \<Rightarrow> bool)"
  p_eval :: "ptr \<Rightarrow> mid \<Rightarrow> script \<times> (sys \<Rightarrow> bool)"
  p_stop :: "ptr \<Rightarrow> mid \<Rightarrow> script"
  p_evt :: "ptr \<Rightarrow> mid \<Rightarrow> eid list option \<Rightarrow> script"

fun calm_call :: "call \<Rightarrow> bool" where
  "calm_call (Register nm hk fl up) = False"
| "calm_call (Deregister m) = False"
| "calm_call (Start m) = False"
| "calm_call (Pause m) = False"
| "calm_call (Resume m) = False"
| "calm_call (Stop m) = False"
| "calm_call (Bind m r) = False"
| "calm_call (Unstash m n) = False"
| "calm_call Loop = False"
| "calm_call Dispatch = False"
| "calm_call CtxDeregister = False"
| "calm_call _ = True"

primrec run_script :: "env \<Rightarrow> hooks \<Rightarrow> (call \<Rightarrow> bool) \<Rightarrow> script \<Rightarrow> sys \<Rightarrow> sys option" where
  "run_script E H ok [] s = Some s"
| "run_script E H ok (f # fs) s =
     (if ok (f s) then Option.bind (run_call E H (f s) s) (\<lambda>(r, s'). run_script E H ok fs s') else None)"

primrec script_hooks :: "env \<Rightarrow> program \<Rightarrow> nat \<Rightarrow> hooks" where
  "script_hooks E P 0 = \<lparr>h_start = \<lambda>_ _ _. None, h_eval = \<lambda>_ _ _. None, h_stop = \<lambda>_ _ _. None,
     h_evt = \<lambda>_ _ _ _. None\<rparr>"
| "script_hooks E P (Suc n) = (let H = script_hooks E P n in
     \<lparr>h_start = \<lambda>f m s. map_option (\<lambda>s'. (snd (p_start P f m) s', s'))
                   (run_script E H (\<lambda>_. True) (fst (p_start P f m)) s),
      h_eval = \<lambda>f m s. map_option (\<lambda>s'. (snd (p_eval P f m) s', s'))
                   (run_script E H calm_call (fst (p_eval P f m)) s),
      h_stop = \<lambda>f m s. run_script E H calm_call (p_stop P f m) s,
      h_evt = \<lambda>f m evts s. run_script E H (\<lambda>_. True) (p_evt P f m evts) s\<rparr>)"

end
