(* ===== verification/Calm.thy ===== *)
theory Calm
  imports Client
begin

text \<open>
  Frame facts of the core: the operations that run no callback leave the states of modules,
  the modules registered and bound and the count of running modules as they are. The facts
  are collected in \<open>calm\<close>, one per operation.
\<close>

subsection \<open>Calls that leave the states of modules alone\<close>

definition st :: "sys \<Rightarrow> 64 word \<times> (string \<times> mid) list \<times> (mid \<Rightarrow> m_mod_states) \<times> (mid \<Rightarrow> mid list)" where
  "st s = (c_running s, c_modules s, \<lambda>m. md_state (s_mods s m), \<lambda>m. md_bound (s_mods s m))"

definition calm :: "sys \<Rightarrow> sys \<Rightarrow> bool" where
  "calm s s' \<longleftrightarrow> st s' = st s \<and> s_next s \<le> s_next s'"

lemma calm_refl [simp, intro]: "calm s s"
  by (simp add: calm_def)

lemma calm_trans [trans]: "calm s t \<Longrightarrow> calm t u \<Longrightarrow> calm s u"
  by (simp add: calm_def)

lemma calm_preorder: "reflp calm" "transp calm"
  by (auto intro: reflpI transpI calm_trans)

lemma calm_state: "calm s s' \<Longrightarrow> md_state (s_mods s' m) = md_state (s_mods s m)"
  by (auto simp: calm_def st_def dest: fun_cong)

lemma upd_mod_fields [simp]:
  "s_key (upd_mod m f s) = s_key s" "s_srcs (upd_mod m f s) = s_srcs s" "s_evts (upd_mod m f s) = s_evts s"
  "s_next (upd_mod m f s) = s_next s" "s_now (upd_mod m f s) = s_now s" "s_errno (upd_mod m f s) = s_errno s"
  "s_freed (upd_mod m f s) = s_freed s"
  "c_state (upd_mod m f s) = c_state s" "c_modules (upd_mod m f s) = c_modules s"
  "c_running (upd_mod m f s) = c_running s" "c_quit (upd_mod m f s) = c_quit s"
  "c_flags (upd_mod m f s) = c_flags s" "c_curr_mod (upd_mod m f s) = c_curr_mod s"
  "s_mods (upd_mod m f s) = (s_mods s)(m := f (s_mods s m))"
  by (simp_all add: upd_mod_def)

lemma set_src_fields [simp]:
  "s_key (set_src i t s) = s_key s" "s_mods (set_src i t s) = s_mods s" "s_evts (set_src i t s) = s_evts s"
  "s_next (set_src i t s) = s_next s" "s_now (set_src i t s) = s_now s" "s_errno (set_src i t s) = s_errno s"
  "s_freed (set_src i t s) = s_freed s"
  "c_state (set_src i t s) = c_state s" "c_modules (set_src i t s) = c_modules s"
  "c_running (set_src i t s) = c_running s" "c_quit (set_src i t s) = c_quit s"
  "c_flags (set_src i t s) = c_flags s" "c_curr_mod (set_src i t s) = c_curr_mod s"
  "s_srcs (set_src i t s) = (s_srcs s)(i := Some t)"
  by (simp_all add: set_src_def)

lemma set_evt_fields [simp]:
  "s_key (set_evt e v s) = s_key s" "s_mods (set_evt e v s) = s_mods s" "s_srcs (set_evt e v s) = s_srcs s"
  "s_next (set_evt e v s) = s_next s" "s_now (set_evt e v s) = s_now s" "s_errno (set_evt e v s) = s_errno s"
  "c_state (set_evt e v s) = c_state s" "c_modules (set_evt e v s) = c_modules s"
  "c_running (set_evt e v s) = c_running s" "c_curr_mod (set_evt e v s) = c_curr_mod s"
  "s_evts (set_evt e v s) = (s_evts s)(e := Some v)"
  by (simp_all add: set_evt_def)

lemma calm_upd_mod [intro]: "(\<And>d. md_state (f d) = md_state d \<and> md_bound (f d) = md_bound d) \<Longrightarrow> calm s (upd_mod m f s)"
  by (auto simp: calm_def st_def fun_eq_iff)

lemma calm_fields [simp]:
  "st (upd_stats m g s) = st s" "st (set_src i t s) = st s" "st (set_evt e v s) = st s"
  "st (close_fd fd s) = st s" "st (set_tree m ty tr s) = st s" "st (fetch_seen m s) = st s"
  "st (s\<lparr>s_errno := a\<rparr>) = st s" "st (s\<lparr>s_srcs := b\<rparr>) = st s" "st (s\<lparr>s_evts := c\<rparr>) = st s"
  "st (s\<lparr>s_freed := d\<rparr>) = st s" "st (s\<lparr>c_thpool := x\<rparr>) = st s" "st (s\<lparr>c_curr_mod := y\<rparr>) = st s"
  "st (s\<lparr>s_next := n\<rparr>) = st s" "st (s\<lparr>c_tick_src := i\<rparr>) = st s" "st (s\<lparr>c_tick_tmr := k\<rparr>) = st s"
  "st (s\<lparr>s_last_time := w\<rparr>) = st s" "st (s\<lparr>c_recv_msgs := w\<rparr>) = st s" "st (s\<lparr>c_idle_time := w\<rparr>) = st s"
  "st (s\<lparr>c_finalized := z\<rparr>) = st s" "st (loop_quit q s) = st s" "st (s\<lparr>s_key := z\<rparr>) = st s"
  by (simp_all add: st_def upd_stats_def fetch_seen_def close_fd_def set_tree_def loop_quit_def fun_eq_iff)

lemma next_fields [simp]:
  "s_next (upd_stats m g s) = s_next s" "s_next (close_fd fd s) = s_next s"
  "s_next (set_tree m ty tr s) = s_next s" "s_next (fetch_seen m s) = s_next s" "s_next (loop_quit q s) = s_next s"
  by (simp_all add: upd_stats_def fetch_seen_def close_fd_def set_tree_def loop_quit_def)

lemma st_upd_mod [simp]:
  "(\<And>d. md_state (f d) = md_state d) \<Longrightarrow> (\<And>d. md_bound (f d) = md_bound d) \<Longrightarrow> st (upd_mod m f s) = st s"
  by (auto simp: st_def fun_eq_iff)

lemma alloc_fields [simp]:
  "st (snd (alloc E s)) = st s" "s_next (snd (alloc E s)) = Suc (s_next s)"
  "s_key (snd (alloc E s)) = s_key s" "s_mods (snd (alloc E s)) = s_mods s" "s_srcs (snd (alloc E s)) = s_srcs s"
  "s_evts (snd (alloc E s)) = s_evts s" "c_modules (snd (alloc E s)) = c_modules s"
  "c_running (snd (alloc E s)) = c_running s" "c_state (snd (alloc E s)) = c_state s"
  "s_freed (snd (alloc E s)) = s_freed s" "c_curr_mod (snd (alloc E s)) = c_curr_mod s"
  by (simp_all add: alloc_def)

lemma foreach_elems_fields [simp]:
  "st (snd (foreach_elems E xs s)) = st s" "s_next s \<le> s_next (snd (foreach_elems E xs s))"
  "s_mods (snd (foreach_elems E xs s)) = s_mods s" "s_srcs (snd (foreach_elems E xs s)) = s_srcs s"
  "s_evts (snd (foreach_elems E xs s)) = s_evts s" "c_modules (snd (foreach_elems E xs s)) = c_modules s"
  "c_running (snd (foreach_elems E xs s)) = c_running s" "s_freed (snd (foreach_elems E xs s)) = s_freed s"
  by (simp_all add: foreach_elems_def case_prod_beta)

lemma foreach_elems_subset: "set (fst (foreach_elems E xs s)) \<subseteq> set xs"
  by (auto simp: foreach_elems_def case_prod_beta split: if_splits)

lemma user_free_calm: "user_free u s = Some s' \<Longrightarrow> calm s s'"
  by (auto simp: user_free_def calm_def split: uptr.splits if_splits)

lemma fold_opt_rel:
  assumes "\<And>x s s'. x \<in> set xs \<Longrightarrow> f x s = Some s' \<Longrightarrow> R s s'"
    and "reflp R" and "transp R" and "fold_opt f xs s = Some s'"
  shows "R s s'"
  using assms(1,4)
proof (induction xs arbitrary: s)
  case Nil
  then show ?case using assms(2) by (simp add: reflpD)
next
  case (Cons x xs)
  then obtain u where u: "f x s = Some u" "fold_opt f xs u = Some s'" by (auto simp: bind_eq_Some_conv)
  have "R u s'" by (rule Cons.IH [OF _ u(2)]) (auto intro: Cons.prems(1))
  moreover have "R s u" using u(1) Cons.prems(1) [of x] by simp
  ultimately show ?case using assms(3) by (meson transpD)
qed

lemmas calm_fold = fold_opt_rel [where R = calm, OF _ calm_preorder]

named_theorems calm

lemma calmI: "st s' = st s \<Longrightarrow> s_next s \<le> s_next s' \<Longrightarrow> calm s s'"
  by (simp add: calm_def)

lemma calmD: "calm s s' \<Longrightarrow> st s' = st s \<and> s_next s \<le> s_next s'"
  by (simp add: calm_def)

lemmas [calm] = user_free_calm

lemma poll_set_new_evt_calm [calm]: "poll_set_new_evt E i op s = Some (r, s') \<Longrightarrow> calm s s'"
  by (auto simp: poll_set_new_evt_def calm_def Let_def case_prod_beta split: option.splits if_splits)

lemma poll_notify_calm [calm]: "poll_notify_userevent E i s = Some (r, s') \<Longrightarrow> calm s s'"
  by (auto simp: poll_notify_userevent_def calm_def Let_def split: option.splits if_splits)

lemma src_priv_dtor_calm [calm]: "src_priv_dtor E i s = Some s' \<Longrightarrow> calm s s'"
  by (auto simp: src_priv_dtor_def calm_def Let_def bind_eq_Some_conv split: option.splits if_splits
      dest!: calm [THEN calmD])

lemma subscribtions_dtor_calm [calm]: "subscribtions_dtor i s = Some s' \<Longrightarrow> calm s s'"
  by (auto simp: subscribtions_dtor_def calm_def split: option.splits if_splits dest!: calm [THEN calmD])

lemma src_ref_calm [calm]: "src_ref i s = Some s' \<Longrightarrow> calm s s'"
  by (auto simp: src_ref_def calm_def split: option.splits if_splits)

lemma src_unref_calm [calm]: "src_unref E i s = Some s' \<Longrightarrow> calm s s'"
  by (auto simp: src_unref_def calm_def bind_eq_Some_conv split: option.splits if_splits src_key.splits
      dest!: calm [THEN calmD])

lemma create_src_fields [simp]:
  "st (snd (create_src E m ty k fl u s)) = st s" "s_next (snd (create_src E m ty k fl u s)) = Suc (s_next s)"
  by (simp_all add: create_src_def Let_def case_prod_beta split: src_key.splits)

lemma srcs_insert_calm [calm]: "srcs_insert E m ty i s = Some (r, s') \<Longrightarrow> calm s s'"
  by (auto simp: srcs_insert_def calm_def bind_eq_Some_conv case_prod_beta split: option.splits if_splits)

lemma srcs_remove_calm [calm]: "srcs_remove E m ty k s = Some (r, s') \<Longrightarrow> calm s s'"
  by (auto simp: srcs_remove_def calm_def bind_eq_Some_conv split: option.splits tree.splits prod.splits
      dest!: calm [THEN calmD])

lemma start_task_fields [simp]:
  "st (snd (start_task E i s)) = st s" "s_next (snd (start_task E i s)) = s_next s"
  by (simp_all add: start_task_def Let_def)

text \<open>A guard passes the result of its continuation on.\<close>

lemma M_MOD_ASSERT_calm:
  assumes "\<And>s r s'. k s = Some (r, s') \<Longrightarrow> calm s s'" and "M_MOD_ASSERT m k s = Some (r, s')"
  shows "calm s s'"
  using assms(2) by (auto simp: M_MOD_ASSERT_def split: if_splits dest: assms(1))

lemma M_MOD_CONSUME_TOKEN_calm:
  assumes "\<And>s r s'. k s = Some (r, s') \<Longrightarrow> calm s s'" and "M_MOD_CONSUME_TOKEN m k s = Some (r, s')"
  shows "calm s s'"
  using assms(2) by (auto simp: M_MOD_CONSUME_TOKEN_def calm_def split: if_splits dest!: assms(1) [THEN calmD])

lemma M_SRC_ASSERT_PRIO_FLAGS_calm:
  assumes "\<And>fl s r s'. k fl s = Some (r, s') \<Longrightarrow> calm s s'" and "M_SRC_ASSERT_PRIO_FLAGS fl k s = Some (r, s')"
  shows "calm s s'"
  using assms(2) by (auto simp: M_SRC_ASSERT_PRIO_FLAGS_def split: if_splits dest: assms(1))

lemma M_RET_ASSERT_calm:
  assumes "\<And>s r s'. k s = Some (r, s') \<Longrightarrow> calm s s'" and "M_RET_ASSERT c e k s = Some (r, s')"
  shows "calm s s'"
  using assms(2) by (auto simp: M_RET_ASSERT_def split: if_splits dest: assms(1))

lemma M_MOD_ASSERT_PERM_calm:
  assumes "\<And>s r s'. k s = Some (r, s') \<Longrightarrow> calm s s'" and "M_MOD_ASSERT_PERM m p k s = Some (r, s')"
  shows "calm s s'"
  using assms(2) unfolding M_MOD_ASSERT_PERM_def
  by (rule M_MOD_ASSERT_calm [rotated]) (auto split: if_splits dest: assms(1))

lemma M_MOD_ASSERT_STATE_calm:
  assumes "\<And>s r s'. k s = Some (r, s') \<Longrightarrow> calm s s'" and "M_MOD_ASSERT_STATE m p k s = Some (r, s')"
  shows "calm s s'"
  using assms(2) unfolding M_MOD_ASSERT_STATE_def
  by (rule M_MOD_ASSERT_calm [rotated]) (auto split: if_splits dest: assms(1))

lemma M_CTX_ASSERT_calm:
  assumes "\<And>s r s'. k s = Some (r, s') \<Longrightarrow> calm s s'" and "M_CTX_ASSERT k s = Some (r, s')"
  shows "calm s s'"
  using assms(2) by (auto simp: M_CTX_ASSERT_def split: if_splits dest: assms(1))

lemmas calm_asserts = M_MOD_ASSERT_PERM_calm [rotated] M_MOD_ASSERT_STATE_calm [rotated]
  M_MOD_ASSERT_calm [rotated] M_CTX_ASSERT_calm [rotated] M_RET_ASSERT_calm [rotated]
  M_MOD_CONSUME_TOKEN_calm [rotated] M_SRC_ASSERT_PRIO_FLAGS_calm [rotated]

lemma register_mod_src_calm [calm]: "register_mod_src E m ty k fl u s = Some (r, s') \<Longrightarrow> calm s s'"
  unfolding register_mod_src_def
  by (elim calm_asserts) (auto simp: calm_def bind_eq_Some_conv Let_def case_prod_beta
      split: if_splits dest!: calm [THEN calmD])

lemma deregister_mod_src_calm [calm]: "deregister_mod_src E m ty k s = Some (r, s') \<Longrightarrow> calm s s'"
  unfolding deregister_mod_src_def by (elim calm_asserts) (rule calm)

lemma register_ctx_src_calm [calm]: "register_ctx_src E ty k s = Some (r, s') \<Longrightarrow> calm s s'"
  by (auto simp: register_ctx_src_def calm_def bind_eq_Some_conv Let_def case_prod_beta split: if_splits
      dest!: calm [THEN calmD])

lemma deregister_ctx_src_calm [calm]: "deregister_ctx_src E s = Some s' \<Longrightarrow> calm s s'"
  by (auto simp: deregister_ctx_src_def calm_def bind_eq_Some_conv split: if_splits prod.splits
      dest!: calm [THEN calmD])

lemma register_src_calm [calm]:
  "m_mod_src_register_fd E m fd fl p s = Some (r, s') \<Longrightarrow> calm s s'"
  "m_mod_src_deregister_fd E m fd s = Some (r, s') \<Longrightarrow> calm s s'"
  by (auto simp: m_mod_src_register_fd_def m_mod_src_deregister_fd_def Let_def elim!: calm_asserts dest: calm)

lemma register_tmr_calm [calm]:
  "m_mod_src_register_tmr E m tk fl u s = Some (r, s') \<Longrightarrow> calm s s'"
  "m_mod_src_deregister_tmr E m tk s = Some (r, s') \<Longrightarrow> calm s s'"
  by (auto simp: m_mod_src_register_tmr_def m_mod_src_deregister_tmr_def
      split: option.splits elim!: calm_asserts dest: calm)

lemma register_sgn_calm [calm]:
  "m_mod_src_register_sgn E m sk fl p s = Some (r, s') \<Longrightarrow> calm s s'"
  "m_mod_src_deregister_sgn E m sk s = Some (r, s') \<Longrightarrow> calm s s'"
  by (auto simp: m_mod_src_register_sgn_def m_mod_src_deregister_sgn_def
      split: option.splits elim!: calm_asserts dest: calm)

lemma register_path_calm [calm]:
  "m_mod_src_register_path E m pk fl p s = Some (r, s') \<Longrightarrow> calm s s'"
  "m_mod_src_deregister_path E m pk s = Some (r, s') \<Longrightarrow> calm s s'"
  by (auto simp: m_mod_src_register_path_def m_mod_src_deregister_path_def
      split: option.splits elim!: calm_asserts dest: calm)

lemma register_pid_calm [calm]:
  "m_mod_src_register_pid E m ik fl p s = Some (r, s') \<Longrightarrow> calm s s'"
  "m_mod_src_deregister_pid E m ik s = Some (r, s') \<Longrightarrow> calm s s'"
  by (auto simp: m_mod_src_register_pid_def m_mod_src_deregister_pid_def
      split: option.splits elim!: calm_asserts dest: calm)

lemma register_task_thresh_calm [calm]:
  "m_mod_src_register_task E m k fl p s = Some (r, s') \<Longrightarrow> calm s s'"
  "m_mod_src_register_thresh E m hk fl p s = Some (r, s') \<Longrightarrow> calm s s'"
  "m_mod_src_deregister_thresh E m hk s = Some (r, s') \<Longrightarrow> calm s s'"
  by (auto simp: m_mod_src_register_task_def m_mod_src_register_thresh_def m_mod_src_deregister_thresh_def
      split: option.splits elim!: calm_asserts dest: calm)

subsection \<open>Messages and events\<close>

lemma calm_foreach_elems: "calm (snd (foreach_elems E xs s)) s' \<Longrightarrow> calm s s'"
  by (erule calm_trans [rotated]) (simp add: calm_def)

lemma count_src_state: "count_src i x = Some y \<Longrightarrow> snd y = snd x"
  by (cases x) (auto simp: count_src_def split: option.splits)

lemma count_list_calm: "count_list E is x = Some y \<Longrightarrow> calm (snd x) (snd y)"
proof (rule calm_foreach_elems [of E "is"])
  assume "count_list E is x = Some y"
  then have "fold_opt count_src (fst (foreach_elems E is (snd x))) (fst x, snd (foreach_elems E is (snd x))) = Some y"
    by (simp add: count_list_def case_prod_beta)
  then have "snd (fst x, snd (foreach_elems E is (snd x))) = snd y"
    by (rule fold_opt_rel [where R = "\<lambda>x y. snd x = snd y", rotated -1])
       (simp_all add: count_src_state reflp_def transp_def)
  then show "calm (snd (foreach_elems E is (snd x))) (snd y)" by simp
qed

lemma m_mod_src_len_calm [calm]: "m_mod_src_len E m ty s = Some (r, s') \<Longrightarrow> calm s s'"
proof (unfold m_mod_src_len_def, elim calm_asserts)
  fix s r s'
  assume "do {
     r \<leftarrow> count_list E (case md_subs (s_mods s m) of None \<Rightarrow> [] | Some subs \<Rightarrow> List.map (snd \<circ> snd) subs) (0, s);
     fold_opt (\<lambda>ty r. count_list E (srcs_list m ty (snd r)) r) (tl src_types) r } = Some (r, s')"
  then obtain x where x: "calm s (snd x)"
    "fold_opt (\<lambda>ty r. count_list E (srcs_list m ty (snd r)) r) (tl src_types) x = Some (r, s')"
    by (auto simp: bind_eq_Some_conv dest!: count_list_calm)
  have "calm (snd x) (snd (r, s'))"
    by (rule fold_opt_rel [where R = "\<lambda>x y. calm (snd x) (snd y)", OF _ _ _ x(2)])
       (auto intro: reflpI transpI calm_trans count_list_calm)
  with x(1) show "calm s s'" by (auto intro: calm_trans)
qed

lemma ps_msg_dtor_calm [calm]: "ps_msg_dtor x s = Some s' \<Longrightarrow> calm s s'"
  by (auto simp: ps_msg_dtor_def split: if_splits dest: calm)

lemma evt_dtor_calm [calm]: "evt_dtor E v s = Some s' \<Longrightarrow> calm s s'"
  by (cases "ev_data v") (auto simp: evt_dtor_def calm_def bind_eq_Some_conv dest!: calm [THEN calmD])

lemma evt_ref_calm [calm]: "evt_ref e s = Some s' \<Longrightarrow> calm s s'"
  by (auto simp: evt_ref_def calm_def split: if_splits option.splits)

lemma evt_unref_calm [calm]: "evt_unref E e s = Some s' \<Longrightarrow> calm s s'"
  by (auto simp: evt_unref_def calm_def bind_eq_Some_conv split: if_splits option.splits dest!: calm [THEN calmD])

lemma new_evt_calm [calm]: "new_evt E i s = Some (e, s') \<Longrightarrow> calm s s'"
  by (auto simp: new_evt_def calm_def bind_eq_Some_conv case_prod_beta split: if_splits dest!: calm [THEN calmD])

lemma pair_fields [simp]:
  "st (snd (alloc_ps_msg E x i s)) = st s" "s_next (snd (alloc_ps_msg E x i s)) = Suc (s_next s)"
  "s_mods (snd (alloc_ps_msg E x i s)) = s_mods s"
  "st (snd (new_queue E s)) = st s" "s_next (snd (new_queue E s)) = Suc (s_next s)"
  "s_mods (snd (new_queue E s)) = s_mods s"
  by (simp_all add: alloc_ps_msg_def new_queue_def case_prod_beta)

lemma enqueue_fields [simp]:
  "st (snd (snd (enqueue E q e s))) = st s" "s_next s \<le> s_next (snd (snd (enqueue E q e s)))"
  "s_mods (snd (snd (enqueue E q e s))) = s_mods s"
  by (auto simp: enqueue_def case_prod_beta split: option.splits)

lemma free_queue_calm [calm]: "free_queue E q s = Some s' \<Longrightarrow> calm s s'"
  by (auto simp: free_queue_def split: option.splits intro: calm_fold [rotated] dest: calm)

lemma fetch_sub_calm [calm]: "fetch_sub E m t s = Some (i, s') \<Longrightarrow> calm s s'"
  by (auto simp: fetch_sub_def calm_def bind_eq_Some_conv case_prod_beta split: if_splits)

lemma tell_if_calm [calm]: "tell_if E x k m s = Some (r, s') \<Longrightarrow> calm s s'"
  by (auto simp: tell_if_def Let_def calm_def case_prod_beta split: if_splits option.splits)

lemma foreach_calm:
  assumes "\<And>x s s'. x \<in> set xs \<Longrightarrow> f x s = Some s' \<Longrightarrow> calm s s'" and "foreach E xs f s = Some s'"
  shows "calm s s'"
proof -
  have "calm (snd (foreach_elems E xs s)) s'"
    by (rule calm_fold [of "fst (foreach_elems E xs s)" f])
       (use assms foreach_elems_subset [of E xs s] in \<open>auto simp: foreach_def case_prod_beta\<close>)
  then show ?thesis by (rule calm_foreach_elems)
qed

lemma tell_subscribers_calm [calm]: "tell_subscribers E x t s = Some s' \<Longrightarrow> calm s s'"
  unfolding tell_subscribers_def
  by (erule foreach_calm [rotated])
     (auto simp: bind_eq_Some_conv calm_def split: if_splits dest!: calm [THEN calmD])

text \<open>A walk over the modules keeps any reflexive and transitive relation its callback keeps.\<close>

lemma modules_walk_rel:
  assumes "\<And>m s r s'. m \<in> snd ` set (c_modules s) \<Longrightarrow> fn m s = Some (r, s') \<Longrightarrow> R s s'"
    and "reflp R" and "transp R"
    and "modules_walk fn i s = Some r"
  shows "R s (snd r)"
proof -
  have "(\<forall>m s r s'. m \<in> snd ` set (c_modules s) \<longrightarrow> fn m s = Some (r, s') \<longrightarrow> R s s') \<longrightarrow> R s (snd r)"
  proof (rule modules_walk.raw_induct [OF _ assms(4)], rule impI)
    fix walk and fn :: "mid \<Rightarrow> api" and i s r
    assume IH: "\<And>fn i s r. walk fn i s = Some r \<Longrightarrow>
        (\<forall>m s r s'. m \<in> snd ` set (c_modules s) \<longrightarrow> fn m s = Some (r, s') \<longrightarrow> R s s') \<longrightarrow> R s (snd r)"
      and fn: "\<forall>m s r s'. m \<in> snd ` set (c_modules s) \<longrightarrow> fn m s = Some (r, s') \<longrightarrow> R s s'"
      and body: "(if length (c_modules s) \<le> i then Some (0, s)
        else let m = snd (c_modules s ! i) in do {
          (rc, s') \<leftarrow> fn m s;
          if rc < 0 then Some (rc, s')
          else if 0 < rc then Some (0, s')
          else if \<not> (i < length (c_modules s') \<and> key_of s' (snd (c_modules s' ! i)) = key_of s m) then walk fn i s'
          else if length (c_modules s') \<noteq> length (c_modules s) then Some (- EACCES, s')
          else walk fn (i + 1) s' }) = Some r"
    show "R s (snd r)"
    proof (cases "i < length (c_modules s)")
      case True
      let ?m = "snd (c_modules s ! i)"
      obtain rc s1 where s1: "fn ?m s = Some (rc, s1)" using body True by (auto simp: bind_eq_Some_conv Let_def)
      have R1: "R s s1" using fn s1 True by (meson image_eqI nth_mem)
      have "R s1 (snd r)" if "walk fn j s1 = Some r" for j using IH [OF that] fn by blast
      then have "R s (snd r)" if "walk fn j s1 = Some r" for j using that R1 assms(3) by (meson transpD)
      then show ?thesis using body True s1 R1 by (auto simp: Let_def split: if_splits)
    next
      case False
      with body show ?thesis using assms(2) by (auto simp: reflpD)
    qed
  qed
  then show ?thesis using assms(1) by metis
qed

lemma iterate_modules_rel:
  assumes "\<And>m s r s'. m \<in> snd ` set (c_modules s) \<Longrightarrow> fn m s = Some (r, s') \<Longrightarrow> R s s'"
    and "reflp R" and "transp R"
    and "iterate_modules fn s = Some (r, s')"
  shows "R s s'"
proof (cases "c_modules s = []")
  case True
  with assms(2,4) show ?thesis by (simp add: iterate_modules_def reflpD)
next
  case False
  then have "modules_walk fn 0 s = Some (r, s')" using assms(4) by (simp add: iterate_modules_def)
  from modules_walk_rel [where R = R, OF _ assms(2,3) this] assms(1) show ?thesis by simp
qed

lemmas calm_modules = iterate_modules_rel [where R = calm, OF _ calm_preorder]

lemma tell_pubsub_msg_calm [calm]:
  assumes "tell_pubsub_msg E x m s = Some (r, s')"
  shows "calm s s'"
proof (cases "m \<noteq> NULL")
  case True
  with assms show ?thesis by (auto simp: tell_pubsub_msg_def bind_eq_Some_conv dest: tell_if_calm)
next
  case False
  show ?thesis
  proof (cases "ps_topic x")
    case None
    with assms False obtain r where "iterate_modules (tell_if E x NULL) s = Some (r, s')"
      by (auto simp: tell_pubsub_msg_def bind_eq_Some_conv)
    then show ?thesis by (rule calm_modules [rotated]) (rule tell_if_calm)
  next
    case (Some t)
    with assms False show ?thesis
      by (auto simp: tell_pubsub_msg_def bind_eq_Some_conv dest: tell_subscribers_calm)
  qed
qed

lemma tell_system_calm [calm]: "tell_system_pubsub_msg E m n t s = Some (r, s') \<Longrightarrow> calm s s'"
  unfolding tell_system_pubsub_msg_def
  by (drule calm) (auto simp: calm_def split: if_splits)

lemma send_msg_calm [calm]: "send_msg E m n t x fl s = Some (r, s') \<Longrightarrow> calm s s'"
  unfolding send_msg_def by (elim calm_asserts) (auto simp: calm_def dest!: calm [THEN calmD])

lemma flush_loop_calm [calm]: "flush_loop E b m ms q s = Some (q', s') \<Longrightarrow> calm s s'"
proof (induction ms arbitrary: q s)
  case Nil
  then show ?case by (auto simp: calm_def)
next
  case (Cons x ms)
  have drop: "calm t s'" if "Option.bind (ps_msg_dtor x t) (flush_loop E b m ms q) = Some (q', s')" for t q
    using that by (auto simp: bind_eq_Some_conv intro: calm_trans Cons.IH calm)
  show ?case
  proof (cases "\<not> b \<and> m_mod_is m [M_MOD_RUNNING] s")
    case False
    with Cons.prems drop show ?thesis by auto
  next
    case True
    then obtain e s1 where e: "new_evt E (ps_sub x) s = Some (e, s1)"
      using Cons.prems by (auto simp: bind_eq_Some_conv)
    note s1 = new_evt_calm [OF e]
    show ?thesis
    proof (cases "e \<noteq> NULL \<and> q \<noteq> None")
      case False
      with Cons.prems True e drop [of s1 q] show ?thesis by (auto intro: calm_trans s1)
    next
      case False': True
      obtain v where v: "s_evts s1 e = Some v" using Cons.prems True e False' by (auto simp: bind_eq_Some_conv)
      obtain r q2 s2 where q2: "enqueue E q e (set_evt e (v\<lparr>ev_data := PsData x\<rparr>) s1) = (r, q2, s2)"
        by (cases "enqueue E q e (set_evt e (v\<lparr>ev_data := PsData x\<rparr>) s1)")
      have "calm s1 (snd (snd (enqueue E q e (set_evt e (v\<lparr>ev_data := PsData x\<rparr>) s1))))"
        unfolding calm_def using enqueue_fields(2) [of "set_evt e (v\<lparr>ev_data := PsData x\<rparr>) s1"]
        by (simp add: enqueue_fields(1))
      then have "calm s1 s2" using q2 by simp
      moreover have "calm s2 s'" by (rule Cons.IH [of q2]) (use Cons.prems True e False' v q2 in simp)
      ultimately show ?thesis using s1 by (blast intro: calm_trans)
    qed
  qed
qed

lemma set_slot_insert: "set (slot_insert E k v xs) = insert (k, v) (set xs)"
  unfolding slot_insert_def
  by (metis Un_insert_right list.simps(15) set_append takeWhile_dropWhile_id)

lemma put_sub_calm [calm]: "put_sub E m t o' i s = Some (r, s') \<Longrightarrow> calm s s'"
  by (auto simp: put_sub_def calm_def bind_eq_Some_conv Let_def split: if_splits dest!: calm [THEN calmD])

lemma remove_sub_calm [calm]: "remove_sub E m t s = Some (r, s') \<Longrightarrow> calm s s'"
  by (auto simp: remove_sub_def calm_def bind_eq_Some_conv Let_def split: if_splits option.splits list.splits
      dest!: calm [THEN calmD])

lemma subscribe_calm [calm]: "m_mod_ps_subscribe E m t fl u s = Some (r, s') \<Longrightarrow> calm s s'"
  unfolding m_mod_ps_subscribe_def
  by (elim calm_asserts) (auto simp: calm_def bind_eq_Some_conv Let_def case_prod_beta
      split: if_splits option.splits dest!: calm [THEN calmD])

lemma ps_calm [calm]:
  "m_mod_ps_unsubscribe E m t s = Some (r, s') \<Longrightarrow> calm s s'"
  "m_mod_ps_tell E m n x fl s = Some (r, s') \<Longrightarrow> calm s s'"
  "m_mod_ps_publish E m t x fl s = Some (r, s') \<Longrightarrow> calm s s'"
  "m_mod_ps_poisonpill E m n s = Some (r, s') \<Longrightarrow> calm s s'"
  unfolding m_mod_ps_unsubscribe_def m_mod_ps_tell_def m_mod_ps_publish_def m_mod_ps_poisonpill_def
  by (elim calm_asserts, (auto simp: calm_def bind_eq_Some_conv split: if_splits dest!: calm [THEN calmD])[1])+

lemma evts_calm [calm]:
  "m_mod_become E m cb s = Some (r, s') \<Longrightarrow> calm s s'"
  "m_mod_unbecome m s = Some (r, s') \<Longrightarrow> calm s s'"
  "m_mod_set_batch_size m n s = Some (r, s') \<Longrightarrow> calm s s'"
  unfolding m_mod_become_def m_mod_unbecome_def m_mod_set_batch_size_def
  by (elim calm_asserts, (auto simp: calm_def case_prod_beta split: if_splits list.splits)[1])+

lemma stash_calm [calm]: "m_mod_stash E m e s = Some (r, s') \<Longrightarrow> calm s s'"
  unfolding m_mod_stash_def
  by (elim calm_asserts) (auto simp: calm_def case_prod_beta bind_eq_Some_conv
      split: if_splits dest!: calm [THEN calmD] intro: le_trans [OF _ enqueue_fields(2)])

lemma set_batch_timeout_calm [calm]: "m_mod_set_batch_timeout E m n s = Some (r, s') \<Longrightarrow> calm s s'"
  unfolding m_mod_set_batch_timeout_def
  by (elim calm_asserts) (auto simp: calm_def bind_eq_Some_conv Let_def
      split: if_splits dest!: calm [THEN calmD])

lemma set_tokenbucket_calm [calm]: "m_mod_set_tokenbucket E m n b s = Some (r, s') \<Longrightarrow> calm s s'"
  unfolding m_mod_set_tokenbucket_def
  by (elim calm_asserts) (auto simp: calm_def bind_eq_Some_conv Let_def
      split: if_splits dest!: calm [THEN calmD])

lemma init_pubsub_fd_calm [calm]: "init_pubsub_fd E m s = Some (r, s') \<Longrightarrow> calm s s'"
  by (auto simp: init_pubsub_fd_def mod_pipe_def calm_def bind_eq_Some_conv Let_def case_prod_beta
      split: if_splits option.splits dest!: calm [THEN calmD])

lemma process_ps_calm: "process_ps E i e s = Some (p, s') \<Longrightarrow> calm s s'"
proof -
  assume ps: "process_ps E i e s = Some (p, s')"
  then obtain t v where t: "s_srcs s i = Some t" "s_evts s e = Some v"
    by (auto simp: process_ps_def bind_eq_Some_conv)
  show ?thesis
  proof (cases "if es_fd t = md_fd0 (s_mods s (es_mod t)) then md_pipe (s_mods s (es_mod t)) else []")
    case Nil
    with ps t show ?thesis by (auto simp: process_ps_def Let_def calm_def)
  next
    case (Cons x xs)
    with ps t show ?thesis
      by (auto simp: process_ps_def Let_def bind_eq_Some_conv calm_def dest!: calm [THEN calmD])
  qed
qed

lemma process_calm [calm]: "src_procs_map E ty i e s = Some (p, s') \<Longrightarrow> calm s s'"
proof -
  have read [simp]: "st (snd (read_src E t u)) = st u" "s_next (snd (read_src E t u)) = s_next u" for t u
    by (simp_all add: read_src_def Let_def)
  have payload: "calm s s'" if "with_payload E f i e s = Some (p, s')" and
      f: "\<And>t u d v. f t u = Some (d, v) \<Longrightarrow> calm u v" for f
  proof -
    from that(1) obtain t d v w where "f t (snd (alloc E s)) = Some (d, v)" "s' = set_evt e w v"
      by (auto simp: with_payload_def case_prod_beta bind_eq_Some_conv split: if_splits)
    moreover from this(1) have "calm (snd (alloc E s)) v" by (rule f)
    ultimately show ?thesis by (simp add: calm_def)
  qed
  assume "src_procs_map E ty i e s = Some (p, s')"
  then show ?thesis
    unfolding src_procs_map_def process_fd_def process_tmr_def process_sgn_def process_path_def
      process_pid_def process_task_def process_thresh_def poll_consume_tmr_def poll_consume_sgn_def
      poll_consume_pt_def poll_consume_pid_def poll_consume_task_def poll_consume_thresh_def
    by (cases ty; simp only: m_src_types.case)
       (erule process_ps_calm |
        (erule payload, (auto simp: calm_def case_prod_beta split: src_key.splits option.splits if_splits)[1]))+
qed

end
