(* ===== verification/Demo.thy ===== *)
theory Demo
  imports Calm
begin

text \<open>
  A machine and a state to try calls on, and the definitions that a call on a concrete state
  runs through, which is how the properties of the core are tried out.
\<close>

subsection \<open>A machine and a state to start from\<close>

text \<open>
  A machine on which every call succeeds and nothing is ready, and a thread before its first
  call: no context, no module.
\<close>

definition good_env :: env where
  "good_env = \<lparr>e_ctl = \<lambda>_ _ _. (0, 0), e_timerfd = \<lambda>_ _ _ _ s. int (s_next s) + 10,
     e_signalfd = \<lambda>_ s. int (s_next s) + 10, e_inotify = \<lambda>_ _ s. int (s_next s) + 10,
     e_pidfd = \<lambda>_ s. int (s_next s) + 10, e_eventfd = \<lambda>s. int (s_next s) + 10,
     e_dup = \<lambda>_ s. int (s_next s) + 10, e_pipe = \<lambda>s. Some (2 * int (s_next s) + 100, 2 * int (s_next s) + 101),
     e_room = 64, e_match = (=), e_regcomp = \<lambda>_. 0, e_dlopen = \<lambda>_. None, e_mem = \<lambda>_. True,
     e_thpool = \<lambda>_. True, e_task = \<lambda>_ _. 0, e_taskfn = \<lambda>_ _ _. 0, e_read = \<lambda>_ _. 0,
     e_inotify_evt = \<lambda>_ _. (16, 0), e_notify = \<lambda>_ _. 0, e_epoll = \<lambda>_. 3, e_wait = \<lambda>_ _. Inr [],
     e_slot = length, e_grow = \<lambda>_ _. True, e_freq = \<lambda>_ _. 0, e_dge = \<lambda>_ _. False, e_thresh = \<lambda>_ _. 0\<rparr>"

lemma good_env_sel [simp]:
  "e_ctl good_env = (\<lambda>_ _ _. (0, 0))" "e_pipe good_env = (\<lambda>s. Some (2 * int (s_next s) + 100, 2 * int (s_next s) + 101))"
  "e_room good_env = 64" "e_match good_env = (=)" "e_regcomp good_env = (\<lambda>_. 0)" "e_mem good_env = (\<lambda>_. True)"
  "e_thpool good_env = (\<lambda>_. True)" "e_task good_env = (\<lambda>_ _. 0)" "e_read good_env = (\<lambda>_ _. 0)"
  "e_notify good_env = (\<lambda>_ _. 0)" "e_epoll good_env = (\<lambda>_. 3)" "e_wait good_env = (\<lambda>_ _. Inr [])"
  "e_slot good_env = length" "e_grow good_env = (\<lambda>_ _. True)" "e_dup good_env = (\<lambda>_ s. int (s_next s) + 10)"
  by (simp_all add: good_env_def)

lemma script_hooks_sel [simp]:
  "h_start (script_hooks E P (Suc n)) f m s = map_option (\<lambda>s'. (snd (p_start P f m) s', s'))
     (run_script E (script_hooks E P n) (\<lambda>_. True) (fst (p_start P f m)) s)"
  "h_eval (script_hooks E P (Suc n)) f m s = map_option (\<lambda>s'. (snd (p_eval P f m) s', s'))
     (run_script E (script_hooks E P n) calm_call (fst (p_eval P f m)) s)"
  "h_stop (script_hooks E P (Suc n)) f m s = run_script E (script_hooks E P n) calm_call (p_stop P f m) s"
  "h_evt (script_hooks E P (Suc n)) f m evts s = run_script E (script_hooks E P n) (\<lambda>_. True) (p_evt P f m evts) s"
  by (simp_all add: Let_def)

declare script_hooks.simps(2) [simp del]

definition new_sys :: sys where
  "new_sys = \<lparr>s_key = False, s_mods = \<lambda>_. new_mod 0 NULL, s_srcs = \<lambda>_. None, s_evts = \<lambda>_. None,
     s_next = 0, s_now = 0, s_errno = 0, s_closed = [], s_freed = [], s_last_time = 0,
     c_state = M_CTX_IDLE, c_quit = False, c_quit_code = 0, c_finalized = False, c_flags = 0,
     c_modules = [], c_curr_mod = NULL, c_max_events = 0, c_looping_start = 0, c_idle_time = 0,
     c_recv_msgs = 0, c_running = 0, c_thpool = False, c_tick_tmr = (0, 0), c_tick_src = NULL,
     c_name = [], c_name_at = NULL, c_userdata = NULL, c_logger = None, c_priv = False, c_epfd = 0, c_pevents = False\<rparr>"

text \<open>Hooks of a module whose event callback is at address 1, and no program behind any of them.\<close>

definition evt_hook :: m_mod_hook where
  "evt_hook = \<lparr>on_start = NULL, on_eval = NULL, on_evt = 1, on_stop = NULL\<rparr>"

definition no_program :: program where
  "no_program = \<lparr>p_start = \<lambda>_ _. ([], \<lambda>_. True), p_eval = \<lambda>_ _. ([], \<lambda>_. True), p_stop = \<lambda>_ _. [], p_evt = \<lambda>_ _ _. []\<rparr>"

text \<open>Two modules in use, number 1 running and number 2 idle.\<close>

definition live_mod :: m_mod where
  "live_mod = (new_mod 0 NULL)\<lparr>md_state := M_MOD_RUNNING, md_hook := evt_hook, md_fd0 := 100, md_fd1 := 101,
     md_name := ''a'', md_name_at := 7, md_batch_events := Some [], md_tb_burst := 1000, md_tb_tokens := 1000,
     md_srcs := \<lambda>_. Some Leaf\<rparr>"

definition live_sys :: sys where
  "live_sys = new_sys\<lparr>s_key := True, c_name := ''main'', c_name_at := 6, c_priv := True, c_epfd := 3, s_next := 9, c_modules := [(''a'', 1), (''bb'', 2)], c_running := 1,
     s_mods := (\<lambda>_. new_mod 0 NULL)(1 := live_mod,
       2 := live_mod\<lparr>md_name := ''bb'', md_name_at := 8, md_hook := evt_hook\<lparr>on_start := 5\<rparr>,
            md_state := M_MOD_IDLE, md_fd0 := -1, md_fd1 := -1\<rparr>)\<rparr>"

text \<open>The definitions that a call on a concrete state runs through.\<close>

lemmas run_guards = M_MOD_ASSERT_STATE_def M_MOD_ASSERT_PERM_def M_MOD_ASSERT_def M_RET_ASSERT_def M_CTX_ASSERT_def
  m_mod_is_def m_ctx_def M_MOD_CONSUME_TOKEN_def M_SRC_ASSERT_PRIO_FLAGS_def prio_ok_def prio_fill_def
  fetch_seen_def upd_stats_def upd_mod_def set_src_def set_evt_def has_def str_not_empty_def

lemmas run_flags = M_SRC_PRIO_LOW_def M_SRC_PRIO_NORM_def M_SRC_PRIO_HIGH_def M_SRC_AUTOFREE_def M_SRC_ONESHOT_def
  M_SRC_DUP_def M_SRC_FD_AUTOCLOSE_def M_SRC_TMR_ABSOLUTE_def M_SRC_INTERNAL_def M_SRC_PRIO_MASK_def M_PS_AUTOFREE_def

lemmas run_state = live_sys_def new_sys_def live_mod_def new_mod_def evt_hook_def no_program_def

lemmas run_modules = start_def stop_def manage_srcs_def manage_src_def src_types_def srcs_list_def foreach_def
  foreach_elems_def alloc_def bound_walk.simps bound_rest_def with_bound_def optional_hook_def init_pubsub_fd_def mod_pipe_def
  m_mod_start_def start_one_def m_mod_pause_def pause_one_def m_mod_resume_def resume_one_def m_mod_stop_def stop_one_def
  reset_module_def clear_subs_def free_queue_def close_fd_def

lemmas run_srcs = register_mod_src_def deregister_mod_src_def create_src_def srcs_insert_def srcs_remove_def
  set_tree_def poll_set_new_evt_def create_priv_fd_def src_ref_def src_unref_def src_priv_dtor_def
  subscribtions_dtor_def user_free_def node_cmp_def src_cmp_map_def

lemmas run_ps = tell_system_pubsub_msg_def tell_pubsub_msg_def tell_subscribers_def tell_if_def alloc_ps_msg_def
  fetch_sub_def get_sub_def send_msg_def flush_pubsub_msgs_def new_queue_def call_pubsub_cb_def queue_len_def

lemmas run_api = run_call_def real_mods_def m_ctx_quit_def m_ctx_len_def loop_quit_def

lemmas run_defs = run_guards run_flags run_state run_modules run_srcs run_ps run_api

end
