(* ===== verification/Running.thy ===== *)
theory Running
  imports Demo
begin

text \<open>
  The number of running modules that the loop goes by. What an operation may do to the states
  of modules is proved once for any client whose callbacks keep the laws of the locale
  \<open>client\<close>, which clients made of scripts of calls do.
\<close>

subsection \<open>The invariant\<close>

definition running :: "sys \<Rightarrow> mid set" where
  "running s = {m. md_state (s_mods s m) = M_MOD_RUNNING}"

definition core_ok :: "sys \<Rightarrow> bool" where
  "core_ok s \<longleftrightarrow> c_running s = of_nat (card (running s)) \<and> (\<forall>m\<in>running s. m \<noteq> NULL \<and> m \<le> s_next s) \<and>
     (\<forall>m\<in>snd ` set (c_modules s). m \<le> s_next s) \<and> (\<forall>m. \<forall>b\<in>set (md_bound (s_mods s m)). b \<le> s_next s)"

definition evolves :: "sys \<Rightarrow> sys \<Rightarrow> bool" where
  "evolves s s' \<longleftrightarrow> (core_ok s \<longrightarrow> core_ok s' \<and> s_next s \<le> s_next s')"

lemma evolves_refl [simp, intro]: "evolves s s"
  by (simp add: evolves_def)

lemma evolves_trans [trans]: "evolves s t \<Longrightarrow> evolves t u \<Longrightarrow> evolves s u"
  by (auto simp: evolves_def)

lemma evolves_preorder: "reflp evolves" "transp evolves"
  by (auto intro: reflpI transpI evolves_trans)

lemma evolvesD: "evolves s s' \<Longrightarrow> core_ok s \<Longrightarrow> core_ok s' \<and> s_next s \<le> s_next s'"
  by (simp add: evolves_def)

lemma core_ok_mono:
  assumes "core_ok s" and "c_running s' = c_running s" and "s_next s \<le> s_next s'"
    and "\<And>m. md_state (s_mods s' m) = M_MOD_RUNNING \<longleftrightarrow> md_state (s_mods s m) = M_MOD_RUNNING"
    and "\<And>m. set (md_bound (s_mods s' m)) \<subseteq> set (md_bound (s_mods s m))"
    and "set (c_modules s') \<subseteq> set (c_modules s)"
  shows "core_ok s'"
proof -
  have "running s' = running s" using assms(4) by (simp add: running_def)
  with assms show ?thesis unfolding core_ok_def by (metis (no_types, lifting) image_mono order_trans subsetD)
qed

lemma calm_core_ok: "calm s s' \<Longrightarrow> core_ok s \<Longrightarrow> core_ok s'"
  by (rule core_ok_mono [of s s']) (auto simp: calm_def st_def fun_eq_iff)

lemma calm_evolves [intro]: "calm s s' \<Longrightarrow> evolves s s'"
  using calm_core_ok by (auto simp: evolves_def calm_def)

lemma running_finite: "core_ok s \<Longrightarrow> finite (running s)"
  by (rule finite_subset [of _ "{..s_next s}"]) (auto simp: core_ok_def)

text \<open>What a guard that does not refuse leaves its continuation with.\<close>

lemma consume_cases:
  assumes "M_MOD_CONSUME_TOKEN m k s = Some (r, s')"
  obtains "s' = s" and "r \<noteq> 0" | s1 where "calm s s1" and "k s1 = Some (r, s')"
proof (cases "md_tb_tokens (s_mods s m) > 0")
  case True
  let ?s1 = "fetch_seen m (upd_mod m (\<lambda>d. d\<lparr>md_tb_tokens := md_tb_tokens d - 1\<rparr>) s)"
  have "calm s ?s1" by (simp add: calm_def)
  with True assms that(2) [of ?s1] show ?thesis by (simp add: M_MOD_CONSUME_TOKEN_def)
qed (use assms that(1) in \<open>auto simp: M_MOD_CONSUME_TOKEN_def\<close>)

lemma assert_state_cases:
  assumes "M_MOD_ASSERT_STATE m sts k s = Some (r, s')"
  obtains "s' = s" and "r \<noteq> 0" | "m_mod_is m sts s" and "k s = Some (r, s')"
  using assms that by (auto simp: M_MOD_ASSERT_STATE_def M_MOD_ASSERT_def split: if_splits)

lemma assert_cases:
  assumes "M_MOD_ASSERT m k s = Some (r, s')"
  obtains "s' = s" and "r \<noteq> 0" | "m \<noteq> NULL" and "md_state (s_mods s m) \<noteq> M_MOD_ZOMBIE" and "k s = Some (r, s')"
  using assms that by (auto simp: M_MOD_ASSERT_def m_mod_is_def split: if_splits)

text \<open>Changing the state of one module, with the count that goes with it.\<close>

lemma core_ok_run:
  assumes "core_ok s" and "m \<notin> running s" and "m \<noteq> NULL" and "m \<le> s_next s"
  shows "core_ok ((upd_mod m (\<lambda>d. d\<lparr>md_state := M_MOD_RUNNING\<rparr>) s)\<lparr>c_running := c_running s + 1\<rparr>)"
proof -
  let ?s = "(upd_mod m (\<lambda>d. d\<lparr>md_state := M_MOD_RUNNING\<rparr>) s)\<lparr>c_running := c_running s + 1\<rparr>"
  have "running ?s = insert m (running s)" by (auto simp: running_def)
  with assms running_finite [OF assms(1)] show ?thesis by (auto simp: core_ok_def)
qed

lemma core_ok_halt:
  assumes "core_ok s" and "x \<noteq> M_MOD_RUNNING"
  shows "core_ok (upd_mod m (\<lambda>d. d\<lparr>md_state := x\<rparr>)
    (if m \<in> running s then s\<lparr>c_running := c_running s - 1\<rparr> else s))"
proof -
  let ?s = "upd_mod m (\<lambda>d. d\<lparr>md_state := x\<rparr>) (if m \<in> running s then s\<lparr>c_running := c_running s - 1\<rparr> else s)"
  have run: "running ?s = running s - {m}" using assms(2) by (auto simp: running_def)
  have "of_nat (card (running s - {m})) = (of_nat (card (running s)) - 1 :: 64 word)" if "m \<in> running s"
    using card_Suc_Diff1 [OF running_finite [OF assms(1)] that] by (metis add_diff_cancel_left' of_nat_Suc)
  with assms run show ?thesis by (auto simp: core_ok_def)
qed

text \<open>The calls that run no callback and bind nothing.\<close>

lemma quiet_calm:
  "m_ctx_quit q s = Some (r, s') \<Longrightarrow> calm s s'" "m_ctx_len s = Some (r, s') \<Longrightarrow> calm s s'"
  "m_ctx_finalize s = Some (r, s') \<Longrightarrow> calm s s'"
  by (auto simp: m_ctx_quit_def m_ctx_len_def m_ctx_finalize_def M_CTX_ASSERT_def calm_def split: if_splits)

lemma set_tick_calm: "m_ctx_set_tick E n s = Some (r, s') \<Longrightarrow> calm s s'"
  unfolding m_ctx_set_tick_def
  by (elim calm_asserts) (auto simp: calm_def bind_eq_Some_conv Let_def split: if_splits dest!: calm [THEN calmD])

lemma quiet_call_calm: "do_call E H c s = Some (r, s') \<Longrightarrow> calm_call c \<Longrightarrow> calm s s'"
  by (cases c) (simp_all; erule calm quiet_calm set_tick_calm)+

subsection \<open>Clients\<close>

locale client =
  fixes H :: hooks
  assumes start_cb: "h_start H f m s = Some (b, s') \<Longrightarrow> evolves s s'"
    and eval_cb: "h_eval H f m s = Some (b, s') \<Longrightarrow> calm s s'"
    and stop_cb: "h_stop H f m s = Some s' \<Longrightarrow> calm s s'"
    and evt_cb: "h_evt H f m evts s = Some s' \<Longrightarrow> evolves s s'"
begin

lemma call_pubsub_cb_evolves: "call_pubsub_cb E H m evts s = Some s' \<Longrightarrow> evolves s s'"
proof -
  assume cb: "call_pubsub_cb E H m evts s = Some s'"
  show ?thesis
  proof (cases "queue_len evts = 0")
    case True
    with cb show ?thesis by (auto simp: call_pubsub_cb_def intro: calm)
  next
    case False
    let ?s1 = "s\<lparr>c_curr_mod := m\<rparr>"
    let ?cb = "case md_recvs (s_mods ?s1 m) of c # _ \<Rightarrow> c | [] \<Rightarrow> on_evt (md_hook (s_mods ?s1 m))"
    from cb False obtain s2 where s2: "h_evt H ?cb m evts ?s1 = Some s2"
      by (auto simp: call_pubsub_cb_def bind_eq_Some_conv Let_def)
    have "evolves s ?s1" by (rule calm_evolves) (simp add: calm_def)
    also have "evolves ?s1 s2" using s2 by (rule evt_cb)
    also have "evolves s2 s'"
      using cb False s2
      by (intro calm_evolves) (auto simp: call_pubsub_cb_def bind_eq_Some_conv Let_def calm_def
          dest!: calm [THEN calmD])
    finally show ?thesis .
  qed
qed

lemma flush_pubsub_msgs_evolves: "flush_pubsub_msgs E H b m s = Some (r, s') \<Longrightarrow> evolves s s'"
proof -
  let ?s1 = "snd (new_queue E s)"
  assume f: "flush_pubsub_msgs E H b m s = Some (r, s')"
  show ?thesis
  proof (cases "md_fd0 (s_mods ?s1 m) = -1")
    case True
    with f have "call_pubsub_cb E H m (fst (new_queue E s)) ?s1 = Some s'"
      by (auto simp: flush_pubsub_msgs_def bind_eq_Some_conv case_prod_beta)
    then have "evolves ?s1 s'" by (rule call_pubsub_cb_evolves)
    moreover have "evolves s ?s1" by (rule calm_evolves) (simp add: calm_def)
    ultimately show ?thesis by (rule evolves_trans [rotated])
  next
    case False
    with f obtain q s2 where q: "flush_loop E b m (md_pipe (s_mods ?s1 m)) (fst (new_queue E s))
        (upd_mod m (\<lambda>d. d\<lparr>md_pipe := []\<rparr>) ?s1) = Some (q, s2)" "call_pubsub_cb E H m q s2 = Some s'"
      by (auto simp: flush_pubsub_msgs_def bind_eq_Some_conv case_prod_beta)
    have "calm s (upd_mod m (\<lambda>d. d\<lparr>md_pipe := []\<rparr>) ?s1)" by (simp add: calm_def)
    from calm_trans [OF this flush_loop_calm [OF q(1)]] have "evolves s s2" by (rule calm_evolves)
    then show ?thesis by (rule evolves_trans) (rule call_pubsub_cb_evolves [OF q(2)])
  qed
qed

lemma flush_batch_evolves: "flush_batch E H m b s = Some s' \<Longrightarrow> evolves s s'"
proof -
  let ?s1 = "upd_mod m (\<lambda>d. d\<lparr>md_batch_events := fst (new_queue E s)\<rparr>) (snd (new_queue E s))"
  assume fb: "flush_batch E H m b s = Some s'"
  have "s' = s \<or> call_pubsub_cb E H m (md_batch_events (s_mods s m)) ?s1 = Some s'"
    using fb by (simp add: flush_batch_def Let_def case_prod_beta split: if_splits)
  moreover have "evolves s ?s1" by (rule calm_evolves) (simp add: calm_def)
  ultimately show ?thesis by (metis evolves_trans call_pubsub_cb_evolves evolves_refl)
qed

lemma push_evt_evolves: "push_evt E H m e s = Some s' \<Longrightarrow> evolves s s'"
proof -
  assume pe: "push_evt E H m e s = Some s'"
  let ?q = "enqueue E (md_batch_events (s_mods s m)) e s"
  let ?s1 = "upd_mod m (\<lambda>d. d\<lparr>md_batch_events := fst (snd ?q)\<rparr>) (snd (snd ?q))"
  have queued: "calm s ?s1" "calm s (set_evt e w ?s1)" for w by (simp_all add: calm_def)
  have flush: "evolves s s'" if "flush_batch E H m b t = Some s'" and "calm s t" for b t
    by (rule evolves_trans [OF calm_evolves flush_batch_evolves]) (fact that(2), fact that(1))
  from pe obtain v where v: "s_evts s e = Some v" by (auto simp: push_evt_def bind_eq_Some_conv)
  show ?thesis
  proof (cases "ev_src v = NULL")
    case True
    with pe v have "flush_batch E H m False ?s1 = Some s'"
      by (auto simp: push_evt_def case_prod_beta)
    then show ?thesis using queued(1) by (rule flush)
  next
    case False
    with pe v obtain t where t: "s_srcs s (ev_src v) = Some t" by (auto simp: push_evt_def bind_eq_Some_conv)
    show ?thesis
    proof (cases "has (es_flags t) M_SRC_INTERNAL")
      case True
      with pe v False t obtain s1 where s1: "evt_unref E e s = Some s1"
        "flush_batch E H m (es_userptr t = BatchOf m) (if es_userptr t = TbOf m then refill_token m s1 else s1) = Some s'"
        by (auto simp: push_evt_def bind_eq_Some_conv Let_def)
      have "calm s (if es_userptr t = TbOf m then refill_token m s1 else s1)"
        using evt_unref_calm [OF s1(1)] by (simp add: refill_token_def calm_def)
      with s1(2) show ?thesis by (rule flush)
    next
      case internal: False
      let ?s2 = "set_evt e (v\<lparr>ev_userdata := es_userptr t\<rparr>) ?s1"
      from pe v False t internal have "s' = ?s2 \<or> (\<exists>b. flush_batch E H m b ?s2 = Some s')"
        by (auto simp: push_evt_def Let_def case_prod_beta split: if_splits)
      then show ?thesis using flush [OF _ queued(2)] calm_evolves [OF queued(2)] by metis
    qed
  qed
qed

lemma unstash_loop_calm: "unstash_loop E n i es q s = Some (q', es', s') \<Longrightarrow> calm s s'"
proof (induction es arbitrary: i q s)
  case (Cons e es)
  show ?case
  proof (cases "i + 1 = n")
    case False
    with Cons.prems obtain s1 s3 where s1: "evt_ref e s = Some s1"
      "evt_unref E e (snd (snd (enqueue E q e s1))) = Some s3"
      "unstash_loop E n (i + 1) es (fst (snd (enqueue E q e s1))) s3 = Some (q', es', s')"
      by (auto simp: bind_eq_Some_conv case_prod_beta)
    have "calm s1 (snd (snd (enqueue E q e s1)))" by (simp add: calm_def)
    with evt_ref_calm [OF s1(1)] evt_unref_calm [OF s1(2)] Cons.IH [OF s1(3)] show ?thesis
      by (metis calm_trans)
  qed (use Cons.prems in auto)
qed auto

lemma unstash_evolves: "m_mod_unstash E H m n s = Some (r, s') \<Longrightarrow> evolves s s'"
proof -
  have body: "evolves s s'" if "(case new_queue E s of (unstashed, s1) \<Rightarrow>
      if unstashed = None then Some (- ENOMEM, s1)
      else case foreach_elems E (md_stashed (s_mods s1 m)) s1 of (es, s2) \<Rightarrow> do {
        (q, rest, s3) \<leftarrow> (if es = [] then Some (unstashed, md_stashed (s_mods s2 m), s2)
          else unstash_loop E n 0 es unstashed s2);
        let s4 = upd_mod m (\<lambda>d. d\<lparr>md_stashed := rest\<rparr>) s3;
        s5 \<leftarrow> call_pubsub_cb E H m q s4;
        Some (queue_len q, s5) }) = Some (r, s')" for s r s'
  proof (cases "fst (new_queue E s) = None")
    case True
    with that show ?thesis by (auto simp: case_prod_beta calm_def intro!: calm_evolves)
  next
    case False
    let ?s1 = "snd (new_queue E s)"
    let ?es = "fst (foreach_elems E (md_stashed (s_mods ?s1 m)) ?s1)"
    let ?s2 = "snd (foreach_elems E (md_stashed (s_mods ?s1 m)) ?s1)"
    from that False obtain q rest s3 where
      loop: "(if ?es = [] then Some (fst (new_queue E s), md_stashed (s_mods ?s2 m), ?s2)
        else unstash_loop E n 0 ?es (fst (new_queue E s)) ?s2) = Some (q, rest, s3)"
      and cb: "call_pubsub_cb E H m q (upd_mod m (\<lambda>d. d\<lparr>md_stashed := rest\<rparr>) s3) = Some s'"
      by (auto simp: case_prod_beta bind_eq_Some_conv Let_def)
    have "calm ?s2 s3" using loop by (auto split: if_splits dest: unstash_loop_calm)
    then have "calm ?s1 s3" by (rule calm_foreach_elems)
    then have "calm s (upd_mod m (\<lambda>d. d\<lparr>md_stashed := rest\<rparr>) s3)" by (simp add: calm_def)
    from evolves_trans [OF calm_evolves [OF this] call_pubsub_cb_evolves [OF cb]] show ?thesis .
  qed
  assume "m_mod_unstash E H m n s = Some (r, s')"
  then show ?thesis
    unfolding m_mod_unstash_def
  proof (cases rule: assert_state_cases)
    case 2
    show ?thesis
    proof (cases "n > 0")
      case True
      with 2(2) show ?thesis
        unfolding M_RET_ASSERT_def by (auto elim!: consume_cases intro: evolves_trans calm_evolves body)
    qed (use 2(2) in \<open>auto simp: M_RET_ASSERT_def\<close>)
  qed simp
qed

lemma optional_hook_evolves:
  "optional_hook H m k s = Some (r, s') \<Longrightarrow> evolves s s' \<and> (k \<noteq> MOD_START \<longrightarrow> calm s s')"
proof -
  let ?s1 = "s\<lparr>c_curr_mod := m\<rparr>"
  assume oh: "optional_hook H m k s = Some (r, s')"
  have c: "calm s ?s1" by (simp add: calm_def)
  have c': "calm s (?s1\<lparr>c_curr_mod := NULL\<rparr>)" by (simp add: calm_def)
  have leave: "evolves s (s2\<lparr>c_curr_mod := NULL\<rparr>)" if "evolves ?s1 s2" for s2
  proof -
    have "calm s2 (s2\<lparr>c_curr_mod := NULL\<rparr>)" by (simp add: calm_def)
    with c that show ?thesis by (blast intro: evolves_trans)
  qed
  have leave': "calm s (s2\<lparr>c_curr_mod := NULL\<rparr>)" if "calm ?s1 s2" for s2
    using that c by (simp add: calm_def)
  show ?thesis
  proof (cases k)
    case MOD_START
    with oh c' show ?thesis
      by (auto simp: optional_hook_def bind_eq_Some_conv Let_def split: if_splits dest!: start_cb intro: leave)
  next
    case MOD_STOP
    with oh c' have "calm s s'"
      by (auto simp: optional_hook_def bind_eq_Some_conv Let_def split: if_splits dest!: stop_cb intro: leave')
    then show ?thesis by (simp add: calm_evolves)
  next
    case MOD_EVAL
    with oh c' have "calm s s'"
      by (auto simp: optional_hook_def bind_eq_Some_conv Let_def split: if_splits dest!: eval_cb intro: leave')
    then show ?thesis by (simp add: calm_evolves)
  qed
qed

subsection \<open>Stopping and starting\<close>

lemma set_tree_calm: "calm s (set_tree m ty t s)"
  by (simp add: calm_def)

lemma manage_src_rel:
  assumes "manage_src E H m flag b ty i (r, s) = Some (r', s')"
  shows "evolves s s' \<and> (\<not> b \<longrightarrow> calm s s') \<and> (flag = RM \<and> b \<longrightarrow> r' = 0)"
proof -
  from assms obtain t where t: "s_srcs s i = Some t" by (auto simp: manage_src_def split: option.splits)
  show ?thesis
  proof (cases "flag = RM \<and> b")
    case True
    with assms t obtain s1 tr where s1: "(if es_type t = M_SRC_TYPE_PS
        then map_option snd (flush_pubsub_msgs E H True m s) else Some s) = Some s1"
      "src_unref E i (set_tree m ty (del_min tr) s1) = Some s'" "r' = 0"
      by (auto simp: manage_src_def bind_eq_Some_conv)
    have "evolves s s1" using s1(1) by (auto split: if_splits dest: flush_pubsub_msgs_evolves)
    moreover have "evolves s1 s'"
      using calm_trans [OF set_tree_calm src_unref_calm [OF s1(2)]] by (rule calm_evolves)
    ultimately show ?thesis using True s1(3) by (auto intro: evolves_trans)
  next
    case False
    with assms t have "calm s s'"
      by (auto simp: manage_src_def bind_eq_Some_conv calm_def split: if_splits
          dest!: poll_set_new_evt_calm [THEN calmD])
         (metis start_task_fields prod.sel(2))+
    with False show ?thesis by auto
  qed
qed

lemma manage_srcs_rel:
  assumes "manage_srcs E H m flag b s = Some (r, s')"
  shows "evolves s s' \<and> (\<not> b \<longrightarrow> calm s s') \<and> (flag = RM \<and> b \<longrightarrow> r = 0)"
proof -
  let ?R = "\<lambda>(x :: int \<times> sys) y. evolves (snd x) (snd y) \<and> (\<not> b \<longrightarrow> calm (snd x) (snd y)) \<and>
    (flag = RM \<and> b \<longrightarrow> fst x = 0 \<longrightarrow> fst y = 0)"
  have R: "reflp ?R" "transp ?R"
    by (auto intro!: reflpI transpI intro: evolves_trans calm_trans)
  have one: "?R x y" if "fold_opt (manage_src E H m flag b ty) is x = Some y" for ty "is" x y
    by (rule fold_opt_rel [OF _ R that]) (metis manage_src_rel prod.collapse)
  have all: "?R x y" if "fold_opt (\<lambda>ty (ret, s). case foreach_elems E (srcs_list m ty s) s of (is, s') \<Rightarrow>
       fold_opt (manage_src E H m flag b ty) is (ret, s')) tys x = Some y" for tys x y
  proof (rule fold_opt_rel [OF _ R that])
    fix ty and x y :: "int \<times> sys"
    assume "(case x of (ret, s) \<Rightarrow> case foreach_elems E (srcs_list m ty s) s of (is, s') \<Rightarrow>
      fold_opt (manage_src E H m flag b ty) is (ret, s')) = Some y"
    then have "?R (fst x, snd (foreach_elems E (srcs_list m ty (snd x)) (snd x))) y"
      by (intro one) (simp add: case_prod_beta)
    moreover have "calm (snd x) (snd (foreach_elems E (srcs_list m ty (snd x)) (snd x)))"
      by (simp add: calm_def)
    ultimately show "?R x y" by (auto intro: evolves_trans calm_trans)
  qed
  from all [of src_types "(0, s)" "(r, s')"] assms show ?thesis by (simp add: manage_srcs_def)
qed

lemma clear_subs_calm: "clear_subs E m s = Some s' \<Longrightarrow> calm s s'"
proof -
  assume c: "clear_subs E m s = Some s'"
  show ?thesis
  proof (cases "md_subs (s_mods s m)")
    case None
    with c show ?thesis by (simp add: clear_subs_def)
  next
    case (Some subs)
    let ?s1 = "snd (foreach_elems E subs s)" and ?xs = "fst (foreach_elems E subs s)"
    let ?s2 = "upd_mod m (\<lambda>d. d\<lparr>md_subs := Some []\<rparr>) ?s1"
    have "s' = ?s1 \<or> fold_opt (src_unref E) (List.map (snd \<circ> snd) ?xs) ?s2 = Some s'"
      using c Some by (simp add: clear_subs_def case_prod_beta split: if_splits)
    then have "calm ?s1 s'"
    proof
      assume "fold_opt (src_unref E) (List.map (snd \<circ> snd) ?xs) ?s2 = Some s'"
      then have "calm ?s2 s'" by (rule calm_fold [rotated]) (rule src_unref_calm)
      then show ?thesis by (simp add: calm_def)
    qed simp
    then show ?thesis by (rule calm_foreach_elems)
  qed
qed

lemma reset_module_rel:
  assumes "reset_module E m s = Some s'"
  shows "evolves s s' \<and> (\<forall>x. md_state (s_mods s' x) = md_state (s_mods s x))"
proof -
  let ?s1 = "if md_fd1 (s_mods s m) \<noteq> -1 then upd_mod m (\<lambda>d. d\<lparr>md_fd0 := -1, md_fd1 := -1, md_pipe := []\<rparr>)
    (close_fd (md_fd1 (s_mods s m)) s) else s"
  have s1: "calm s ?s1" by (simp add: calm_def)
  from assms obtain s2 s4 s5 where s2: "clear_subs E m ?s1 = Some s2"
    and s4: "fold_opt (evt_unref E) (md_stashed (s_mods (upd_mod m (\<lambda>d. d\<lparr>md_recvs := []\<rparr>) s2) m))
      (upd_mod m (\<lambda>d. d\<lparr>md_stashed := []\<rparr>) (upd_mod m (\<lambda>d. d\<lparr>md_recvs := []\<rparr>) s2)) = Some s4"
    and s5: "free_queue E (md_batch_events (s_mods s4 m))
      (upd_mod m (\<lambda>d. d\<lparr>md_batch_events := map_option (\<lambda>_. []) (md_batch_events d)\<rparr>) s4) = Some s5"
    and s': "(case foreach_elems E (md_bound (s_mods s5 m)) s5 of (bs, s6) \<Rightarrow>
       Some (upd_mod m (\<lambda>d. d\<lparr>md_bound := if bs = [] then md_bound d else [],
                                md_batch_len := 0, md_batch_timer := (0, 0),
                                md_tb_rate := 0, md_tb_burst := -1, md_tb_tokens := -1,
                                md_tb_timer := (0, 0)\<rparr>) s6)) = Some s'"
    unfolding reset_module_def Let_def bind_eq_Some_conv by blast
  let ?s3 = "upd_mod m (\<lambda>d. d\<lparr>md_stashed := []\<rparr>) (upd_mod m (\<lambda>d. d\<lparr>md_recvs := []\<rparr>) s2)"
  have "calm s s2" using s1 clear_subs_calm [OF s2] by (rule calm_trans)
  then have "calm s ?s3" by (simp add: calm_def)
  also have "calm ?s3 s4" using s4 by (rule calm_fold [rotated]) (rule evt_unref_calm)
  also have "calm s4 s5" using free_queue_calm [OF s5] by (simp add: calm_def)
  finally have c5: "calm s s5" .
  let ?s6 = "snd (foreach_elems E (md_bound (s_mods s5 m)) s5)"
  have c6: "calm s ?s6" using c5 by (rule calm_trans) (simp add: calm_def)
  have "evolves ?s6 s' \<and> (\<forall>x. md_state (s_mods s' x) = md_state (s_mods ?s6 x))"
    using s' by (auto simp: case_prod_beta evolves_def elim!: core_ok_mono [of ?s6] split: if_splits)
  then show ?thesis using calm_evolves [OF c6] calm_state [OF c6] by (auto intro: evolves_trans)
qed

lemma stop_rel:
  assumes "stop E H m b s = Some (r, s')"
  shows "evolves s s' \<and> (b \<longrightarrow> m \<notin> running s')"
proof -
  from assms obtain r1 s1 where s1: "manage_srcs E H m RM b s = Some (r1, s1)"
    by (auto simp: stop_def bind_eq_Some_conv)
  note ev1 = manage_srcs_rel [OF s1]
  show ?thesis
  proof (cases "r1 = 0")
    case False
    with assms s1 ev1 show ?thesis by (auto simp: stop_def)
  next
    case True
    let ?x = "if b then M_MOD_STOPPED else M_MOD_PAUSED"
    let ?s2 = "if m_mod_is m [M_MOD_RUNNING] s1 then s1\<lparr>c_running := c_running s1 - 1\<rparr> else s1"
    let ?s3 = "upd_mod m (\<lambda>d. d\<lparr>md_state := ?x\<rparr>) ?s2"
    from assms s1 True obtain r4 s4 where
      s4: "(if b then Option.bind (reset_module E m ?s3) (optional_hook H m MOD_STOP) else Some (r1, ?s3)) = Some (r4, s4)"
      and s5: "s' = s4 \<or> (\<exists>r5. tell_system_pubsub_msg E NULL m M_PS_MOD_STOPPED s4 = Some (r5, s'))"
      by (auto simp: stop_def bind_eq_Some_conv Let_def split: if_splits)
    have "calm s4 s'" using s5 tell_system_calm by blast
    moreover have "evolves ?s3 s4 \<and> (b \<longrightarrow> m \<notin> running s4)"
    proof (cases b)
      case True
      with s4 obtain y where y: "reset_module E m ?s3 = Some y" "optional_hook H m MOD_STOP y = Some (r4, s4)"
        by (auto simp: bind_eq_Some_conv)
      have "calm y s4" using optional_hook_evolves [OF y(2)] by simp
      moreover note reset_module_rel [OF y(1)]
      moreover have "md_state (s_mods ?s3 m) \<noteq> M_MOD_RUNNING" by simp
      ultimately show ?thesis using calm_state [of y s4 m] by (auto simp: running_def intro: evolves_trans)
    qed (use s4 in simp)
    moreover have "evolves s1 ?s3"
    proof -
      have "m_mod_is m [M_MOD_RUNNING] s1 \<longleftrightarrow> m \<in> running s1" if "core_ok s1"
        using that by (auto simp: m_mod_is_def core_ok_def running_def)
      then show ?thesis using core_ok_halt [of s1 ?x m] by (auto simp: evolves_def)
    qed
    ultimately have s': "calm s4 s'" "evolves ?s3 s4" "b \<longrightarrow> m \<notin> running s4" "evolves s1 ?s3" by simp_all
    have "evolves s s1" using ev1 by simp
    also note s'(4)
    also note s'(2)
    also have "evolves s4 s'" using s'(1) by (rule calm_evolves)
    finally show ?thesis using s'(3) calm_state [OF s'(1), of m] by (simp add: running_def)
  qed
qed

text \<open>Starting keeps the count when the module is a real one that is not running yet.\<close>

lemma start_rel:
  assumes "start E H m b s = Some (r, s')" and "m \<noteq> NULL" and "m \<le> s_next s"
    and "md_state (s_mods s m) \<noteq> M_MOD_RUNNING"
  shows "evolves s s'"
proof -
  from assms(1) obtain r1 s1 where s1: "(if b then init_pubsub_fd E m s else Some (0, s)) = Some (r1, s1)"
    by (auto simp: start_def bind_eq_Some_conv split: if_splits)
  have c1: "calm s s1" using s1 by (auto split: if_splits dest: init_pubsub_fd_calm)
  show ?thesis
  proof (cases "r1 = 0")
    case False
    with assms(1) s1 have "s' = s1" by (auto simp: start_def split: if_splits)
    with c1 show ?thesis by (simp add: calm_evolves)
  next
    case True
    with assms(1) s1 obtain r2 s2 where s2: "manage_srcs E H m ADD False s1 = Some (r2, s2)"
      by (auto simp: start_def bind_eq_Some_conv split: if_splits)
    have c2: "calm s s2" using manage_srcs_rel [OF s2] by (intro calm_trans [OF c1]) simp
    show ?thesis
    proof (cases "r2 = 0")
      case False
      with assms(1) s1 s2 True have "s' = s2" by (auto simp: start_def split: if_splits)
      with c2 show ?thesis by (simp add: calm_evolves)
    next
      case r2: True
      let ?s4 = "(upd_mod m (\<lambda>d. d\<lparr>md_state := M_MOD_RUNNING\<rparr>) s2)\<lparr>c_running := c_running s2 + 1\<rparr>"
      have "evolves s2 ?s4"
      proof -
        have "m \<notin> running s2" using assms(4) calm_state [OF c2] by (simp add: running_def)
        moreover have "m \<le> s_next s2" using assms(3) c2 by (simp add: calm_def)
        ultimately show ?thesis using core_ok_run [of s2 m] assms(2) by (auto simp: evolves_def)
      qed
      with c2 have e4: "evolves s ?s4" by (blast intro: evolves_trans)
      from assms(1) s1 s2 True r2 obtain r5 s5 where
        s5: "(if b then optional_hook H m MOD_START ?s4 else Some (r2, ?s4)) = Some (r5, s5)"
        and s6: "s' = s5 \<or> (\<exists>r6. tell_system_pubsub_msg E NULL m M_PS_MOD_STARTED s5 = Some (r6, s')) \<or>
          (\<exists>r6. stop E H m True s5 = Some (r6, s'))"
        by (auto simp: start_def bind_eq_Some_conv Let_def split: if_splits)
      have "evolves ?s4 s5" using s5 by (auto split: if_splits dest: optional_hook_evolves)
      moreover have "evolves s5 s'" using s6 tell_system_calm stop_rel by (metis calm_evolves evolves_refl)
      ultimately show ?thesis using e4 by (blast intro: evolves_trans)
    qed
  qed
qed

text \<open>It suffices to look at states that satisfy the invariant.\<close>

lemma evolves_if_ok: "(core_ok s \<Longrightarrow> evolves s s') \<Longrightarrow> evolves s s'"
  by (auto simp: evolves_def)

lemma check_thresh_calm: "check_thresh E m c i s = Some s' \<Longrightarrow> calm s s'"
  by (auto simp: check_thresh_def Let_def calm_def split: option.splits src_key.splits if_splits
      dest!: poll_notify_calm [THEN calmD])

lemma evaluate_module_rel:
  assumes "evaluate_module E H m s = Some (r, s')" and "m \<le> s_next s"
  shows "evolves s s'"
proof -
  from assms(1) obtain s1 where s1: "(if m_mod_is m [M_MOD_RUNNING] s
      then foreach E (srcs_list m M_SRC_TYPE_THRESH s) (check_thresh E m (s_now s)) s else Some s) = Some s1"
    by (auto simp: evaluate_module_def bind_eq_Some_conv)
  have c1: "calm s s1"
    using s1 check_thresh_calm by (auto split: if_splits elim!: foreach_calm [rotated])
  show ?thesis
  proof (cases "m_mod_is m [M_MOD_IDLE] s1")
    case False
    with assms(1) s1 have "s' = s1" by (auto simp: evaluate_module_def)
    with c1 show ?thesis by (simp add: calm_evolves)
  next
    case True
    with assms(1) s1 obtain r2 s2 where s2: "optional_hook H m MOD_EVAL s1 = Some (r2, s2)"
      and s': "s' = s2 \<or> (\<exists>r3. start E H m True s2 = Some (r3, s'))"
      by (auto simp: evaluate_module_def bind_eq_Some_conv split: if_splits)
    have c2: "calm s1 s2" using optional_hook_evolves [OF s2] by simp
    have c: "calm s s2" using c1 c2 by (rule calm_trans)
    have "m \<le> s_next s2" using assms(2) c by (simp add: calm_def)
    moreover have "md_state (s_mods s2 m) \<noteq> M_MOD_RUNNING" "m \<noteq> NULL"
      using True calm_state [OF c2, of m] by (auto simp: m_mod_is_def)
    ultimately have "evolves s2 s'" using s' start_rel by blast
    with c show ?thesis by (blast intro: evolves_trans)
  qed
qed

text \<open>A module in the table is a real one.\<close>

lemma iterate_modules_evolves:
  assumes "\<And>m s r s'. m \<le> s_next s \<Longrightarrow> fn m s = Some (r, s') \<Longrightarrow> evolves s s'"
    and "iterate_modules fn s = Some (r, s')"
  shows "evolves s s'"
proof (rule iterate_modules_rel [OF _ evolves_preorder assms(2)])
  fix m s r s'
  assume m: "m \<in> snd ` set (c_modules s)" "fn m s = Some (r, s')"
  show "evolves s s'"
    by (rule evolves_if_ok, rule assms(1) [OF _ m(2)]) (use m(1) in \<open>auto simp: core_ok_def\<close>)
qed

subsection \<open>Registration\<close>

lemma mod_deregister_with_rel:
  assumes "mod_deregister_with dereg E H m s = Some (r, s')"
    and dereg: "\<And>s r s'. dereg s = Some (r, s') \<Longrightarrow> evolves s s'"
  shows "evolves s s'"
  using assms(1) unfolding mod_deregister_with_def
proof (cases rule: assert_cases)
  case 2
  let ?s0 = "s\<lparr>c_modules := slot_remove (md_name (s_mods s m)) (c_modules s)\<rparr>"
  have s0: "evolves s ?s0"
    by (auto simp: evolves_def slot_remove_def elim: core_ok_mono)
  from 2(3) have "s' = s \<or> (\<exists>r1 s1. stop E H m True ?s0 = Some (r1, s1) \<and>
    (let s2 = upd_mod m (\<lambda>d. d\<lparr>md_state := M_MOD_ZOMBIE\<rparr>) s1 in s' = s2 \<or> dereg s2 = Some (r, s')))"
    by (auto simp: Let_def bind_eq_Some_conv split: if_splits)
  then show ?thesis
  proof (elim disjE exE conjE)
    fix r1 s1
    let ?s2 = "upd_mod m (\<lambda>d. d\<lparr>md_state := M_MOD_ZOMBIE\<rparr>) s1"
    assume stop: "stop E H m True ?s0 = Some (r1, s1)" and s': "let s2 = ?s2 in s' = s2 \<or> dereg s2 = Some (r, s')"
    have "m \<notin> running s1" "evolves ?s0 s1" using stop_rel [OF stop] by simp_all
    then have "evolves s1 ?s2" by (auto simp: evolves_def running_def elim!: core_ok_mono [of s1] split: if_splits)
    moreover have "evolves ?s2 s'" using s' dereg by (auto simp: Let_def)
    ultimately show ?thesis using s0 \<open>evolves ?s0 s1\<close> evolves_trans by metis
  qed simp
qed simp

lemma m_ctx_deregister_rel:
  assumes "m_ctx_deregister E H s = Some (r, s')"
  shows "evolves s s'"
proof -
  have "s' = s \<or> (\<exists>r'. iterate_modules (ctx_destroy_mods (\<lambda>_. None) E H) (s\<lparr>s_key := False\<rparr>) = Some (r', s'))"
    using assms by (auto simp: m_ctx_deregister_def M_CTX_ASSERT_def bind_eq_Some_conv split: if_splits)
  moreover have "evolves s (s\<lparr>s_key := False\<rparr>)" by (rule calm_evolves) (simp add: calm_def)
  moreover have "evolves t s'" if "iterate_modules (ctx_destroy_mods (\<lambda>_. None) E H) t = Some (r', s')" for t r'
    using that by (rule iterate_modules_evolves [rotated])
      (auto simp: ctx_destroy_mods_def elim: mod_deregister_with_rel)
  ultimately show ?thesis by (metis evolves_refl evolves_trans)
qed

lemma mod_deregister_rel: "mod_deregister E H m s = Some (r, s') \<Longrightarrow> evolves s s'"
  unfolding mod_deregister_def by (erule mod_deregister_with_rel) (rule m_ctx_deregister_rel)

lemma init_srcs_calm: "calm s (init_srcs E m tys s)"
proof (induction tys arbitrary: s)
  case (Cons ty tys)
  have "calm s (snd (init_src E m ty s))" by (simp add: init_src_def case_prod_beta calm_def)
  then show ?case using Cons [of "snd (init_src E m ty s)"] by (auto simp: case_prod_beta intro: calm_trans)
qed simp

lemma name_mod_calm: "calm s (name_mod E nm fl m s)"
  by (auto simp: name_mod_def case_prod_beta calm_def)

lemma alloc_all_calm: "calm s (snd (alloc_all E n s))"
proof (induction n arbitrary: s)
  case (Suc n)
  have "calm s (snd (alloc E s))" by (simp add: calm_def)
  then show ?case using Suc [of "snd (alloc E s)"] by (auto simp: case_prod_beta intro: calm_trans)
qed simp

text \<open>Making a module out of fresh memory changes no state but to idle, and adds it to the table.\<close>

lemma build_mod_rel:
  assumes "build_mod E nm hk fl m s = (r, s')" and "core_ok s" and "m \<le> s_next s" and "m \<notin> running s"
  shows "core_ok s' \<and> s_next s \<le> s_next s'"
proof -
  let ?s1 = "name_mod E nm fl m s"
  let ?s2 = "\<lambda>h. upd_mod m (\<lambda>d. d\<lparr>md_hook := h, md_dlhandle := (hk = None)\<rparr>) ?s1"
  let ?s3 = "\<lambda>h. snd (alloc_all E 4 (init_srcs E m src_types (?s2 h)))"
  let ?s4 = "\<lambda>h. upd_mod m (\<lambda>d. d\<lparr>md_batch_events := Some [], md_tb_burst := -1, md_tb_tokens := -1\<rparr>) (?s3 h)"
  let ?s5 = "\<lambda>h. upd_mod m (\<lambda>d. d\<lparr>md_state := M_MOD_IDLE, md_fd0 := -1, md_fd1 := -1,
      md_stats := (md_stats d)\<lparr>registration_time := s_now (?s4 h)\<rparr>\<rparr>)
    ((?s4 h)\<lparr>c_modules := slot_insert E (fst nm) m (c_modules (?s4 h))\<rparr>)"
  have c2: "calm s (?s2 h)" for h
    using name_mod_calm [of s E nm fl m] by (simp add: calm_def)
  have c3: "calm s (?s3 h)" for h
    by (rule calm_trans [OF calm_trans [OF c2 init_srcs_calm] alloc_all_calm])
  have c4: "calm s (?s4 h)" for h using c3 [of h] by (simp add: calm_def)
  have "s' \<in> {?s1} \<union> range ?s2 \<union> range ?s3 \<union> range ?s4 \<union> range ?s5"
    using assms(1) unfolding build_mod_def Let_def case_prod_beta by (auto split: option.splits if_splits)
  then consider "calm s s'" | h where "s' = ?s5 h"
    using name_mod_calm c2 c3 c4 by blast
  then show ?thesis
  proof cases
    case 2
    have ok: "core_ok (?s4 h)" and le: "s_next s \<le> s_next (?s4 h)"
      using calm_core_ok [OF c4 assms(2)] c4 [of h] by (simp_all add: calm_def)
    have "m \<notin> running (?s4 h)" using assms(4) calm_state [OF c4, of h m] by (simp add: running_def)
    then have run: "running s' = running (?s4 h)" using 2 by (auto simp: running_def)
    have same: "c_running s' = c_running (?s4 h)" "s_next s' = s_next (?s4 h)"
      "c_modules s' = slot_insert E (fst nm) m (c_modules (?s4 h))"
      "md_bound (s_mods s' x) = md_bound (s_mods (?s4 h) x)" for x
      using 2 by simp_all
    have "m \<le> s_next s'" using assms(3) le same(2) by simp
    with ok le show ?thesis unfolding core_ok_def run same set_slot_insert by simp
  qed (use assms(2) calm_core_ok in \<open>auto simp: calm_def\<close>)
qed

lemma create_mod_rel: "evolves s (snd (create_mod E nm hk fl u s))"
proof (cases "fst (alloc E s) = NULL")
  case True
  then show ?thesis by (auto simp: create_mod_def case_prod_beta calm_def intro!: calm_evolves)
next
  case False
  let ?m = "fst (alloc E s)"
  let ?s1 = "upd_mod ?m (\<lambda>_. new_mod fl u) (snd (alloc E s))"
  let ?b = "build_mod E nm hk fl ?m ?s1"
  have m: "?m = Suc (s_next s)" using False by (simp add: alloc_def split: if_splits)
  have new: "md_state (new_mod fl u) = M_MOD_IDLE" "md_bound (new_mod fl u) = []" by (simp_all add: new_mod_def)
  show ?thesis
  proof (rule evolves_if_ok)
    assume ok: "core_ok s"
    then have "?m \<notin> running s" unfolding core_ok_def m by fastforce
    then have "core_ok ?s1"
      by (intro core_ok_mono [OF ok]) (auto simp: new running_def)
    moreover have "?m \<le> s_next ?s1" using m by simp
    moreover have "?m \<notin> running ?s1" by (simp add: running_def new)
    moreover have "?b = (fst ?b, snd ?b)" by simp
    ultimately have "core_ok (snd ?b) \<and> s_next ?s1 \<le> s_next (snd ?b)" by (metis build_mod_rel)
    moreover have "snd (create_mod E nm hk fl u s) = snd ?b"
      using False by (simp add: create_mod_def case_prod_beta)
    ultimately show "evolves s (snd (create_mod E nm hk fl u s))" by (simp add: evolves_def)
  qed
qed

lemma register_rel:
  assumes "m_mod_register E H nm hk fl u s = Some ((r, m), s')"
  shows "evolves s s'"
proof -
  have "s' = s \<or> (\<exists>r1 s1. replace_mod E H (fst (the nm)) s = Some (r1, s1) \<and>
      (s' = s1 \<or> create_mod E (the nm) hk fl u s1 = ((r, m), s')))"
    using assms unfolding m_mod_register_def by (auto simp: bind_eq_Some_conv split: if_splits)
  moreover have "evolves s s1" if "replace_mod E H (fst (the nm)) s = Some (r1, s1)" for r1 s1
    using that mod_deregister_rel by (auto simp: replace_mod_def split: option.splits if_splits)
  moreover have "evolves s1 s'" if "create_mod E (the nm) hk fl u s1 = ((r, m), s')" for s1
    using create_mod_rel [of s1 E "the nm" hk fl u] that by simp
  ultimately show ?thesis by (metis evolves_refl evolves_trans)
qed

subsection \<open>Bound modules\<close>

lemma bound_rest_subset:
  assumes "bound_rest now full rest = Some rest'" and "set rest \<subseteq> set full"
  shows "set rest' \<subseteq> set now"
  using assms set_drop_subset [of "length now - length full" now]
  by (cases now) (auto simp: bound_rest_def split: if_splits)

lemma bound_walk_rel:
  assumes fn: "\<And>m s r s'. m \<le> s_next s \<Longrightarrow> fn m s = Some (r, s') \<Longrightarrow> evolves s s'"
    and "bound_walk E fn fs s = Some s'" and "\<forall>(m, full, rest)\<in>set fs. set rest \<subseteq> set full"
  shows "evolves s s'"
proof -
  have "(\<forall>m s r s'. m \<le> s_next s \<longrightarrow> fn m s = Some (r, s') \<longrightarrow> evolves s s') \<longrightarrow>
      (\<forall>(m, full, rest)\<in>set fs. set rest \<subseteq> set full) \<longrightarrow> evolves s s'"
  proof (rule bound_walk.raw_induct [OF _ assms(2)], intro impI)
    fix walk and E and fn :: "mid \<Rightarrow> api" and fs s s'
    assume IH: "\<And>E fn fs s s'. walk E fn fs s = Some s' \<Longrightarrow>
        (\<forall>m s r s'. m \<le> s_next s \<longrightarrow> fn m s = Some (r, s') \<longrightarrow> evolves s s') \<longrightarrow>
        (\<forall>(m, full, rest)\<in>set fs. set rest \<subseteq> set full) \<longrightarrow> evolves s s'"
      and fn: "\<forall>m s r s'. m \<le> s_next s \<longrightarrow> fn m s = Some (r, s') \<longrightarrow> evolves s s'"
      and sub: "\<forall>(m, full, rest)\<in>set fs. set rest \<subseteq> set full"
      and body: "(case fs of
         [] \<Rightarrow> Some s
       | (m, full, rest) # fs' \<Rightarrow>
           Option.bind (bound_rest (md_bound (s_mods s m)) full rest) (\<lambda>rest'. case rest' of
             [] \<Rightarrow> walk E fn fs' s
           | b # bs \<Rightarrow> do {
               (ret, s1) \<leftarrow> fn b s;
               if ret = 0 then
                 (case foreach_elems E (md_bound (s_mods s1 b)) s1 of (xs, s2) \<Rightarrow>
                   walk E fn ((b, md_bound (s_mods s2 b), xs) # (m, md_bound (s_mods s m), bs) # fs') s2)
               else walk E fn ((m, md_bound (s_mods s m), bs) # fs') s1
             })) = Some s'"
    have step: "evolves t s'" if "walk E fn gs t = Some s'" "\<forall>(m, full, rest)\<in>set gs. set rest \<subseteq> set full" for gs t
      using IH [OF that(1)] that(2) fn by simp
    show "evolves s s'"
    proof (cases fs)
      case Nil
      with body show ?thesis by simp
    next
      case (Cons f fs')
      obtain m full rest where f: "f = (m, full, rest)" by (cases f)
      let ?now = "md_bound (s_mods s m)"
      obtain rest' where r: "bound_rest ?now full rest = Some rest'" using body Cons f by (auto simp: bind_eq_Some_conv)
      have now: "set rest' \<subseteq> set ?now" by (rule bound_rest_subset [OF r]) (use sub Cons f in simp)
      have others: "\<forall>(m, full, rest)\<in>set fs'. set rest \<subseteq> set full" using sub Cons by simp
      show ?thesis
      proof (cases rest')
        case Nil
        with body Cons f r others show ?thesis by (auto intro: step)
      next
        case (Cons b bs)
        with body \<open>fs = f # fs'\<close> f r obtain ret s1 where s1: "fn b s = Some (ret, s1)"
          by (auto simp: bind_eq_Some_conv)
        have one: "evolves s s1"
        proof (rule evolves_if_ok)
          assume "core_ok s"
          then have "b \<le> s_next s" using now Cons by (auto simp: core_ok_def)
          with fn s1 show "evolves s s1" by blast
        qed
        let ?xs = "foreach_elems E (md_bound (s_mods s1 b)) s1"
        have "calm s1 (snd ?xs)" by (simp add: calm_def)
        moreover have "evolves (snd ?xs) s' \<or> evolves s1 s'"
        proof (cases "ret = 0")
          case True
          have "evolves (snd ?xs) s'"
          proof (rule step)
            show "walk E fn ((b, md_bound (s_mods (snd ?xs) b), fst ?xs) # (m, ?now, bs) # fs') (snd ?xs) = Some s'"
              using body \<open>fs = f # fs'\<close> f r s1 Cons True by (simp add: case_prod_beta)
            show "\<forall>(m, full, rest)\<in>set ((b, md_bound (s_mods (snd ?xs) b), fst ?xs) # (m, ?now, bs) # fs').
                set rest \<subseteq> set full"
              using others now Cons foreach_elems_subset [of E "md_bound (s_mods s1 b)" s1] by simp
          qed
          then show ?thesis ..
        next
          case False
          have "evolves s1 s'"
          proof (rule step)
            show "walk E fn ((m, ?now, bs) # fs') s1 = Some s'"
              using body \<open>fs = f # fs'\<close> f r s1 Cons False by simp
            show "\<forall>(m, full, rest)\<in>set ((m, ?now, bs) # fs'). set rest \<subseteq> set full"
              using others now Cons by simp
          qed
          then show ?thesis ..
        qed
        ultimately show ?thesis using one by (meson calm_evolves evolves_trans)
      qed
    qed
  qed
  then show ?thesis using assms by blast
qed

lemma with_bound_rel:
  assumes fn: "\<And>m s r s'. m \<le> s_next s \<Longrightarrow> fn m s = Some (r, s') \<Longrightarrow> evolves s s'"
    and "with_bound E fn m s = Some (r, s')" and "m \<le> s_next s"
  shows "evolves s s'"
proof -
  from assms(2) obtain s1 where s1: "fn m s = Some (r, s1)"
    and s': "s' = s1 \<or> bound_walk E fn [(m, md_bound (s_mods (snd (foreach_elems E (md_bound (s_mods s1 m)) s1)) m),
      fst (foreach_elems E (md_bound (s_mods s1 m)) s1))] (snd (foreach_elems E (md_bound (s_mods s1 m)) s1)) = Some s'"
    by (auto simp: with_bound_def bind_eq_Some_conv case_prod_beta split: if_splits)
  have "calm s1 (snd (foreach_elems E (md_bound (s_mods s1 m)) s1))" by (simp add: calm_def)
  moreover have "evolves (snd (foreach_elems E (md_bound (s_mods s1 m)) s1)) s' \<or> s' = s1"
    using s' foreach_elems_subset [of E "md_bound (s_mods s1 m)" s1]
    by (auto elim!: bound_walk_rel [rotated] intro: fn)
  ultimately show ?thesis using fn [OF assms(3) s1] by (meson calm_evolves evolves_trans)
qed

lemma setters_rel:
  assumes "m \<le> s_next s"
  shows "m_mod_start E H m s = Some (r, s') \<Longrightarrow> evolves s s'"
    and "m_mod_pause E H m s = Some (r, s') \<Longrightarrow> evolves s s'"
    and "m_mod_resume E H m s = Some (r, s') \<Longrightarrow> evolves s s'"
    and "m_mod_stop E H m s = Some (r, s') \<Longrightarrow> evolves s s'"
proof -
  have up: "evolves s s'" if "M_MOD_ASSERT_STATE m sts (M_MOD_CONSUME_TOKEN m (start E H m b)) s = Some (r, s')"
    and "m \<le> s_next s" "M_MOD_RUNNING \<notin> set sts" for m sts b s r s'
    using that(1)
  proof (cases rule: assert_state_cases)
    case 2
    from 2(2) show ?thesis
    proof (cases rule: consume_cases)
      case (2 s1)
      then have "evolves s1 s'"
        using \<open>m_mod_is m sts s\<close> that(2,3) calm_state [OF 2(1), of m]
        by (intro start_rel) (auto simp: m_mod_is_def calm_def)
      with 2(1) show ?thesis by (meson calm_evolves evolves_trans)
    qed simp
  qed simp
  have down: "evolves s s'" if "M_MOD_ASSERT_STATE m sts (M_MOD_CONSUME_TOKEN m (stop E H m b)) s = Some (r, s')"
    for m sts b s r s'
    using that by (auto elim!: assert_state_cases consume_cases dest!: stop_rel intro: evolves_trans calm_evolves)
  show "m_mod_start E H m s = Some (r, s') \<Longrightarrow> evolves s s'"
    "m_mod_pause E H m s = Some (r, s') \<Longrightarrow> evolves s s'"
    "m_mod_resume E H m s = Some (r, s') \<Longrightarrow> evolves s s'"
    "m_mod_stop E H m s = Some (r, s') \<Longrightarrow> evolves s s'"
    unfolding m_mod_start_def m_mod_pause_def m_mod_resume_def m_mod_stop_def
    by (erule with_bound_rel [rotated, OF _ assms], simp add: start_one_def pause_one_def resume_one_def
        stop_one_def up down)+
qed

subsection \<open>The loop\<close>

lemma loop_start_rel: "loop_start E H n s = Some (r, s') \<Longrightarrow> evolves s s'"
proof -
  let ?s1 = "snd (poll_init E (s\<lparr>c_max_events := n\<rparr>))"
  let ?s2 = "?s1\<lparr>c_looping_start := s_now ?s1, c_state := M_CTX_LOOPING, c_quit := False, c_quit_code := 0\<rparr>"
  assume ls: "loop_start E H n s = Some (r, s')"
  have c: "calm s ?s1" "calm s ?s2" by (simp_all add: calm_def poll_init_def alloc_def st_def)
  show ?thesis
  proof (cases "fst (poll_init E (s\<lparr>c_max_events := n\<rparr>)) = 0")
    case False
    with ls c show ?thesis by (auto simp: loop_start_def case_prod_beta)
  next
    case True
    with ls obtain r3 s3 r4 s4 where s3: "iterate_modules (evaluate_module E H) ?s2 = Some (r3, s3)"
      and s4: "tell_system_pubsub_msg E NULL NULL M_PS_CTX_STARTED s3 = Some (r4, s4)"
      and s5: "(if c_tick_src s4 \<noteq> NULL then map_option snd (poll_set_new_evt E (c_tick_src s4) ADD s4)
        else Some s4) = Some s'"
      by (cases "poll_init E (s\<lparr>c_max_events := n\<rparr>)") (auto simp: loop_start_def bind_eq_Some_conv Let_def)
    have "evolves ?s2 s3" using s3 by (rule iterate_modules_evolves [rotated]) (rule evaluate_module_rel)
    moreover have "calm s3 s'"
      using tell_system_calm [OF s4] s5 by (auto split: if_splits dest: poll_set_new_evt_calm intro: calm_trans)
    ultimately show ?thesis using c(2) by (meson calm_evolves evolves_trans)
  qed
qed

lemma poll_clear_Some: "poll_clear s = Some s' \<longleftrightarrow> c_priv s \<and> s' = s\<lparr>c_pevents := False\<rparr>"
  by (auto simp: poll_clear_def)

lemma loop_stop_rel: "loop_stop E H s = Some (r, s') \<Longrightarrow> evolves s s'"
proof -
  assume "loop_stop E H s = Some (r, s')"
  then obtain r1 s1 r2 s2 s3 where
    s1: "tell_system_pubsub_msg E NULL NULL M_PS_CTX_STOPPED (s\<lparr>c_state := M_CTX_IDLE\<rparr>) = Some (r1, s1)" and
    s2: "iterate_modules (flush_pubsub_msgs E H False) s1 = Some (r2, s2)" and
    s3: "(if c_tick_src s2 \<noteq> NULL then map_option snd (poll_set_new_evt E (c_tick_src s2) RM s2) else Some s2) = Some s3" and
    s5: "let s4 = s3\<lparr>c_pevents := False, c_thpool := False, c_max_events := 0, c_looping_start := 0, c_recv_msgs := 0, c_idle_time := 0\<rparr>
      in (if c_modules s4 = [] \<and> \<not> has (c_flags s4) M_CTX_PERSIST then map_option snd (m_ctx_deregister E H s4)
          else Some s4) = Some s'"
    by (auto simp: loop_stop_def poll_clear_Some bind_eq_Some_conv Let_def)
  have "calm s (s\<lparr>c_state := M_CTX_IDLE\<rparr>)" by (simp add: calm_def st_def)
  from calm_trans [OF this tell_system_calm [OF s1]] have "evolves s s1" by (rule calm_evolves)
  also have "evolves s1 s2" using s2 by (rule iterate_modules_evolves [rotated]) (rule flush_pubsub_msgs_evolves)
  also have "calm s2 s3" using s3 by (auto split: if_splits dest: poll_set_new_evt_calm)
  then have "evolves s2 s3" by (rule calm_evolves)
  also have "evolves s3 s'"
  proof -
    let ?s4 = "s3\<lparr>c_pevents := False, c_thpool := False, c_max_events := 0, c_looping_start := 0, c_recv_msgs := 0, c_idle_time := 0\<rparr>"
    have "calm s3 ?s4" by (simp add: calm_def st_def)
    moreover have "evolves ?s4 s'" using s5 m_ctx_deregister_rel by (auto simp: Let_def split: if_splits)
    ultimately show ?thesis by (meson calm_evolves evolves_trans)
  qed
  finally show ?thesis .
qed

lemma drop_oneshot_calm: "drop_oneshot E m p s = Some s' \<Longrightarrow> calm s s'"
  by (auto simp: drop_oneshot_def split: if_splits option.splits src_key.splits dest: srcs_remove_calm remove_sub_calm)

lemma consume_evt_rel: "consume_evt E H m p e n s = Some (err, n', s') \<Longrightarrow> evolves s s'"
proof -
  assume ce: "consume_evt E H m p e n s = Some (err, n', s')"
  show ?thesis
  proof (cases "s_errno s = 0")
    case False
    with ce show ?thesis by (auto simp: consume_evt_def Let_def dest: evt_unref_calm)
  next
    case True
    with ce obtain s1 where s1: "drop_oneshot E m p s = Some s1" and
      s': "evt_unref E e s1 = Some s' \<or> push_evt E H m e s1 = Some s' \<or>
        (\<exists>r s2. stop E H m True s1 = Some (r, s2) \<and> evt_unref E e s2 = Some s')"
      by (auto simp: consume_evt_def Let_def bind_eq_Some_conv split: if_splits)
    have "evolves s1 s'"
      using s' push_evt_evolves stop_rel evt_unref_calm by (meson calm_evolves evolves_trans)
    with drop_oneshot_calm [OF s1] show ?thesis by (meson calm_evolves evolves_trans)
  qed
qed

lemma recv_one_rel: "recv_one E H i n s = Some (err, n', s') \<Longrightarrow> evolves s s'"
proof -
  assume ro: "recv_one E H i n s = Some (err, n', s')"
  then obtain t where t: "s_srcs s i = Some t" by (auto simp: recv_one_def split: option.splits)
  show ?thesis
  proof (cases "es_mod t = NULL")
    case True
    with ro t have "process_tick E i s = Some s'" by (auto simp: recv_one_def)
    then have "\<exists>r. tell_system_pubsub_msg E NULL NULL M_PS_CTX_TICK (snd (read_src E t s)) = Some (r, s')"
      using t by (auto simp: process_tick_def poll_consume_tmr_def case_prod_beta)
    moreover have "calm s (snd (read_src E t s))" by (simp add: read_src_def Let_def calm_def)
    ultimately show ?thesis by (meson tell_system_calm calm_evolves calm_trans)
  next
    case False
    with ro t obtain e s1 where s1: "new_evt E i s = Some (e, s1)" by (auto simp: recv_one_def bind_eq_Some_conv)
    show ?thesis
    proof (cases "e = NULL")
      case True
      with ro t False s1 show ?thesis by (auto simp: recv_one_def split: if_splits dest: new_evt_calm)
    next
      case e: False
      with ro t False s1 obtain v p s2 where
        s2: "src_procs_map E (es_type t) i e (set_evt e (v\<lparr>ev_ts := s_now s1\<rparr>) s1) = Some (p, s2)" and
        s3: "consume_evt E H (es_mod t) p e n s2 = Some (err, n', s')"
        by (auto simp: recv_one_def bind_eq_Some_conv)
      have "calm s1 s2" using process_calm [OF s2] by (simp add: calm_def)
      with new_evt_calm [OF s1] consume_evt_rel [OF s3] show ?thesis by (meson calm_evolves evolves_trans)
    qed
  qed
qed

lemma recv_loop_rel: "recv_loop E H ps err n s = Some (err', n', s') \<Longrightarrow> evolves s s'"
proof (induction ps arbitrary: err n s)
  case (Cons p ps)
  show ?case
  proof (cases "err = 0")
    case True
    show ?thesis
    proof (cases "poll_recv p = NULL")
      case True
      with Cons \<open>err = 0\<close> show ?thesis by simp
    next
      case False
      with Cons.prems \<open>err = 0\<close> obtain err1 n1 s1 where "recv_one E H (poll_recv p) n s = Some (err1, n1, s1)"
        "recv_loop E H ps err1 n1 s1 = Some (err', n', s')"
        by (auto simp: bind_eq_Some_conv)
      then show ?thesis using Cons.IH recv_one_rel by (meson evolves_trans)
    qed
  qed (use Cons.prems in simp)
qed simp

lemma end_turn_rel: "end_turn E H err n s = Some (r, s') \<Longrightarrow> evolves s s'"
proof -
  assume et: "end_turn E H err n s = Some (r, s')"
  have "evolves s (s1\<lparr>c_recv_msgs := w\<rparr>)" if "iterate_modules (evaluate_module E H) s = Some (r1, s1)" for r1 s1 w
  proof -
    have "evolves s s1" using that by (rule iterate_modules_evolves [rotated]) (rule evaluate_module_rel)
    also have "evolves s1 (s1\<lparr>c_recv_msgs := w\<rparr>)" by (rule calm_evolves) (simp add: calm_def)
    finally show ?thesis .
  qed
  moreover have "calm s (loop_quit q s)" for q by (simp add: calm_def)
  ultimately show ?thesis
    using et by (auto simp: end_turn_def bind_eq_Some_conv split: if_splits)
qed

lemma recv_events_rel: "recv_events E H n s = Some (r, s') \<Longrightarrow> evolves s s'"
proof -
  assume "recv_events E H n s = Some (r, s')"
  then obtain err k s2 r3 s3 where
    s2: "recv_loop E H (fst (wait_events E n s)) (s_errno (snd (wait_events E n s))) 0 (snd (wait_events E n s))
      = Some (err, k, s2)" and
    s3: "end_turn E H err k s2 = Some (r3, s3)" and s': "s' = s3\<lparr>s_last_time := s_now s3\<rparr>"
    by (auto simp: recv_events_def Let_def case_prod_beta bind_eq_Some_conv)
  have "calm s (snd (wait_events E n s))" by (simp add: wait_events_def Let_def calm_def split: sum.splits)
  then have "evolves s (snd (wait_events E n s))" by (rule calm_evolves)
  also have "evolves (snd (wait_events E n s)) s2" using s2 by (rule recv_loop_rel)
  also have "evolves s2 s3" using s3 by (rule end_turn_rel)
  also have "evolves s3 s'" by (rule calm_evolves) (simp add: s' calm_def)
  finally show ?thesis .
qed

lemma ctx_loop_while_rel:
  assumes "ctx_loop_while E H s = Some s'"
  shows "evolves s s'"
proof -
  have "H = H \<longrightarrow> evolves s s'"
  proof (rule ctx_loop_while.raw_induct [OF _ assms, of "\<lambda>_ H' s s'. H' = H \<longrightarrow> evolves s s'"], rule impI)
    fix walk E H' s s'
    assume IH: "\<And>E H' s s'. walk E H' s = Some s' \<Longrightarrow> H' = H \<longrightarrow> evolves s s'" and H: "H' = H"
      and body: "(if \<not> c_quit s \<and> 0 < c_running s
        then Option.bind (recv_events E H' (-1) s) (\<lambda>(r, s'). walk E H' s') else Some s) = Some s'"
    show "evolves s s'"
    proof (cases "\<not> c_quit s \<and> 0 < c_running s")
      case True
      with body H obtain r s1 where "recv_events E H (-1) s = Some (r, s1)" "walk E H s1 = Some s'"
        by (auto simp: bind_eq_Some_conv)
      then show ?thesis using IH [of E H s1 s'] recv_events_rel by (meson evolves_trans)
    next
      case False
      then show ?thesis using body by (auto split: if_splits)
    qed
  qed
  then show ?thesis by simp
qed

lemma loop_rel:
  "m_ctx_loop E H s = Some (r, s') \<Longrightarrow> evolves s s'"
  "m_ctx_dispatch E H s = Some (r, s') \<Longrightarrow> evolves s s'"
proof -
  assume "m_ctx_loop E H s = Some (r, s')"
  then have "s' = s \<or> (\<exists>r1 s1. loop_start E H M_CTX_DEFAULT_EVENTS s = Some (r1, s1) \<and>
      (s' = s1 \<or> (\<exists>s2. ctx_loop_while E H s1 = Some s2 \<and> loop_stop E H s2 = Some (r, s'))))"
    unfolding m_ctx_loop_def M_CTX_ASSERT_def m_ctx_loop_events_def M_RET_ASSERT_def
    by (fastforce simp: bind_eq_Some_conv split: if_splits)
  then show "evolves s s'"
    by (metis evolves_refl evolves_trans loop_start_rel ctx_loop_while_rel loop_stop_rel)
next
  assume "m_ctx_dispatch E H s = Some (r, s')"
  then show "evolves s s'"
    by (auto simp: m_ctx_dispatch_def M_CTX_ASSERT_def split: if_splits
        dest: loop_start_rel loop_stop_rel recv_events_rel)
qed

subsection \<open>Calls\<close>

lemma bind_rel:
  assumes "m_mod_bind E m n s = Some (r, s')" and "m \<le> s_next s"
  shows "evolves s s'"
  using assms(1) unfolding m_mod_bind_def
proof (cases rule: assert_cases)
  case 2
  from 2(3) show ?thesis
  proof (cases rule: assert_cases)
    case 2
    from 2(3) show ?thesis
    proof (cases rule: consume_cases)
      case (2 s1)
      let ?s2 = "snd (alloc E s1)"
      let ?s3 = "upd_mod n (\<lambda>d. d\<lparr>md_bound := m # md_bound d\<rparr>) ?s2"
      have c: "calm s ?s2" using 2(1) by (rule calm_trans) (simp add: calm_def)
      then have "m \<le> s_next ?s2" using assms(2) by (simp add: calm_def)
      moreover have "running ?s3 = running ?s2" by (auto simp: running_def)
      ultimately have "evolves ?s2 ?s3" by (auto simp: evolves_def core_ok_def)
      with c have "evolves s ?s3" by (meson calm_evolves evolves_trans)
      moreover have "s' = ?s2 \<or> s' = ?s3" using 2(2) by (simp add: case_prod_beta split: if_splits)
      ultimately show ?thesis using calm_evolves [OF c] by auto
    qed simp
  qed simp
qed simp

lemma do_call_rel:
  assumes "do_call E H c s = Some (r, s')" and "real_mods (call_mods c) s"
  shows "evolves s s'"
proof (cases "calm_call c")
  case True
  with assms(1) show ?thesis by (intro calm_evolves quiet_call_calm)
next
  case False
  note call = assms(1)
  show ?thesis
  proof (cases c)
    case (Register nm hk fl up)
    with call show ?thesis by (auto dest: register_rel)
  next
    case (Deregister m)
    with call show ?thesis by (auto simp: m_mod_deregister_def dest: mod_deregister_rel)
  next
    case (Bind m n)
    with call assms(2) show ?thesis by (auto simp: real_mods_def dest: bind_rel)
  next
    case (Unstash m n)
    with call show ?thesis by (auto dest: unstash_evolves)
  next
    case Loop
    with call show ?thesis by (auto dest: loop_rel)
  next
    case Dispatch
    with call show ?thesis by (auto dest: loop_rel)
  next
    case CtxDeregister
    with call show ?thesis by (auto dest: m_ctx_deregister_rel)
  qed (use call assms(2) False in \<open>auto simp: real_mods_def dest: setters_rel\<close>)
qed

lemma run_call_rel: "run_call E H c s = Some (r, s') \<Longrightarrow> evolves s s'"
  by (auto simp: run_call_def split: if_splits dest: do_call_rel)

lemma run_calls_rel: "run_calls E H cs s = Some s' \<Longrightarrow> evolves s s'"
proof (induction cs arbitrary: s)
  case (Cons c cs)
  then show ?case by (fastforce simp: bind_eq_Some_conv intro: evolves_trans dest: run_call_rel)
qed simp

lemma run_script_rel: "run_script E H ok fs s = Some s' \<Longrightarrow> evolves s s'"
proof (induction fs arbitrary: s)
  case (Cons f fs)
  then show ?case
    by (fastforce simp: bind_eq_Some_conv intro: evolves_trans dest: run_call_rel split: if_splits)
qed simp

end

subsection \<open>Clients made of scripts\<close>

lemma calm_script: "run_script E H calm_call fs s = Some s' \<Longrightarrow> calm s s'"
proof (induction fs arbitrary: s)
  case (Cons f fs)
  from Cons.prems obtain r s1 where s1: "calm_call (f s)" "run_call E H (f s) s = Some (r, s1)"
    "run_script E H calm_call fs s1 = Some s'"
    by (auto simp: bind_eq_Some_conv split: if_splits)
  have "calm s s1"
    using s1(1,2) by (auto simp: run_call_def split: if_splits dest: quiet_call_calm)
  also have "calm s1 s'" using s1(3) by (rule Cons.IH)
  finally show ?case .
qed simp

lemma script_client: "client (script_hooks E P n)"
proof (induction n)
  case 0
  show ?case by unfold_locales auto
next
  case (Suc n)
  show ?case
    by unfold_locales (auto simp: Let_def dest: calm_script client.run_script_rel [OF Suc.IH])
qed

interpretation script: client "script_hooks E P n" for E P n
  by (rule script_client)

subsection \<open>The count of running modules\<close>

text \<open>
  C22. The counter \<^verbatim>\<open>running_mods\<close> that keeps the loop going is the number of modules in state
  \<^verbatim>\<open>M_MOD_RUNNING\<close>: any history of calls keeps it so, for clients whose start and event callbacks
  make any calls, nested to any depth, and whose evaluation and stop callbacks make calls that leave the
  states of modules alone. Without that restriction it is false: \<open>eval_starts_twice\<close> and \<open>stop_restarts\<close>
  below.
\<close>

theorem running_count:
  assumes "core_ok s" and "run_calls E (script_hooks E P n) cs s = Some s'"
  shows "core_ok s' \<and> c_running s' = of_nat (card {m. md_state (s_mods s' m) = M_MOD_RUNNING})"
proof -
  have "core_ok s'" using evolvesD [OF script.run_calls_rel [OF assms(2)] assms(1)] by simp
  then show ?thesis by (simp add: core_ok_def running_def)
qed

definition greeting :: program where
  "greeting = no_program\<lparr>p_start := \<lambda>_ _. ([\<lambda>_. Pause 1, \<lambda>_. Len], \<lambda>_. True)\<rparr>"

lemma live_ok: "core_ok live_sys"
proof -
  have "running live_sys = {1}" by (auto simp: running_def run_state)
  then show ?thesis by (auto simp: core_ok_def run_state)
qed

theorem running_count_witness:
  "core_ok live_sys \<and> (\<exists>s'. run_calls good_env (script_hooks good_env greeting (Suc (Suc 0))) [Start 2, Resume 1, Stop 2] live_sys
     = Some s' \<and> c_running s' = 1 \<and> core_ok s' \<and> c_running s' = of_nat (card {m. md_state (s_mods s' m) = M_MOD_RUNNING}))"
proof -
  have "map_option c_running (run_calls good_env (script_hooks good_env greeting (Suc (Suc 0)))
      [Start 2, Resume 1, Stop 2] live_sys) = Some 1"
    by (simp add: run_defs greeting_def)
  then obtain s' where s': "run_calls good_env (script_hooks good_env greeting (Suc (Suc 0)))
      [Start 2, Resume 1, Stop 2] live_sys = Some s'" and "c_running s' = 1"
    by (auto simp del: run_calls.simps)
  with live_ok running_count [OF live_ok s'] show ?thesis by blast
qed

text \<open>
  Why evaluation callbacks are restricted: one that starts its own module has it started twice, and the
  counter is one ahead. The count of the two modules that run afterwards is 3.
\<close>

definition eager_hooks :: hooks where
  "eager_hooks = (script_hooks good_env no_program (Suc 0))\<lparr>h_eval := \<lambda>f m s.
     map_option (\<lambda>(r, s'). (True, s')) (m_mod_start good_env (script_hooks good_env no_program (Suc 0)) m s)\<rparr>"

definition eager_sys :: sys where
  "eager_sys = upd_mod 2 (\<lambda>d. d\<lparr>md_hook := evt_hook\<lparr>on_eval := 5\<rparr>\<rparr>) live_sys"

lemma eval_starts_twice:
  "map_option (\<lambda>(r, s). (c_running s, List.map (\<lambda>m. md_state (s_mods s m)) [1, 2])) (evaluate_module good_env eager_hooks 2 eager_sys)
     = Some (3, [M_MOD_RUNNING, M_MOD_RUNNING])"
  by (simp add: evaluate_module_def eager_hooks_def eager_sys_def fdcmp_def int_sub_def run_defs Let_def)

text \<open>
  And stop callbacks: one that starts its module again while it is deregistered leaves a zombie that is
  counted as running.
\<close>

definition restart_hooks :: hooks where
  "restart_hooks = (script_hooks good_env no_program (Suc 0))\<lparr>h_stop := \<lambda>f m s.
     map_option snd (m_mod_start good_env (script_hooks good_env no_program (Suc 0)) m s)\<rparr>"

lemma stop_restarts:
  "map_option (\<lambda>(r, s). (c_running s, List.map (\<lambda>m. md_state (s_mods s m)) [1, 2]))
     (m_mod_deregister good_env restart_hooks 1 (upd_mod 1 (\<lambda>d. d\<lparr>md_hook := evt_hook\<lparr>on_stop := 5\<rparr>\<rparr>) live_sys))
     = Some (1, [M_MOD_ZOMBIE, M_MOD_IDLE])"
  by (simp add: m_mod_deregister_def mod_deregister_def mod_deregister_with_def restart_hooks_def slot_remove_def word_gt_0 run_defs Let_def)

end
