(* ===== verification/Messages.thy ===== *)
theory Messages
  imports Demo
begin

text \<open>
  What the messages of \<^verbatim>\<open>ps.c\<close> reach: publishing against a reference definition of who is
  subscribed, telling, the system message that asks a module to stop, and the cost of a call
  in tokens.
\<close>

subsection \<open>The subscription that a topic selects\<close>

definition topic_matches :: "env \<Rightarrow> string \<Rightarrow> sid \<Rightarrow> sys \<Rightarrow> bool" where
  "topic_matches E topic i s = (case s_srcs s i of None \<Rightarrow> False | Some t \<Rightarrow>
     (case es_key t of KeyTopic reg \<Rightarrow> e_match E reg topic | _ \<Rightarrow> False))"

text \<open>The one registered under the very topic, else the first in table order whose expression matches.\<close>

definition subscription :: "env \<Rightarrow> mid \<Rightarrow> string \<Rightarrow> sys \<Rightarrow> sid" where
  "subscription E m topic s = (case md_subs (s_mods s m) of None \<Rightarrow> NULL | Some xs \<Rightarrow>
     (case List.find (\<lambda>(k, _, _). k = topic) xs of
        Some (_, _, sub) \<Rightarrow> sub
      | None \<Rightarrow> (case List.find (\<lambda>(_, _, sub). topic_matches E topic sub s) xs of
            Some (_, _, sub) \<Rightarrow> sub
          | None \<Rightarrow> NULL)))"

definition active :: "mid \<Rightarrow> sys \<Rightarrow> bool" where
  "active m s \<longleftrightarrow> md_state (s_mods s m) \<in> {M_MOD_RUNNING, M_MOD_PAUSED}"

definition recipient :: "env \<Rightarrow> string \<Rightarrow> mid \<Rightarrow> sys \<Rightarrow> bool" where
  "recipient E topic m s \<longleftrightarrow> active m s \<and> subscription E m topic s \<noteq> NULL"

text \<open>The subscriptions of a module and the strings of their keys are alive.\<close>

definition subs_ok :: "mid \<Rightarrow> sys \<Rightarrow> bool" where
  "subs_ok m s \<longleftrightarrow> (\<forall>(k, owner, sub) \<in> set (case md_subs (s_mods s m) of None \<Rightarrow> [] | Some xs \<Rightarrow> xs).
     sub \<noteq> NULL \<and> (owner = NULL \<or> s_srcs s owner \<noteq> None) \<and>
     (\<exists>t reg. s_srcs s sub = Some t \<and> es_key t = KeyTopic reg))"

definition pipe_ok :: "env \<Rightarrow> mid \<Rightarrow> sys \<Rightarrow> bool" where
  "pipe_ok E m s \<longleftrightarrow> md_fd1 (s_mods s m) \<noteq> -1 \<and> length (md_pipe (s_mods s m)) < e_room E"

text \<open>These look at the subscriptions, the state and the pipe of the module, and at the sources.\<close>

lemma recipient_cong:
  assumes "s_srcs s' = s_srcs s" and "md_subs (s_mods s' m) = md_subs (s_mods s m)"
  shows "subscription E m topic s' = subscription E m topic s" and "subs_ok m s' \<longleftrightarrow> subs_ok m s"
    and "md_state (s_mods s' m) = md_state (s_mods s m) \<Longrightarrow> recipient E topic m s' \<longleftrightarrow> recipient E topic m s"
  using assms by (auto simp: subscription_def recipient_def active_def topic_matches_def subs_ok_def cong: option.case_cong)

lemma alloc_works: "(\<And>n. e_mem E n) \<Longrightarrow> alloc E s = (Suc (s_next s), s\<lparr>s_next := Suc (s_next s)\<rparr>)"
  by (simp add: alloc_def)

lemma foreach_elems_works:
  assumes "\<And>n. e_mem E n"
  obtains k where "foreach_elems E xs s = (xs, s\<lparr>s_next := k\<rparr>)"
proof (cases "xs = []")
  case True
  then show ?thesis using that [of "s_next s"] by (simp add: foreach_elems_def)
next
  case False
  then show ?thesis using that [of "Suc (s_next s)"] by (simp add: foreach_elems_def alloc_works [OF assms])
qed

lemma match_sub_find:
  assumes "\<And>i. i \<in> set is \<Longrightarrow> \<exists>t reg. s_srcs s i = Some t \<and> es_key t = KeyTopic reg"
  shows "match_sub E topic is s = Some (case List.find (\<lambda>i. topic_matches E topic i s) is of None \<Rightarrow> NULL | Some i \<Rightarrow> i)"
  using assms
proof (induction "is")
  case (Cons i "is")
  then obtain t reg where "s_srcs s i = Some t" "es_key t = KeyTopic reg" by force
  then show ?case using Cons by (simp add: topic_matches_def)
qed simp

lemma find_sub:
  "List.find P (List.map (snd \<circ> snd) xs) = map_option (snd \<circ> snd) (List.find (\<lambda>(_, _, sub). P sub) xs)"
  by (induction xs) auto

lemma fetch_sub_finds:
  assumes mem: "\<And>n. e_mem E n" and ok: "subs_ok m s"
  obtains k where "fetch_sub E m topic s = Some (subscription E m topic s, s\<lparr>s_next := k\<rparr>)"
proof (cases "md_subs (s_mods s m)")
  case None
  then show ?thesis
    using that [of "s_next s"] by (simp add: fetch_sub_def get_sub_def foreach_elems_def subscription_def)
next
  case subs: (Some xs)
  let ?key = "List.find (\<lambda>(k, _, _). k = topic) xs"
  have live: "sub \<noteq> NULL \<and> (owner = NULL \<or> s_srcs s owner \<noteq> None)" if "(k, owner, sub) \<in> set xs" for k owner sub
    using ok that by (auto simp: subs_ok_def subs)
  show ?thesis
  proof (cases ?key)
    case None
    obtain n where n: "foreach_elems E (List.map (snd \<circ> snd) xs) s = (List.map (snd \<circ> snd) xs, s\<lparr>s_next := n\<rparr>)"
      by (rule foreach_elems_works [OF mem])
    have "match_sub E topic (List.map (snd \<circ> snd) xs) (s\<lparr>s_next := n\<rparr>) =
        Some (case List.find (\<lambda>i. topic_matches E topic i (s\<lparr>s_next := n\<rparr>)) (List.map (snd \<circ> snd) xs) of None \<Rightarrow> NULL | Some i \<Rightarrow> i)"
      using ok by (intro match_sub_find) (fastforce simp: subs_ok_def subs)
    then have "fetch_sub E m topic s = Some (subscription E m topic s, s\<lparr>s_next := n\<rparr>)"
      using None n by (auto simp: fetch_sub_def get_sub_def subs subscription_def find_sub topic_matches_def
          split: option.splits)
    then show ?thesis by (rule that)
  next
    case (Some e)
    obtain k owner sub where e: "e = (k, owner, sub)" by (cases e)
    with Some have "(k, owner, sub) \<in> set xs" by (metis find_Some_iff nth_mem)
    then show ?thesis using live that [of "s_next s"] Some e
      by (fastforce simp: fetch_sub_def get_sub_def subs subscription_def)
  qed
qed

lemma tell_if_writes:
  assumes "\<And>n. e_mem E n" and "pipe_ok E m s" and "active m s" and "key \<noteq> NULL" and "ps_topic msg \<noteq> None"
  shows "tell_if E msg key m s = Some (0, (upd_mod m (\<lambda>d. d\<lparr>md_pipe := md_pipe d @ [msg\<lparr>ps_sub := key\<rparr>]\<rparr>) s)
    \<lparr>s_next := Suc (s_next s)\<rparr>)"
  using assms by (auto simp: tell_if_def alloc_ps_msg_def alloc_works active_def pipe_ok_def upd_mod_def)

subsection \<open>Publishing\<close>

text \<open>The modules of \<open>ms\<close> after the message has gone round.\<close>

definition delivered :: "env \<Rightarrow> ps_priv \<Rightarrow> string \<Rightarrow> mid list \<Rightarrow> sys \<Rightarrow> mid \<Rightarrow> m_mod" where
  "delivered E msg topic ms s = (\<lambda>m. if m \<in> set ms \<and> recipient E topic m s
     then (s_mods s m)\<lparr>md_pipe := md_pipe (s_mods s m) @ [msg\<lparr>ps_sub := subscription E m topic s\<rparr>]\<rparr>
     else s_mods s m)"

definition tell_one :: "env \<Rightarrow> ps_priv \<Rightarrow> string \<Rightarrow> mid \<Rightarrow> sys \<Rightarrow> sys option" where
  "tell_one E msg topic = (\<lambda>m s.
     if m_mod_is m [M_MOD_RUNNING, M_MOD_PAUSED] s then do {
       (sub, s1) \<leftarrow> fetch_sub E m topic s;
       if sub \<noteq> NULL then map_option snd (tell_if E msg sub m s1) else Some s1
     } else Some s)"

lemma tell_one_delivers:
  assumes "\<And>n. e_mem E n" and "subs_ok m s" and "recipient E topic m s \<Longrightarrow> pipe_ok E m s"
    and "ps_topic msg = Some topic" and "m \<noteq> NULL"
  obtains k where "tell_one E msg topic m s = Some (s\<lparr>s_mods := delivered E msg topic [m] s, s_next := k\<rparr>)"
proof (cases "active m s")
  case False
  then have "delivered E msg topic [m] s = s_mods s" by (auto simp: delivered_def recipient_def fun_eq_iff)
  with False have "tell_one E msg topic m s = Some (s\<lparr>s_mods := delivered E msg topic [m] s, s_next := s_next s\<rparr>)"
    by (auto simp: tell_one_def m_mod_is_def active_def)
  then show ?thesis by (rule that)
next
  case True
  obtain k where k: "fetch_sub E m topic s = Some (subscription E m topic s, s\<lparr>s_next := k\<rparr>)"
    by (rule fetch_sub_finds [OF assms(1,2)])
  let ?s = "s\<lparr>s_next := k\<rparr>"
  have is_active: "m_mod_is m [M_MOD_RUNNING, M_MOD_PAUSED] s" "active m ?s"
    using True assms(5) by (auto simp: m_mod_is_def active_def)
  show ?thesis
  proof (cases "subscription E m topic s = NULL")
    case True
    then have "delivered E msg topic [m] s = s_mods s" by (auto simp: delivered_def recipient_def fun_eq_iff)
    with True have "tell_one E msg topic m s = Some (s\<lparr>s_mods := delivered E msg topic [m] s, s_next := k\<rparr>)"
      using is_active k by (auto simp: tell_one_def)
    then show ?thesis by (rule that)
  next
    case sub: False
    then have "pipe_ok E m ?s" using assms(3) \<open>active m s\<close> by (simp add: recipient_def pipe_ok_def)
    then have "tell_if E msg (subscription E m topic s) m ?s = Some (0, (upd_mod m (\<lambda>d. d\<lparr>md_pipe := md_pipe d @
        [msg\<lparr>ps_sub := subscription E m topic s\<rparr>]\<rparr>) ?s)\<lparr>s_next := Suc k\<rparr>)"
      using tell_if_writes [OF assms(1)] is_active(2) sub assms(4) by simp
    then have "tell_one E msg topic m s = Some (s\<lparr>s_mods := delivered E msg topic [m] s, s_next := Suc k\<rparr>)"
      using is_active(1) k sub \<open>active m s\<close>
      by (auto simp: tell_one_def delivered_def recipient_def upd_mod_def fun_eq_iff)
    then show ?thesis by (rule that)
  qed
qed

lemma fold_delivers:
  assumes mem: "\<And>n. e_mem E n" and msg: "ps_topic msg = Some topic"
  shows "distinct ms \<Longrightarrow> NULL \<notin> set ms \<Longrightarrow> (\<And>m. m \<in> set ms \<Longrightarrow> subs_ok m (s :: sys)) \<Longrightarrow>
    (\<And>m. m \<in> set ms \<Longrightarrow> recipient E topic m s \<Longrightarrow> pipe_ok E m s) \<Longrightarrow>
    \<exists>k. fold_opt (tell_one E msg topic) ms s = Some (s\<lparr>s_mods := delivered E msg topic ms s, s_next := k\<rparr>)"
proof (induction ms arbitrary: s)
  case Nil
  have "s = s\<lparr>s_mods := delivered E msg topic [] s, s_next := s_next s\<rparr>" by (simp add: delivered_def)
  then show ?case by (metis fold_opt.simps(1))
next
  case (Cons m ms)
  obtain k where k: "tell_one E msg topic m s = Some (s\<lparr>s_mods := delivered E msg topic [m] s, s_next := k\<rparr>)"
    by (rule tell_one_delivers [where E = E and m = m and s = s and topic = topic and msg = msg])
       (use mem msg Cons.prems in auto)
  let ?s = "s\<lparr>s_mods := delivered E msg topic [m] s, s_next := k\<rparr>"
  have other: "s_mods ?s r = s_mods s r" if "r \<in> set ms" for r
    using that Cons.prems(1) by (auto simp: delivered_def)
  have same: "subscription E r topic ?s = subscription E r topic s" "recipient E topic r ?s = recipient E topic r s" for r
    by (rule recipient_cong; simp add: delivered_def)+
  have "subs_ok r ?s" "recipient E topic r ?s \<Longrightarrow> pipe_ok E r ?s" if "r \<in> set ms" for r
    using Cons.prems(3,4) [of r] that other [OF that] same [of r] by (auto simp: subs_ok_def pipe_ok_def)
  then obtain n where n: "fold_opt (tell_one E msg topic) ms ?s = Some (?s\<lparr>s_mods := delivered E msg topic ms ?s, s_next := n\<rparr>)"
    using Cons.IH [of ?s] Cons.prems(1,2) by (metis distinct.simps(2) list.set_intros(2))
  have "delivered E msg topic ms ?s = delivered E msg topic (m # ms) s"
    using Cons.prems(1) by (auto simp: fun_eq_iff delivered_def [of _ _ _ ms] same) (auto simp: delivered_def)
  then show ?case using k n by auto
qed

lemma tell_subscribers_delivers:
  assumes "\<And>n. e_mem E n" and "ps_topic msg = Some topic"
    and "distinct (List.map snd (c_modules s))" and "NULL \<notin> snd ` set (c_modules s)"
    and "\<And>r. r \<in> snd ` set (c_modules s) \<Longrightarrow> subs_ok r s \<and> (recipient E topic r s \<longrightarrow> pipe_ok E r s)"
  obtains k where "tell_subscribers E msg topic s =
    Some (s\<lparr>s_mods := delivered E msg topic (List.map snd (c_modules s)) s, s_next := k\<rparr>)"
proof -
  let ?ms = "List.map snd (c_modules s)"
  have same: "subscription E r topic (s\<lparr>s_next := n\<rparr>) = subscription E r topic s"
    "recipient E topic r (s\<lparr>s_next := n\<rparr>) = recipient E topic r s"
    "subs_ok r (s\<lparr>s_next := n\<rparr>) = subs_ok r s" "pipe_ok E r (s\<lparr>s_next := n\<rparr>) = pipe_ok E r s" for r n
    by (rule recipient_cong; simp)+ (simp add: pipe_ok_def)
  obtain n where n: "foreach_elems E ?ms s = (?ms, s\<lparr>s_next := n\<rparr>)" by (rule foreach_elems_works [OF assms(1)])
  obtain k where "fold_opt (tell_one E msg topic) ?ms (s\<lparr>s_next := n\<rparr>) =
      Some (s\<lparr>s_next := n, s_mods := delivered E msg topic ?ms (s\<lparr>s_next := n\<rparr>), s_next := k\<rparr>)"
    using fold_delivers [OF assms(1,2), of ?ms "s\<lparr>s_next := n\<rparr>"] assms(3-5) unfolding same by auto
  then have "tell_subscribers E msg topic s = Some (s\<lparr>s_mods := delivered E msg topic ?ms s, s_next := k\<rparr>)"
    using n by (simp add: tell_subscribers_def foreach_def tell_one_def delivered_def same cong: if_cong)
  then show ?thesis by (rule that)
qed

text \<open>A call that costs a token, and the statistics of the module that makes it.\<close>

definition charged :: "sys \<Rightarrow> m_mod \<Rightarrow> m_mod" where
  "charged s d = d\<lparr>md_tb_tokens := md_tb_tokens d - 1,
     md_stats := (md_stats d)\<lparr>last_seen := s_now s, action_ctr := action_ctr (md_stats d) + 1\<rparr>\<rparr>"

definition sent :: "m_mod \<Rightarrow> m_mod" where
  "sent d = d\<lparr>md_stats := (md_stats d)\<lparr>sent_msgs := sent_msgs (md_stats d) + 1\<rparr>\<rparr>"

definition may_publish :: "mid \<Rightarrow> sys \<Rightarrow> bool" where
  "may_publish m s \<longleftrightarrow> m \<noteq> NULL \<and> md_state (s_mods s m) \<noteq> M_MOD_ZOMBIE \<and> m_ctx s \<and>
     \<not> has (md_flags (s_mods s m)) M_MOD_DENY_PUB \<and> md_tb_tokens (s_mods s m) > 0"

lemma consume_token:
  "md_tb_tokens (s_mods s m) > 0 \<Longrightarrow> M_MOD_CONSUME_TOKEN m k s = k (s\<lparr>s_mods := (s_mods s)(m := charged s (s_mods s m))\<rparr>)"
  by (simp add: M_MOD_CONSUME_TOKEN_def fetch_seen_def upd_stats_def upd_mod_def charged_def)

lemma may_publish_perm: "may_publish m s \<Longrightarrow> M_MOD_ASSERT_PERM m M_MOD_DENY_PUB k s = k s"
  by (simp add: may_publish_def M_MOD_ASSERT_PERM_def M_MOD_ASSERT_def m_mod_is_def)

lemma charged_mod [simp]: "md_state (charged s d) = md_state d" "md_subs (charged s d) = md_subs d"
  "md_pipe (charged s d) = md_pipe d" "md_fd1 (charged s d) = md_fd1 d"
  by (simp_all add: charged_def)

lemma sent_mod [simp]: "md_state (sent d) = md_state d" "md_subs (sent d) = md_subs d"
  "md_pipe (sent d) = md_pipe d" "md_fd1 (sent d) = md_fd1 d"
  by (simp_all add: sent_def)

lemma upd_stats_sent: "upd_stats m (\<lambda>st. st\<lparr>sent_msgs := sent_msgs st + 1\<rparr>) s = s\<lparr>s_mods := (s_mods s)(m := sent (s_mods s m))\<rparr>"
  by (simp add: upd_stats_def upd_mod_def sent_def)

text \<open>
  C28. Publishing on a topic puts one message in the pipe of every module of the context that is
  running or paused and subscribed to it, by the topic itself or by an expression that matches
  it, and in no other; the message carries the subscription it came by, and the sender pays one
  token and counts one message, however many receive it. Allocations succeed, the pipes of those
  that receive it have room and the subscriptions are alive.
\<close>

theorem publish_delivers:
  assumes "may_publish m s" and "\<not> is_system_message (Some topic)" and "message \<noteq> NULL"
    and "\<And>n. e_mem E n"
    and "distinct (List.map snd (c_modules s))" and "NULL \<notin> snd ` set (c_modules s)"
    and "\<And>r. r \<in> snd ` set (c_modules s) \<Longrightarrow> subs_ok r s \<and> (recipient E topic r s \<longrightarrow> pipe_ok E r s)"
  shows "\<exists>k. m_mod_ps_publish E m (Some topic) message fl s = Some (0, s\<lparr>s_next := k, s_mods := \<lambda>r.
    let d = (if r = m then sent (charged s (s_mods s r)) else s_mods s r) in
    if r \<in> snd ` set (c_modules s) \<and> recipient E topic r s
    then d\<lparr>md_pipe := md_pipe (s_mods s r) @ [\<lparr>ps_system = False, ps_sender = m, ps_topic = Some topic,
      ps_data = message, ps_flags = fl, ps_sub = subscription E r topic s\<rparr>]\<rparr>
    else d\<rparr>)"
proof -
  let ?msg = "\<lparr>ps_system = False, ps_sender = m, ps_topic = Some topic, ps_data = message, ps_flags = fl, ps_sub = NULL\<rparr>"
  let ?s = "s\<lparr>s_mods := (s_mods s)(m := sent (charged s (s_mods s m)))\<rparr>"
  have same: "subscription E r topic ?s = subscription E r topic s" "recipient E topic r ?s = recipient E topic r s"
    "subs_ok r ?s = subs_ok r s" "pipe_ok E r ?s = pipe_ok E r s" for r
    by (rule recipient_cong; simp)+ (simp add: pipe_ok_def)
  obtain k where "tell_subscribers E ?msg topic ?s =
      Some (?s\<lparr>s_mods := delivered E ?msg topic (List.map snd (c_modules s)) ?s, s_next := k\<rparr>)"
    using tell_subscribers_delivers [OF assms(4), of ?msg topic ?s] assms(5-7) same by auto
  then show ?thesis using assms(1-3)
    by (intro exI [of _ k])
       (simp add: m_mod_ps_publish_def may_publish_perm M_RET_ASSERT_def consume_token may_publish_def send_msg_def
         upd_stats_sent tell_pubsub_msg_def delivered_def same fun_eq_iff Let_def)
qed

text \<open>A machine-checked instance: module 1 of \<open>live_sys\<close> publishes on a topic it is subscribed to itself.\<close>

definition topic_sub :: ev_src where
  "topic_sub = \<lparr>es_type = M_SRC_TYPE_PS, es_fd = -1, es_key = KeyTopic ''news'', es_alarm = (0, 0), es_retval = 0,
     es_flags = M_SRC_PRIO_NORM, es_ev = False, es_mod = 1, es_userptr = User NULL, es_refs = 1\<rparr>"

definition subscribed_sys :: sys where
  "subscribed_sys = live_sys\<lparr>s_srcs := (\<lambda>_. None)(5 := Some topic_sub),
     s_mods := (s_mods live_sys)(1 := live_mod\<lparr>md_subs := Some [(''news'', NULL, 5)]\<rparr>)\<rparr>"

lemmas run_subscribed = subscribed_sys_def topic_sub_def recipient_def active_def subscription_def subs_ok_def
  pipe_ok_def may_publish_def is_system_message_def

theorem publish_delivers_witness:
  "\<exists>s'. m_mod_ps_publish good_env 1 (Some ''news'') 77 0 subscribed_sys = Some (0, s') \<and>
     List.map ps_data (md_pipe (s_mods s' 1)) = [77] \<and> List.map ps_sub (md_pipe (s_mods s' 1)) = [5] \<and>
     md_pipe (s_mods s' 2) = [] \<and> md_tb_tokens (s_mods s' 1) = 999"
proof -
  have "may_publish 1 subscribed_sys" "\<not> is_system_message (Some ''news'')" "(77 :: ptr) \<noteq> NULL"
    "\<And>n. e_mem good_env n" "distinct (List.map snd (c_modules subscribed_sys))" "NULL \<notin> snd ` set (c_modules subscribed_sys)"
    "\<And>r. r \<in> snd ` set (c_modules subscribed_sys) \<Longrightarrow> subs_ok r subscribed_sys \<and>
       (recipient good_env ''news'' r subscribed_sys \<longrightarrow> pipe_ok good_env r subscribed_sys)"
    by (auto simp: run_subscribed run_guards run_state)
  note publish_delivers [OF this, of 0]
  then show ?thesis by (auto simp: run_subscribed run_guards run_state Let_def sent_def charged_def)
qed

subsection \<open>Telling, and the message that nobody receives\<close>

text \<open>
  C29. A message told to a module comes last in its pipe if it is running or paused, and is
  dropped without a word otherwise; either way it costs a token and is counted as sent. Allocations
  succeed and the pipe of a module that receives it has room.
\<close>

theorem tell_appends:
  assumes "may_publish m s" and "r \<noteq> NULL" and "message \<noteq> NULL" and "\<And>n. e_mem E n"
    and "active r s \<Longrightarrow> pipe_ok E r s"
  shows "\<exists>k. m_mod_ps_tell E m r message fl s = Some (0, s\<lparr>s_next := k, s_mods := \<lambda>x.
    let d = (if x = m then sent (charged s (s_mods s x)) else s_mods s x) in
    if x = r \<and> active r s
    then d\<lparr>md_pipe := md_pipe (s_mods s r) @ [\<lparr>ps_system = False, ps_sender = m, ps_topic = None,
      ps_data = message, ps_flags = fl, ps_sub = NULL\<rparr>]\<rparr>
    else d\<rparr>)"
proof -
  let ?s = "s\<lparr>s_mods := (s_mods s)(m := sent (charged s (s_mods s m)))\<rparr>"
  have same: "active r ?s = active r s" "pipe_ok E r ?s = pipe_ok E r s" by (auto simp: active_def pipe_ok_def)
  show ?thesis
    using assms same
    by (intro exI [of _ "if active r s then Suc (s_next s) else s_next s"])
       (auto simp: m_mod_ps_tell_def may_publish_perm M_RET_ASSERT_def consume_token may_publish_def send_msg_def
         upd_stats_sent tell_pubsub_msg_def tell_if_def alloc_ps_msg_def alloc_works active_def pipe_ok_def upd_mod_def
         fun_eq_iff Let_def)
qed

theorem tell_appends_witness:
  "\<exists>s'. m_mod_ps_tell good_env 1 1 77 0 live_sys = Some (0, s') \<and> List.map ps_data (md_pipe (s_mods s' 1)) = [77] \<and>
     md_tb_tokens (s_mods s' 1) = 999"
proof -
  have "may_publish 1 live_sys" "(1 :: mid) \<noteq> NULL" "(77 :: ptr) \<noteq> NULL" "\<And>n. e_mem good_env n"
    "active 1 live_sys \<Longrightarrow> pipe_ok good_env 1 live_sys"
    by (auto simp: run_subscribed run_guards run_state)
  note tell_appends [OF this, of 0]
  then show ?thesis by (auto simp: active_def run_guards run_state Let_def sent_def charged_def)
qed

text \<open>
  C30. A poison pill never arrives: sending one to a running module succeeds, costs a token and
  changes nothing else. The message has a topic and no subscription, which is what \<^verbatim>\<open>tell_if\<close>
  drops; \<^verbatim>\<open>docs/concepts/mod.md\<close> says that the recipient stops once it has handled its events.
\<close>

theorem poisonpill_lost:
  assumes "may_publish m s" and "r \<noteq> NULL" and "md_state (s_mods s r) = M_MOD_RUNNING"
  shows "m_mod_ps_poisonpill E m r s = Some (0, s\<lparr>s_mods := (s_mods s)(m := sent (charged s (s_mods s m)))\<rparr>)"
  using assms
  by (simp add: m_mod_ps_poisonpill_def may_publish_perm M_RET_ASSERT_def consume_token may_publish_def m_mod_is_def
      tell_system_pubsub_msg_def upd_stats_sent tell_pubsub_msg_def tell_if_def)

theorem poisonpill_lost_witness:
  "\<exists>s'. m_mod_ps_poisonpill good_env 1 1 live_sys = Some (0, s') \<and> md_pipe (s_mods s' 1) = [] \<and>
     md_state (s_mods s' 1) = M_MOD_RUNNING"
proof -
  have "may_publish 1 live_sys" "(1 :: mid) \<noteq> NULL" "md_state (s_mods live_sys 1) = M_MOD_RUNNING"
    by (auto simp: run_subscribed run_guards run_state)
  from poisonpill_lost [OF this] show ?thesis by (auto simp: run_guards run_state)
qed

subsection \<open>Leaving the loop\<close>

lemma new_evt_null: "e_mem E (s_next s) \<Longrightarrow> new_evt E NULL s = None"
  by (simp add: new_evt_def alloc_def)

lemma flush_loop_direct:
  assumes "x \<in> set ms" and "ps_sub x = NULL" and "m \<noteq> NULL" and "md_state (s_mods s m) = M_MOD_RUNNING"
    and "\<And>n. e_mem E n"
  shows "flush_loop E False m ms q s = None"
  using assms(1,4)
proof (induction ms arbitrary: q s)
  case (Cons y ms)
  have run: "m_mod_is m [M_MOD_RUNNING] s" using assms(3) Cons.prems(2) by (simp add: m_mod_is_def)
  show ?case
  proof (cases "ps_sub y = NULL")
    case True
    with run new_evt_null [OF assms(5)] show ?thesis by simp
  next
    case False
    then have IH: "flush_loop E False m ms q' s' = None" if "calm s s'" for q' s'
      using Cons.prems assms(2) calm_state [OF that, of m] by (intro Cons.IH) auto
    have drop: "Option.bind (ps_msg_dtor y s1) (flush_loop E False m ms q') = None" if "calm s s1" for s1 q'
      using that IH by (cases "ps_msg_dtor y s1") (auto intro: calm_trans dest: ps_msg_dtor_calm)
    have keep: "calm s (snd (snd (enqueue E q' e (set_evt e v s1))))" if "calm s s1" for q' e v s1
      using that enqueue_fields(2) [of "set_evt e v s1" E q' e] by (simp add: calm_def)
    show ?thesis
    proof (cases "new_evt E (ps_sub y) s")
      case (Some r)
      then have c: "calm s (snd r)" by (cases r) (auto dest: new_evt_calm)
      show ?thesis
      proof (cases "s_evts (snd r) (fst r)")
        case None
        with Some run drop [OF c] show ?thesis by (simp add: case_prod_beta)
      next
        case (Some v)
        with \<open>new_evt E (ps_sub y) s = Some r\<close> run drop [OF c] IH [OF keep [OF c]] show ?thesis
          by (simp add: case_prod_beta)
      qed
    qed (use run in simp)
  qed
qed simp

text \<open>
  C31. Leaving the loop dereferences \<^verbatim>\<open>NULL\<close> when the first module in the order of the table runs and
  has, anywhere in its pipe, a message told to it: flushing makes an event of the subscription
  of each message, and such a message has none. (The callbacks that the modules flushed before it
  would run could still stop a later one.) The goodbye to the subscribers is sent before, which needs
  memory, live subscriptions and room in the pipes of those it reaches.
\<close>

theorem loop_stop_pending_tell:
  assumes "c_modules s = (n, r) # others" and "md_state (s_mods s r) = M_MOD_RUNNING"
    and "md_fd0 (s_mods s r) \<noteq> -1" and "msg \<in> set (md_pipe (s_mods s r))" and "ps_sub msg = NULL" and "\<And>n. e_mem E n"
    and "distinct (List.map snd (c_modules s))" and "NULL \<notin> snd ` set (c_modules s)"
    and "\<And>x. x \<in> snd ` set (c_modules s) \<Longrightarrow> subs_ok x s \<and> (recipient E M_PS_CTX_STOPPED x s \<longrightarrow> pipe_ok E x s)"
  shows "(\<exists>s1. tell_system_pubsub_msg E NULL NULL M_PS_CTX_STOPPED (s\<lparr>c_state := M_CTX_IDLE\<rparr>) = Some (0, s1) \<and>
      flush_pubsub_msgs E H False r s1 = None) \<and> loop_stop E H s = None"
proof -
  let ?s = "s\<lparr>c_state := M_CTX_IDLE\<rparr>" and ?ms = "List.map snd (c_modules s)"
  let ?stopped = "\<lparr>ps_system = True, ps_sender = NULL, ps_topic = Some M_PS_CTX_STOPPED, ps_data = NULL,
    ps_flags = 0, ps_sub = NULL\<rparr>"
  have same: "subs_ok x ?s = subs_ok x s" "recipient E M_PS_CTX_STOPPED x ?s = recipient E M_PS_CTX_STOPPED x s"
    "pipe_ok E x ?s = pipe_ok E x s" for x
    by (rule recipient_cong; simp)+ (simp add: pipe_ok_def)
  obtain k where k: "tell_subscribers E ?stopped M_PS_CTX_STOPPED ?s =
      Some (?s\<lparr>s_mods := delivered E ?stopped M_PS_CTX_STOPPED ?ms ?s, s_next := k\<rparr>)"
    using tell_subscribers_delivers [OF assms(6), of ?stopped M_PS_CTX_STOPPED ?s] assms(7-9) same by auto
  let ?t = "?s\<lparr>s_mods := delivered E ?stopped M_PS_CTX_STOPPED ?ms ?s, s_next := k\<rparr>"
  have told: "tell_system_pubsub_msg E NULL NULL M_PS_CTX_STOPPED ?s = Some (0, ?t)"
    using k by (simp add: tell_system_pubsub_msg_def tell_pubsub_msg_def)
  have "r \<noteq> NULL" using assms(1,8) by auto
  moreover have "msg \<in> set (md_pipe (s_mods ?t r))" "md_state (s_mods ?t r) = M_MOD_RUNNING" "md_fd0 (s_mods ?t r) \<noteq> -1"
    using assms(2-4) by (auto simp: delivered_def)
  ultimately have flush: "flush_pubsub_msgs E H False r ?t = None"
    using assms(5,6) by (simp add: flush_pubsub_msgs_def new_queue_def alloc_works upd_mod_def flush_loop_direct)
  then have "iterate_modules (flush_pubsub_msgs E H False) ?t = None"
    using assms(1) by (simp add: iterate_modules_def modules_walk.simps)
  then show ?thesis using told flush by (simp add: loop_stop_def)
qed

text \<open>Two modules, of which the first in the table runs and has told itself something.\<close>

theorem loop_stop_pending_tell_witness:
  "\<exists>s'. m_mod_ps_tell good_env 1 1 77 0 live_sys = Some (0, s') \<and> length (c_modules s') = 2 \<and>
     loop_stop good_env (script_hooks good_env no_program 0) s' = None"
proof -
  have "\<exists>s'. m_mod_ps_tell good_env 1 1 77 0 live_sys = Some (0, s') \<and> c_modules s' = c_modules live_sys \<and>
      md_state (s_mods s' 1) = M_MOD_RUNNING \<and> md_fd0 (s_mods s' 1) \<noteq> -1 \<and> (\<forall>m. md_subs (s_mods s' m) = None) \<and>
      md_pipe (s_mods s' 1) = [\<lparr>ps_system = False, ps_sender = 1, ps_topic = None, ps_data = 77, ps_flags = 0, ps_sub = NULL\<rparr>]"
    by (simp add: m_mod_ps_tell_def run_guards run_state send_msg_def tell_pubsub_msg_def tell_if_def
        alloc_ps_msg_def alloc_def)
  then obtain s' where s': "m_mod_ps_tell good_env 1 1 77 0 live_sys = Some (0, s')" "c_modules s' = c_modules live_sys"
    "md_state (s_mods s' 1) = M_MOD_RUNNING" "md_fd0 (s_mods s' 1) \<noteq> -1" "\<And>m. md_subs (s_mods s' m) = None"
    "md_pipe (s_mods s' 1) = [\<lparr>ps_system = False, ps_sender = 1, ps_topic = None, ps_data = 77, ps_flags = 0, ps_sub = NULL\<rparr>]"
    by blast
  obtain n others where mods: "c_modules s' = (n, 1) # others" "distinct (List.map snd (c_modules s'))"
    "NULL \<notin> snd ` set (c_modules s')" "length (c_modules s') = 2"
    using s'(2) by (simp add: run_state)
  have "loop_stop good_env (script_hooks good_env no_program 0) s' = None"
    by (rule loop_stop_pending_tell [THEN conjunct2, OF mods(1) s'(3,4) _ _ _ mods(2,3)])
       (use s'(5,6) in \<open>auto simp: subs_ok_def recipient_def subscription_def\<close>)
  with s'(1) mods(4) show ?thesis by blast
qed

end
