(* ===== verification/Members.thy ===== *)
theory Members
  imports Messages
begin

text \<open>
  Joining and leaving a context: what registering a module makes of the table of modules, what
  deregistering the context leaves of it, and the budget of calls that a token bucket gives to
  a module.
\<close>

subsection \<open>Registering and looking up\<close>

lemma map_of_slot_insert:
  assumes "map_of xs k = None"
  shows "map_of (slot_insert E k v xs) = (map_of xs)(k \<mapsto> v)"
proof
  fix j
  let ?P = "\<lambda>(j, _). e_slot E j \<le> e_slot E k"
  have split: "map_of xs = map_of (takeWhile ?P xs @ dropWhile ?P xs)" by simp
  have "map_of (takeWhile ?P xs) k = None" using assms unfolding split by (simp add: map_add_None del: takeWhile_dropWhile_id)
  then show "map_of (slot_insert E k v xs) j = ((map_of xs)(k \<mapsto> v)) j"
    unfolding slot_insert_def split by (auto simp: map_add_def split: option.splits simp del: takeWhile_dropWhile_id)
qed

lemma length_slot_insert: "length (slot_insert E k v xs) = Suc (length xs)"
proof -
  let ?P = "\<lambda>(j, _). e_slot E j \<le> e_slot E k"
  have "length xs = length (takeWhile ?P xs) + length (dropWhile ?P xs)"
    by (metis length_append takeWhile_dropWhile_id)
  then show ?thesis by (simp add: slot_insert_def)
qed

text \<open>With memory at hand, what is made for a module touches that module only.\<close>

lemma init_srcs_works:
  assumes "\<And>n. e_mem E n"
  shows "\<exists>k. init_srcs E m tys s = s\<lparr>s_next := k, s_mods := (s_mods s)(m := (s_mods s m)
    \<lparr>md_srcs := \<lambda>ty. if ty \<in> set tys then Some Leaf else md_srcs (s_mods s m) ty\<rparr>)\<rparr>"
proof (induction tys arbitrary: s)
  case Nil
  show ?case by (intro exI [of _ "s_next s"]) simp
next
  case (Cons ty tys)
  let ?s = "set_tree m ty Leaf (s\<lparr>s_next := Suc (s_next s)\<rparr>)"
  obtain k where "init_srcs E m tys ?s = ?s\<lparr>s_next := k, s_mods := (s_mods ?s)(m := (s_mods ?s m)
    \<lparr>md_srcs := \<lambda>ty. if ty \<in> set tys then Some Leaf else md_srcs (s_mods ?s m) ty\<rparr>)\<rparr>"
    using Cons.IH [of ?s] by blast
  then have "init_srcs E m (ty # tys) s = s\<lparr>s_next := k, s_mods := (s_mods s)(m := (s_mods s m)
    \<lparr>md_srcs := \<lambda>t. if t \<in> set tys then Some Leaf else ((md_srcs (s_mods s m))(ty := Some Leaf)) t\<rparr>)\<rparr>"
    by (simp add: init_src_def alloc_works [OF assms] set_tree_def upd_mod_def cong: if_cong)
  also have "(\<lambda>t. if t \<in> set tys then Some Leaf else ((md_srcs (s_mods s m))(ty := Some Leaf)) t) =
      (\<lambda>t. if t \<in> set (ty # tys) then Some Leaf else md_srcs (s_mods s m) t)" by auto
  finally show ?case by blast
qed

lemma alloc_all_works:
  assumes "\<And>n. e_mem E n"
  shows "\<exists>k. alloc_all E n s = (True, s\<lparr>s_next := k\<rparr>)"
proof (induction n arbitrary: s)
  case 0
  show ?case by (intro exI [of _ "s_next s"]) simp
next
  case (Suc n)
  then show ?case using Suc.IH [of "s\<lparr>s_next := Suc (s_next s)\<rparr>"] by (auto simp: alloc_works [OF assms])
qed

lemma src_types_all: "ty \<in> set src_types"
  by (cases ty) (simp_all add: src_types_def)

lemma create_mod_works:
  assumes "\<And>n. e_mem E n" and "at \<noteq> NULL" and "on_evt hook \<noteq> NULL" and "map_of (c_modules s) name = None"
    and "\<And>n s. e_grow E n s"
  shows "\<exists>k d. create_mod E (name, at) (Some hook) fl userdata s = ((0, Suc (s_next s)),
      s\<lparr>s_next := k, s_mods := (s_mods s)(Suc (s_next s) := d),
        c_modules := slot_insert E name (Suc (s_next s)) (c_modules s)\<rparr>) \<and>
    md_state d = M_MOD_IDLE \<and> md_hook d = hook \<and> md_userdata d = userdata \<and> md_name d = name \<and>
    md_flags d = md_flags (new_mod fl userdata) \<and> md_srcs d = (\<lambda>_. Some Leaf) \<and>
    registration_time (md_stats d) = s_now s"
proof -
  let ?m = "Suc (s_next s)" and ?d = "new_mod fl userdata"
  obtain n a where name: "name_mod E (name, at) fl ?m (upd_mod ?m (\<lambda>_. ?d) (s\<lparr>s_next := ?m\<rparr>)) =
      s\<lparr>s_next := n, s_mods := (s_mods s)(?m := ?d\<lparr>md_name := name, md_name_at := a\<rparr>)\<rparr>" and a: "a \<noteq> NULL"
    using that [of _ "if has fl M_MOD_NAME_DUP then _ else _"] assms(2)
    by (cases "has fl M_MOD_NAME_DUP") (auto simp: name_mod_def alloc_works [OF assms(1)] upd_mod_def)
  let ?e = "?d\<lparr>md_name := name, md_name_at := a, md_hook := hook, md_dlhandle := False\<rparr>"
  let ?s = "s\<lparr>s_next := n, s_mods := (s_mods s)(?m := ?e)\<rparr>"
  obtain i where i: "init_srcs E ?m src_types ?s =
      ?s\<lparr>s_next := i, s_mods := (s_mods ?s)(?m := ?e\<lparr>md_srcs := \<lambda>_. Some Leaf\<rparr>)\<rparr>"
    using init_srcs_works [OF assms(1), of ?m src_types ?s] by (auto simp: src_types_all)
  obtain j where j: "alloc_all E 4 (init_srcs E ?m src_types ?s) = (True, (init_srcs E ?m src_types ?s)\<lparr>s_next := j\<rparr>)"
    using alloc_all_works [OF assms(1)] by blast
  show ?thesis
    using a assms(3-5) i j
    by (intro exI [of _ j] exI [of _ "?e\<lparr>md_srcs := \<lambda>_. Some Leaf, md_batch_events := Some [], md_tb_burst := -1,
          md_tb_tokens := -1, md_state := M_MOD_IDLE, md_fd0 := -1, md_fd1 := -1,
          md_stats := (md_stats ?d)\<lparr>registration_time := s_now s\<rparr>\<rparr>"])
       (simp add: create_mod_def alloc_works [OF assms(1)] build_mod_def name, simp add: upd_mod_def new_mod_def)
qed

lemma flag_kept: "has (or fl M_MOD_NAME_AUTOFREE) M_MOD_ALLOW_REPLACE \<longleftrightarrow> has fl M_MOD_ALLOW_REPLACE"
proof -
  have "and M_MOD_NAME_AUTOFREE M_MOD_ALLOW_REPLACE = 0"
    by (simp add: M_MOD_NAME_AUTOFREE_def M_MOD_ALLOW_REPLACE_def)
  then show ?thesis by (simp add: has_def bit.conj_disj_distrib2)
qed

lemma register_new:
  assumes "m_ctx s" and "\<not> c_finalized s" and "name \<noteq> []" and "on_evt hook \<noteq> NULL"
  shows "m_mod_register E H (Some (name, at)) (Some hook) fl userdata s = do {
    (ret, s1) \<leftarrow> replace_mod E H name s;
    if ret \<noteq> 0 then Some ((ret, NULL), s1) else Some (create_mod E (name, at) (Some hook) fl userdata s1)
  }"
  using assms by (simp add: m_mod_register_def str_not_empty_def cong: if_cong)

text \<open>
  C32. Registering a module under a name that is free, with memory at hand, makes a new idle
  module with those hooks that the name then looks up; every other name looks up what it did.
  Nothing else of the state changes: only the new module, the table, which holds one more entry,
  and the count of allocations. Unless the module allows to be replaced its name is taken from then
  on: registering it again fails with \<^verbatim>\<open>-EEXIST\<close> and changes nothing.
\<close>

theorem register_lookup:
  assumes "m_ctx s" and "\<not> c_finalized s" and "name \<noteq> []" and "at \<noteq> NULL" and "on_evt hook \<noteq> NULL"
    and "map_of (c_modules s) name = None" and "\<And>n. e_mem E n" and "\<And>n s. e_grow E n s"
    and "c_curr_mod s \<le> s_next s" and "self \<noteq> NULL"
  shows "\<exists>m s'. m_mod_register E H (Some (name, at)) (Some hook) fl userdata s = Some ((0, m), s') \<and>
    m_mod_lookup self (Some name) s' = m \<and> m > s_next s \<and>
    md_state (s_mods s' m) = M_MOD_IDLE \<and> md_hook (s_mods s' m) = hook \<and> md_userdata (s_mods s' m) = userdata \<and>
    md_name (s_mods s' m) = name \<and> (\<forall>ty. md_srcs (s_mods s' m) ty = Some Leaf) \<and>
    md_flags (s_mods s' m) = (if has fl M_MOD_NAME_DUP then or fl M_MOD_NAME_AUTOFREE else fl) \<and>
    registration_time (md_stats (s_mods s' m)) = s_now s \<and>
    s' = s\<lparr>s_next := s_next s', s_mods := (s_mods s)(m := s_mods s' m), c_modules := c_modules s'\<rparr> \<and>
    set (c_modules s') = insert (name, m) (set (c_modules s)) \<and> length (c_modules s') = Suc (length (c_modules s)) \<and>
    (\<forall>other. other \<noteq> name \<longrightarrow> m_mod_lookup self (Some other) s' = m_mod_lookup self (Some other) s) \<and>
    (\<not> has fl M_MOD_ALLOW_REPLACE \<longrightarrow> (\<forall>at' hook' fl' userdata'. on_evt hook' \<noteq> NULL \<longrightarrow>
       m_mod_register E H (Some (name, at')) (Some hook') fl' userdata' s' = Some ((- EEXIST, NULL), s')))"
proof -
  let ?m = "Suc (s_next s)"
  obtain k d where cr: "create_mod E (name, at) (Some hook) fl userdata s = ((0, ?m), s\<lparr>s_next := k,
      s_mods := (s_mods s)(?m := d), c_modules := slot_insert E name ?m (c_modules s)\<rparr>)"
    and d: "md_state d = M_MOD_IDLE" "md_hook d = hook" "md_userdata d = userdata" "md_name d = name"
      "md_flags d = md_flags (new_mod fl userdata)" "md_srcs d = (\<lambda>_. Some Leaf)"
      "registration_time (md_stats d) = s_now s"
    using create_mod_works [OF assms(7,4,5,6,8), of fl userdata] by blast
  let ?s = "s\<lparr>s_next := k, s_mods := (s_mods s)(?m := d), c_modules := slot_insert E name ?m (c_modules s)\<rparr>"
  have reg: "m_mod_register E H (Some (name, at)) (Some hook) fl userdata s = Some ((0, ?m), ?s)"
    using cr assms(6) by (simp add: register_new [OF assms(1-3,5)] replace_mod_def)
  have ctx: "m_ctx ?s" using assms(1,9) by (auto simp: m_ctx_def)
  have look: "m_mod_lookup self (Some nm) ?s = (if nm = name then ?m else m_mod_lookup self (Some nm) s)" for nm
    using ctx assms(1,10) by (simp add: m_mod_lookup_def map_of_slot_insert [OF assms(6)])
  have again: "m_mod_register E H (Some (name, at')) (Some hook') fl' userdata' ?s = Some ((- EEXIST, NULL), ?s)"
    if "\<not> has fl M_MOD_ALLOW_REPLACE" "on_evt hook' \<noteq> NULL" for at' hook' fl' userdata'
  proof -
    have "\<not> has (md_flags d) M_MOD_ALLOW_REPLACE" using that(1) d(5) by (simp add: new_mod_def flag_kept)
    then show ?thesis using assms(2,3) that(2)
      by (simp add: register_new [OF ctx] replace_mod_def map_of_slot_insert [OF assms(6)])
  qed
  show ?thesis using reg look again d by (intro exI [of _ ?m] exI [of _ ?s]) (simp add: length_slot_insert set_slot_insert new_mod_def)
qed

theorem register_lookup_witness:
  "\<exists>m s'. m_mod_register good_env (script_hooks good_env no_program 0) (Some (''ccc'', 50)) (Some evt_hook) 0 60 live_sys
     = Some ((0, m), s') \<and> m_mod_lookup 1 (Some ''ccc'') s' = m \<and> m_mod_lookup 1 (Some ''bb'') s' = 2 \<and>
     length (c_modules s') = 3 \<and> c_running s' = c_running live_sys"
proof -
  have "m_ctx live_sys" "\<not> c_finalized live_sys" "''ccc'' \<noteq> []" "(50 :: ptr) \<noteq> NULL" "on_evt evt_hook \<noteq> NULL"
    "map_of (c_modules live_sys) ''ccc'' = None" "\<And>n. e_mem good_env n" "\<And>n s. e_grow good_env n s" "c_curr_mod live_sys \<le> s_next live_sys"
    "(1 :: mid) \<noteq> NULL" "m_mod_lookup 1 (Some ''bb'') live_sys = 2" "length (c_modules live_sys) = 2"
    by (simp_all add: run_guards run_state m_mod_lookup_def)
  with register_lookup [OF this(1-10), of "script_hooks good_env no_program 0" 0 60]
  obtain m s' where r:
      "m_mod_register good_env (script_hooks good_env no_program 0) (Some (''ccc'', 50)) (Some evt_hook) 0 60 live_sys =
        Some ((0, m), s')"
      "m_mod_lookup 1 (Some ''ccc'') s' = m" "m_mod_lookup 1 (Some ''bb'') s' = 2" "length (c_modules s') = 3"
      "s' = live_sys\<lparr>s_next := s_next s', s_mods := (s_mods live_sys)(m := s_mods s' m),
        c_modules := c_modules s'\<rparr>" by fastforce
  have "c_running s' = c_running live_sys" using arg_cong [OF r(5), of c_running] by simp
  with r show ?thesis by blast
qed

subsection \<open>Deregistering the context\<close>

text \<open>
  Deregistering an idle context succeeds and deregisters none of its modules: the key of the
  thread is cleared first, so each module refuses, at the first of them the walk ends, and the
  context is released with modules that were not stopped.
\<close>

lemma mod_deregister_no_ctx:
  "\<exists>r<0. mod_deregister_with dereg E H m (s\<lparr>s_key := False\<rparr>) = Some (r, s\<lparr>s_key := False\<rparr>)"
  by (simp add: mod_deregister_with_def M_MOD_ASSERT_def m_ctx_def)

lemma ctx_deregister_keeps_modules:
  assumes "m_ctx s" and "c_state s = M_CTX_IDLE"
  shows "m_ctx_deregister E H s = Some (0, s\<lparr>s_key := False\<rparr>)"
proof -
  let ?s = "s\<lparr>s_key := False\<rparr>"
  have "\<exists>r. iterate_modules (ctx_destroy_mods (\<lambda>_. None) E H) ?s = Some (r, ?s)"
  proof (cases "c_modules s = []")
    case False
    obtain r where "r < 0" "ctx_destroy_mods (\<lambda>_. None) E H (snd (c_modules s ! 0)) ?s = Some (r, ?s)"
      unfolding ctx_destroy_mods_def using mod_deregister_no_ctx by blast
    with False show ?thesis by (simp add: iterate_modules_def modules_walk.simps)
  qed (simp add: iterate_modules_def)
  with assms show ?thesis by (auto simp: m_ctx_deregister_def M_CTX_ASSERT_def)
qed

subsection \<open>The token bucket\<close>

text \<open>
  A call that costs a token succeeds or not; the timer of the bucket ticks. The result counts
  the calls that were let through.
\<close>

datatype tb_op = Spend | Tick

primrec tb_run :: "mid \<Rightarrow> tb_op list \<Rightarrow> sys \<Rightarrow> (nat \<times> sys) option" where
  "tb_run m [] s = Some (0, s)"
| "tb_run m (op # ops) s = do {
     (ret, s1) \<leftarrow> (case op of
         Spend \<Rightarrow> M_MOD_CONSUME_TOKEN m (\<lambda>s. Some (0, s)) s
       | Tick \<Rightarrow> Some (-1, refill_token m s));
     (n, s2) \<leftarrow> tb_run m ops s1;
     Some (if ret = 0 then Suc n else n, s2)
   }"

text \<open>
  C33. Whatever the order of calls and ticks, a bucket that starts within its burst stays
  within it; at most as many calls pass as there were tokens and ticks, and none is refused
  as long as tokens remain: at least as many pass as were made or as there were tokens.
\<close>

theorem token_bucket:
  assumes "md_tb_tokens (s_mods s m) \<le> md_tb_burst (s_mods s m)"
  shows "\<exists>n s'. tb_run m ops s = Some (n, s') \<and>
    md_tb_burst (s_mods s' m) = md_tb_burst (s_mods s m) \<and> md_tb_tokens (s_mods s' m) \<le> md_tb_burst (s_mods s' m) \<and>
    unat (md_tb_tokens (s_mods s' m)) + n \<le> unat (md_tb_tokens (s_mods s m)) + List.count_list ops Tick \<and>
    min (List.count_list ops Spend) (unat (md_tb_tokens (s_mods s m))) \<le> n \<and> n \<le> List.count_list ops Spend"
  using assms
proof (induction ops arbitrary: s)
  case (Cons op ops)
  show ?case
  proof (cases op)
    case Spend
    show ?thesis
    proof (cases "md_tb_tokens (s_mods s m) > 0")
      case True
      then have less: "unat (md_tb_tokens (s_mods s m)) = Suc (unat (md_tb_tokens (s_mods s m) - 1))"
        by (simp add: unat_minus_one Suc_leI unat_gt_0 word_gt_0)
      let ?s = "s\<lparr>s_mods := (s_mods s)(m := charged s (s_mods s m))\<rparr>"
      have "md_tb_tokens (s_mods ?s m) \<le> md_tb_burst (s_mods ?s m)"
        using Cons.prems less by (simp add: charged_def word_le_nat_alt)
      from Cons.IH [OF this] show ?thesis
        using less Spend True by (auto simp: consume_token charged_def)
    next
      case False
      then have "md_tb_tokens (s_mods s m) = 0" by (simp add: word_gt_0)
      then show ?thesis using Cons.IH [OF Cons.prems] Spend by (auto simp: M_MOD_CONSUME_TOKEN_def)
    qed
  next
    case Tick
    show ?thesis
    proof (cases "md_tb_tokens (s_mods s m) < md_tb_burst (s_mods s m)")
      case True
      then have more: "unat (md_tb_tokens (s_mods s m) + 1) = Suc (unat (md_tb_tokens (s_mods s m)))"
        using unsigned_less [of "md_tb_burst (s_mods s m)", where 'a = nat]
        by (simp add: unat_word_ariths(1) word_less_nat_alt)
      have "md_tb_tokens (s_mods (refill_token m s) m) \<le> md_tb_burst (s_mods (refill_token m s) m)"
        using True more by (simp add: refill_token_def upd_mod_def word_le_nat_alt word_less_nat_alt)
      from Cons.IH [OF this] show ?thesis
        using more Tick True by (fastforce simp: refill_token_def upd_mod_def)
    next
      case False
      then have "refill_token m s = s" by (simp add: refill_token_def upd_mod_def)
      then show ?thesis using Cons.IH [OF Cons.prems] Tick by auto
    qed
  qed
qed simp

theorem token_bucket_witness:
  "\<exists>n s'. tb_run 1 [Spend, Spend, Tick, Tick, Spend] (upd_mod 1 (\<lambda>d. d\<lparr>md_tb_tokens := 1, md_tb_burst := 1\<rparr>) live_sys) =
     Some (n, s') \<and> n = 2 \<and> md_tb_tokens (s_mods s' 1) \<le> 1"
proof -
  have "md_tb_tokens (s_mods (upd_mod 1 (\<lambda>d. d\<lparr>md_tb_tokens := 1, md_tb_burst := 1\<rparr>) live_sys) 1) \<le>
      md_tb_burst (s_mods (upd_mod 1 (\<lambda>d. d\<lparr>md_tb_tokens := 1, md_tb_burst := 1\<rparr>) live_sys) 1)"
    by (simp add: run_guards run_state)
  from token_bucket [OF this, of "[Spend, Spend, Tick, Tick, Spend]"] show ?thesis
    by (simp add: run_guards run_state refill_token_def)
qed

end
