(* ===== verification/ThPool.thy ===== *)
theory ThPool
  imports Prelude "HOL-Library.Sublist" "HOL-Library.Multiset"
begin

text \<open>
  The pool of threads: \<^verbatim>\<open>thpool.c\<close>. Threads interleave: what a thread does between two
  operations on the lock, on \<^verbatim>\<open>running_tasks\<close> or on the queue of the condition is one step. A
  thread of the pool is known by the address of its \<^verbatim>\<open>pthread_t\<close>, a task by the address of
  its block. Using a pool that has been freed, destroying a condition that is waited on and
  dereferencing a failed allocation are undefined; \<open>w_bad\<close> records that it happened.

  The lock and the condition of a pool in use do not fail (\<^verbatim>\<open>pthread_mutex_lock\<close> and
  \<^verbatim>\<open>pthread_mutex_unlock\<close> on a default mutex, \<^verbatim>\<open>pthread_cond_signal\<close>); locking it twice from one
  thread blocks. Allocations, the initialisations and \<^verbatim>\<open>pthread_create\<close> may fail: their outcomes
  are parameters.
\<close>

unbundle bit_operations_syntax

subsection \<open>Data\<close>

definition INITED_THREADS :: "32 word" where "INITED_THREADS = 0x01"
definition INITED_TASKS :: "32 word" where "INITED_TASKS = 0x02"
definition INITED_MUT :: "32 word" where "INITED_MUT = 0x04"
definition INITED_COND :: "32 word" where "INITED_COND = 0x08"
definition INITED_STARTED :: "32 word" where "INITED_STARTED = 0x10"

definition M_THPOOL_LAZY :: "32 word" where "M_THPOOL_LAZY = push_bit 0 1"
definition M_THPOOL_DETACHED :: "32 word" where "M_THPOOL_DETACHED = push_bit 1 1"

datatype thpool_shutdown = SHUTDOWN_NO | SHUTDOWN_WAITCURR | SHUTDOWN_WAITALL

record thpool_task =
  tk_at :: ptr
  tk_fn :: ptr
  tk_arg :: ptr

type_synonym tid = ptr
type_synonym cid = nat

datatype owner = Thread tid | Caller cid

record thpool =
  tp_max :: "8 word"
  tp_init :: "32 word"
  tp_shutdown :: thpool_shutdown
  tp_lock :: "owner option"
  tp_threads :: "tid list"
  tp_tasks :: "thpool_task list"
  tp_running :: "32 word"
  tp_flags :: "32 word"

text \<open>
  Where a thread of the pool is: before taking the lock, waiting on the condition, woken and
  taking the lock again, checking under the lock, with a task in hand (under the lock, before
  and after the count is raised, when the task is done), leaving under the lock, gone.
\<close>

datatype pc = Enter | Waiting | Woken | Check | Got thpool_task | Begin thpool_task | Exec thpool_task
  | Finish | Leave | Done

text \<open>Where a thread that calls the pool is: before the lock, under it, with the result to return, joining.\<close>

datatype tp_op = OpAdd ptr ptr | OpLength | OpClear | OpFree bool

datatype cpc = CIdle | CLock tp_op | CIn tp_op | COut int | CFreeOut | CJoin "tid list" | CDestroy

text \<open>
  The world of one pool. The last fields are history: the tasks that calls of \<^verbatim>\<open>m_thpool_add\<close> made,
  those of them whose queue node could not be allocated, those taken from the queue, run, and
  destroyed without being run.
\<close>

record world =
  w_pool :: thpool
  w_alive :: bool
  w_workers :: "tid \<Rightarrow> pc option"
  w_callers :: "cid \<Rightarrow> cpc"
  w_ret :: "cid \<Rightarrow> int"
  w_next :: nat
  w_bad :: bool
  w_added :: "thpool_task list"
  w_lost :: "thpool_task list"
  w_taken :: "thpool_task list"
  w_run :: "thpool_task list"
  w_cleared :: "thpool_task list"

record tp_env =
  t_calloc :: "nat \<Rightarrow> bool"
  t_create :: "nat \<Rightarrow> int"
  t_init :: "nat \<Rightarrow> int"

definition upd_pool :: "(thpool \<Rightarrow> thpool) \<Rightarrow> world \<Rightarrow> world" where
  "upd_pool f w = w\<lparr>w_pool := f (w_pool w)\<rparr>"

definition goto :: "tid \<Rightarrow> pc \<Rightarrow> world \<Rightarrow> world" where
  "goto t pc w = w\<lparr>w_workers := (w_workers w)(t := Some pc)\<rparr>"

definition cgoto :: "cid \<Rightarrow> cpc \<Rightarrow> world \<Rightarrow> world" where
  "cgoto c pc w = w\<lparr>w_callers := (w_callers w)(c := pc)\<rparr>"

definition return :: "cid \<Rightarrow> int \<Rightarrow> world \<Rightarrow> world" where
  "return c r w = (cgoto c CIdle w)\<lparr>w_ret := (w_ret w)(c := r)\<rparr>"

definition set_lock :: "owner option \<Rightarrow> world \<Rightarrow> world" where
  "set_lock x = upd_pool (\<lambda>p. p\<lparr>tp_lock := x\<rparr>)"

definition calloc :: "tp_env \<Rightarrow> world \<Rightarrow> ptr \<times> world" where
  "calloc E w = (if t_calloc E (w_next w) then Suc (w_next w) else NULL, w\<lparr>w_next := Suc (w_next w)\<rparr>)"

definition bad :: "world \<Rightarrow> world" where
  "bad w = w\<lparr>w_bad := True\<rparr>"

subsection \<open>The threads of the pool\<close>

text \<open>\<^verbatim>\<open>thpool_thread\<close>, one step of thread \<open>t\<close>; \<open>None\<close> when it cannot move.\<close>

definition thread_step :: "tid \<Rightarrow> pc \<Rightarrow> world \<Rightarrow> world option" where
  "thread_step t pc w = (let p = w_pool w in case pc of
     Enter \<Rightarrow> if tp_lock p = None then Some (goto t Check (set_lock (Some (Thread t)) w)) else None
   | Woken \<Rightarrow> if tp_lock p = None then Some (goto t Check (set_lock (Some (Thread t)) w)) else None
   | Waiting \<Rightarrow> None
   | Check \<Rightarrow>
       if tp_tasks p = [] \<and> tp_shutdown p = SHUTDOWN_NO then Some (goto t Waiting (set_lock None w))
       else if tp_shutdown p \<noteq> SHUTDOWN_NO \<and> (tp_shutdown p = SHUTDOWN_WAITCURR \<or> tp_tasks p = [])
       then Some (goto t Leave w)
       else (case tp_tasks p of
           k # ks \<Rightarrow> Some (goto t (Got k) (upd_pool (\<lambda>p. p\<lparr>tp_tasks := ks\<rparr>) (w\<lparr>w_taken := w_taken w @ [k]\<rparr>)))
         | [] \<Rightarrow> None)
   | Got k \<Rightarrow> Some (goto t (Begin k) (set_lock None w))
   | Begin k \<Rightarrow> Some (goto t (Exec k) (upd_pool (\<lambda>p. p\<lparr>tp_running := tp_running p + 1\<rparr>) w))
   | Exec k \<Rightarrow> Some (goto t Finish (w\<lparr>w_run := w_run w @ [k]\<rparr>))
   | Finish \<Rightarrow> Some (goto t Enter (upd_pool (\<lambda>p. p\<lparr>tp_running := tp_running p - 1\<rparr>) w))
   | Leave \<Rightarrow> Some (goto t Done (set_lock None w))
   | Done \<Rightarrow> None)"

text \<open>Only running the task itself does without the pool.\<close>

fun uses_pool :: "pc \<Rightarrow> bool" where
  "uses_pool (Exec k) = False"
| "uses_pool Done = False"
| "uses_pool _ = True"

subsection \<open>The callers\<close>

definition has_space :: "thpool \<Rightarrow> bool" where
  "has_space p \<longleftrightarrow> unat (tp_running p) < length (tp_threads p)"

text \<open>
  \<^verbatim>\<open>add_threads\<close>: the \<^verbatim>\<open>pthread_t\<close> is not checked; the result of \<^verbatim>\<open>m_list_insert\<close>, which inserts at
  the head, is ignored.
\<close>

primrec add_threads :: "tp_env \<Rightarrow> nat \<Rightarrow> world \<Rightarrow> int \<times> world" where
  "add_threads E 0 w = (0, w)"
| "add_threads E (Suc num) w = (case calloc E w of (th, w1) \<Rightarrow>
     if th = NULL then (0, bad w1)
     else
       let err = t_create E (w_next w1); w2 = w1\<lparr>w_next := Suc (w_next w1)\<rparr> in
       if err = 0 then
         (case calloc E (goto th Enter w2) of (node, w3) \<Rightarrow>
            add_threads E num (if node = NULL then w3 else upd_pool (\<lambda>p. p\<lparr>tp_threads := th # tp_threads p\<rparr>) w3))
       else (err, w2))"

definition waiters :: "world \<Rightarrow> tid list" where
  "waiters w = List.filter (\<lambda>t. w_workers w t = Some Waiting) [0..<Suc (w_next w)]"

text \<open>\<^verbatim>\<open>pthread_cond_signal\<close> wakes the waiter \<open>pick\<close>, if any waits; \<^verbatim>\<open>pthread_cond_broadcast\<close> wakes all.\<close>

definition signal :: "tid \<Rightarrow> world \<Rightarrow> world option" where
  "signal pick w =
     (if w_workers w pick = Some Waiting then Some (goto pick Woken w)
      else if waiters w = [] then Some w else None)"

definition broadcast :: "world \<Rightarrow> world" where
  "broadcast w = w\<lparr>w_workers := \<lambda>t. if w_workers w t = Some Waiting then Some Woken else w_workers w t\<rparr>"

text \<open>
  The body of \<^verbatim>\<open>m_thpool_add\<close> under the lock. When no thread could be added it returns at once,
  and the lock stays taken. The result of \<^verbatim>\<open>m_queue_enqueue\<close> is ignored.
\<close>

definition enqueue_task :: "tp_env \<Rightarrow> cid \<Rightarrow> tid \<Rightarrow> ptr \<Rightarrow> ptr \<Rightarrow> world \<Rightarrow> world option" where
  "enqueue_task E c pick fn arg w = (case calloc E w of (k, w1) \<Rightarrow>
     if k = NULL then Some (bad w1)
     else
       let task = \<lparr>tk_at = k, tk_fn = fn, tk_arg = arg\<rparr> in
       case calloc E w1 of (node, w2) \<Rightarrow>
         let w3 = (if node = NULL then w2\<lparr>w_lost := w_lost w2 @ [task]\<rparr>
                   else upd_pool (\<lambda>p. p\<lparr>tp_tasks := tp_tasks p @ [task]\<rparr>) w2)\<lparr>w_added := w_added w2 @ [task]\<rparr>
         in map_option (cgoto c (COut 0)) (signal pick w3))"

definition thpool_add_body :: "tp_env \<Rightarrow> cid \<Rightarrow> tid \<Rightarrow> ptr \<Rightarrow> ptr \<Rightarrow> world \<Rightarrow> world option" where
  "thpool_add_body E c pick fn arg w = (let p = w_pool w in
     if tp_flags p AND M_THPOOL_LAZY \<noteq> 0 \<and> \<not> has_space p \<and> length (tp_threads p) < unat (tp_max p) then
       (case add_threads E 1 w of (ret, w1) \<Rightarrow>
          if ret \<noteq> 0 then Some (return c ret w1) else enqueue_task E c pick fn arg w1)
     else enqueue_task E c pick fn arg w)"

definition thpool_length_body :: "cid \<Rightarrow> world \<Rightarrow> world option" where
  "thpool_length_body c w = Some (cgoto c (COut (int (length (tp_tasks (w_pool w))))) w)"

definition thpool_clear_body :: "cid \<Rightarrow> world \<Rightarrow> world option" where
  "thpool_clear_body c w = (let ts = tp_tasks (w_pool w) in
     if ts = [] then Some (cgoto c (COut (- EINVAL)) w)
     else Some (cgoto c (COut 0) ((upd_pool (\<lambda>p. p\<lparr>tp_tasks := []\<rparr>) w)\<lparr>w_cleared := w_cleared w @ ts\<rparr>)))"

definition wait_pool_body :: "cid \<Rightarrow> bool \<Rightarrow> world \<Rightarrow> world option" where
  "wait_pool_body c wait_all w =
     Some (cgoto c CFreeOut (broadcast (upd_pool (\<lambda>p. p\<lparr>tp_shutdown :=
       (if wait_all then SHUTDOWN_WAITALL else SHUTDOWN_WAITCURR)\<rparr>) w)))"

text \<open>After the broadcast: joining goes through the list of threads, if its iterator can be allocated.\<close>

definition wait_pool_join :: "tp_env \<Rightarrow> cid \<Rightarrow> world \<Rightarrow> world" where
  "wait_pool_join E c w = (let ths = tp_threads (w_pool w) in
     if tp_flags (w_pool w) AND M_THPOOL_DETACHED \<noteq> 0 \<or> ths = [] then cgoto c CDestroy w
     else case calloc E w of (itr, w1) \<Rightarrow> cgoto c (CJoin (if itr = NULL then [] else ths)) w1)"

text \<open>The other stages of \<^verbatim>\<open>m_thpool_free\<close>: the condition, the lock, the tasks, the list of threads, the pool.\<close>

definition thpool_destroy :: "world \<Rightarrow> world" where
  "thpool_destroy w =
     (let w1 = (if waiters w \<noteq> [] \<or> tp_lock (w_pool w) \<noteq> None then bad w else w);
          w2 = upd_pool (\<lambda>p. p\<lparr>tp_tasks := [], tp_threads := []\<rparr>) w1
      in w2\<lparr>w_alive := False, w_cleared := w_cleared w2 @ tp_tasks (w_pool w)\<rparr>)"

text \<open>Entering a public function: the checks before the lock. The handle is \<^verbatim>\<open>NULL\<close> once the pool is freed.\<close>

definition M_THREADS_ASSERT :: "thpool \<Rightarrow> bool" where
  "M_THREADS_ASSERT p \<longleftrightarrow> tp_shutdown p = SHUTDOWN_NO \<and> tp_init p AND INITED_STARTED \<noteq> 0"

definition tp_call :: "cid \<Rightarrow> tp_op \<Rightarrow> world \<Rightarrow> world" where
  "tp_call c op w =
     (if \<not> w_alive w then return c (- EINVAL) w
      else case op of
        OpAdd fn arg \<Rightarrow>
          if fn = NULL then return c (- EINVAL) w
          else if \<not> M_THREADS_ASSERT (w_pool w) then return c (- EPERM) w else cgoto c (CLock op) w
      | OpFree wait_all \<Rightarrow>
          if tp_init (w_pool w) AND INITED_STARTED \<noteq> 0 then cgoto c (CLock op) w else cgoto c CDestroy w
      | _ \<Rightarrow> if \<not> M_THREADS_ASSERT (w_pool w) then return c (- EPERM) w else cgoto c (CLock op) w)"

definition caller_step :: "tp_env \<Rightarrow> cid \<Rightarrow> tid \<Rightarrow> cpc \<Rightarrow> world \<Rightarrow> world option" where
  "caller_step E c pick pc w = (case pc of
     CIdle \<Rightarrow> None
   | CLock op \<Rightarrow> if tp_lock (w_pool w) = None then Some (cgoto c (CIn op) (set_lock (Some (Caller c)) w)) else None
   | CIn op \<Rightarrow> (case op of
         OpAdd fn arg \<Rightarrow> thpool_add_body E c pick fn arg w
       | OpLength \<Rightarrow> thpool_length_body c w
       | OpClear \<Rightarrow> thpool_clear_body c w
       | OpFree wait_all \<Rightarrow> wait_pool_body c wait_all w)
   | COut r \<Rightarrow> Some (return c r (set_lock None w))
   | CFreeOut \<Rightarrow> Some (wait_pool_join E c (set_lock None w))
   | CJoin [] \<Rightarrow> Some (cgoto c CDestroy w)
   | CJoin (t # ts) \<Rightarrow> if w_workers w t = Some Done then Some (cgoto c (CJoin ts) w) else None
   | CDestroy \<Rightarrow> Some (return c 0 (thpool_destroy w)))"

subsection \<open>Interleaving\<close>

text \<open>
  An event: a thread of the pool moves or is woken for no reason, a caller enters a function or
  moves within it. Nothing follows undefined behaviour.
\<close>

datatype event = Move tid | Spurious tid | Call cid tp_op | Go cid tid

definition exec :: "tp_env \<Rightarrow> event \<Rightarrow> world \<Rightarrow> world option" where
  "exec E e w = (if w_bad w then None else case e of
     Move t \<Rightarrow> (case w_workers w t of None \<Rightarrow> None | Some pc \<Rightarrow>
       if uses_pool pc \<and> \<not> w_alive w then Some (bad w) else thread_step t pc w)
   | Spurious t \<Rightarrow> if w_workers w t = Some Waiting then Some (goto t Woken w) else None
   | Call c op \<Rightarrow> if w_callers w c = CIdle then Some (tp_call c op w) else None
   | Go c pick \<Rightarrow>
       if w_callers w c \<noteq> CIdle \<and> \<not> w_alive w then Some (bad w) else caller_step E c pick (w_callers w c) w)"

inductive steps :: "tp_env \<Rightarrow> world \<Rightarrow> event list \<Rightarrow> world \<Rightarrow> bool" for E where
  steps_refl: "steps E w [] w"
| steps_step: "steps E w es w' \<Longrightarrow> exec E e w' = Some w'' \<Longrightarrow> steps E w (es @ [e]) w''"

inductive_cases steps_appendE: "steps E w (es @ [e]) w'"

primrec run_events :: "tp_env \<Rightarrow> event list \<Rightarrow> world \<Rightarrow> world option" where
  "run_events E [] w = Some w"
| "run_events E (e # es) w = Option.bind (exec E e w) (run_events E es)"

subsection \<open>Creation\<close>

text \<open>
  \<^verbatim>\<open>m_thpool_new\<close>, before anyone else can see the pool. The result is whether it returned a pool;
  when the threads could not all be created, the pool is freed while those created run.
\<close>

definition no_world :: world where
  "no_world = \<lparr>w_pool = \<lparr>tp_max = 0, tp_init = 0, tp_shutdown = SHUTDOWN_NO, tp_lock = None, tp_threads = [],
       tp_tasks = [], tp_running = 0, tp_flags = 0\<rparr>,
     w_alive = False, w_workers = \<lambda>_. None, w_callers = \<lambda>_. CIdle, w_ret = \<lambda>_. 0, w_next = 0, w_bad = False,
     w_added = [], w_lost = [], w_taken = [], w_run = [], w_cleared = []\<rparr>"

definition inited :: "32 word \<Rightarrow> world \<Rightarrow> world" where
  "inited fl = upd_pool (\<lambda>p. p\<lparr>tp_init := tp_init p OR fl\<rparr>)"

definition thpool_start :: "tp_env \<Rightarrow> 8 word \<Rightarrow> 32 word \<Rightarrow> world \<Rightarrow> int \<times> world" where
  "thpool_start E thread_count fl w =
     (let w1 = upd_pool (\<lambda>p. p\<lparr>tp_max := thread_count, tp_flags := fl\<rparr>) w in
      if fl AND M_THPOOL_LAZY = 0 then add_threads E (unat thread_count) w1 else (0, w1))"

definition thpool_init :: "tp_env \<Rightarrow> 8 word \<Rightarrow> 32 word \<Rightarrow> world \<Rightarrow> int \<times> world" where
  "thpool_init E thread_count fl w = (case calloc E w of (threads, w1) \<Rightarrow>
     if threads = NULL then (- ENOMEM, w1)
     else case calloc E (inited INITED_THREADS w1) of (tasks, w2) \<Rightarrow>
       if tasks = NULL then (- ENOMEM, w2)
       else let w3 = inited INITED_TASKS w2 in
         if t_init E (w_next w3) \<noteq> 0 then (- ENOMEM, w3)
         else let w4 = inited INITED_MUT w3 in
           if t_init E (Suc (w_next w4)) \<noteq> 0 then (- ENOMEM, w4)
           else thpool_start E thread_count fl (inited INITED_COND w4))"

definition m_thpool_new :: "tp_env \<Rightarrow> 8 word \<Rightarrow> 32 word \<Rightarrow> bool \<times> world" where
  "m_thpool_new E thread_count fl =
     (if thread_count = 0 then (False, no_world)
      else case calloc E no_world of (p, w) \<Rightarrow>
        if p = NULL then (False, w)
        else case thpool_init E thread_count fl (w\<lparr>w_alive := True\<rparr>) of (err, w1) \<Rightarrow>
          if err \<noteq> 0 then (False, thpool_destroy w1) else (True, inited INITED_STARTED w1))"

end
