(* ===== verification/ThPoolFacts.thy ===== *)
theory ThPoolFacts
  imports ThPool
begin

text \<open>
  The pool of threads under any interleaving: who holds the lock, where each task is, how many
  threads there are, what a failed \<^verbatim>\<open>pthread_create\<close> leaves behind, and what the one caller that
  owns a pool can rely on when it frees it.
\<close>

subsection \<open>What interleaving keeps\<close>

text \<open>The places under the lock, and the task a thread has in hand.\<close>

definition under_lock :: "pc \<Rightarrow> bool" where
  "under_lock pc = (case pc of Check \<Rightarrow> True | Got k \<Rightarrow> True | Leave \<Rightarrow> True | _ \<Rightarrow> False)"

definition caller_under_lock :: "cpc \<Rightarrow> bool" where
  "caller_under_lock pc = (case pc of CIn op \<Rightarrow> True | COut r \<Rightarrow> True | CFreeOut \<Rightarrow> True | _ \<Rightarrow> False)"

definition held :: "pc \<Rightarrow> thpool_task option" where
  "held pc = (case pc of Got k \<Rightarrow> Some k | Begin k \<Rightarrow> Some k | Exec k \<Rightarrow> Some k | _ \<Rightarrow> None)"

lemma pc_simps [simp]:
  "under_lock Enter = False" "under_lock Waiting = False" "under_lock Woken = False" "under_lock Check"
  "under_lock (Got k)" "under_lock (Begin k) = False" "under_lock (Exec k) = False" "under_lock Finish = False"
  "under_lock Leave" "under_lock Done = False"
  "caller_under_lock CIdle = False" "caller_under_lock (CLock op) = False" "caller_under_lock (CIn op)"
  "caller_under_lock (COut r)" "caller_under_lock CFreeOut" "caller_under_lock (CJoin ts) = False"
  "caller_under_lock CDestroy = False"
  "held Enter = None" "held Waiting = None" "held Woken = None" "held Check = None" "held (Got k) = Some k"
  "held (Begin k) = Some k" "held (Exec k) = Some k" "held Finish = None" "held Leave = None" "held Done = None"
  by (simp_all add: under_lock_def caller_under_lock_def held_def)

definition lock_ok :: "world \<Rightarrow> bool" where
  "lock_ok w \<longleftrightarrow>
     (\<forall>t pc. w_workers w t = Some pc \<longrightarrow> t \<le> w_next w \<and> (under_lock pc \<longrightarrow> tp_lock (w_pool w) = Some (Thread t))) \<and>
     (\<forall>c. caller_under_lock (w_callers w c) \<longrightarrow> tp_lock (w_pool w) = Some (Caller c))"

definition queue_ok :: "world \<Rightarrow> bool" where
  "queue_ok w \<longleftrightarrow> distinct (List.map tk_at (w_added w)) \<and> (\<forall>k\<in>set (w_added w). tk_at k \<le> w_next w) \<and>
     mset (w_added w) = mset (w_taken w) + mset (w_cleared w) + mset (w_lost w) + mset (tp_tasks (w_pool w)) \<and>
     subseq (w_taken w @ tp_tasks (w_pool w)) (w_added w)"

definition hand :: "world \<Rightarrow> tid \<Rightarrow> thpool_task option" where
  "hand w t = Option.bind (w_workers w t) held"

definition run_ok :: "world \<Rightarrow> bool" where
  "run_ok w \<longleftrightarrow> distinct (w_run w) \<and> set (w_taken w) = set (w_run w) \<union> ran (hand w) \<and>
     set (w_run w) \<inter> ran (hand w) = {} \<and> inj_on (hand w) (dom (hand w))"

lemmas world_defs = upd_pool_def goto_def cgoto_def return_def set_lock_def bad_def Let_def

text \<open>What creating threads keeps: it counts allocations, and adds fresh threads that have not begun.\<close>

definition with_thread :: "tid \<Rightarrow> bool \<Rightarrow> world \<Rightarrow> world" where
  "with_thread t listed w = (let w1 = goto t Enter w in
     if listed then upd_pool (\<lambda>p. p\<lparr>tp_threads := t # tp_threads p\<rparr>) w1 else w1)"

lemma add_threads_keeps:
  assumes "P w"
    and count: "\<And>w n. w_next w \<le> n \<Longrightarrow> P w \<Longrightarrow> P (w\<lparr>w_next := n\<rparr>)"
    and bad: "\<And>w. P w \<Longrightarrow> P (bad w)"
    and thread: "\<And>w t l. w_workers w t = None \<Longrightarrow> t \<le> w_next w \<Longrightarrow> P w \<Longrightarrow> P (with_thread t l w)"
    and fresh: "\<And>w t pc. P w \<Longrightarrow> w_workers w t = Some pc \<Longrightarrow> t \<le> w_next w"
  shows "P (snd (add_threads E num w))"
  using assms(1)
proof (induction num arbitrary: w)
  case (Suc num)
  let ?n = "w_next w"
  let ?w2 = "w\<lparr>w_next := Suc (Suc ?n)\<rparr>"
  have w2: "P ?w2" "P (w\<lparr>w_next := Suc ?n\<rparr>)" using count Suc.prems by simp_all
  have "w_workers w (Suc ?n) = None" using fresh [OF Suc.prems, of "Suc ?n"] by (cases "w_workers w (Suc ?n)") auto
  then have "P (with_thread (Suc ?n) l ?w2)" for l by (intro thread) (use w2 in auto)
  then have w3: "P ((with_thread (Suc ?n) l ?w2)\<lparr>w_next := Suc (Suc (Suc ?n))\<rparr>)" for l
    by (rule count [rotated]) (simp add: with_thread_def world_defs)
  have step: "snd (add_threads E (Suc num) w) \<in> {bad (w\<lparr>w_next := Suc ?n\<rparr>), ?w2} \<union>
      range (\<lambda>l. snd (add_threads E num ((with_thread (Suc ?n) l ?w2)\<lparr>w_next := Suc (Suc (Suc ?n))\<rparr>)))"
  proof -
    have "(with_thread (Suc ?n) False ?w2)\<lparr>w_next := Suc (Suc (Suc ?n))\<rparr> = (goto (Suc ?n) Enter ?w2)\<lparr>w_next := Suc (Suc (Suc ?n))\<rparr>"
      "(with_thread (Suc ?n) True ?w2)\<lparr>w_next := Suc (Suc (Suc ?n))\<rparr> =
        upd_pool (\<lambda>p. p\<lparr>tp_threads := Suc ?n # tp_threads p\<rparr>) ((goto (Suc ?n) Enter ?w2)\<lparr>w_next := Suc (Suc (Suc ?n))\<rparr>)"
      by (cases w, simp add: with_thread_def world_defs)+
    moreover have "w_next (goto (Suc ?n) Enter ?w2) = Suc (Suc ?n)" by (simp add: goto_def)
    ultimately show ?thesis by (auto simp: calloc_def Let_def UNIV_bool)
  qed
  show ?case using step w2 bad Suc.IH [OF w3] by auto
qed simp

definition pool_ok :: "world \<Rightarrow> bool" where
  "pool_ok w \<longleftrightarrow> lock_ok w \<and> queue_ok w \<and> run_ok w"

lemma hand_same: "w_workers w' = w_workers w \<Longrightarrow> hand w' = hand w"
  by (simp add: hand_def fun_eq_iff)

lemma hand_goto [simp]: "hand (goto t pc w) = (hand w)(t := held pc)"
  by (simp add: hand_def goto_def fun_eq_iff)

lemma hand_fields [simp]:
  "hand (w\<lparr>w_pool := p\<rparr>) = hand w" "hand (w\<lparr>w_alive := b\<rparr>) = hand w" "hand (w\<lparr>w_callers := cs\<rparr>) = hand w"
  "hand (w\<lparr>w_ret := rs\<rparr>) = hand w" "hand (w\<lparr>w_next := n\<rparr>) = hand w" "hand (w\<lparr>w_bad := b\<rparr>) = hand w"
  "hand (w\<lparr>w_added := ks\<rparr>) = hand w" "hand (w\<lparr>w_taken := ks\<rparr>) = hand w" "hand (w\<lparr>w_run := ks\<rparr>) = hand w"
  "hand (w\<lparr>w_cleared := ks\<rparr>) = hand w" "hand (w\<lparr>w_lost := ks\<rparr>) = hand w"
  "hand (upd_pool f w) = hand w" "hand (set_lock x w) = hand w" "hand (cgoto c cpc w) = hand w"
  "hand (return c r w) = hand w" "hand (bad w) = hand w"
  by (rule hand_same, simp add: world_defs)+

lemma pool_ok_next: "w_next w \<le> n \<Longrightarrow> pool_ok w \<Longrightarrow> pool_ok (w\<lparr>w_next := n\<rparr>)"
  by (auto simp: pool_ok_def lock_ok_def queue_ok_def run_ok_def intro: le_trans)

lemma pool_ok_bad: "pool_ok w \<Longrightarrow> pool_ok (bad w)"
  by (simp add: pool_ok_def lock_ok_def queue_ok_def run_ok_def bad_def)

lemma pool_ok_thread:
  assumes "pool_ok w" and new: "w_workers w t = None" and "t \<le> w_next w"
  shows "pool_ok (with_thread t l w)"
proof -
  let ?w = "with_thread t l w"
  have [simp]: "w_run ?w = w_run w" "w_taken ?w = w_taken w" "w_added ?w = w_added w" "w_cleared ?w = w_cleared w"
    "w_lost ?w = w_lost w" "w_next ?w = w_next w" "w_workers ?w = (w_workers w)(t \<mapsto> Enter)" "w_callers ?w = w_callers w"
    "tp_lock (w_pool ?w) = tp_lock (w_pool w)" "tp_tasks (w_pool ?w) = tp_tasks (w_pool w)"
    by (simp_all add: with_thread_def world_defs)
  have "hand ?w = hand w" using new by (auto simp: hand_def)
  then show ?thesis using assms by (auto simp: pool_ok_def lock_ok_def queue_ok_def run_ok_def)
qed

lemma pool_ok_fresh: "pool_ok w \<Longrightarrow> w_workers w t = Some pc \<Longrightarrow> t \<le> w_next w"
  by (auto simp: pool_ok_def lock_ok_def)

lemma add_threads_ok: "pool_ok w \<Longrightarrow> pool_ok (snd (add_threads E num w))"
  by (rule add_threads_keeps [where P = pool_ok])
     (auto intro: pool_ok_next pool_ok_bad pool_ok_thread pool_ok_fresh)

text \<open>The history of a task: taken once, in a hand, run once.\<close>

lemma run_ok_same: "run_ok w \<Longrightarrow> hand w' = hand w \<Longrightarrow> w_run w' = w_run w \<Longrightarrow> w_taken w' = w_taken w \<Longrightarrow> run_ok w'"
  by (simp add: run_ok_def)

lemma run_ok_take:
  assumes "run_ok w" and "hand w t = None" and "k \<notin> set (w_taken w)"
    and "hand w' = (hand w)(t \<mapsto> k)" and "w_run w' = w_run w" and "w_taken w' = w_taken w @ [k]"
  shows "run_ok w'"
proof -
  have "k \<notin> ran (hand w)" "k \<notin> set (w_run w)" using assms(1,3) by (auto simp: run_ok_def)
  moreover have "ran (hand w') = insert k (ran (hand w))" using assms(2,4) by simp
  moreover have "inj_on (hand w') (dom (hand w'))"
    using assms(1,4) \<open>k \<notin> ran (hand w)\<close> by (auto simp: run_ok_def inj_on_def ranI)
  ultimately show ?thesis using assms unfolding run_ok_def by auto
qed

lemma run_ok_done:
  assumes "run_ok w" and k: "hand w t = Some k"
    and "hand w' = (hand w)(t := None)" and "w_run w' = w_run w @ [k]" and "w_taken w' = w_taken w"
  shows "run_ok w'"
proof -
  have inj: "inj_on (hand w) (dom (hand w))" and "k \<notin> set (w_run w)" using assms(1) k by (auto simp: run_ok_def ran_def)
  have "ran ((hand w)(t := None)) = ran (hand w) - {k}"
    using inj k by (auto simp: ran_def inj_on_def dom_def split: if_splits) (metis option.inject)
  moreover have "inj_on ((hand w)(t := None)) (dom ((hand w)(t := None)))"
    using inj by (auto simp: inj_on_def)
  moreover have "k \<in> ran (hand w)" using k by (auto simp: ran_def)
  ultimately show ?thesis using assms \<open>k \<notin> set (w_run w)\<close> unfolding run_ok_def by auto
qed

lemma queue_ok_distinct: "queue_ok w \<Longrightarrow> distinct (w_taken w @ tp_tasks (w_pool w))"
proof -
  assume "queue_ok w"
  then have "distinct (w_added w)" "mset (w_added w) = mset (w_taken w @ w_cleared w @ w_lost w @ tp_tasks (w_pool w))"
    by (simp_all add: queue_ok_def distinct_map)
  then have "distinct (w_taken w @ w_cleared w @ w_lost w @ tp_tasks (w_pool w))" using mset_eq_imp_distinct_iff by blast
  then show ?thesis by auto
qed

subsection \<open>Every step keeps it\<close>

lemma lock_ok_move:
  assumes "lock_ok w" and "w_workers w t = Some pc" and "w_workers w' = (w_workers w)(t \<mapsto> pc')"
    and "w_callers w' = w_callers w" and "w_next w' = w_next w"
    and "tp_lock (w_pool w') = tp_lock (w_pool w) \<and> (under_lock pc' \<longrightarrow> under_lock pc) \<or>
      tp_lock (w_pool w) = None \<and> tp_lock (w_pool w') = Some (Thread t) \<or>
      under_lock pc \<and> \<not> under_lock pc' \<and> tp_lock (w_pool w') = None"
  shows "lock_ok w'"
proof -
  have other: "\<not> under_lock y" if "tp_lock (w_pool w) = None \<or> under_lock pc" "w_workers w x = Some y" "x \<noteq> t" for x y
    using assms(1,2) that unfolding lock_ok_def by (metis option.distinct(1) option.inject owner.inject(1))
  have caller: "\<not> caller_under_lock (w_callers w c)" if "tp_lock (w_pool w) = None \<or> under_lock pc" for c
    using assms(1,2) that by (auto simp: lock_ok_def)
  show ?thesis
    using assms(6)
  proof (elim disjE)
    assume "tp_lock (w_pool w') = tp_lock (w_pool w) \<and> (under_lock pc' \<longrightarrow> under_lock pc)"
    with assms(1-5) show ?thesis by (simp add: lock_ok_def)
  qed (use assms(1-5) other caller in \<open>auto simp: lock_ok_def\<close>)
qed

lemma thread_step_lock_ok:
  assumes "lock_ok w" and pc: "w_workers w t = Some pc" and step: "thread_step t pc w = Some w'"
  shows "lock_ok w'"
proof -
  obtain pc' where "w_workers w' = (w_workers w)(t \<mapsto> pc')" "w_callers w' = w_callers w" "w_next w' = w_next w"
    "tp_lock (w_pool w') = tp_lock (w_pool w) \<and> (under_lock pc' \<longrightarrow> under_lock pc) \<or>
      tp_lock (w_pool w) = None \<and> tp_lock (w_pool w') = Some (Thread t) \<or>
      under_lock pc \<and> \<not> under_lock pc' \<and> tp_lock (w_pool w') = None"
    using step that by (cases pc) (fastforce simp: thread_step_def world_defs split: if_splits list.splits)+
  then show ?thesis by (rule lock_ok_move [OF assms(1) pc])
qed

lemma thread_step_queue_ok:
  assumes "queue_ok w" and "thread_step t pc w = Some w'"
  shows "queue_ok w'"
  using assms by (cases pc) (auto simp: queue_ok_def thread_step_def world_defs split: if_splits list.splits)

lemma thread_step_run_ok:
  assumes "run_ok w" and "queue_ok w" and pc: "w_workers w t = Some pc" and step: "thread_step t pc w = Some w'"
  shows "run_ok w'"
proof -
  have hand: "hand w t = held pc" using pc by (simp add: hand_def)
  have keep: "run_ok w'" if "hand w' = hand w" "w_run w' = w_run w" "w_taken w' = w_taken w"
    using assms(1) that by (rule run_ok_same)
  show ?thesis
  proof (cases pc)
    case Check
    show ?thesis
    proof (cases "\<exists>k ks. tp_tasks (w_pool w) = k # ks \<and> w' = goto t (Got k) (upd_pool (\<lambda>p. p\<lparr>tp_tasks := ks\<rparr>) (w\<lparr>w_taken := w_taken w @ [k]\<rparr>))")
      case True
      then obtain k ks where k: "tp_tasks (w_pool w) = k # ks"
        "w' = goto t (Got k) (upd_pool (\<lambda>p. p\<lparr>tp_tasks := ks\<rparr>) (w\<lparr>w_taken := w_taken w @ [k]\<rparr>))" by blast
      show ?thesis
      proof (rule run_ok_take [OF assms(1)])
        show "hand w t = None" using hand Check by simp
        show "k \<notin> set (w_taken w)" using queue_ok_distinct [OF assms(2)] k(1) by auto
      qed (simp_all add: k(2), simp_all add: world_defs)
    next
      case False
      with step Check have "w' = goto t Waiting (set_lock None w) \<or> w' = goto t Leave w"
        by (auto simp: thread_step_def Let_def split: if_splits list.splits)
      then show ?thesis using hand Check by (elim disjE; intro keep) (simp_all add: fun_upd_idem, simp_all add: world_defs)
    qed
  next
    case (Exec k)
    then have "w' = goto t Finish (w\<lparr>w_run := w_run w @ [k]\<rparr>)" using step by (simp add: thread_step_def)
    then show ?thesis using hand Exec by (intro run_ok_done [OF assms(1), of t k]) (simp_all, simp_all add: world_defs)
  next
    case (Got k)
    then have "w' = goto t (Begin k) (set_lock None w)" using step by (simp add: thread_step_def)
    then show ?thesis using hand Got by (intro keep) (simp_all add: fun_upd_idem, simp_all add: world_defs)
  next
    case (Begin k)
    then have "w' = goto t (Exec k) (upd_pool (\<lambda>p. p\<lparr>tp_running := tp_running p + 1\<rparr>) w)"
      using step by (simp add: thread_step_def)
    then show ?thesis using hand Begin by (intro keep) (simp_all add: fun_upd_idem, simp_all add: world_defs)
  next
    case Finish
    then have "w' = goto t Enter (upd_pool (\<lambda>p. p\<lparr>tp_running := tp_running p - 1\<rparr>) w)"
      using step by (simp add: thread_step_def)
    then show ?thesis using hand Finish by (intro keep) (simp_all add: fun_upd_idem, simp_all add: world_defs)
  next
    case Leave
    then have "w' = goto t Done (set_lock None w)" using step by (simp add: thread_step_def)
    then show ?thesis using hand Leave by (intro keep) (simp_all add: fun_upd_idem, simp_all add: world_defs)
  qed (use hand step in \<open>intro keep; auto simp: thread_step_def Let_def fun_upd_idem split: if_splits;
        simp add: world_defs\<close>)+
qed

text \<open>A caller that moves, in the same way.\<close>

lemma lock_ok_caller:
  assumes "lock_ok w" and "w_callers w' = (w_callers w)(c := pc')"
    and "\<And>t pc. w_workers w' t = Some pc \<Longrightarrow> t \<le> w_next w' \<and> (under_lock pc \<longrightarrow> w_workers w t = Some pc)"
    and "tp_lock (w_pool w') = tp_lock (w_pool w) \<and> (caller_under_lock pc' \<longrightarrow> caller_under_lock (w_callers w c)) \<or>
      tp_lock (w_pool w) = None \<and> tp_lock (w_pool w') = Some (Caller c) \<or>
      caller_under_lock (w_callers w c) \<and> \<not> caller_under_lock pc' \<and> tp_lock (w_pool w') = None"
  shows "lock_ok w'"
proof -
  have thread: "\<not> under_lock y" if "tp_lock (w_pool w) = None \<or> caller_under_lock (w_callers w c)" "w_workers w x = Some y" for x y
    using assms(1) that by (auto simp: lock_ok_def)
  have caller: "\<not> caller_under_lock (w_callers w d)" if "tp_lock (w_pool w) = None \<or> caller_under_lock (w_callers w c)" "d \<noteq> c" for d
    using assms(1) that unfolding lock_ok_def by (metis option.distinct(1) option.inject owner.inject(2))
  show ?thesis
    unfolding lock_ok_def
  proof (intro conjI allI impI)
    fix t pc
    assume pc: "w_workers w' t = Some pc"
    then show "t \<le> w_next w'" using assms(3) by simp
    assume "under_lock pc"
    with pc assms(1,3) have "w_workers w t = Some pc" "tp_lock (w_pool w) = Some (Thread t)" by (auto simp: lock_ok_def)
    with assms(4) thread \<open>under_lock pc\<close> show "tp_lock (w_pool w') = Some (Thread t)" by auto
  next
    fix d
    assume d: "caller_under_lock (w_callers w' d)"
    show "tp_lock (w_pool w') = Some (Caller d)"
    proof (cases "d = c")
      case True
      with d assms(1,2,4) show ?thesis by (auto simp: lock_ok_def)
    next
      case False
      then have "caller_under_lock (w_callers w d)" using d assms(2) by simp
      with assms(1,4) caller [OF _ False] show ?thesis by (auto simp: lock_ok_def)
    qed
  qed
qed

lemma signal_cases:
  assumes "signal pick w = Some w'"
  obtains "w' = w" | "w_workers w pick = Some Waiting" and "w' = goto pick Woken w"
  using assms by (auto simp: signal_def split: if_splits)

lemma pool_ok_cgoto:
  assumes "pool_ok w" and "caller_under_lock pc' \<longrightarrow> caller_under_lock (w_callers w c)"
  shows "pool_ok (cgoto c pc' w)"
  using assms by (auto simp: pool_ok_def lock_ok_def queue_ok_def run_ok_def cgoto_def)

lemma pool_ok_return: "pool_ok w \<Longrightarrow> pool_ok (return c r w)"
  by (auto simp: pool_ok_def lock_ok_def queue_ok_def run_ok_def return_def cgoto_def)

lemma pool_ok_wake:
  assumes "pool_ok w" and "w_workers w t = Some Waiting"
  shows "pool_ok (goto t Woken w)"
proof -
  have "lock_ok (goto t Woken w)"
    by (rule lock_ok_move [of w t Waiting _ Woken]) (use assms in \<open>auto simp: pool_ok_def goto_def\<close>)
  moreover have "run_ok (goto t Woken w)"
  proof (rule run_ok_same)
    have "hand w t = None" using assms(2) by (simp add: hand_def)
    then show "hand (goto t Woken w) = hand w" by (simp add: fun_upd_idem)
  qed (use assms(1) in \<open>simp_all add: pool_ok_def goto_def\<close>)
  ultimately show ?thesis using assms(1) by (simp add: pool_ok_def queue_ok_def goto_def)
qed

lemma pool_ok_signal: "pool_ok w \<Longrightarrow> signal pick w = Some w' \<Longrightarrow> pool_ok w'"
  by (erule signal_cases) (auto intro: pool_ok_wake)

lemma signal_fields:
  "signal pick w = Some w' \<Longrightarrow> w_callers w' = w_callers w \<and> w_pool w' = w_pool w \<and> w_next w' = w_next w \<and>
    w_alive w' = w_alive w \<and> w_bad w' = w_bad w \<and> w_added w' = w_added w \<and> w_taken w' = w_taken w \<and>
    w_run w' = w_run w \<and> w_cleared w' = w_cleared w \<and> w_lost w' = w_lost w"
  by (erule signal_cases) (auto simp: goto_def)

lemma pool_ok_enqueue:
  assumes "pool_ok w" and "tk_at k \<le> w_next w" and "tk_at k \<notin> tk_at ` set (w_added w)"
  shows "pool_ok ((upd_pool (\<lambda>p. p\<lparr>tp_tasks := tp_tasks p @ [k]\<rparr>) w)\<lparr>w_added := w_added w @ [k]\<rparr>)"
proof -
  have "subseq ((w_taken w @ tp_tasks (w_pool w)) @ [k]) (w_added w @ [k])"
    using assms(1) by (intro list_emb_append_mono) (auto simp: pool_ok_def queue_ok_def)
  with assms show ?thesis by (auto simp: pool_ok_def lock_ok_def queue_ok_def run_ok_def upd_pool_def)
qed

lemma pool_ok_lose:
  assumes "pool_ok w" and "tk_at k \<le> w_next w" and "tk_at k \<notin> tk_at ` set (w_added w)"
  shows "pool_ok (w\<lparr>w_lost := w_lost w @ [k], w_added := w_added w @ [k]\<rparr>)"
proof -
  have "subseq ((w_taken w @ tp_tasks (w_pool w)) @ []) (w_added w @ [k])"
    using assms(1) by (intro list_emb_append_mono) (auto simp: pool_ok_def queue_ok_def)
  with assms show ?thesis by (auto simp: pool_ok_def lock_ok_def queue_ok_def run_ok_def)
qed

lemma enqueue_task_ok:
  assumes "pool_ok w" and "caller_under_lock (w_callers w c)" and "enqueue_task E c pick fn arg w = Some w'"
  shows "pool_ok w'"
proof -
  let ?w1 = "w\<lparr>w_next := Suc (w_next w)\<rparr>" and ?w2 = "w\<lparr>w_next := Suc (Suc (w_next w))\<rparr>"
  let ?k = "\<lparr>tk_at = Suc (w_next w), tk_fn = fn, tk_arg = arg\<rparr>"
  let ?w3 = "(upd_pool (\<lambda>p. p\<lparr>tp_tasks := tp_tasks p @ [?k]\<rparr>) ?w2)\<lparr>w_added := w_added ?w2 @ [?k]\<rparr>"
  let ?l3 = "?w2\<lparr>w_lost := w_lost ?w2 @ [?k], w_added := w_added ?w2 @ [?k]\<rparr>"
  have ok: "pool_ok ?w1" "pool_ok ?w2" using pool_ok_next [OF _ assms(1)] by simp_all
  have "tk_at ?k \<notin> tk_at ` set (w_added w)" using assms(1) by (fastforce simp: pool_ok_def queue_ok_def)
  then have w3: "pool_ok ?w3" "pool_ok ?l3" by (intro pool_ok_enqueue [OF ok(2)] pool_ok_lose [OF ok(2)]; auto)+
  have "w' = bad ?w1 \<or> (\<exists>v w4. v \<in> {?l3, ?w3} \<and> signal pick v = Some w4 \<and> w' = cgoto c (COut 0) w4)"
    using assms(3) by (auto simp: enqueue_task_def calloc_def Let_def split: if_splits)
  then show ?thesis
  proof (elim disjE exE conjE)
    fix v w4 assume v: "v \<in> {?l3, ?w3}" "signal pick v = Some w4" "w' = cgoto c (COut 0) w4"
    have "pool_ok v" using v(1) w3 by auto
    then have "pool_ok w4" using v(2) by (rule pool_ok_signal)
    moreover have "caller_under_lock (w_callers w4 c)"
      using signal_fields [OF v(2)] v(1) assms(2) by (auto simp: upd_pool_def)
    ultimately show ?thesis using v(3) by (simp add: pool_ok_cgoto)
  qed (use ok pool_ok_bad in simp)
qed

lemma add_threads_callers: "w_callers (snd (add_threads E num w)) = w_callers w"
  by (induction num arbitrary: w) (auto simp: calloc_def world_defs)

lemma thpool_add_body_ok:
  assumes "pool_ok w" and "caller_under_lock (w_callers w c)" and "thpool_add_body E c pick fn arg w = Some w'"
  shows "pool_ok w'"
proof -
  let ?w1 = "snd (add_threads E 1 w)"
  have w1: "pool_ok ?w1" "caller_under_lock (w_callers ?w1 c)"
    using add_threads_ok [OF assms(1)] assms(2) by (simp_all add: add_threads_callers del: add_threads.simps)
  have "enqueue_task E c pick fn arg w = Some w' \<or> enqueue_task E c pick fn arg ?w1 = Some w' \<or>
      (\<exists>r. w' = return c r ?w1)"
    using assms(3) by (auto simp del: add_threads.simps simp: thpool_add_body_def Let_def case_prod_beta split: if_splits)
  then show ?thesis
    using enqueue_task_ok [OF assms(1,2)] enqueue_task_ok [OF w1] pool_ok_return [OF w1(1)] by blast
qed

lemma pool_ok_pool:
  assumes "pool_ok w" and "tp_lock p = tp_lock (w_pool w)" and "tp_tasks p = tp_tasks (w_pool w)"
  shows "pool_ok (w\<lparr>w_pool := p\<rparr>)"
  using assms by (auto simp: pool_ok_def lock_ok_def queue_ok_def run_ok_def)

lemma pool_ok_discard:
  assumes "pool_ok w" and "tp_lock p = tp_lock (w_pool w)" and "tp_tasks p = []"
  shows "pool_ok (w\<lparr>w_pool := p, w_cleared := w_cleared w @ tp_tasks (w_pool w)\<rparr>)"
proof -
  have "subseq (w_taken w @ []) (w_taken w @ tp_tasks (w_pool w))" by (intro list_emb_append_mono) auto
  then have "subseq (w_taken w) (w_added w)"
    using assms(1) subseq_order.trans by (fastforce simp: pool_ok_def queue_ok_def)
  with assms show ?thesis by (auto simp: pool_ok_def lock_ok_def queue_ok_def run_ok_def)
qed

lemma pool_ok_broadcast: "pool_ok w \<Longrightarrow> pool_ok (broadcast w)"
proof -
  assume ok: "pool_ok w"
  have "hand (broadcast w) = hand w" by (auto simp: hand_def broadcast_def fun_eq_iff)
  then have "run_ok (broadcast w)"
    by (rule run_ok_same [rotated]) (use ok in \<open>simp_all add: pool_ok_def broadcast_def\<close>)
  with ok show ?thesis by (auto simp: pool_ok_def lock_ok_def queue_ok_def broadcast_def)
qed

lemma pool_ok_lock:
  assumes "pool_ok w" and "tp_lock (w_pool w) = None" and "caller_under_lock pc'"
  shows "pool_ok (cgoto c pc' (set_lock (Some (Caller c)) w))"
proof -
  have "lock_ok (cgoto c pc' (set_lock (Some (Caller c)) w))"
    by (rule lock_ok_caller [of w _ c pc']) (use assms in \<open>auto simp: pool_ok_def lock_ok_def world_defs\<close>)
  with assms(1) show ?thesis by (auto simp: pool_ok_def queue_ok_def run_ok_def world_defs)
qed

lemma pool_ok_unlock:
  assumes "pool_ok w" and "caller_under_lock (w_callers w c)" and "\<not> caller_under_lock pc'"
  shows "pool_ok (cgoto c pc' (set_lock None w))"
proof -
  have "lock_ok (cgoto c pc' (set_lock None w))"
    by (rule lock_ok_caller [of w _ c pc']) (use assms in \<open>auto simp: pool_ok_def lock_ok_def world_defs\<close>)
  with assms(1) show ?thesis by (auto simp: pool_ok_def queue_ok_def run_ok_def world_defs)
qed

lemma thpool_destroy_ok: "pool_ok w \<Longrightarrow> pool_ok (thpool_destroy w)"
proof -
  assume "pool_ok w"
  then have "pool_ok (w\<lparr>w_pool := (w_pool w)\<lparr>tp_tasks := [], tp_threads := []\<rparr>, w_cleared := w_cleared w @ tp_tasks (w_pool w)\<rparr>)"
    by (rule pool_ok_discard) simp_all
  then show ?thesis
    by (auto simp: thpool_destroy_def world_defs pool_ok_def lock_ok_def queue_ok_def run_ok_def)
qed

lemma caller_step_ok:
  assumes ok: "pool_ok w" and step: "caller_step E c pick (w_callers w c) w = Some w'"
  shows "pool_ok w'"
proof (cases "w_callers w c")
  case (CLock op)
  with step show ?thesis by (auto simp: caller_step_def split: if_splits intro: pool_ok_lock [OF ok])
next
  case (CIn op)
  then have c: "caller_under_lock (w_callers w c)" by simp
  show ?thesis
  proof (cases op)
    case (OpAdd fn arg)
    with step CIn show ?thesis by (auto simp: caller_step_def intro: thpool_add_body_ok [OF ok c])
  next
    case OpLength
    with step CIn show ?thesis by (auto simp: caller_step_def thpool_length_body_def intro: pool_ok_cgoto [OF ok])
  next
    case OpClear
    let ?w = "w\<lparr>w_pool := (w_pool w)\<lparr>tp_tasks := []\<rparr>, w_cleared := w_cleared w @ tp_tasks (w_pool w)\<rparr>"
    have "pool_ok ?w" by (rule pool_ok_discard [OF ok]) simp_all
    then have "pool_ok (cgoto c (COut 0) ?w)" by (rule pool_ok_cgoto) (use CIn in simp)
    with step CIn OpClear show ?thesis
      by (auto simp: caller_step_def thpool_clear_body_def Let_def upd_pool_def split: if_splits intro: pool_ok_cgoto [OF ok])
  next
    case (OpFree wait_all)
    let ?w = "upd_pool (\<lambda>p. p\<lparr>tp_shutdown := (if wait_all then SHUTDOWN_WAITALL else SHUTDOWN_WAITCURR)\<rparr>) w"
    have "pool_ok (broadcast ?w)"
      by (rule pool_ok_broadcast) (simp add: upd_pool_def pool_ok_pool [OF ok])
    then have "pool_ok (cgoto c CFreeOut (broadcast ?w))"
      by (rule pool_ok_cgoto) (use CIn in \<open>simp add: broadcast_def upd_pool_def\<close>)
    with step CIn OpFree show ?thesis by (simp add: caller_step_def wait_pool_body_def)
  qed
next
  case (COut r)
  have "pool_ok (cgoto c CIdle (set_lock None w))" by (rule pool_ok_unlock [OF ok]) (simp_all add: COut)
  then have "pool_ok (return c r (set_lock None w))" by (auto simp: return_def pool_ok_def lock_ok_def queue_ok_def run_ok_def)
  with step COut show ?thesis by (simp add: caller_step_def)
next
  case CFreeOut
  have "pool_ok (cgoto c pc' ((set_lock None w)\<lparr>w_next := n\<rparr>))" if "\<not> caller_under_lock pc'" "w_next w \<le> n" for pc' n
  proof -
    have "pool_ok (cgoto c pc' (set_lock None (w\<lparr>w_next := n\<rparr>)))"
      by (rule pool_ok_unlock) (use that CFreeOut pool_ok_next [OF _ ok] in simp_all)
    then show ?thesis by (cases w) (simp add: world_defs)
  qed
  from this [of CDestroy "w_next w"] this [of "CJoin ts" "Suc (w_next w)" for ts] step CFreeOut show ?thesis
    by (auto simp: caller_step_def wait_pool_join_def Let_def calloc_def set_lock_def upd_pool_def)
next
  case (CJoin ts)
  with step show ?thesis
    by (cases ts) (auto simp: caller_step_def split: if_splits intro: pool_ok_cgoto [OF ok])
next
  case CDestroy
  with step show ?thesis by (auto simp: caller_step_def intro: pool_ok_return thpool_destroy_ok [OF ok])
qed (use step in \<open>simp add: caller_step_def\<close>)

lemma tp_call_ok: "pool_ok w \<Longrightarrow> pool_ok (tp_call c op w)"
  by (cases op) (auto simp: tp_call_def intro: pool_ok_return pool_ok_cgoto)

lemma exec_ok: "pool_ok w \<Longrightarrow> exec E e w = Some w' \<Longrightarrow> pool_ok w'"
proof (cases e)
  case (Move t)
  assume ok: "pool_ok w" and "exec E e w = Some w'"
  with Move obtain pc where pc: "w_workers w t = Some pc" and "w' = bad w \<or> thread_step t pc w = Some w'"
    by (auto simp: exec_def split: if_splits option.splits)
  then show ?thesis
    using ok pool_ok_bad thread_step_lock_ok [OF _ pc] thread_step_queue_ok thread_step_run_ok [OF _ _ pc]
    by (auto simp: pool_ok_def)
next
  case (Go c pick)
  assume "pool_ok w" and "exec E e w = Some w'"
  with Go show ?thesis by (auto simp: exec_def split: if_splits intro: pool_ok_bad caller_step_ok)
qed (auto simp: exec_def split: if_splits intro: pool_ok_wake tp_call_ok)

lemma steps_ok: "steps E w es w' \<Longrightarrow> pool_ok w \<Longrightarrow> pool_ok w'"
  by (induction rule: steps.induct) (auto intro: exec_ok)

lemma run_events_append: "run_events E (es @ es') w = Option.bind (run_events E es w) (run_events E es')"
  by (induction es arbitrary: w) (auto split: Option.bind_split)

lemma run_events_snoc: "run_events E es w = Some v \<Longrightarrow> exec E e v = Some v' \<Longrightarrow> run_events E (es @ [e]) w = Some v'"
  by (simp add: run_events_append)

lemma steps_run: "steps E w es w' \<longleftrightarrow> run_events E es w = Some w'"
proof (induction es arbitrary: w' rule: rev_induct)
  case Nil
  show ?case by (auto intro: steps_refl elim: steps.cases)
next
  case (snoc e es)
  show ?case by (auto simp: run_events_append bind_eq_Some_conv snoc [symmetric] intro: steps_step elim: steps_appendE)
qed

subsection \<open>A new pool\<close>

lemma inited_fields [simp]:
  "w_workers (inited fl w) = w_workers w" "w_callers (inited fl w) = w_callers w" "w_alive (inited fl w) = w_alive w"
  "w_next (inited fl w) = w_next w" "w_bad (inited fl w) = w_bad w" "w_added (inited fl w) = w_added w"
  "w_lost (inited fl w) = w_lost w" "w_taken (inited fl w) = w_taken w" "w_run (inited fl w) = w_run w" "w_cleared (inited fl w) = w_cleared w"
  "w_pool (inited fl w) = (w_pool w)\<lparr>tp_init := tp_init (w_pool w) OR fl\<rparr>" "hand (inited fl w) = hand w"
  by (simp_all add: inited_def upd_pool_def)

lemma pool_ok_inited: "pool_ok w \<Longrightarrow> pool_ok (inited fl w)"
  by (auto simp: pool_ok_def lock_ok_def queue_ok_def run_ok_def)

lemma pool_ok_calloc: "pool_ok w \<Longrightarrow> pool_ok (snd (calloc E w))"
  by (simp add: calloc_def pool_ok_next)

lemma pool_ok_no_world: "pool_ok no_world"
proof -
  have "hand no_world = Map.empty" by (simp add: hand_def no_world_def fun_eq_iff)
  then show ?thesis by (simp add: pool_ok_def lock_ok_def queue_ok_def run_ok_def) (simp add: no_world_def)
qed

lemma pool_ok_alive: "pool_ok w \<Longrightarrow> pool_ok (w\<lparr>w_alive := b\<rparr>)"
  by (auto simp: pool_ok_def lock_ok_def queue_ok_def run_ok_def)

lemma thpool_start_ok: "pool_ok w \<Longrightarrow> pool_ok (snd (thpool_start E n fl w))"
  by (auto simp: thpool_start_def Let_def upd_pool_def intro!: add_threads_ok pool_ok_pool)

lemma thpool_init_ok: "pool_ok w \<Longrightarrow> pool_ok (snd (thpool_init E n fl w))"
  by (auto simp: thpool_init_def Let_def case_prod_beta intro!: pool_ok_calloc pool_ok_inited thpool_start_ok)

lemma m_thpool_new_ok: "m_thpool_new E n fl = (b, w) \<Longrightarrow> pool_ok w"
proof -
  assume new: "m_thpool_new E n fl = (b, w)"
  let ?w1 = "snd (calloc E no_world)"
  have ok: "pool_ok ?w1" by (rule pool_ok_calloc [OF pool_ok_no_world])
  then have "pool_ok (snd (thpool_init E n fl (?w1\<lparr>w_alive := True\<rparr>)))" by (intro thpool_init_ok pool_ok_alive)
  with new ok pool_ok_no_world show ?thesis
    by (auto simp: m_thpool_new_def case_prod_beta split: if_splits intro: pool_ok_inited thpool_destroy_ok)
qed

text \<open>How many threads there are, and what never changes.\<close>

definition fixed :: "world \<Rightarrow> 8 word \<times> 32 word \<times> 32 word" where
  "fixed w = (tp_max (w_pool w), tp_flags (w_pool w), tp_init (w_pool w))"

lemma add_threads_fixed [simp]:
  "fixed (snd (add_threads E num w)) = fixed w" "tp_lock (w_pool (snd (add_threads E num w))) = tp_lock (w_pool w)"
  "tp_tasks (w_pool (snd (add_threads E num w))) = tp_tasks (w_pool w)"
  "tp_shutdown (w_pool (snd (add_threads E num w))) = tp_shutdown (w_pool w)"
  "w_alive (snd (add_threads E num w)) = w_alive w"
  by (induction num arbitrary: w) (auto simp: calloc_def world_defs fixed_def)

lemma add_threads_length: "length (tp_threads (w_pool (snd (add_threads E num w)))) \<le> length (tp_threads (w_pool w)) + num"
proof (induction num arbitrary: w)
  case (Suc num)
  show ?case using Suc [of "w\<lparr>w_workers := ws, w_pool := p, w_next := n\<rparr>" for ws p n] Suc [of "w\<lparr>w_workers := ws, w_next := n, w_pool := p\<rparr>" for ws p n]
    by (auto simp: calloc_def world_defs intro: order_trans [OF Suc])
qed simp

lemma thread_step_fields:
  assumes "thread_step t pc w = Some w'"
  shows "fixed w' = fixed w" "tp_threads (w_pool w') = tp_threads (w_pool w)" "w_callers w' = w_callers w"
    "w_alive w' = w_alive w" "w_bad w' = w_bad w" "tp_shutdown (w_pool w') = tp_shutdown (w_pool w)" "w_next w' = w_next w"
  using assms by (cases pc; force simp: thread_step_def world_defs fixed_def split: if_splits list.splits)+

lemma enqueue_task_fields:
  assumes "enqueue_task E c pick fn arg w = Some w'"
  shows "fixed w' = fixed w" "tp_threads (w_pool w') = tp_threads (w_pool w)" "tp_lock (w_pool w') = tp_lock (w_pool w)"
    "w_alive w' = w_alive w" "tp_shutdown (w_pool w') = tp_shutdown (w_pool w)"
  using assms
  by (auto simp: enqueue_task_def calloc_def Let_def fixed_def upd_pool_def cgoto_def bad_def
      split: if_splits dest!: signal_fields)

lemma thpool_add_body_cases:
  assumes "thpool_add_body E c pick fn arg w = Some w'"
  obtains (enough) "enqueue_task E c pick fn arg w = Some w'"
    "tp_flags (w_pool w) AND M_THPOOL_LAZY = 0 \<or> has_space (w_pool w) \<or> unat (tp_max (w_pool w)) \<le> length (tp_threads (w_pool w))"
  | (failed) ret w1 where "add_threads E 1 w = (ret, w1)" and "ret \<noteq> 0" and "w' = return c ret w1"
    and "length (tp_threads (w_pool w)) < unat (tp_max (w_pool w))"
  | (grown) w1 where "add_threads E 1 w = (0, w1)" and "enqueue_task E c pick fn arg w1 = Some w'"
    and "length (tp_threads (w_pool w)) < unat (tp_max (w_pool w))"
  using assms that
  by (cases "add_threads E 1 w") (auto simp: thpool_add_body_def Let_def not_less split: if_splits simp del: add_threads.simps)

definition threads_bounded :: "world \<Rightarrow> bool" where
  "threads_bounded w \<longleftrightarrow> length (tp_threads (w_pool w)) \<le> unat (tp_max (w_pool w))"

lemma thpool_add_body_bounded:
  assumes "thpool_add_body E c pick fn arg w = Some w'" and "threads_bounded w"
  shows "fixed w' = fixed w \<and> threads_bounded w'"
proof -
  note add = add_threads_fixed(1) [of E 1 w] add_threads_length [of E 1 w]
  from assms(1) show ?thesis
  proof (cases rule: thpool_add_body_cases)
    case enough
    with assms(2) enqueue_task_fields [OF enough(1)] show ?thesis by (simp add: threads_bounded_def fixed_def)
  next
    case (failed ret w1)
    with add assms(2) show ?thesis by (simp add: threads_bounded_def fixed_def return_def cgoto_def del: add_threads.simps)
  next
    case (grown w1)
    with add assms(2) enqueue_task_fields [OF grown(2)] show ?thesis
      by (simp add: threads_bounded_def fixed_def del: add_threads.simps)
  qed
qed

lemma caller_step_bounded:
  assumes "caller_step E c pick pc w = Some w'" and "threads_bounded w"
  shows "fixed w' = fixed w \<and> threads_bounded w'"
proof (cases pc)
  case (CIn op)
  show ?thesis
  proof (cases op)
    case (OpAdd fn arg)
    with assms CIn thpool_add_body_bounded show ?thesis by (simp add: caller_step_def)
  qed (use assms CIn in \<open>auto simp: caller_step_def thpool_length_body_def thpool_clear_body_def wait_pool_body_def
        broadcast_def world_defs fixed_def threads_bounded_def split: if_splits\<close>)
next
  case (CJoin ts)
  with assms show ?thesis
    by (cases ts) (auto simp: caller_step_def fixed_def threads_bounded_def world_defs split: if_splits)
qed (use assms in \<open>auto simp: caller_step_def fixed_def threads_bounded_def world_defs wait_pool_join_def calloc_def
      thpool_destroy_def split: if_splits\<close>)

lemma exec_bounded: "exec E e w = Some w' \<Longrightarrow> threads_bounded w \<Longrightarrow> fixed w' = fixed w \<and> threads_bounded w'"
proof (cases e)
  case (Move t)
  assume "exec E e w = Some w'" "threads_bounded w"
  with Move obtain pc where "w' = bad w \<or> thread_step t pc w = Some w'"
    by (auto simp: exec_def split: if_splits option.splits)
  with \<open>threads_bounded w\<close> thread_step_fields(1,2) [of t pc w w'] show ?thesis
    by (auto simp: bad_def fixed_def threads_bounded_def)
next
  case (Go c pick)
  assume "exec E e w = Some w'" "threads_bounded w"
  with Go show ?thesis
    by (auto simp: exec_def split: if_splits dest: caller_step_bounded) (auto simp: bad_def fixed_def threads_bounded_def)
next
  case (Call c op)
  assume "exec E e w = Some w'" "threads_bounded w"
  with Call show ?thesis
    by (cases op) (auto simp: exec_def tp_call_def world_defs fixed_def threads_bounded_def split: if_splits)
qed (auto simp: exec_def goto_def fixed_def threads_bounded_def split: if_splits)

lemma steps_bounded: "steps E w es w' \<Longrightarrow> threads_bounded w \<Longrightarrow> fixed w' = fixed w \<and> threads_bounded w'"
  by (induction rule: steps.induct) (auto dest: exec_bounded)

text \<open>Creating threads, when allocations succeed: all are listed, none is disturbed.\<close>

definition grown :: "world \<Rightarrow> world \<Rightarrow> bool" where
  "grown w w' \<longleftrightarrow> \<not> w_bad w' \<and> dom (w_workers w') = set (tp_threads (w_pool w')) \<and> w_callers w' = w_callers w \<and>
     (\<forall>t pc. w_workers w t = Some pc \<longrightarrow> w_workers w' t = Some pc) \<and>
     (\<forall>t pc. w_workers w' t = Some pc \<longrightarrow> t \<le> w_next w' \<and> (w_workers w t = Some pc \<or> pc = Enter))"

lemma grown_trans: "grown w w' \<Longrightarrow> grown w' w'' \<Longrightarrow> grown w w''"
  unfolding grown_def by metis

lemma add_threads_grown:
  assumes "\<And>n. t_calloc E n" and "\<not> w_bad w" and "dom (w_workers w) = set (tp_threads (w_pool w))"
    and "\<And>t pc. w_workers w t = Some pc \<Longrightarrow> t \<le> w_next w"
  shows "grown w (snd (add_threads E num w)) \<and>
    (fst (add_threads E num w) = 0 \<and> 0 < num \<longrightarrow> tp_threads (w_pool (snd (add_threads E num w))) \<noteq> [])"
  using assms(2-4)
proof (induction num arbitrary: w)
  case 0
  then show ?case by (auto simp: grown_def)
next
  case (Suc num)
  let ?t = "Suc (w_next w)"
  let ?w2 = "w\<lparr>w_next := Suc ?t\<rparr>"
  let ?w4 = "upd_pool (\<lambda>p. p\<lparr>tp_threads := ?t # tp_threads p\<rparr>) ((goto ?t Enter ?w2)\<lparr>w_next := Suc (Suc ?t)\<rparr>)"
  have new: "w_workers w ?t = None" using Suc.prems(3) [of ?t] by (cases "w_workers w ?t") auto
  have fresh: "t \<le> Suc (Suc ?t)" if "w_workers w t = Some pc" for t pc using Suc.prems(3) [OF that] by simp
  have w4: "grown w ?w4"
    using Suc.prems new fresh by (auto simp: grown_def world_defs)
  have "grown ?w4 (snd (add_threads E num ?w4)) \<and> tp_threads (w_pool (snd (add_threads E num ?w4))) \<noteq> []"
  proof -
    have IH: "grown ?w4 (snd (add_threads E num ?w4))"
      by (rule Suc.IH [THEN conjunct1]) (use w4 in \<open>auto simp: grown_def\<close>)
    moreover have "w_workers (snd (add_threads E num ?w4)) ?t = Some Enter"
      using IH by (simp add: grown_def world_defs)
    ultimately show ?thesis by (auto simp: grown_def dest: domI)
  qed
  moreover have "grown w ?w2" using Suc.prems by (auto simp: grown_def le_SucI)
  ultimately show ?case using grown_trans [OF w4] assms(1)
    by (auto simp: calloc_def Let_def goto_def)
qed

text \<open>
  When allocations succeed no task is lost, and a thread that was created is in the list for as long
  as the pool lives: there are never more of them than the pool allows.
\<close>

definition all_kept :: "world \<Rightarrow> bool" where
  "all_kept w \<longleftrightarrow> w_lost w = [] \<and> finite (dom (w_workers w)) \<and> card (dom (w_workers w)) \<le> unat (tp_max (w_pool w)) \<and>
     (w_alive w \<longrightarrow> dom (w_workers w) = set (tp_threads (w_pool w)))"

lemma all_kept_same:
  assumes "all_kept w" and "dom (w_workers w') = dom (w_workers w)" and "w_lost w' = w_lost w"
    and "tp_max (w_pool w') = tp_max (w_pool w)"
    and "w_alive w' \<Longrightarrow> w_alive w \<and> tp_threads (w_pool w') = tp_threads (w_pool w)"
  shows "all_kept w'"
  using assms by (auto simp: all_kept_def)

lemma all_kept_bounded:
  assumes "threads_bounded w" and "w_lost w = []" and "dom (w_workers w) = set (tp_threads (w_pool w))"
  shows "all_kept w"
  using assms card_length [of "tp_threads (w_pool w)"] by (auto simp: all_kept_def threads_bounded_def)

lemma thread_step_kept:
  assumes "thread_step t pc w = Some w'" and "w_workers w t = Some pc" and "all_kept w"
  shows "all_kept w'"
proof (rule all_kept_same [OF assms(3)])
  show "dom (w_workers w') = dom (w_workers w)" "w_lost w' = w_lost w"
    using assms(1,2) by (cases pc; auto simp: thread_step_def world_defs split: if_splits list.splits)+
qed (use thread_step_fields [OF assms(1)] in \<open>auto simp: fixed_def\<close>)

lemma signal_dom: "signal pick w = Some w' \<Longrightarrow> dom (w_workers w') = dom (w_workers w) \<and> w_lost w' = w_lost w"
  by (erule signal_cases) (auto simp: goto_def)

lemma enqueue_task_kept:
  assumes "enqueue_task E c pick fn arg w = Some w'" and "\<And>n. t_calloc E n" and "all_kept w"
  shows "all_kept w'"
proof (rule all_kept_same [OF assms(3)])
  show "dom (w_workers w') = dom (w_workers w)" "w_lost w' = w_lost w"
    using assms(1,2)
    by (clarsimp simp: enqueue_task_def calloc_def Let_def cgoto_def upd_pool_def dest!: signal_dom)+
qed (use enqueue_task_fields [OF assms(1)] in \<open>auto simp: fixed_def\<close>)

lemma add_threads_lost [simp]: "w_lost (snd (add_threads E num w)) = w_lost w"
  by (induction num arbitrary: w) (auto simp: calloc_def world_defs)

lemma thpool_add_body_kept:
  assumes "thpool_add_body E c pick fn arg w = Some w'" and calloc: "\<And>n. t_calloc E n" and "all_kept w"
    and "pool_ok w" and "threads_bounded w" and "w_alive w" and "\<not> w_bad w"
  shows "all_kept w'"
proof -
  let ?w1 = "snd (add_threads E 1 w)"
  have "grown w ?w1"
    by (rule add_threads_grown [THEN conjunct1])
       (use assms in \<open>auto simp: all_kept_def intro: pool_ok_fresh\<close>)
  then have dom: "dom (w_workers ?w1) = set (tp_threads (w_pool ?w1))" by (simp add: grown_def)
  have w1: "all_kept ?w1" if "length (tp_threads (w_pool w)) < unat (tp_max (w_pool w))"
  proof (rule all_kept_bounded [OF _ _ dom])
    show "threads_bounded ?w1"
      using that add_threads_length [of E 1 w] add_threads_fixed(1) [of E 1 w]
      by (simp add: threads_bounded_def fixed_def del: add_threads.simps)
  qed (use assms(3) in \<open>simp add: all_kept_def del: add_threads.simps\<close>)
  from assms(1) show ?thesis
  proof (cases rule: thpool_add_body_cases)
    case enough
    then show ?thesis using calloc assms(3) by (auto intro: enqueue_task_kept)
  next
    case (failed ret v)
    then have "all_kept v" using w1 by simp
    then show ?thesis unfolding failed(3) by (rule all_kept_same) (simp_all add: return_def cgoto_def)
  next
    case (grown v)
    then have "all_kept v" using w1 by simp
    with grown(2) calloc show ?thesis by (rule enqueue_task_kept)
  qed
qed

lemma caller_step_kept:
  assumes "caller_step E c pick pc w = Some w'" and calloc: "\<And>n. t_calloc E n" and "all_kept w"
    and "pool_ok w" and "threads_bounded w" and "w_alive w" and "\<not> w_bad w"
  shows "all_kept w'"
proof (cases "\<exists>fn arg. pc = CIn (OpAdd fn arg)")
  case True
  then obtain fn arg where "pc = CIn (OpAdd fn arg)" by blast
  with assms(1) show ?thesis by (intro thpool_add_body_kept [OF _ assms(2-7)]) (simp add: caller_step_def)
next
  case False
  note defs = caller_step_def world_defs thpool_length_body_def thpool_clear_body_def wait_pool_body_def broadcast_def
    wait_pool_join_def calloc_def thpool_destroy_def
  have "dom (w_workers w') = dom (w_workers w) \<and> w_lost w' = w_lost w \<and> tp_max (w_pool w') = tp_max (w_pool w) \<and>
      (w_alive w' \<longrightarrow> tp_threads (w_pool w') = tp_threads (w_pool w))"
  proof (cases pc)
    case (CIn op)
    with False assms(1) show ?thesis by (cases op) (auto simp: defs split: if_splits)
  next
    case (CJoin ts)
    with assms(1) show ?thesis by (cases ts) (auto simp: defs split: if_splits)
  qed (use assms(1) in \<open>auto simp: defs split: if_splits\<close>)
  then show ?thesis using assms(3,6) by (intro all_kept_same [of w w']) auto
qed

lemma exec_kept:
  assumes "exec E e w = Some w'" and calloc: "\<And>n. t_calloc E n" and "all_kept w" and "pool_ok w" and "threads_bounded w"
  shows "all_kept w'"
proof -
  have nbad: "\<not> w_bad w" using assms(1) by (auto simp: exec_def)
  have bad: "all_kept (bad w)" using assms(3) by (rule all_kept_same) (simp_all add: bad_def)
  show ?thesis
  proof (cases e)
    case (Move t)
    with assms(1) nbad obtain pc where "w_workers w t = Some pc" "w' = bad w \<or> thread_step t pc w = Some w'"
      by (auto simp: exec_def split: if_splits option.splits)
    with bad assms(3) show ?thesis by (auto intro: thread_step_kept)
  next
    case (Go c pick)
    with assms(1) nbad have "w' = bad w \<or> caller_step E c pick (w_callers w c) w = Some w' \<and> (w_alive w \<or> w_callers w c = CIdle)"
      by (auto simp: exec_def split: if_splits)
    then show ?thesis
      using bad assms(2-5) nbad caller_step_kept by (auto simp: caller_step_def)
  next
    case (Call c op)
    with assms(1) nbad have "w' = tp_call c op w" by (simp add: exec_def split: if_splits)
    moreover have "w_workers (tp_call c op w) = w_workers w \<and> w_lost (tp_call c op w) = w_lost w \<and>
        w_pool (tp_call c op w) = w_pool w \<and> w_alive (tp_call c op w) = w_alive w"
      by (cases op) (simp_all add: tp_call_def return_def cgoto_def)
    ultimately show ?thesis using assms(3) by (intro all_kept_same [of w w']) simp_all
  next
    case (Spurious t)
    with assms(1) nbad have "w_workers w t = Some Waiting" "w' = goto t Woken w" by (auto simp: exec_def split: if_splits)
    then show ?thesis using assms(3) by (intro all_kept_same [of w w']) (auto simp: goto_def)
  qed
qed

lemma steps_kept:
  "steps E w es w' \<Longrightarrow> (\<And>n. t_calloc E n) \<Longrightarrow> all_kept w \<Longrightarrow> pool_ok w \<Longrightarrow> threads_bounded w \<Longrightarrow> all_kept w'"
proof (induction rule: steps.induct)
  case (steps_step w es v e v')
  then show ?case using exec_kept steps_ok steps_bounded by blast
qed simp

text \<open>The world in which \<^verbatim>\<open>m_thpool_new\<close> returns a pool.\<close>

lemma m_thpool_new_started:
  assumes "m_thpool_new E n fl = (True, w)"
  obtains w0 where "w = inited INITED_STARTED (snd (thpool_start E n fl w0))" and "fst (thpool_start E n fl w0) = 0"
    and "w_workers w0 = (\<lambda>_. None)" and "w_callers w0 = (\<lambda>_. CIdle)" and "w_alive w0" and "\<not> w_bad w0"
    and "tp_threads (w_pool w0) = []" and "tp_tasks (w_pool w0) = []" and "tp_lock (w_pool w0) = None"
    and "tp_shutdown (w_pool w0) = SHUTDOWN_NO" and "0 < n" and "w_taken w0 = []" and "w_run w0 = []" and "w_lost w0 = []"
  using assms
  by (auto simp: m_thpool_new_def thpool_init_def Let_def case_prod_beta word_gt_0 split: if_splits)
     (fastforce simp: calloc_def no_world_def)

lemma m_thpool_new_bounded:
  assumes "m_thpool_new E n fl = (True, w)"
  shows "threads_bounded w" "fst (fixed w) = n" "tp_flags (w_pool w) = fl" "tp_init (w_pool w) AND INITED_STARTED \<noteq> 0"
proof -
  from assms obtain w0 where w: "w = inited INITED_STARTED (snd (thpool_start E n fl w0))" and "tp_threads (w_pool w0) = []"
    by (rule m_thpool_new_started)
  let ?w1 = "upd_pool (\<lambda>p. p\<lparr>tp_max := n, tp_flags := fl\<rparr>) w0"
  have "fixed (snd (thpool_start E n fl w0)) = (n, fl, tp_init (w_pool w0))"
    by (auto simp: thpool_start_def Let_def) (simp_all add: fixed_def upd_pool_def)
  moreover have "length (tp_threads (w_pool (snd (thpool_start E n fl w0)))) \<le> unat n"
    using add_threads_length [of E "unat n" ?w1] \<open>tp_threads (w_pool w0) = []\<close>
    by (auto simp: thpool_start_def Let_def upd_pool_def)
  ultimately show "threads_bounded w" "fst (fixed w) = n" "tp_flags (w_pool w) = fl"
    by (auto simp: w threads_bounded_def fixed_def)
  have "x OR 0x10 AND 0x10 \<noteq> (0 :: 32 word)" for x
    by (rule notI, drule arg_cong [of _ _ "\<lambda>v. bit v 4"]) (simp add: bit_simps)
  then show "tp_init (w_pool w) AND INITED_STARTED \<noteq> 0" by (simp add: w INITED_STARTED_def)
qed

lemma m_thpool_new_kept:
  assumes "m_thpool_new E n fl = (True, w)" and calloc: "\<And>n. t_calloc E n"
  shows "all_kept w"
proof (rule all_kept_bounded [OF m_thpool_new_bounded(1) [OF assms(1)]])
  from assms(1) obtain w0 where w: "w = inited INITED_STARTED (snd (thpool_start E n fl w0))"
    and w0: "w_workers w0 = (\<lambda>_. None)" "\<not> w_bad w0" "tp_threads (w_pool w0) = []" "w_lost w0 = []"
    by (rule m_thpool_new_started)
  let ?w1 = "upd_pool (\<lambda>p. p\<lparr>tp_max := n, tp_flags := fl\<rparr>) w0"
  have start: "thpool_start E n fl w0 = add_threads E (if fl AND M_THPOOL_LAZY = 0 then unat n else 0) ?w1"
    by (simp add: thpool_start_def)
  have "grown ?w1 (snd (thpool_start E n fl w0))"
    unfolding start by (rule add_threads_grown [THEN conjunct1]) (use calloc w0 in \<open>simp_all add: upd_pool_def\<close>)
  then show "dom (w_workers w) = set (tp_threads (w_pool w))" by (simp add: w grown_def)
  show "w_lost w = []" using w0(4) by (simp add: w start upd_pool_def)
qed

subsection \<open>A lock that is never given back\<close>

text \<open>The lock belongs to a caller that is not under it.\<close>

definition leaked :: "cid \<Rightarrow> world \<Rightarrow> bool" where
  "leaked c w \<longleftrightarrow> tp_lock (w_pool w) = Some (Caller c) \<and> w_alive w \<and> tp_init (w_pool w) AND INITED_STARTED \<noteq> 0 \<and>
     (\<forall>t pc. w_workers w t = Some pc \<longrightarrow> \<not> under_lock pc) \<and>
     (\<forall>d. \<not> caller_under_lock (w_callers w d) \<and> w_callers w d \<noteq> CDestroy \<and> (\<forall>ts. w_callers w d \<noteq> CJoin ts))"

lemma leaked_exec:
  assumes "leaked c w" and "exec E e w = Some w'"
  shows "leaked c w' \<and> tp_tasks (w_pool w') = tp_tasks (w_pool w)"
proof (cases e)
  case (Move t)
  with assms obtain pc where pc: "w_workers w t = Some pc" "thread_step t pc w = Some w'" "\<not> under_lock pc"
    by (auto simp: exec_def leaked_def split: if_splits option.splits)
  with assms(1) show ?thesis
    by (cases pc) (auto simp: leaked_def thread_step_def world_defs split: if_splits)
next
  case (Go d pick)
  have "\<not> caller_under_lock (w_callers w d)" "w_callers w d \<noteq> CDestroy" "\<And>ts. w_callers w d \<noteq> CJoin ts"
    "tp_lock (w_pool w) = Some (Caller c)"
    using assms(1) by (simp_all add: leaked_def)
  then have "caller_step E d pick (w_callers w d) w = None"
    by (cases "w_callers w d") (auto simp: caller_step_def)
  with assms Go show ?thesis by (simp add: exec_def leaked_def split: if_splits)
next
  case (Call d op)
  with assms show ?thesis
    by (cases op) (auto simp: exec_def leaked_def tp_call_def world_defs split: if_splits)
qed (use assms in \<open>auto simp: exec_def leaked_def goto_def split: if_splits\<close>)

lemma leaked_steps: "steps E w es w' \<Longrightarrow> leaked c w \<Longrightarrow> leaked c w' \<and> tp_tasks (w_pool w') = tp_tasks (w_pool w)"
  by (induction rule: steps.induct) (auto dest: leaked_exec)

subsection \<open>Properties of any pool\<close>

text \<open>An environment in which nothing fails, and one in which no thread can be created.\<close>

definition good_os :: tp_env where
  "good_os = \<lparr>t_calloc = \<lambda>_. True, t_create = \<lambda>_. 0, t_init = \<lambda>_. 0\<rparr>"

definition no_threads_os :: tp_env where
  "no_threads_os = good_os\<lparr>t_create := \<lambda>_. EAGAIN\<rparr>"

definition is_new :: "tp_env \<Rightarrow> 8 word \<Rightarrow> 32 word \<Rightarrow> world" where
  "is_new E n fl = snd (m_thpool_new E n fl)"

lemma is_newI: "fst (m_thpool_new E n fl) \<Longrightarrow> m_thpool_new E n fl = (True, is_new E n fl)"
  by (cases "m_thpool_new E n fl") (simp add: is_new_def)

lemma some_theI: "x \<noteq> None \<Longrightarrow> x = Some (the x)"
  by simp

lemma steps_someI: "run_events E es w \<noteq> None \<Longrightarrow> steps E w es (the (run_events E es w))"
  by (simp add: steps_run)

text \<open>
  C23. However threads and callers interleave, each task that a call of \<^verbatim>\<open>m_thpool_add\<close> made is at
  exactly one place: run, once; in the hands of one thread; destroyed unrun by a clear or a free;
  still queued; or lost, because the node of the queue could not be allocated, which the call does
  not notice. When allocations succeed none is lost. Tasks are taken in the order in which they
  were added.
\<close>

theorem thpool_tasks_once:
  assumes "m_thpool_new E n fl = (True, w)" and "steps E w es w'"
  shows "mset (w_added w') = mset (w_run w') + mset_set (ran (hand w')) + mset (w_cleared w') + mset (w_lost w') +
      mset (tp_tasks (w_pool w')) \<and>
    distinct (w_added w') \<and> distinct (w_run w') \<and> inj_on (hand w') (dom (hand w')) \<and>
    ((\<forall>m. t_calloc E m) \<longrightarrow> w_lost w' = []) \<and>
    set (w_taken w') = set (w_run w') \<union> ran (hand w') \<and> subseq (w_taken w' @ tp_tasks (w_pool w')) (w_added w')"
proof -
  have ok: "pool_ok w'" using steps_ok [OF assms(2) m_thpool_new_ok [OF assms(1)]] .
  then have d: "distinct (w_taken w')" using queue_ok_distinct [of w'] by (simp add: pool_ok_def)
  have r: "distinct (w_run w')" "set (w_taken w') = set (w_run w') \<union> ran (hand w')" "set (w_run w') \<inter> ran (hand w') = {}"
    using ok by (simp_all add: pool_ok_def run_ok_def)
  then have "finite (ran (hand w'))" by (metis finite_Un finite_set)
  then have "mset (w_taken w') = mset (w_run w') + mset_set (ran (hand w'))"
    using d r by (simp flip: mset_set_set add: mset_set_Union)
  moreover have "w_lost w' = []" if "\<forall>m. t_calloc E m"
    using steps_kept [OF assms(2) _ m_thpool_new_kept [OF assms(1)] m_thpool_new_ok [OF assms(1)] m_thpool_new_bounded(1) [OF assms(1)]]
      that by (simp add: all_kept_def)
  ultimately show ?thesis using ok r by (simp add: pool_ok_def queue_ok_def run_ok_def distinct_map)
qed

theorem thpool_tasks_once_witness:
  "\<exists>w'. run_events good_os [Call 0 (OpAdd 5 6), Go 0 0, Go 0 0, Go 0 0, Move 4, Move 4, Move 4, Move 4, Move 4,
      Call 0 (OpAdd 8 9), Go 0 0, Go 0 0, Go 0 0] (is_new good_os 2 1) = Some w' \<and>
    List.map tk_fn (w_run w') = [5] \<and> List.map tk_fn (w_added w') = [5, 8] \<and> w_lost w' = [] \<and>
    mset (w_added w') = mset (w_run w') + mset_set (ran (hand w')) + mset (w_cleared w') + mset (tp_tasks (w_pool w'))"
proof -
  let ?es = "[Call 0 (OpAdd 5 6), Go 0 0, Go 0 0, Go 0 0, Move 4, Move 4, Move 4, Move 4, Move 4,
      Call 0 (OpAdd 8 9), Go 0 0, Go 0 0, Go 0 0]"
  have new: "m_thpool_new good_os 2 1 = (True, is_new good_os 2 1)" by (rule is_newI) code_simp
  have run: "map_option (\<lambda>w. (List.map tk_fn (w_run w), List.map tk_fn (w_added w))) (run_events good_os ?es (is_new good_os 2 1)) =
      Some ([5], [5, 8])" by code_simp
  then obtain w' where w': "run_events good_os ?es (is_new good_os 2 1) = Some w'"
    "List.map tk_fn (w_run w') = [5]" "List.map tk_fn (w_added w') = [5, 8]"
    by (auto simp del: run_events.simps)
  from thpool_tasks_once [OF new, of ?es w'] w' show ?thesis
    unfolding steps_run by (intro exI [of _ w']) (simp add: good_os_def del: run_events.simps)
qed

text \<open>The task of a call whose queue node cannot be allocated: the call returns 0.\<close>

definition no_node_os :: "nat list \<Rightarrow> tp_env" where
  "no_node_os ns = good_os\<lparr>t_calloc := \<lambda>n. n \<notin> set ns\<rparr>"

lemma thpool_add_loses:
  "map_option (\<lambda>w. (w_ret w 0, List.map tk_fn (w_added w), List.map tk_fn (w_lost w), tp_tasks (w_pool w)))
     (run_events (no_node_os [10]) [Call 0 (OpAdd 5 6), Go 0 0, Go 0 0, Go 0 0] (is_new (no_node_os [10]) 2 0)) =
   Some (0, [5], [5], [])"
  by code_simp

text \<open>Who is inside the critical section.\<close>

definition inside :: "world \<Rightarrow> owner \<Rightarrow> bool" where
  "inside w x = (case x of Thread t \<Rightarrow> (case w_workers w t of None \<Rightarrow> False | Some pc \<Rightarrow> under_lock pc)
     | Caller c \<Rightarrow> caller_under_lock (w_callers w c))"

text \<open>
  C24. At most one thread, of the pool or of its callers, is between taking the lock and giving
  it back; the list of threads never grows beyond \<^verbatim>\<open>thread_count\<close>, lazy or not; and when allocations
  succeed neither does the number of threads ever created. (A thread whose list node cannot be
  allocated is not counted by the pool, and a lazy pool then creates another one.)
\<close>

theorem thpool_exclusive:
  assumes "m_thpool_new E n fl = (True, w)" and "steps E w es w'"
  shows "(inside w' x \<longrightarrow> inside w' y \<longrightarrow> x = y) \<and> length (tp_threads (w_pool w')) \<le> unat n \<and>
    ((\<forall>m. t_calloc E m) \<longrightarrow> finite (dom (w_workers w')) \<and> card (dom (w_workers w')) \<le> unat n)"
proof (intro conjI)
  have "pool_ok w'" using steps_ok [OF assms(2) m_thpool_new_ok [OF assms(1)]] .
  then have "inside w' z \<Longrightarrow> tp_lock (w_pool w') = Some z" for z
    by (auto simp: inside_def pool_ok_def lock_ok_def split: owner.splits option.splits)
  then show "inside w' x \<longrightarrow> inside w' y \<longrightarrow> x = y" by (metis option.inject)
  have "fixed w' = fixed w \<and> threads_bounded w'"
    using steps_bounded [OF assms(2)] m_thpool_new_bounded(1) [OF assms(1)] by simp
  then have max: "tp_max (w_pool w') = n" and "threads_bounded w'"
    using m_thpool_new_bounded(2) [OF assms(1)] by (simp_all add: fixed_def)
  then show "length (tp_threads (w_pool w')) \<le> unat n" by (simp add: threads_bounded_def)
  show "(\<forall>m. t_calloc E m) \<longrightarrow> finite (dom (w_workers w')) \<and> card (dom (w_workers w')) \<le> unat n"
    using steps_kept [OF assms(2) _ m_thpool_new_kept [OF assms(1)] m_thpool_new_ok [OF assms(1)] m_thpool_new_bounded(1) [OF assms(1)]]
      max by (simp add: all_kept_def)
qed

theorem thpool_exclusive_witness:
  "\<exists>w'. run_events good_os [Call 0 (OpAdd 5 6), Go 0 0, Go 0 0, Go 0 0, Move 4] (is_new good_os 2 1) = Some w' \<and>
    inside w' (Thread 4) \<and> \<not> inside w' (Caller 0) \<and> card (dom (w_workers w')) \<le> unat (2 :: 8 word)"
proof -
  let ?es = "[Call 0 (OpAdd 5 6), Go 0 0, Go 0 0, Go 0 0, Move 4]"
  have new: "m_thpool_new good_os 2 1 = (True, is_new good_os 2 1)" by (rule is_newI) code_simp
  have "map_option (\<lambda>w. inside w (Thread 4)) (run_events good_os ?es (is_new good_os 2 1)) = Some True" by code_simp
  then obtain w' where w': "run_events good_os ?es (is_new good_os 2 1) = Some w'" "inside w' (Thread 4)"
    by (auto simp del: run_events.simps)
  from thpool_exclusive [OF new, of ?es w' "Thread 4" "Caller 0"] w' show ?thesis
    unfolding steps_run by (intro exI [of _ w']) (simp add: good_os_def del: run_events.simps)
qed

text \<open>A lazy pool for one thread, whose list nodes cannot be allocated: two threads, none in the list.\<close>

lemma thpool_extra_thread:
  "map_option (\<lambda>w. (w_workers w 4, w_workers w 9, tp_threads (w_pool w)))
     (run_events (no_node_os [5, 10]) [Call 0 (OpAdd 5 6), Go 0 0, Go 0 0, Go 0 0, Call 0 (OpAdd 5 6), Go 0 0, Go 0 0]
       (is_new (no_node_os [5, 10]) 1 1)) =
   Some (Some Enter, Some Enter, [])"
  by code_simp

text \<open>
  C25. When a lazy pool has no idle thread and \<^verbatim>\<open>pthread_create\<close> fails, \<^verbatim>\<open>m_thpool_add\<close> returns the
  error with the lock taken: whatever is done afterwards, nobody enters the critical section
  again and no queued task is ever taken.
\<close>

theorem thpool_add_lock_leak:
  assumes "m_thpool_new E n fl = (True, w0)" and "steps E w0 es w"
    and "w_callers w c = CIn (OpAdd fn arg)" and "w_alive w" and "\<And>d ts. w_callers w d \<noteq> CDestroy \<and> w_callers w d \<noteq> CJoin ts"
    and "fl AND M_THPOOL_LAZY \<noteq> 0" and "\<not> has_space (w_pool w)" and "length (tp_threads (w_pool w)) < unat n"
    and "fst (add_threads E 1 w) = ret" and "ret \<noteq> 0"
    and "exec E (Go c pick) w = Some w1" and "steps E w1 es' w2"
  shows "w_callers w1 c = CIdle \<and> w_ret w1 c = ret \<and> tp_lock (w_pool w2) = Some (Caller c) \<and>
    tp_tasks (w_pool w2) = tp_tasks (w_pool w) \<and> \<not> inside w2 x"
proof -
  have ok: "pool_ok w" using steps_ok [OF assms(2) m_thpool_new_ok [OF assms(1)]] .
  have conf: "tp_flags (w_pool w) = fl" "tp_max (w_pool w) = n" "tp_init (w_pool w) AND INITED_STARTED \<noteq> 0"
    using steps_bounded [OF assms(2)] m_thpool_new_bounded [OF assms(1)] by (auto simp: fixed_def)
  let ?v = "snd (add_threads E 1 w)"
  have "\<not> w_bad w" using assms(11) by (auto simp: exec_def split: if_splits)
  with assms(3,4,6-11) conf have w1: "w1 = return c ret ?v"
    by (auto simp: exec_def caller_step_def thpool_add_body_def Let_def case_prod_beta split: if_splits simp del: add_threads.simps)
  have lock: "tp_lock (w_pool w) = Some (Caller c)" using ok assms(3) by (auto simp: pool_ok_def lock_ok_def)
  have okv: "lock_ok ?v" "tp_lock (w_pool ?v) = Some (Caller c)" "w_callers ?v = w_callers w" "w_alive ?v"
    "tp_init (w_pool ?v) = tp_init (w_pool w)" "tp_tasks (w_pool ?v) = tp_tasks (w_pool w)"
    using add_threads_ok [OF ok] lock assms(4) add_threads_fixed [of E 1 w] add_threads_callers [of E 1 w]
    by (simp_all add: pool_ok_def fixed_def del: add_threads.simps)
  then have thread: "w_workers ?v t = Some pc \<Longrightarrow> \<not> under_lock pc"
    and caller: "d \<noteq> c \<Longrightarrow> \<not> caller_under_lock (w_callers ?v d)" for t pc d
    by (auto simp: lock_ok_def)
  have "leaked c w1"
    using okv thread caller assms(5) conf(3) unfolding w1 leaked_def return_def cgoto_def by auto
  from leaked_steps [OF assms(12) this] have "leaked c w2" "tp_tasks (w_pool w2) = tp_tasks (w_pool w)"
    using okv(6) by (simp_all add: w1 return_def cgoto_def)
  moreover from this(1) have "\<not> inside w2 x" by (auto simp: leaked_def inside_def split: owner.splits option.splits)
  ultimately show ?thesis by (simp add: leaked_def w1 return_def cgoto_def)
qed

theorem thpool_add_lock_leak_witness:
  "\<exists>w1 w2. run_events no_threads_os [Call 0 (OpAdd 5 6), Go 0 0, Go 0 0] (is_new no_threads_os 2 1) = Some w1 \<and>
     run_events no_threads_os [Call 1 (OpAdd 8 9)] w1 = Some w2 \<and> w_ret w1 0 = EAGAIN \<and>
     tp_lock (w_pool w2) = Some (Caller 0) \<and> exec no_threads_os (Go 1 0) w2 = None"
proof -
  let ?E = no_threads_os
  let ?new = "is_new ?E 2 1"
  let ?at = "the (run_events ?E [Call 0 (OpAdd 5 6), Go 0 0] ?new)"
  let ?after = "the (exec ?E (Go 0 0) ?at)"
  let ?blocked = "the (run_events ?E [Call 1 (OpAdd 8 9)] ?after)"
  have new: "m_thpool_new ?E 2 1 = (True, ?new)" by (rule is_newI) code_simp
  have s: "steps ?E ?new [Call 0 (OpAdd 5 6), Go 0 0] ?at" by (rule steps_someI) code_simp
  have s1: "exec ?E (Go 0 0) ?at = Some ?after" by (rule some_theI) code_simp
  have s2: "steps ?E ?after [Call 1 (OpAdd 8 9)] ?blocked" by (rule steps_someI) code_simp
  have callers: "w_callers ?at = (\<lambda>_. CIdle)(0 := CIn (OpAdd 5 6))"
    by (simp add: is_new_def m_thpool_new_def thpool_init_def thpool_start_def calloc_def no_threads_os_def good_os_def
        no_world_def inited_def exec_def tp_call_def M_THREADS_ASSERT_def caller_step_def world_defs
        INITED_STARTED_def INITED_THREADS_def INITED_TASKS_def INITED_MUT_def INITED_COND_def M_THPOOL_LAZY_def)
  have c: "w_callers ?at 0 = CIn (OpAdd 5 6)" "\<And>d ts. w_callers ?at d \<noteq> CDestroy \<and> w_callers ?at d \<noteq> CJoin ts"
    unfolding callers by simp_all
  have conf: "w_alive ?at" "(1 :: 32 word) AND M_THPOOL_LAZY \<noteq> 0" "\<not> has_space (w_pool ?at)"
    "length (tp_threads (w_pool ?at)) < unat (2 :: 8 word)" "fst (add_threads ?E 1 ?at) = EAGAIN"
    by code_simp+
  have "w_callers ?after 0 = CIdle \<and> w_ret ?after 0 = EAGAIN \<and> tp_lock (w_pool ?blocked) = Some (Caller 0) \<and>
      tp_tasks (w_pool ?blocked) = tp_tasks (w_pool ?at) \<and> \<not> inside ?blocked (Caller 1)"
    by (rule thpool_add_lock_leak [OF new s c(1) conf(1) c(2) conf(2-5) _ s1 s2]) simp
  moreover have "exec ?E (Go 1 0) ?blocked = None" by code_simp
  moreover have "run_events ?E [Call 0 (OpAdd 5 6), Go 0 0, Go 0 0] ?new = Some ?after"
    using run_events_snoc [OF s [unfolded steps_run] s1] unfolding append_Cons append_Nil .
  ultimately show ?thesis using s2 unfolding steps_run by blast
qed

end
