(* ===== verification/ThPoolOwner.thy ===== *)
theory ThPoolOwner
  imports ThPoolFacts
begin

text \<open>
  A pool with one caller, whose threads are joined and whose allocations succeed: what it may
  rely on when it frees the pool, and that a queued task finds a thread awake.
\<close>

subsection \<open>The invariant\<close>

definition freeing :: "cpc \<Rightarrow> bool" where
  "freeing pc = (case pc of CFreeOut \<Rightarrow> True | CJoin ts \<Rightarrow> True | CDestroy \<Rightarrow> True | _ \<Rightarrow> False)"

lemma freeing_simps [simp]:
  "freeing CIdle = False" "freeing (CLock op) = False" "freeing (CIn op) = False" "freeing (COut r) = False"
  "freeing CFreeOut" "freeing (CJoin ts)" "freeing CDestroy"
  by (simp_all add: freeing_def)

text \<open>The lock belongs to someone under it, or was leaked by a caller that is back or comes again.\<close>

definition lock_back :: "world \<Rightarrow> bool" where
  "lock_back w \<longleftrightarrow>
     (\<forall>t. tp_lock (w_pool w) = Some (Thread t) \<longrightarrow> (\<exists>pc. w_workers w t = Some pc \<and> under_lock pc)) \<and>
     (\<forall>c. tp_lock (w_pool w) = Some (Caller c) \<longrightarrow>
        caller_under_lock (w_callers w c) \<or> w_callers w c = CIdle \<or> (\<exists>op. w_callers w c = CLock op))"

definition conf_ok :: "world \<Rightarrow> bool" where
  "conf_ok w \<longleftrightarrow> tp_flags (w_pool w) AND M_THPOOL_DETACHED = 0 \<and> tp_init (w_pool w) AND INITED_STARTED \<noteq> 0 \<and>
     0 < unat (tp_max (w_pool w))"

definition sole :: "world \<Rightarrow> bool" where
  "sole w \<longleftrightarrow> (\<forall>c. c \<noteq> 0 \<longrightarrow> w_callers w c = CIdle \<and> tp_lock (w_pool w) \<noteq> Some (Caller c))"

definition free_ok :: "world \<Rightarrow> bool" where
  "free_ok w \<longleftrightarrow>
     (if w_alive w then
        dom (w_workers w) = set (tp_threads (w_pool w)) \<and>
        (tp_shutdown (w_pool w) \<noteq> SHUTDOWN_NO \<longleftrightarrow> freeing (w_callers w 0)) \<and>
        (\<forall>t. w_workers w t = Some Leave \<or> w_workers w t = Some Done \<longrightarrow>
           tp_shutdown (w_pool w) = SHUTDOWN_WAITCURR \<or> tp_shutdown (w_pool w) = SHUTDOWN_WAITALL \<and> tp_tasks (w_pool w) = []) \<and>
        (\<forall>t pc. w_workers w t = Some pc \<and> pc \<noteq> Done \<longrightarrow>
           w_callers w 0 \<noteq> CDestroy \<and> (\<forall>ts. w_callers w 0 = CJoin ts \<longrightarrow> t \<in> set ts))
      else w_callers w 0 = CIdle \<and> (\<forall>t pc. w_workers w t = Some pc \<longrightarrow> pc = Done))"

definition awake :: "world \<Rightarrow> bool" where
  "awake w \<longleftrightarrow> (\<exists>t pc. w_workers w t = Some pc \<and> pc \<noteq> Waiting \<and> pc \<noteq> Leave \<and> pc \<noteq> Done)"

definition awake_ok :: "world \<Rightarrow> bool" where
  "awake_ok w \<longleftrightarrow> (w_alive w \<longrightarrow>
     (tp_flags (w_pool w) AND M_THPOOL_LAZY = 0 \<or> tp_tasks (w_pool w) \<noteq> [] \<longrightarrow> tp_threads (w_pool w) \<noteq> []) \<and>
     (tp_tasks (w_pool w) \<noteq> [] \<and> tp_shutdown (w_pool w) = SHUTDOWN_NO \<longrightarrow> awake w))"

definition owned :: "world \<Rightarrow> bool" where
  "owned w \<longleftrightarrow> \<not> w_bad w \<and> conf_ok w \<and> sole w \<and> lock_back w \<and> free_ok w \<and> awake_ok w"

definition owner_event :: "event \<Rightarrow> bool" where
  "owner_event e = (case e of Call c op \<Rightarrow> c = 0 | Go c pick \<Rightarrow> c = 0 | _ \<Rightarrow> True)"

subsection \<open>Threads\<close>

lemma thread_lock_back:
  assumes "lock_back w" and "lock_ok w" and pc: "w_workers w t = Some pc" and "thread_step t pc w = Some w'"
  shows "lock_back w'"
proof (cases "under_lock pc")
  case True
  then have "tp_lock (w_pool w) = Some (Thread t)" using assms(2) pc by (simp add: lock_ok_def)
  with True assms show ?thesis
    by (cases pc) (auto simp: lock_back_def thread_step_def world_defs split: if_splits list.splits)
next
  case False
  with assms show ?thesis
    by (cases pc) (force simp: lock_back_def thread_step_def world_defs split: if_splits)+
qed

lemma free_ok_move:
  assumes "free_ok w" and "w_alive w" and pc: "w_workers w t = Some pc" and "pc \<noteq> Done"
    and w': "w_workers w' = (w_workers w)(t \<mapsto> pc')" "w_callers w' = w_callers w" "w_alive w'"
      "tp_threads (w_pool w') = tp_threads (w_pool w)" "tp_shutdown (w_pool w') = tp_shutdown (w_pool w)"
    and "tp_tasks (w_pool w) = [] \<Longrightarrow> tp_tasks (w_pool w') = []"
    and "pc' = Leave \<or> pc' = Done \<Longrightarrow>
      tp_shutdown (w_pool w) = SHUTDOWN_WAITCURR \<or> tp_shutdown (w_pool w) = SHUTDOWN_WAITALL \<and> tp_tasks (w_pool w) = []"
  shows "free_ok w'"
proof -
  have "dom (w_workers w') = dom (w_workers w)" using pc w'(1) by auto
  moreover have "w_callers w 0 \<noteq> CDestroy" "w_callers w 0 = CJoin ts \<Longrightarrow> t \<in> set ts" for ts
    using assms(1-4) by (auto simp: free_ok_def)
  ultimately show ?thesis using assms by (auto simp: free_ok_def)
qed

lemma thread_free_ok:
  assumes "free_ok w" and "w_alive w" and pc: "w_workers w t = Some pc" and step: "thread_step t pc w = Some w'"
  shows "free_ok w'"
proof -
  have "pc \<noteq> Done" using step by (auto simp: thread_step_def)
  moreover have "w_workers w' = (w_workers w)(t \<mapsto> the (w_workers w' t))"
    and "tp_tasks (w_pool w) = [] \<Longrightarrow> tp_tasks (w_pool w') = []"
    and "the (w_workers w' t) = Leave \<or> the (w_workers w' t) = Done \<Longrightarrow> pc = Leave \<or>
      tp_shutdown (w_pool w) = SHUTDOWN_WAITCURR \<or> tp_shutdown (w_pool w) = SHUTDOWN_WAITALL \<and> tp_tasks (w_pool w) = []"
    using step
    by (cases pc; cases "tp_shutdown (w_pool w)"; auto simp: thread_step_def world_defs split: if_splits list.splits)+
  moreover have "pc = Leave \<Longrightarrow>
      tp_shutdown (w_pool w) = SHUTDOWN_WAITCURR \<or> tp_shutdown (w_pool w) = SHUTDOWN_WAITALL \<and> tp_tasks (w_pool w) = []"
    using assms(1,2) pc by (auto simp: free_ok_def)
  ultimately show ?thesis
    using assms(2) thread_step_fields [OF step] by (intro free_ok_move [OF assms(1,2) pc]) auto
qed

lemma awakeI: "w_workers w t = Some pc \<Longrightarrow> pc \<noteq> Waiting \<Longrightarrow> pc \<noteq> Leave \<Longrightarrow> pc \<noteq> Done \<Longrightarrow> awake w"
  by (auto simp: awake_def)

lemma thread_awake_ok:
  assumes "awake_ok w" and free: "free_ok w" and "w_alive w" and pc: "w_workers w t = Some pc" and "thread_step t pc w = Some w'"
  shows "awake_ok w'"
proof (cases pc)
  case Leave
  then have "tp_shutdown (w_pool w) \<noteq> SHUTDOWN_NO" using free pc assms(3) by (auto simp: free_ok_def)
  with Leave assms show ?thesis by (auto simp: awake_ok_def thread_step_def world_defs)
qed (use assms in \<open>auto simp: awake_ok_def thread_step_def world_defs intro: awakeI [of _ t] split: if_splits list.splits\<close>)

lemma thread_owned:
  assumes "owned w" and "pool_ok w" and "w_alive w" and "w_workers w t = Some pc" and "thread_step t pc w = Some w'"
  shows "owned w'"
proof -
  note f = thread_step_fields [OF assms(5)]
  have "conf_ok w'" using assms(1) f(1) by (simp add: owned_def conf_ok_def fixed_def)
  moreover have "tp_lock (w_pool w') \<in> {tp_lock (w_pool w), None, Some (Thread t)}"
    using assms(5) by (cases pc) (auto simp: thread_step_def world_defs split: if_splits list.splits)
  then have "sole w'" using assms(1) f(3) by (auto simp: owned_def sole_def)
  ultimately show ?thesis
    using assms f(5) thread_lock_back [OF _ _ assms(4,5)] thread_free_ok [OF _ assms(3-5)] thread_awake_ok [OF _ _ assms(3-5)]
    by (simp add: owned_def pool_ok_def)
qed

lemma wake_owned:
  assumes "owned w" and "w_alive w" and t: "w_workers w t = Some Waiting"
  shows "owned (goto t Woken w)"
proof -
  have "lock_back (goto t Woken w)"
    using assms by (fastforce simp: owned_def lock_back_def goto_def)
  moreover have "free_ok (goto t Woken w)"
    by (rule free_ok_move [of w t Waiting _ Woken]) (use assms in \<open>auto simp: owned_def goto_def\<close>)
  moreover have "awake_ok (goto t Woken w)"
    using assms awakeI [of "goto t Woken w" t Woken] by (auto simp: owned_def awake_ok_def goto_def)
  ultimately show ?thesis using assms(1) by (simp add: owned_def conf_ok_def sole_def goto_def)
qed

subsection \<open>The caller\<close>

declare add_threads.simps(2) [simp del]

lemma owned_grown:
  assumes "owned w" and "w_alive w" and "\<not> freeing (w_callers w 0)" and "grown w w'"
    and "fixed w' = fixed w" "tp_lock (w_pool w') = tp_lock (w_pool w)" "tp_tasks (w_pool w') = tp_tasks (w_pool w)"
      "tp_shutdown (w_pool w') = tp_shutdown (w_pool w)" "w_alive w' = w_alive w"
  shows "owned w'"
proof -
  have no: "tp_shutdown (w_pool w) = SHUTDOWN_NO" using assms(1-3) by (auto simp: owned_def free_ok_def)
  have "awake w \<Longrightarrow> awake w'" using assms(4) unfolding awake_def grown_def by metis
  moreover have "tp_threads (w_pool w) \<noteq> [] \<Longrightarrow> tp_threads (w_pool w') \<noteq> []"
  proof -
    assume "tp_threads (w_pool w) \<noteq> []"
    moreover have "dom (w_workers w) = set (tp_threads (w_pool w))" using assms(1,2) by (simp add: owned_def free_ok_def)
    ultimately obtain t pc where "w_workers w t = Some pc" by (metis domD last_in_set)
    then have "t \<in> set (tp_threads (w_pool w'))" using assms(4) unfolding grown_def by blast
    then show ?thesis by auto
  qed
  ultimately have "awake_ok w'" using assms by (auto simp: owned_def awake_ok_def fixed_def)
  moreover have "free_ok w'"
  proof -
    have "\<not> (w_workers w' t = Some Leave \<or> w_workers w' t = Some Done)" for t
      using assms(1,2,4) no by (auto simp: owned_def free_ok_def grown_def dest!: spec [of _ t])
    moreover have "freeing (w_callers w 0) = False" using assms(3) by simp
    then have "w_callers w 0 \<noteq> CDestroy" "w_callers w 0 \<noteq> CJoin ts" for ts by auto
    ultimately show ?thesis using assms no by (simp add: free_ok_def grown_def)
  qed
  moreover have "lock_back w'"
    using assms(1,4,6) by (auto simp: owned_def lock_back_def grown_def)
  ultimately show ?thesis using assms by (auto simp: owned_def conf_ok_def sole_def fixed_def grown_def)
qed

lemma waiters_empty: "waiters w = [] \<Longrightarrow> w_workers w t = Some Waiting \<Longrightarrow> \<not> t \<le> w_next w"
  by (auto simp: waiters_def filter_empty_conv simp del: upt_Suc)

lemma signal_awake:
  assumes "signal pick w = Some w'" and "owned w" and "lock_ok w" and "w_alive w" and "\<not> freeing (w_callers w 0)"
    and "tp_threads (w_pool w) \<noteq> []"
  shows "awake w'"
proof (cases "w_workers w pick = Some Waiting")
  case True
  with assms(1) show ?thesis by (intro awakeI [of _ pick Woken]) (auto simp: signal_def goto_def)
next
  case False
  with assms(1) have w': "w' = w" "waiters w = []" by (auto simp: signal_def split: if_splits)
  obtain t pc where t: "w_workers w t = Some pc"
    using assms(2,4,6) unfolding owned_def free_ok_def by (metis domD last_in_set)
  have "pc \<noteq> Leave" "pc \<noteq> Done" using assms(2,4,5) t by (auto simp: owned_def free_ok_def)
  moreover have "pc \<noteq> Waiting" using waiters_empty [OF w'(2)] t assms(3) by (auto simp: lock_ok_def)
  ultimately show ?thesis unfolding w'(1) using t by (intro awakeI)
qed

lemma signal_owned:
  assumes "signal pick w = Some w'" and "owned w" and "w_alive w"
  shows "owned w'"
  using assms(1) by (cases rule: signal_cases) (use assms(2,3) wake_owned in auto)

text \<open>A caller that keeps the lock, or that neither takes nor returns it, and is not freeing.\<close>

lemma cgoto_owned:
  assumes "owned w" and "w_alive w" and "\<not> freeing (w_callers w 0)" and "\<not> freeing pc'"
    and "caller_under_lock pc' \<or> \<not> caller_under_lock (w_callers w 0) \<and> (pc' = CIdle \<or> (\<exists>op. pc' = CLock op))"
  shows "owned (cgoto 0 pc' w)"
proof -
  have "pc' \<noteq> CDestroy" "pc' \<noteq> CJoin ts" for ts using assms(4) by auto
  then have "free_ok (cgoto 0 pc' w)" using assms(1-4) by (auto simp: owned_def free_ok_def cgoto_def)
  moreover have "lock_back (cgoto 0 pc' w)" using assms(1,5) by (auto simp: owned_def lock_back_def cgoto_def)
  ultimately show ?thesis
    using assms(1) by (auto simp: owned_def conf_ok_def sole_def awake_ok_def awake_def cgoto_def)
qed

lemma enqueue_task_owned:
  assumes "owned w" and "pool_ok w" and "w_alive w" and c: "caller_under_lock (w_callers w 0)" "\<not> freeing (w_callers w 0)"
    and "tp_threads (w_pool w) \<noteq> []" and calloc: "\<And>n. t_calloc E n"
    and "enqueue_task E 0 pick fn arg w = Some w'"
  shows "owned w'"
proof -
  let ?w2 = "w\<lparr>w_next := Suc (Suc (w_next w))\<rparr>"
  let ?k = "\<lparr>tk_at = Suc (w_next w), tk_fn = fn, tk_arg = arg\<rparr>"
  let ?w3 = "(upd_pool (\<lambda>p. p\<lparr>tp_tasks := tp_tasks p @ [?k]\<rparr>) ?w2)\<lparr>w_added := w_added ?w2 @ [?k]\<rparr>"
  obtain w4 where sig: "signal pick ?w3 = Some w4" and w': "w' = cgoto 0 (COut 0) w4"
    using assms(8) calloc by (auto simp: enqueue_task_def calloc_def Let_def)
  have no: "tp_shutdown (w_pool w) = SHUTDOWN_NO" using assms(1,3) c by (auto simp: owned_def free_ok_def)
  have sig2: "signal pick ?w2 = Some (w4\<lparr>w_pool := w_pool w, w_added := w_added w\<rparr>)"
    using sig by (auto simp: signal_def waiters_def goto_def upd_pool_def split: if_splits)
  have o2: "owned ?w2"
    using assms(1) by (auto simp: owned_def conf_ok_def sole_def lock_back_def free_ok_def awake_ok_def awake_def)
  have "lock_ok ?w2" using pool_ok_next [OF _ assms(2), of "Suc (Suc (w_next w))"] by (simp add: pool_ok_def)
  with sig2 o2 have aw: "awake (w4\<lparr>w_pool := w_pool w, w_added := w_added w\<rparr>)"
    by (rule signal_awake) (use assms c in auto)
  have o4: "owned (w4\<lparr>w_pool := w_pool w, w_added := w_added w\<rparr>)" using sig2 o2 by (rule signal_owned) (use assms in simp)
  have w4: "w_pool w4 = (w_pool w)\<lparr>tp_tasks := tp_tasks (w_pool w) @ [?k]\<rparr>" "w_alive w4" "w_callers w4 = w_callers w"
    using signal_fields [OF sig] assms(3) by (simp_all add: upd_pool_def)
  have "free_ok w4" using o4 w4 no c by (auto simp: owned_def free_ok_def)
  moreover have "awake_ok w4" using o4 w4 aw assms(6) by (auto simp: awake_ok_def awake_def)
  ultimately have "owned w4" using o4 w4(1) by (auto simp: owned_def conf_ok_def sole_def lock_back_def)
  then show ?thesis unfolding w' by (rule cgoto_owned) (use w4 c in auto)
qed

lemma thpool_add_body_owned:
  assumes "owned w" and "pool_ok w" and "w_alive w" and c: "w_callers w 0 = CIn (OpAdd fn arg)"
    and calloc: "\<And>n. t_calloc E n" and "thpool_add_body E 0 pick fn arg w = Some w'"
  shows "owned w'"
proof -
  let ?w1 = "snd (add_threads E 1 w)"
  have grown: "grown w ?w1 \<and> (fst (add_threads E 1 w) = 0 \<and> (0::nat) < 1 \<longrightarrow> tp_threads (w_pool ?w1) \<noteq> [])"
    by (rule add_threads_grown) (use assms in \<open>auto simp: owned_def free_ok_def intro: pool_ok_fresh\<close>)
  then have w1: "owned ?w1" using assms(1,3) c by (intro owned_grown [of w ?w1]) auto
  from assms(6) show ?thesis
  proof (cases rule: thpool_add_body_cases)
    case enough
    have "tp_threads (w_pool w) \<noteq> []"
      using enough(2) assms(1,3) by (auto simp: owned_def awake_ok_def conf_ok_def has_space_def)
    from enqueue_task_owned [OF assms(1-3) _ _ this calloc enough(1)] c show ?thesis by simp
  next
    case (failed ret v)
    then have "owned v" "w_callers v 0 = CIn (OpAdd fn arg)" "w_alive v"
      using w1 grown c assms(3) add_threads_fixed(5) [of E 1 w] by (auto simp: grown_def)
    then have "lock_back (return 0 ret v)"
      by (auto simp: owned_def lock_back_def return_def cgoto_def)
    moreover have "free_ok (return 0 ret v)"
      using \<open>owned v\<close> \<open>w_callers v 0 = CIn (OpAdd fn arg)\<close> \<open>w_alive v\<close> by (auto simp: owned_def free_ok_def return_def cgoto_def)
    ultimately show ?thesis using \<open>owned v\<close> failed(3)
      by (auto simp: owned_def conf_ok_def sole_def awake_ok_def awake_def return_def cgoto_def)
  next
    case (grown v)
    have v: "owned v" "pool_ok v" "w_alive v" "w_callers v 0 = CIn (OpAdd fn arg)" "tp_threads (w_pool v) \<noteq> []"
      using w1 \<open>grown w ?w1 \<and> _\<close> grown(1) c assms(3) add_threads_fixed(5) [of E 1 w] add_threads_ok [OF assms(2), of E 1]
      by (auto simp: grown_def)
    from enqueue_task_owned [OF v(1-3) _ _ v(5) calloc grown(2)] v(4) show ?thesis by simp
  qed
qed

lemma owned_caller:
  assumes "owned w" and "w_alive w" and nf: "\<not> freeing (w_callers w 0)" "\<not> freeing pc'"
    and w': "w_workers w' = w_workers w" "w_alive w'" "w_bad w' = w_bad w" "w_callers w' = (w_callers w)(0 := pc')"
      "fixed w' = fixed w" "tp_threads (w_pool w') = tp_threads (w_pool w)" "tp_shutdown (w_pool w') = tp_shutdown (w_pool w)"
      "tp_tasks (w_pool w') = tp_tasks (w_pool w) \<or> tp_tasks (w_pool w') = []"
    and lock: "tp_lock (w_pool w') = None \<or> tp_lock (w_pool w') = Some (Caller 0) \<and> caller_under_lock pc' \<or>
      tp_lock (w_pool w') = tp_lock (w_pool w) \<and> caller_under_lock pc'"
  shows "owned w'"
proof -
  have "pc' \<noteq> CDestroy" "pc' \<noteq> CJoin ts" for ts using nf(2) by auto
  then have "free_ok w'" using assms(1,2) nf w' unfolding owned_def free_ok_def by auto
  moreover have "lock_back w'" using assms(1) w'(1,4) lock unfolding owned_def lock_back_def by auto metis
  moreover have "awake_ok w'" using assms(1,2) w' unfolding owned_def awake_ok_def awake_def fixed_def by auto
  moreover have "sole w'" using assms(1) w'(4) lock unfolding owned_def sole_def by auto
  ultimately show ?thesis using assms(1) w'(3,5) by (simp add: owned_def conf_ok_def fixed_def)
qed

lemma lock_owned:
  assumes "owned w" and "w_alive w" and "w_callers w 0 = CLock op" and "tp_lock (w_pool w) = None"
  shows "owned (cgoto 0 (CIn op) (set_lock (Some (Caller 0)) w))"
  by (rule owned_caller [OF assms(1,2), of "CIn op"]) (use assms in \<open>simp_all add: world_defs fixed_def\<close>)

lemma unlock_owned:
  assumes "owned w" and "w_alive w" and "w_callers w 0 = COut r"
  shows "owned (return 0 r (set_lock None w))"
  by (rule owned_caller [OF assms(1,2), of CIdle]) (use assms in \<open>simp_all add: world_defs fixed_def\<close>)

lemma clear_owned:
  assumes "owned w" and "w_alive w" and "w_callers w 0 = CIn OpClear" and "thpool_clear_body 0 w = Some w'"
  shows "owned w'"
proof (cases "tp_tasks (w_pool w) = []")
  case True
  with assms(4) have "w' = cgoto 0 (COut (- EINVAL)) w" by (simp add: thpool_clear_body_def)
  then show ?thesis by (intro owned_caller [OF assms(1,2), of "COut (- EINVAL)"]) (use assms in \<open>simp_all add: world_defs fixed_def\<close>)
next
  case False
  with assms(4) have "w' = cgoto 0 (COut 0) ((upd_pool (\<lambda>p. p\<lparr>tp_tasks := []\<rparr>) w)\<lparr>w_cleared := w_cleared w @ tp_tasks (w_pool w)\<rparr>)"
    by (simp add: thpool_clear_body_def)
  then show ?thesis by (intro owned_caller [OF assms(1,2), of "COut 0"]) (use assms in \<open>simp_all add: world_defs fixed_def\<close>)
qed

lemma shutdown_owned:
  assumes "owned w" and "w_alive w" and "w_callers w 0 = CIn (OpFree wait_all)" and "wait_pool_body 0 wait_all w = Some w'"
  shows "owned w'"
proof -
  have w': "w_workers w' t = (if w_workers w t = Some Waiting then Some Woken else w_workers w t)" for t
    using assms(4) by (auto simp: wait_pool_body_def broadcast_def world_defs)
  have fields: "w_pool w' = (w_pool w)\<lparr>tp_shutdown := (if wait_all then SHUTDOWN_WAITALL else SHUTDOWN_WAITCURR)\<rparr>"
    "w_callers w' = (w_callers w)(0 := CFreeOut)" "w_alive w'" "\<not> w_bad w'"
    using assms by (auto simp: wait_pool_body_def broadcast_def world_defs owned_def)
  have no: "tp_shutdown (w_pool w) = SHUTDOWN_NO" using assms(1-3) by (auto simp: owned_def free_ok_def)
  have "dom (w_workers w') = dom (w_workers w)" using w' by (auto simp: dom_def)
  moreover have "w_workers w t \<noteq> Some Leave \<and> w_workers w t \<noteq> Some Done" for t
    using assms(1,2) no by (auto simp: owned_def free_ok_def)
  ultimately have "free_ok w'" using assms(1,2) fields w' by (auto simp: owned_def free_ok_def)
  moreover have "lock_back w'"
    using assms(1,3) fields w' by (fastforce simp: owned_def lock_back_def)
  moreover have "awake_ok w'" using assms(1,2) fields by (auto simp: owned_def awake_ok_def)
  ultimately show ?thesis using assms(1) fields by (auto simp: owned_def conf_ok_def sole_def)
qed

lemma join_owned:
  assumes "owned w" and "w_alive w" and c: "w_callers w 0 = CFreeOut" and calloc: "\<And>n. t_calloc E n"
  shows "owned (wait_pool_join E 0 (set_lock None w))"
proof -
  have listed: "dom (w_workers w) = set (tp_threads (w_pool w))"
    using assms(1,2) by (auto simp: owned_def free_ok_def)
  have "owned (cgoto 0 pc' ((set_lock None w)\<lparr>w_next := n\<rparr>))"
    if pc': "pc' = CDestroy \<and> tp_threads (w_pool w) = [] \<or> pc' = CJoin (tp_threads (w_pool w))" for pc' n
  proof -
    let ?w = "cgoto 0 pc' ((set_lock None w)\<lparr>w_next := n\<rparr>)"
    have "freeing pc'" using pc' by auto
    moreover have "w_workers w t = Some pc \<Longrightarrow> pc' \<noteq> CDestroy \<and> (\<forall>ts. pc' = CJoin ts \<longrightarrow> t \<in> set ts)" for t pc
      using listed pc' by (auto dest: domI)
    ultimately have "free_ok ?w" using assms(1,2) c unfolding owned_def free_ok_def by (auto simp: world_defs)
    then show ?thesis
      using assms(1,2) by (simp add: owned_def conf_ok_def sole_def lock_back_def awake_ok_def awake_def world_defs)
  qed
  from this [of CDestroy "w_next w"] this [of "CJoin (tp_threads (w_pool w))" "Suc (w_next w)"] assms(1) calloc show ?thesis
    by (auto simp: wait_pool_join_def calloc_def Let_def owned_def conf_ok_def set_lock_def upd_pool_def)
qed

lemma joined_owned:
  assumes "owned w" and "w_alive w" and "w_callers w 0 = CJoin (t # ts)" and "w_workers w t = Some Done"
  shows "owned (cgoto 0 (CJoin ts) w)"
proof -
  have "w_workers w t' = Some pc \<Longrightarrow> pc \<noteq> Done \<Longrightarrow> t' \<in> set ts" for t' pc
    using assms by (auto simp: owned_def free_ok_def)
  then have "free_ok (cgoto 0 (CJoin ts) w)" using assms unfolding owned_def free_ok_def by (auto simp: cgoto_def)
  moreover have "lock_back (cgoto 0 (CJoin ts) w)"
    using assms(1,3) by (auto simp: owned_def lock_back_def cgoto_def)
  ultimately show ?thesis
    using assms by (simp add: owned_def conf_ok_def sole_def awake_ok_def awake_def cgoto_def)
qed

lemma all_joined_owned:
  assumes "owned w" and "w_alive w" and "w_callers w 0 = CJoin []"
  shows "owned (cgoto 0 CDestroy w)"
proof -
  have "w_workers w t' = Some pc \<Longrightarrow> pc = Done" for t' pc
    using assms by (auto simp: owned_def free_ok_def)
  then have "free_ok (cgoto 0 CDestroy w)" using assms unfolding owned_def free_ok_def by (auto simp: cgoto_def)
  moreover have "lock_back (cgoto 0 CDestroy w)"
    using assms(1,3) by (auto simp: owned_def lock_back_def cgoto_def)
  ultimately show ?thesis
    using assms by (simp add: owned_def conf_ok_def sole_def awake_ok_def awake_def cgoto_def)
qed

text \<open>When the pool is destroyed its threads are gone, so that nobody waits and nobody has the lock.\<close>

lemma destroy_quiet:
  assumes "owned w" and "w_alive w" and "w_callers w 0 = CDestroy"
  shows "waiters w = []" "tp_lock (w_pool w) = None" "\<And>t pc. w_workers w t = Some pc \<Longrightarrow> pc = Done"
proof -
  show gone: "w_workers w t = Some pc \<Longrightarrow> pc = Done" for t pc
    using assms by (auto simp: owned_def free_ok_def)
  then show "waiters w = []" by (fastforce simp: waiters_def filter_empty_conv simp del: upt_Suc)
  show "tp_lock (w_pool w) = None"
  proof (cases "tp_lock (w_pool w)")
    case (Some x)
    have lb: "lock_back w" "sole w" using assms(1) by (simp_all add: owned_def)
    show ?thesis
    proof (cases x)
      case (Thread t)
      with Some lb(1) obtain pc where "w_workers w t = Some pc" "under_lock pc" by (auto simp: lock_back_def)
      with gone [of t pc] show ?thesis by simp
    next
      case (Caller c)
      then have "c = 0" using Some lb(2) unfolding sole_def by blast
      then have "caller_under_lock (w_callers w 0) \<or> w_callers w 0 = CIdle \<or> (\<exists>op. w_callers w 0 = CLock op)"
        using Some Caller lb(1) unfolding lock_back_def by blast
      with assms(3) show ?thesis by simp
    qed
  qed simp
qed

lemma destroy_owned:
  assumes "owned w" and "w_alive w" and "w_callers w 0 = CDestroy"
  shows "owned (return 0 0 (thpool_destroy w))"
proof -
  let ?w = "return 0 0 (thpool_destroy w)"
  have fields: "w_workers ?w = w_workers w" "w_callers ?w = (w_callers w)(0 := CIdle)" "\<not> w_alive ?w" "\<not> w_bad ?w"
    "fixed ?w = fixed w" "tp_lock (w_pool ?w) = None"
    using destroy_quiet(1,2) [OF assms] assms(1)
    by (simp_all add: thpool_destroy_def return_def cgoto_def upd_pool_def fixed_def owned_def)
  then have "free_ok ?w" using destroy_quiet(3) [OF assms] by (simp add: free_ok_def)
  with fields assms(1) show ?thesis by (simp add: owned_def conf_ok_def sole_def lock_back_def awake_ok_def fixed_def)
qed

lemma caller_owned:
  assumes "owned w" and "pool_ok w" and "w_alive w" and calloc: "\<And>n. t_calloc E n"
    and step: "caller_step E 0 pick (w_callers w 0) w = Some w'"
  shows "owned w'"
proof (cases "w_callers w 0")
  case (CIn op)
  show ?thesis
  proof (cases op)
    case (OpAdd fn arg)
    with CIn step thpool_add_body_owned [OF assms(1-3) _ calloc] show ?thesis by (simp add: caller_step_def)
  next
    case OpLength
    with CIn step assms(1,3) show ?thesis by (auto simp: caller_step_def thpool_length_body_def intro: cgoto_owned)
  next
    case OpClear
    with CIn step clear_owned [OF assms(1,3)] show ?thesis by (simp add: caller_step_def)
  next
    case (OpFree wait_all)
    with CIn step shutdown_owned [OF assms(1,3)] show ?thesis by (simp add: caller_step_def)
  qed
next
  case (CLock op)
  with step lock_owned [OF assms(1,3)] show ?thesis by (simp add: caller_step_def split: if_splits)
next
  case (COut r)
  with step unlock_owned [OF assms(1,3)] show ?thesis by (simp add: caller_step_def)
next
  case CFreeOut
  with step join_owned [OF assms(1,3) _ calloc] show ?thesis by (simp add: caller_step_def)
next
  case (CJoin ts)
  with step joined_owned [OF assms(1,3)] all_joined_owned [OF assms(1,3)] show ?thesis
    by (cases ts) (auto simp: caller_step_def split: if_splits)
next
  case CDestroy
  with step destroy_owned [OF assms(1,3)] show ?thesis by (simp add: caller_step_def)
qed (use step in \<open>simp add: caller_step_def\<close>)

lemma call_owned:
  assumes "owned w" and "w_callers w 0 = CIdle"
  shows "owned (tp_call 0 op w)"
proof (cases "w_alive w")
  case True
  have "owned (return 0 r w)" for r
    using assms True
    by (auto simp: owned_def conf_ok_def sole_def lock_back_def free_ok_def awake_ok_def awake_def return_def cgoto_def)
  moreover have "owned (cgoto 0 (CLock op) w)" by (rule cgoto_owned) (use assms True in auto)
  ultimately show ?thesis
    using True assms(1) by (cases op) (auto simp: tp_call_def owned_def conf_ok_def)
next
  case False
  with assms show ?thesis
    by (auto simp: tp_call_def owned_def conf_ok_def sole_def lock_back_def free_ok_def awake_ok_def return_def cgoto_def)
qed

lemma exec_owned:
  assumes "owned w" and "pool_ok w" and calloc: "\<And>n. t_calloc E n" and "owner_event e" and step: "exec E e w = Some w'"
  shows "owned w'"
proof (cases e)
  case (Move t)
  with step obtain pc where pc: "w_workers w t = Some pc"
    and w': "w' = (if uses_pool pc \<and> \<not> w_alive w then bad w else the (thread_step t pc w))"
    and some: "uses_pool pc \<and> \<not> w_alive w \<or> thread_step t pc w \<noteq> None"
    by (auto simp: exec_def split: if_splits option.splits)
  show ?thesis
  proof (cases "w_alive w")
    case True
    with w' some thread_owned [OF assms(1,2) True pc] show ?thesis by auto
  next
    case False
    then have "pc = Done" using assms(1) pc by (auto simp: owned_def free_ok_def)
    with some show ?thesis by (simp add: thread_step_def)
  qed
next
  case (Spurious t)
  with step have "w_workers w t = Some Waiting" "w' = goto t Woken w" by (auto simp: exec_def split: if_splits)
  moreover from this have "w_alive w" using assms(1) by (fastforce simp: owned_def free_ok_def split: if_splits)
  ultimately show ?thesis using wake_owned [OF assms(1)] by simp
next
  case (Call c op)
  with assms(4) step call_owned [OF assms(1)] show ?thesis by (auto simp: owner_event_def exec_def split: if_splits)
next
  case (Go c pick)
  then have "c = 0" using assms(4) by (simp add: owner_event_def)
  with Go step have idle: "w_callers w 0 \<noteq> CIdle" by (auto simp: exec_def caller_step_def split: if_splits)
  then have "w_alive w" using assms(1) by (auto simp: owned_def free_ok_def split: if_splits)
  with Go \<open>c = 0\<close> step caller_owned [OF assms(1,2) _ calloc] show ?thesis by (auto simp: exec_def split: if_splits)
qed

lemma steps_owned:
  assumes "steps E w es w'" and "owned w" and "pool_ok w" and "\<And>n. t_calloc E n" and "list_all owner_event es"
  shows "owned w' \<and> pool_ok w'"
  using assms by (induction rule: steps.induct) (auto intro: exec_owned exec_ok)

lemma m_thpool_new_owned:
  assumes "m_thpool_new E n fl = (True, w)" and "fl AND M_THPOOL_DETACHED = 0" and calloc: "\<And>n. t_calloc E n"
  shows "owned w"
proof -
  from assms(1) obtain w0 where w: "w = inited INITED_STARTED (snd (thpool_start E n fl w0))"
    and ok: "fst (thpool_start E n fl w0) = 0" and w0: "w_workers w0 = (\<lambda>_. None)" "w_callers w0 = (\<lambda>_. CIdle)" "w_alive w0"
      "\<not> w_bad w0" "tp_threads (w_pool w0) = []" "tp_tasks (w_pool w0) = []" "tp_lock (w_pool w0) = None"
      "tp_shutdown (w_pool w0) = SHUTDOWN_NO" and n: "0 < n"
    by (rule m_thpool_new_started)
  let ?w1 = "upd_pool (\<lambda>p. p\<lparr>tp_max := n, tp_flags := fl\<rparr>) w0"
  let ?k = "if fl AND M_THPOOL_LAZY = 0 then unat n else 0"
  have start: "thpool_start E n fl w0 = add_threads E ?k ?w1"
    by (simp add: thpool_start_def)
  have "grown ?w1 (snd (add_threads E ?k ?w1)) \<and>
      (fst (add_threads E ?k ?w1) = 0 \<and> 0 < ?k \<longrightarrow> tp_threads (w_pool (snd (add_threads E ?k ?w1))) \<noteq> [])"
    by (rule add_threads_grown) (use calloc w0 in \<open>simp_all add: upd_pool_def\<close>)
  moreover have "0 < unat n" using n by (simp add: word_less_nat_alt)
  ultimately have g: "grown ?w1 (snd (thpool_start E n fl w0))"
    "fl AND M_THPOOL_LAZY = 0 \<Longrightarrow> tp_threads (w_pool (snd (thpool_start E n fl w0))) \<noteq> []"
    using ok unfolding start by auto
  have "w_workers w t = Some pc \<Longrightarrow> pc = Enter" for t pc
    using g(1) w0 by (auto simp: w grown_def upd_pool_def)
  moreover have fields: "dom (w_workers w) = set (tp_threads (w_pool w))" "w_callers w = (\<lambda>_. CIdle)" "\<not> w_bad w"
      "tp_lock (w_pool w) = None" "tp_tasks (w_pool w) = []" "tp_shutdown (w_pool w) = SHUTDOWN_NO" "w_alive w"
    using g(1) w0 add_threads_fixed [of E ?k ?w1] by (simp_all add: w start grown_def upd_pool_def)
  moreover have "tp_flags (w_pool w) = fl" "conf_ok w"
    using m_thpool_new_bounded [OF assms(1)] assms(2) n by (simp_all add: conf_ok_def fixed_def word_less_nat_alt)
  moreover have "fl AND M_THPOOL_LAZY = 0 \<Longrightarrow> tp_threads (w_pool w) \<noteq> []" using g(2) by (simp add: w)
  moreover from calculation(1) have "w_workers w t \<noteq> Some Leave" "w_workers w t \<noteq> Some Done" for t by auto
  ultimately show ?thesis by (simp add: owned_def free_ok_def lock_back_def awake_ok_def sole_def)
qed

lemma signal_possible: "\<exists>pick w'. signal pick w = Some w'"
proof (cases "waiters w")
  case (Cons t ts)
  then have "t \<in> set (waiters w)" by simp
  then have "w_workers w t = Some Waiting" by (simp add: waiters_def del: upt_Suc)
  then show ?thesis by (auto simp: signal_def)
qed (auto simp: signal_def)

lemma enqueue_possible: "\<exists>pick w'. enqueue_task E c pick fn arg w = Some w'"
proof -
  let ?w2 = "w\<lparr>w_next := Suc (Suc (w_next w))\<rparr>"
  let ?k = "\<lparr>tk_at = Suc (w_next w), tk_fn = fn, tk_arg = arg\<rparr>"
  let ?w3 = "(upd_pool (\<lambda>p. p\<lparr>tp_tasks := tp_tasks p @ [?k]\<rparr>) ?w2)\<lparr>w_added := w_added ?w2 @ [?k]\<rparr>"
  let ?l3 = "?w2\<lparr>w_lost := w_lost ?w2 @ [?k], w_added := w_added ?w2 @ [?k]\<rparr>"
  obtain pick v where "signal pick (if t_calloc E (Suc (w_next w)) then ?w3 else ?l3) = Some v"
    using signal_possible by blast
  then show ?thesis by (intro exI [of _ pick]) (auto simp: enqueue_task_def calloc_def Let_def split: if_splits)
qed

lemma add_body_possible: "\<exists>pick w'. thpool_add_body E c pick fn arg w = Some w'"
proof -
  obtain pick v where "enqueue_task E c pick fn arg w = Some v" using enqueue_possible by blast
  moreover obtain pick' v' where "enqueue_task E c pick' fn arg (snd (add_threads E 1 w)) = Some v'"
    using enqueue_possible by blast
  ultimately show ?thesis
    unfolding thpool_add_body_def Let_def case_prod_beta by (metis (full_types))
qed

text \<open>Whoever is under the lock can move on.\<close>

lemma caller_moves: "caller_under_lock pc \<Longrightarrow> \<exists>pick w'. caller_step E c pick pc w = Some w'"
proof (cases pc)
  case (CIn op)
  then show ?thesis
  proof (cases op)
    case (OpAdd fn arg)
    with CIn add_body_possible [of E c fn arg w] show ?thesis by (simp add: caller_step_def)
  qed (auto simp: caller_step_def thpool_length_body_def thpool_clear_body_def wait_pool_body_def Let_def)
qed (auto simp: caller_step_def)

lemma thread_moves: "under_lock pc \<or> (\<exists>k. pc = Begin k \<or> pc = Exec k) \<or> pc = Finish \<Longrightarrow> thread_step t pc w \<noteq> None"
  by (cases pc; cases "tp_shutdown (w_pool w)") (auto simp: thread_step_def Let_def split: list.splits)

subsection \<open>Properties of a pool with one caller\<close>

text \<open>
  C26. When allocations succeed, the only caller of a pool whose threads it joins never uses the pool
  after it is gone,
  nor do its threads: when \<^verbatim>\<open>m_thpool_free\<close> has returned they have all ended. With \<^verbatim>\<open>wait_all\<close>, when it
  gets to destroying the pool no task is queued any more: each one added was run or cleared.
\<close>

theorem thpool_free_joins:
  assumes "m_thpool_new E n fl = (True, w)" and "fl AND M_THPOOL_DETACHED = 0" and "\<And>n. t_calloc E n"
    and "list_all owner_event es" and "steps E w es w'"
  shows "\<not> w_bad w' \<and> (\<not> w_alive w' \<longrightarrow> (\<forall>t pc. w_workers w' t = Some pc \<longrightarrow> pc = Done)) \<and>
    (w_callers w' 0 = CDestroy \<and> tp_shutdown (w_pool w') = SHUTDOWN_WAITALL \<longrightarrow>
       tp_tasks (w_pool w') = [] \<and> mset (w_added w') = mset (w_run w') + mset (w_cleared w'))"
proof -
  have own: "owned w'" and ok: "pool_ok w'"
    using steps_owned [OF assms(5) m_thpool_new_owned [OF assms(1-3)] m_thpool_new_ok [OF assms(1)] assms(3,4)] by simp_all
  have lost: "w_lost w' = []"
    using steps_kept [OF assms(5) _ m_thpool_new_kept [OF assms(1)] m_thpool_new_ok [OF assms(1)] m_thpool_new_bounded(1) [OF assms(1)]]
      assms(3) by (simp add: all_kept_def)
  have dead: "\<not> w_alive w' \<Longrightarrow> w_workers w' t = Some pc \<Longrightarrow> pc = Done" for t pc
    using own by (auto simp: owned_def free_ok_def)
  have "tp_tasks (w_pool w') = [] \<and> mset (w_added w') = mset (w_run w') + mset (w_cleared w')"
    if c: "w_callers w' 0 = CDestroy" and all: "tp_shutdown (w_pool w') = SHUTDOWN_WAITALL"
  proof -
    have alive: "w_alive w'" using own c by (auto simp: owned_def free_ok_def split: if_splits)
    note gone = destroy_quiet(3) [OF own alive c]
    have "tp_tasks (w_pool w') = []"
    proof (rule ccontr)
      assume tasks: "tp_tasks (w_pool w') \<noteq> []"
      then have "dom (w_workers w') \<noteq> {}" using own alive by (auto simp: owned_def free_ok_def awake_ok_def)
      then obtain t pc where "w_workers w' t = Some pc" unfolding dom_def by blast
      then show False using gone [of t pc] own alive all tasks by (auto simp: owned_def free_ok_def)
    qed
    moreover have "mset (w_taken w') = mset (w_run w')"
    proof -
      have "hand w' t = None" for t using gone [of t] by (cases "w_workers w' t") (auto simp: hand_def)
      then have "ran (hand w') = {}" by (simp add: ran_def)
      moreover have "distinct (w_taken w')" using queue_ok_distinct [of w'] ok by (simp add: pool_ok_def)
      ultimately show ?thesis using ok by (auto simp: pool_ok_def run_ok_def set_eq_iff_mset_eq_distinct)
    qed
    ultimately show ?thesis using ok lost by (simp add: pool_ok_def queue_ok_def)
  qed
  with own dead show ?thesis by (auto simp: owned_def)
qed

definition add_run_free :: "event list" where
  "add_run_free = [Call 0 (OpAdd 5 6), Go 0 0, Go 0 0, Go 0 0, Call 0 (OpFree True), Go 0 0, Go 0 0, Go 0 0,
     Move 4, Move 4, Move 4, Move 4, Move 4, Move 4, Move 4, Move 4, Move 4, Go 0 0, Go 0 0]"

theorem thpool_free_joins_witness:
  "\<exists>w'. run_events good_os add_run_free (is_new good_os 2 1) = Some w' \<and> w_callers w' 0 = CDestroy \<and>
     tp_tasks (w_pool w') = [] \<and> List.map tk_fn (w_run w') = [5] \<and> mset (w_added w') = mset (w_run w') + mset (w_cleared w')"
proof -
  have new: "m_thpool_new good_os 2 1 = (True, is_new good_os 2 1)" by (rule is_newI) code_simp
  have "map_option (\<lambda>w. (w_callers w 0, List.map tk_fn (w_run w), tp_shutdown (w_pool w)))
      (run_events good_os add_run_free (is_new good_os 2 1)) = Some (CDestroy, [5], SHUTDOWN_WAITALL)" by code_simp
  then obtain w' where w': "run_events good_os add_run_free (is_new good_os 2 1) = Some w'" "w_callers w' 0 = CDestroy"
      "List.map tk_fn (w_run w') = [5]" "tp_shutdown (w_pool w') = SHUTDOWN_WAITALL"
    by auto
  have "(1 :: 32 word) AND M_THPOOL_DETACHED = 0" "list_all owner_event add_run_free" by code_simp+
  from thpool_free_joins [OF new this(1) _ this(2), of w'] w' show ?thesis
    unfolding steps_run by (intro exI [of _ w']) (simp add: good_os_def)
qed

text \<open>
  C27. A pool with one caller, whose threads are joined and whose allocations succeed, is never
  stuck with work to do: as long as a task is queued, the pool is not being freed and the lock is
  not the one that a failed \<^verbatim>\<open>m_thpool_add\<close> left taken (C25), a thread of the pool or the caller
  under the lock can move. In particular no wake-up is lost.
\<close>

theorem thpool_not_stuck:
  assumes "m_thpool_new E n fl = (True, w)" and "fl AND M_THPOOL_DETACHED = 0" and "\<And>n. t_calloc E n"
    and "list_all owner_event es" and "steps E w es w'" and "w_alive w'"
    and "tp_tasks (w_pool w') \<noteq> []" and "tp_shutdown (w_pool w') = SHUTDOWN_NO"
    and "tp_lock (w_pool w') = Some (Caller 0) \<longrightarrow> inside w' (Caller 0)"
  shows "\<exists>t pick w''. exec E (Move t) w' = Some w'' \<or> exec E (Go 0 pick) w' = Some w''"
proof -
  have own: "owned w'" and ok: "pool_ok w'"
    using steps_owned [OF assms(5) m_thpool_new_owned [OF assms(1-3)] m_thpool_new_ok [OF assms(1)] assms(3,4)] by simp_all
  have nbad: "\<not> w_bad w'" and lb: "lock_back w'" and sole: "sole w'" using own by (simp_all add: owned_def)
  have move: ?thesis if "w_workers w' t = Some pc" "thread_step t pc w' \<noteq> None" for t pc
    using that assms(6) nbad by (intro exI [of _ t]) (auto simp: exec_def)
  have "awake w'" using own assms(6-8) by (simp add: owned_def awake_ok_def)
  then obtain t pc where t: "w_workers w' t = Some pc" "pc \<noteq> Waiting" "pc \<noteq> Leave" "pc \<noteq> Done" by (auto simp: awake_def)
  show ?thesis
  proof (cases "tp_lock (w_pool w')")
    case None
    then have "thread_step t pc w' \<noteq> None" using t thread_moves [of pc t w'] by (cases pc) (auto simp: thread_step_def)
    with t(1) show ?thesis by (rule move)
  next
    case (Some x)
    show ?thesis
    proof (cases x)
      case (Thread t')
      with Some lb obtain pc' where "w_workers w' t' = Some pc'" "under_lock pc'" by (auto simp: lock_back_def)
      with thread_moves show ?thesis by (intro move) auto
    next
      case (Caller c)
      with Some sole have "c = 0" by (auto simp: sole_def)
      with Some Caller assms(9) have "caller_under_lock (w_callers w' 0)" by (simp add: inside_def)
      with caller_moves [of "w_callers w' 0" E 0 w'] obtain pick w'' where
        "caller_step E 0 pick (w_callers w' 0) w' = Some w''" by blast
      with assms(6) nbad show ?thesis by (intro exI [of _ pick] exI [of _ w'']) (auto simp: exec_def)
    qed
  qed
qed

theorem thpool_not_stuck_witness:
  "\<exists>w' t pick w''. run_events good_os [Call 0 (OpAdd 5 6), Go 0 0, Go 0 0] (is_new good_os 2 1) = Some w' \<and>
    tp_tasks (w_pool w') \<noteq> [] \<and> (exec good_os (Move t) w' = Some w'' \<or> exec good_os (Go 0 pick) w' = Some w'')"
proof -
  let ?es = "[Call 0 (OpAdd 5 6), Go 0 0, Go 0 0]"
  have new: "m_thpool_new good_os 2 1 = (True, is_new good_os 2 1)" by (rule is_newI) code_simp
  have "map_option (\<lambda>w. (w_alive w, tp_tasks (w_pool w) = [], tp_shutdown (w_pool w), inside w (Caller 0)))
      (run_events good_os ?es (is_new good_os 2 1)) = Some (True, False, SHUTDOWN_NO, True)" by code_simp
  then obtain w' where w': "run_events good_os ?es (is_new good_os 2 1) = Some w'" "w_alive w'" "tp_tasks (w_pool w') \<noteq> []"
      "tp_shutdown (w_pool w') = SHUTDOWN_NO" "inside w' (Caller 0)"
    by (auto simp del: run_events.simps)
  have "(1 :: 32 word) AND M_THPOOL_DETACHED = 0" "list_all owner_event ?es" by code_simp+
  from thpool_not_stuck [OF new this(1) _ this(2), of w'] w' show ?thesis
    unfolding steps_run by (simp add: good_os_def del: run_events.simps)
qed

end
