(* ===== verification/Format.thy ===== *)
theory Format
  imports Prelude
begin

text \<open>The integer conversions of \<^verbatim>\<open>printf\<close>, which the dumps and the log lines use.\<close>

definition digit :: "nat \<Rightarrow> char" where
  "digit d = char_of (if d < 10 then 48 + d else 87 + d)"

fun show_base :: "nat \<Rightarrow> nat \<Rightarrow> string" where
  "show_base b n = (if n < b \<or> b < 2 then [digit n] else show_base b (n div b) @ [digit (n mod b)])"

declare show_base.simps [simp del]

text \<open>\<^verbatim>\<open>%lu\<close> and \<^verbatim>\<open>%u\<close>, \<^verbatim>\<open>%d\<close>, \<^verbatim>\<open>%#x\<close>, \<^verbatim>\<open>%p\<close>.\<close>

definition show_u :: "nat \<Rightarrow> string" where
  "show_u n = show_base 10 n"

definition show_d :: "int \<Rightarrow> string" where
  "show_d i = (if i < 0 then ''-'' @ show_u (nat (- i)) else show_u (nat i))"

definition show_x :: "nat \<Rightarrow> string" where
  "show_x n = (if n = 0 then ''0'' else ''0x'' @ show_base 16 n)"

definition show_p :: "ptr \<Rightarrow> string" where
  "show_p p = (if p = NULL then ''(nil)'' else ''0x'' @ show_base 16 p)"

text \<open>Numbers are printed with digits and letters: nothing that quotes or nests.\<close>

definition marks :: "char set" where
  "marks = {CHR 0x22, CHR 0x5B, CHR 0x5D, CHR 0x7B, CHR 0x7D}"

definition plain :: "string \<Rightarrow> bool" where
  "plain v \<longleftrightarrow> set v \<inter> marks = {}"

lemma digit_plain: "d < 16 \<Longrightarrow> digit d \<notin> marks"
proof -
  have "list_all (\<lambda>d. digit d \<notin> marks) [0..<16]" unfolding marks_def by code_simp
  moreover assume "d < 16"
  ultimately show ?thesis by (simp add: list_all_iff)
qed

lemma show_base_plain: "2 \<le> b \<Longrightarrow> b \<le> 16 \<Longrightarrow> set (show_base b n) \<inter> marks = {}"
proof (induction b n rule: show_base.induct)
  case (1 b n)
  show ?case
  proof (cases "n < b")
    case True
    with 1 digit_plain [of n] show ?thesis by (subst show_base.simps) auto
  next
    case False
    have "n mod b < b" using 1 by simp
    then have "n mod b < 16" using 1 by linarith
    with digit_plain [of "n mod b"] 1 False show ?thesis by (subst show_base.simps) auto
  qed
qed

lemma show_plain [simp]: "plain (show_u n)" "plain (show_d i)" "plain (show_x n)" "plain (show_p p)"
  using show_base_plain [of 10] show_base_plain [of 16]
  by (auto simp: plain_def show_u_def show_d_def show_x_def show_p_def) (auto simp: marks_def)

end
