(* ===== verification/Dump.thy ===== *)
theory Dump
  imports Ctx Format
begin

text \<open>
  What the library writes about itself: \<^verbatim>\<open>mod_dump\<close> of \<^verbatim>\<open>mod.c\<close> and \<^verbatim>\<open>m_ctx_dump\<close> of \<^verbatim>\<open>ctx.c\<close>. The
  output is the list of texts given to the logger, one per call of \<^verbatim>\<open>ctx_logger\<close>. Conversions
  are those of \<^verbatim>\<open>printf\<close> in glibc; a logger of the client only takes the texts and calls nothing; the text of a \<^verbatim>\<open>double\<close> quotient and the address behind a user
  pointer that is a field of a module are parameters.
\<close>

subsection \<open>Conversions\<close>

record printf =
  pr_double :: "64 word \<Rightarrow> 64 word \<Rightarrow> string"
  pr_addr :: "uptr \<Rightarrow> ptr"

definition tab :: string where "tab = [CHR 0x09]"
definition nl :: string where "nl = [CHR 0x0A]"
definition qt :: string where "qt = [CHR 0x22]"

text \<open>A key with its colon, and a value between quotes.\<close>

definition key :: "string \<Rightarrow> string" where "key k = qt @ k @ qt @ '': ''"
definition quoted :: "string \<Rightarrow> string" where "quoted v = qt @ v @ qt"

subsection \<open>A module\<close>

definition state_bit :: "m_mod_states \<Rightarrow> nat" where
  "state_bit st = (case st of M_MOD_IDLE \<Rightarrow> 1 | M_MOD_RUNNING \<Rightarrow> 2 | M_MOD_PAUSED \<Rightarrow> 4 | M_MOD_STOPPED \<Rightarrow> 8
     | M_MOD_ZOMBIE \<Rightarrow> 16)"

definition src_names :: "m_src_types \<Rightarrow> string" where
  "src_names ty = (case ty of M_SRC_TYPE_PS \<Rightarrow> ''Priv'' | M_SRC_TYPE_FD \<Rightarrow> ''Fds'' | M_SRC_TYPE_TMR \<Rightarrow> ''Tmrs''
     | M_SRC_TYPE_SGN \<Rightarrow> ''Sgns'' | M_SRC_TYPE_PATH \<Rightarrow> ''Paths'' | M_SRC_TYPE_PID \<Rightarrow> ''Pids''
     | M_SRC_TYPE_TASK \<Rightarrow> ''Tasks'' | M_SRC_TYPE_THRESH \<Rightarrow> ''Thresh'')"

text \<open>
  What identifies a source. A threshold is printed with \<^verbatim>\<open>%d\<close> for a \<^verbatim>\<open>uint64_t\<close> and for a \<^verbatim>\<open>double\<close>,
  which is undefined.
\<close>

definition dump_key :: "string \<Rightarrow> ev_src \<Rightarrow> string list option" where
  "dump_key ind t = (let at = ind @ tab @ tab in case (es_type t, es_key t) of
     (M_SRC_TYPE_FD, _) \<Rightarrow> Some [at @ key ''FD'' @ show_d (es_fd t) @ nl]
   | (M_SRC_TYPE_SGN, KeySgn signo) \<Rightarrow> Some [at @ key ''SGN'' @ show_d (sint signo) @ nl]
   | (M_SRC_TYPE_TMR, KeyTmr (clock, ns)) \<Rightarrow>
       Some [at @ key ''TMR_MS'' @ show_u (unat ns) @ '','' @ nl, at @ key ''TMR_CID'' @ show_d clock @ nl]
   | (M_SRC_TYPE_PATH, KeyPath path events) \<Rightarrow>
       Some [at @ key ''PATH'' @ quoted path @ '','' @ nl, at @ key ''EV'' @ quoted (show_x (unat events)) @ nl]
   | (M_SRC_TYPE_PID, KeyPid pid events) \<Rightarrow>
       Some [at @ key ''PID'' @ show_d pid @ '','' @ nl, at @ key ''EV'' @ show_u (unat events) @ nl]
   | (M_SRC_TYPE_TASK, KeyTask tid fn) \<Rightarrow> Some [at @ key ''TID'' @ show_d tid @ nl]
   | (M_SRC_TYPE_THRESH, _) \<Rightarrow> None
   | _ \<Rightarrow> Some [])"

text \<open>Element \<open>i\<close> of the \<open>n\<close> in the container; internal sources are skipped.\<close>

definition dump_src :: "printf \<Rightarrow> string \<Rightarrow> nat \<Rightarrow> sys \<Rightarrow> nat \<times> sid \<Rightarrow> string list option" where
  "dump_src P ind n s = (\<lambda>(i, p). case s_srcs s p of None \<Rightarrow> None | Some t \<Rightarrow>
     if has (es_flags t) M_SRC_INTERNAL then Some []
     else do {
       ks \<leftarrow> dump_key ind t;
       Some ([ind @ tab @ ''{'' @ nl,
              ind @ tab @ tab @ key ''Flags'' @ quoted (show_x (unat (es_flags t))) @ '','' @ nl,
              ind @ tab @ tab @ key ''UP'' @ quoted (show_p (pr_addr P (es_userptr t))) @ '','' @ nl]
             @ ks @ [ind @ tab @ ''}'' @ (if i + 1 < n then '','' else '' '') @ nl])
     })"

definition dump_sub :: "printf \<Rightarrow> string \<Rightarrow> nat \<Rightarrow> sys \<Rightarrow> nat \<times> sid \<Rightarrow> string list option" where
  "dump_sub P ind n s = (\<lambda>(i, p). case s_srcs s p of None \<Rightarrow> None | Some t \<Rightarrow>
     if has (es_flags t) M_SRC_INTERNAL then Some []
     else (case es_key t of KeyTopic topic \<Rightarrow>
       Some [ind @ tab @ ''{'' @ nl,
             ind @ tab @ tab @ key ''Flags'' @ quoted (show_x (unat (es_flags t))) @ nl,
             ind @ tab @ tab @ key ''UP'' @ quoted (show_p (pr_addr P (es_userptr t))) @ '','' @ nl,
             ind @ tab @ tab @ key ''Topic'' @ quoted topic @ nl,
             ind @ tab @ ''}'' @ (if i + 1 < n then '','' else '' '') @ nl]
     | _ \<Rightarrow> None))"

text \<open>The texts for a list of sources, whose iterator may fail to be allocated.\<close>

definition dump_all :: "(nat \<Rightarrow> sys \<Rightarrow> nat \<times> sid \<Rightarrow> string list option) \<Rightarrow> env \<Rightarrow> sid list \<Rightarrow> sys \<Rightarrow>
    (string list \<times> sys) option" where
  "dump_all f E is s = (case foreach_elems E is s of (js, s1) \<Rightarrow>
     fold_opt (\<lambda>x (out, s). map_option (\<lambda>ts. (out @ ts, s)) (f (length is) s x)) (List.enumerate 0 js) ([], s1))"

definition dump_type :: "printf \<Rightarrow> env \<Rightarrow> mid \<Rightarrow> string \<Rightarrow> m_src_types \<Rightarrow> string list \<times> sys \<Rightarrow>
    (string list \<times> sys) option" where
  "dump_type P E m ind ty = (\<lambda>(out, s). do {
     (ts, s1) \<leftarrow> dump_all (dump_src P ind) E (srcs_list m ty s) s;
     Some (out @ [ind @ tab @ key (src_names ty) @ ''['' @ nl] @ ts @
           [ind @ tab @ '']'' @ (if ty = last src_types then '' '' else '','') @ nl], s1)
   })"

definition dump_stats :: "printf \<Rightarrow> string \<Rightarrow> int \<Rightarrow> m_mod \<Rightarrow> 64 word \<Rightarrow> string list" where
  "dump_stats P ind num_srcs d now = (let st = md_stats d; at = ind @ tab @ tab in
     [ind @ tab @ key ''Stats'' @ ''{'' @ nl,
      at @ key ''Reg_time'' @ show_u (unat (registration_time st)) @ '','' @ nl,
      at @ key ''Num_srcs'' @ show_u (unat (word_of_int num_srcs :: 64 word)) @ '','' @ nl,
      at @ key ''Sent_msgs'' @ show_u (unat (sent_msgs st)) @ '','' @ nl,
      at @ key ''Recv_msgs'' @ show_u (unat (recv_msgs st)) @ '','' @ nl,
      at @ key ''Last_seen'' @ show_u (unat (last_seen st)) @ '','' @ nl,
      at @ key ''Num_actions'' @ show_u (unat (action_ctr st)) @ '','' @ nl,
      at @ key ''Action_freq'' @ pr_double P (action_ctr st) (now - registration_time st) @ nl,
      ind @ tab @ ''},'' @ nl])"

definition dump_head :: "printf \<Rightarrow> string \<Rightarrow> m_mod \<Rightarrow> string list" where
  "dump_head P ind d =
     [ind @ ''{'' @ nl,
      ind @ tab @ key ''Name'' @ quoted ([CHR 0x27] @ md_name d) @ '','' @ nl,
      ind @ tab @ key ''State'' @ quoted (show_x (state_bit (md_state d))) @ '','' @ nl,
      ind @ tab @ key ''Flags'' @ quoted (show_x (unat (md_flags d))) @ '','' @ nl,
      ind @ tab @ key ''UP'' @ quoted (show_p (md_userdata d)) @ '','' @ nl,
      ind @ tab @ key ''Plugin'' @ (if md_dlhandle d then ''true'' else ''false'') @ '','' @ nl]"

definition mod_dump :: "printf \<Rightarrow> env \<Rightarrow> mid \<Rightarrow> string \<Rightarrow> sys \<Rightarrow> (string list \<times> sys) option" where
  "mod_dump P E m ind s = (let d = s_mods s m in do {
     (num_srcs, s1) \<leftarrow> m_mod_src_len E m M_SRC_TYPE_END s;
     (subs, s2) \<leftarrow> dump_all (dump_sub P ind) E
       (case md_subs d of None \<Rightarrow> [] | Some subs \<Rightarrow> List.map (snd \<circ> snd) subs) s1;
     (srcs, s3) \<leftarrow> fold_opt (dump_type P E m ind) (tl src_types) ([], s2);
     Some (dump_head P ind d @ dump_stats P ind num_srcs d (s_now s1) @ [ind @ tab @ key ''Subs'' @ ''['' @ nl] @ subs @
           [ind @ tab @ ''],'' @ nl] @ srcs @ [ind @ ''}'' @ nl], s3)
   })"

text \<open>The result, what was written, and the state.\<close>

definition m_mod_dump :: "printf \<Rightarrow> env \<Rightarrow> mid \<Rightarrow> sys \<Rightarrow> (int \<times> string list \<times> sys) option" where
  "m_mod_dump P E m s =
     (if m = NULL then Some (- EINVAL, [], s)
      else if m_mod_is m [M_MOD_ZOMBIE] s then Some (- EACCES, [], s)
      else if \<not> m_ctx s then Some (- EPERM, [], s)
      else map_option (\<lambda>(ts, s1). (0, ts, s1)) (mod_dump P E m [] s))"

subsection \<open>The context\<close>

definition dump_ctx_head :: "printf \<Rightarrow> sys \<Rightarrow> string list" where
  "dump_ctx_head P s = (let
       total = s_now s - c_looping_start s; busy = total - c_idle_time s; at = tab @ tab in
     [''{'' @ nl,
      tab @ key ''Name'' @ quoted (c_name s) @ '','' @ nl,
      tab @ key ''Flags'' @ quoted (show_x (unat (c_flags s))) @ '','' @ nl,
      tab @ key ''UP'' @ quoted (show_p (c_userdata s)) @ '','' @ nl,
      tab @ key ''Tick'' @ qt @ show_u (unat (snd (c_tick_tmr s))) @ '','' @ nl,
      tab @ key ''State'' @ ''{'' @ nl,
      at @ key ''Quit'' @ show_d (if c_quit s then 1 else 0) @ '','' @ nl,
      at @ key ''Looping'' @ show_d (if c_state s = M_CTX_LOOPING then 1 else 0) @ nl,
      tab @ ''},'' @ nl,
      tab @ key ''Stats'' @ ''{'' @ nl,
      at @ key ''Looping_since'' @ show_u (unat (c_looping_start s)) @ '','' @ nl,
      at @ key ''Looping_time'' @ show_u (unat total) @ '','' @ nl,
      at @ key ''Idle_time'' @ show_u (unat (c_idle_time s)) @ '','' @ nl,
      at @ key ''Busy_time'' @ show_u (unat busy) @ '','' @ nl,
      at @ key ''Recv_events'' @ show_u (unat (c_recv_msgs s)) @ '','' @ nl,
      at @ key ''Action_freq'' @ pr_double P (c_recv_msgs s) total @ '','' @ nl,
      at @ key ''Modules'' @ show_u (length (c_modules s)) @ '','' @ nl,
      at @ key ''Running_modules'' @ show_u (unat (c_running s)) @ nl,
      tab @ ''},'' @ nl])"

definition m_ctx_dump :: "printf \<Rightarrow> env \<Rightarrow> sys \<Rightarrow> (int \<times> string list \<times> sys) option" where
  "m_ctx_dump P E s =
     (if \<not> m_ctx s then Some (- EPIPE, [], s)
      else (case foreach_elems E (List.map snd (c_modules s)) s of (ms, s1) \<Rightarrow> do {
        (ts, s2) \<leftarrow> fold_opt (\<lambda>m (out, s). map_option (\<lambda>(ts, s'). (out @ ts, s')) (mod_dump P E m tab s)) ms ([], s1);
        Some (0, dump_ctx_head P s @ [tab @ key ''Modules'' @ ''['' @ nl] @ ts @ [tab @ '']'' @ nl, ''}'' @ nl], s2)
      }))"

end
