(* ===== verification/Entry.thy ===== *)
theory Entry
  imports Ctx
begin

text \<open>
  The edges of the library: what a module releases when its last reference goes (\<^verbatim>\<open>module_dtor\<close>), the loggers
  of a context, the default \<^verbatim>\<open>main\<close> of \<^verbatim>\<open>main.c\<close> with the hooks of memory, and the constructor that \<^verbatim>\<open>mod_easy.h\<close>
  writes for a module.
\<close>

subsection \<open>The end of a module\<close>

text \<open>
  The reference to the context, and those to bound modules, are not followed. A tree of sources is
  cleared by an iterator, which may fail to be allocated; the list of bound modules likewise.
\<close>

definition free_srcs :: "env \<Rightarrow> mid \<Rightarrow> m_src_types \<Rightarrow> sys \<Rightarrow> sys option" where
  "free_srcs E m ty s = (case foreach_elems E (srcs_list m ty s) s of (is, s1) \<Rightarrow>
     map_option (upd_mod m (\<lambda>d. d\<lparr>md_srcs := (md_srcs d)(ty := None)\<rparr>)) (fold_opt (src_unref E) is s1))"

definition M_MOD_USERDATA_AUTOFREE :: flags where "M_MOD_USERDATA_AUTOFREE = push_bit 10 1"

definition module_dtor :: "env \<Rightarrow> mid \<Rightarrow> sys \<Rightarrow> sys option" where
  "module_dtor E m s =
     (if m = NULL then Some s
      else do {
        let s1 = upd_mod m (\<lambda>d. d\<lparr>md_dlhandle := False\<rparr>) s;
        s2 \<leftarrow> clear_subs E m s1;
        let s3 = upd_mod m (\<lambda>d. d\<lparr>md_subs := None, md_recvs := []\<rparr>) s2;
        s4 \<leftarrow> fold_opt (evt_unref E) (md_stashed (s_mods s3 m)) (upd_mod m (\<lambda>d. d\<lparr>md_stashed := []\<rparr>) s3);
        s5 \<leftarrow> free_queue E (md_batch_events (s_mods s4 m)) (upd_mod m (\<lambda>d. d\<lparr>md_batch_events := None\<rparr>) s4);
        let s6 = upd_mod m (\<lambda>d. d\<lparr>md_bound := []\<rparr>) (snd (foreach_elems E (md_bound (s_mods s5 m)) s5));
        s7 \<leftarrow> fold_opt (free_srcs E m) src_types s6;
        s8 \<leftarrow> (if has (md_flags (s_mods s7 m)) M_MOD_NAME_AUTOFREE then user_free (User (md_name_at (s_mods s7 m))) s7 else Some s7);
        if has (md_flags (s_mods s8 m)) M_MOD_USERDATA_AUTOFREE then user_free (User (md_userdata (s_mods s8 m))) s8 else Some s8
      })"

subsection \<open>Loggers\<close>

text \<open>What is written: to standard output by the default logger, or given to the client's.\<close>

datatype log_text = Printed string | Given ptr mid string

definition default_logger :: "sys \<Rightarrow> mid \<Rightarrow> string \<Rightarrow> log_text" where
  "default_logger s m msg = Printed ((if m \<noteq> NULL then ''['' @ c_name s @ '']|'' @ md_name (s_mods s m) @ ''|: '' else []) @ msg)"

definition ctx_logger :: "sys \<Rightarrow> mid \<Rightarrow> string \<Rightarrow> log_text" where
  "ctx_logger s m msg = (case c_logger s of None \<Rightarrow> default_logger s m msg | Some f \<Rightarrow> Given f m msg)"

definition m_mod_log :: "mid \<Rightarrow> string \<Rightarrow> sys \<Rightarrow> int \<times> log_text option" where
  "m_mod_log m msg s =
     (if m = NULL then (- EINVAL, None)
      else if m_mod_is m [M_MOD_ZOMBIE] s then (- EACCES, None)
      else if \<not> m_ctx s then (- EPERM, None)
      else (0, Some (ctx_logger s m msg)))"

subsection \<open>Entry points\<close>

text \<open>The weak functions around the loop are what the program defines, or nothing.\<close>

definition main :: "env \<Rightarrow> hooks \<Rightarrow> (sys \<Rightarrow> sys option) \<Rightarrow> (sys \<Rightarrow> sys option) \<Rightarrow> api" where
  "main E H m_ctx_pre_loop m_ctx_post_loop s = do {
     s1 \<leftarrow> m_ctx_pre_loop s;
     (ret, s2) \<leftarrow> m_ctx_loop E H s1;
     s3 \<leftarrow> m_ctx_post_loop s2;
     (r, s4) \<leftarrow> m_ctx_deregister E H s3;
     Some (ret, s4)
   }"

record memhook =
  mh_malloc :: ptr
  mh_calloc :: ptr
  mh_free :: ptr

definition m_set_memhook :: "ptr \<Rightarrow> ptr \<Rightarrow> ptr \<Rightarrow> memhook \<Rightarrow> int \<times> memhook" where
  "m_set_memhook mal cal fre mh =
     (if mal = NULL then (- EINVAL, mh)
      else if cal = NULL then (- EINVAL, mh)
      else if fre = NULL then (- EINVAL, mh)
      else (0, mh\<lparr>mh_malloc := mal, mh_calloc := cal, mh_free := fre\<rparr>))"

definition M_CTX_DEFAULT :: string where
  "M_CTX_DEFAULT = ''libmodule''"

text \<open>\<open>at\<close>: the address of the constant.\<close>

definition m_m_ctor :: "env \<Rightarrow> hooks \<Rightarrow> ptr \<Rightarrow> string \<times> ptr \<Rightarrow> m_mod_hook \<Rightarrow> sys \<Rightarrow> sys option" where
  "m_m_ctor E H at name hook s = do {
     (r, s1) \<leftarrow> m_ctx_register E (Some (M_CTX_DEFAULT, at)) 0 NULL s;
     (r', s2) \<leftarrow> m_mod_register E H (Some name) (Some hook) M_MOD_PERSIST NULL s1;
     Some s2
   }"

end
