(* ===== verification/Fs.thy ===== *)
theory Fs
  imports Dump Entry
begin

text \<open>
  The FUSE file system of \<^verbatim>\<open>fs/fs.c\<close>, built with \<^verbatim>\<open>WITH_FS\<close>: each module of the context is a file
  that can be opened, read (its dump), polled (an event woke the module up) and asked for its
  state. A request carries the handle that \<^verbatim>\<open>fs_open\<close> left in \<^verbatim>\<open>fi->fh\<close>, the address of a client;
  0 is no handle. libfuse is a parameter: what mounting and receiving return. A poll handle is
  given up by \<^verbatim>\<open>fuse_pollhandle_destroy\<close>, once.

  The state adds to that of the core what the core does not follow: \<^verbatim>\<open>c->fs\<close>, the reference count of each
  module (0 when it has been released), \<^verbatim>\<open>mod->fs\<close> with its list of clients, the clients, the
  poll handles notified and destroyed, and the memory of libfuse that was released.
\<close>

subsection \<open>State\<close>

record fs_client =
  cl_mod :: mid
  cl_ph :: ptr
  cl_in_evt :: int
  cl_read_all :: bool

record fs_ctx =
  fx_root :: "string option"
  fx_ops :: "ptr option"
  fx_handler :: ptr
  fx_buf :: ptr
  fx_start :: "64 word"
  fx_src :: sid

text \<open>\<open>fw_fs\<close>: \<open>None\<close> for a null \<^verbatim>\<open>mod->fs\<close>, else its clients. \<open>fx_ops\<close> is \<open>None\<close> for the default operations.\<close>

record fs_world =
  fw_sys :: sys
  fw_ctx :: "fs_ctx option"
  fw_refs :: "mid \<Rightarrow> nat"
  fw_fs :: "mid \<Rightarrow> ptr list option"
  fw_clients :: "ptr \<Rightarrow> fs_client option"
  fw_woken :: "ptr list"
  fw_gone :: "ptr list"
  fw_dead :: "ptr list"

record fuse =
  u_mkdir :: "string \<Rightarrow> sys \<Rightarrow> int"
  u_new :: "sys \<Rightarrow> ptr"
  u_mount :: "sys \<Rightarrow> int"
  u_fd :: "sys \<Rightarrow> int"
  u_receive :: "sys \<Rightarrow> int"
  u_buf :: "sys \<Rightarrow> ptr"

definition fs_alloc :: "env \<Rightarrow> fs_world \<Rightarrow> ptr \<times> fs_world" where
  "fs_alloc E w = (case alloc E (fw_sys w) of (p, s) \<Rightarrow> (p, w\<lparr>fw_sys := s\<rparr>))"

text \<open>Touching a module, and the references to it; releasing a poll handle.\<close>

definition the_mod :: "mid \<Rightarrow> fs_world \<Rightarrow> m_mod option" where
  "the_mod m w = (if fw_refs w m = 0 then None else Some (s_mods (fw_sys w) m))"

definition ref_mod :: "mid \<Rightarrow> fs_world \<Rightarrow> fs_world option" where
  "ref_mod m w = map_option (\<lambda>_. w\<lparr>fw_refs := (fw_refs w)(m := fw_refs w m + 1)\<rparr>) (the_mod m w)"

definition unref_mod :: "env \<Rightarrow> mid \<Rightarrow> fs_world \<Rightarrow> fs_world option" where
  "unref_mod E m w = Option.bind (the_mod m w) (\<lambda>_.
     if fw_refs w m = 1
     then map_option (\<lambda>s. w\<lparr>fw_sys := s, fw_refs := (fw_refs w)(m := 0)\<rparr>) (module_dtor E m (fw_sys w))
     else Some (w\<lparr>fw_refs := (fw_refs w)(m := fw_refs w m - 1)\<rparr>))"

definition pollhandle_destroy :: "ptr \<Rightarrow> fs_world \<Rightarrow> fs_world option" where
  "pollhandle_destroy ph w = (if ph \<in> set (fw_gone w) then None else Some (w\<lparr>fw_gone := ph # fw_gone w\<rparr>))"

definition set_client :: "ptr \<Rightarrow> fs_client \<Rightarrow> fs_world \<Rightarrow> fs_world" where
  "set_client p cl w = w\<lparr>fw_clients := (fw_clients w)(p := Some cl)\<rparr>"

definition set_fs :: "mid \<Rightarrow> ptr list option \<Rightarrow> fs_world \<Rightarrow> fs_world option" where
  "set_fs m x w = map_option (\<lambda>_. w\<lparr>fw_fs := (fw_fs w)(m := x)\<rparr>) (the_mod m w)"

definition client_dtor :: "env \<Rightarrow> ptr \<Rightarrow> fs_world \<Rightarrow> fs_world option" where
  "client_dtor E p w = do {
     cl \<leftarrow> fw_clients w p;
     w1 \<leftarrow> (if cl_ph cl \<noteq> NULL then pollhandle_destroy (cl_ph cl) w else Some w);
     w2 \<leftarrow> unref_mod E (cl_mod cl) w1;
     Some (w2\<lparr>fw_clients := (fw_clients w2)(p := None)\<rparr>)
   }"

subsection \<open>Requests\<close>

datatype fs_attr = Dir nat | Reg nat nat

definition fs_getattr :: "string \<Rightarrow> fs_world \<Rightarrow> int + fs_attr" where
  "fs_getattr path w =
     (if fw_ctx w = None then Inl (- EINVAL)
      else if path = ''/'' then Inr (Dir (length (c_modules (fw_sys w))))
      else if path \<noteq> [] \<and> map_of (c_modules (fw_sys w)) (tl path) \<noteq> None then Inr (Reg 1 1024)
      else Inl (- ENOENT))"

abbreviation (input) EISDIR :: int where "EISDIR \<equiv> 21"
abbreviation (input) ENOSYS :: int where "ENOSYS \<equiv> 38"

text \<open>
  \<^verbatim>\<open>fs_open\<close> and the handle it sets. A list that cannot take the client is not noticed. The structs of
  the module's file system are allocated on first use.
\<close>

definition open_fs :: "env \<Rightarrow> mid \<Rightarrow> fs_world \<Rightarrow> (int \<times> fs_world) option" where
  "open_fs E m w = do {
     d \<leftarrow> the_mod m w;
     if fw_fs w m \<noteq> None then Some (0, w)
     else case fs_alloc E w of (fp, w1) \<Rightarrow>
       if fp = NULL then Some (- ENOMEM, w1)
       else case fs_alloc E w1 of (clients, w2) \<Rightarrow>
         if clients = NULL then Some (- ENOMEM, w2) else map_option (Pair 0) (set_fs m (Some []) w2)
   }"

definition fs_open :: "env \<Rightarrow> string \<Rightarrow> fs_world \<Rightarrow> ((int \<times> ptr) \<times> fs_world) option" where
  "fs_open E path w =
     (if path = [] then Some ((- EISDIR, NULL), w)
      else case map_of (c_modules (fw_sys w)) (tl path) of None \<Rightarrow> Some ((- ENOENT, NULL), w)
      | Some m \<Rightarrow> (case fs_alloc E w of (cl, w1) \<Rightarrow>
          if cl = NULL then Some ((- ENOMEM, NULL), w1)
          else do {
            (ret, w2) \<leftarrow> open_fs E m w1;
            if ret \<noteq> 0 then Some ((ret, NULL), w2)
            else do {
              w3 \<leftarrow> ref_mod m w2;
              let w4 = set_client cl \<lparr>cl_mod = m, cl_ph = NULL, cl_in_evt = 0, cl_read_all = False\<rparr> w3;
              clients \<leftarrow> fw_fs w4 m;
              case fs_alloc E w4 of (node, w5) \<Rightarrow>
                map_option (Pair (0, cl)) (set_fs m (Some (if node = NULL then clients else cl # clients)) w5)
            }
          }))"

text \<open>
  \<^verbatim>\<open>fs_release\<close>: the module is read through the client before the client goes, and written to after.
\<close>

definition fs_release :: "env \<Rightarrow> ptr \<Rightarrow> fs_world \<Rightarrow> (int \<times> fs_world) option" where
  "fs_release E fh w =
     (if fh = NULL then Some (- ENOENT, w)
      else do {
        cl \<leftarrow> fw_clients w fh;
        let m = cl_mod cl;
        d \<leftarrow> the_mod m w;
        case fw_fs w m of None \<Rightarrow> Some (- ENOENT, w)
        | Some clients \<Rightarrow> do {
            w1 \<leftarrow> (if fh \<in> set clients
                  then client_dtor E fh (w\<lparr>fw_fs := (fw_fs w)(m := Some (remove1 fh clients))\<rparr>) else Some w);
            if remove1 fh clients = [] then map_option (Pair 0) (set_fs m None w1) else Some (0, w1)
          }
      })"

definition fs_readdir :: "env \<Rightarrow> string \<Rightarrow> fs_world \<Rightarrow> (int \<times> string list) \<times> fs_world" where
  "fs_readdir E path w =
     (if path \<noteq> ''/'' then ((- ENOENT, []), w)
      else case foreach_elems E (List.map snd (c_modules (fw_sys w))) (fw_sys w) of (ms, s) \<Rightarrow>
        ((0, [''.'', ''..''] @ List.map (\<lambda>m. md_name (s_mods s m)) ms), w\<lparr>fw_sys := s\<rparr>))"

text \<open>
  One text of the dump into the buffer of the reader: \<^verbatim>\<open>vsnprintf\<close> writes at most what fits, with
  a final NUL, and counts what it would have written.
\<close>

definition fs_logger :: "nat \<Rightarrow> string \<Rightarrow> string \<times> nat \<Rightarrow> string \<times> nat" where
  "fs_logger read_len txt = (\<lambda>(buf, write_len).
     if write_len < read_len
     then let out = take (read_len - write_len - 1) txt @ [CHR 0x00] in
       (take write_len buf @ out @ drop (write_len + length out) buf, write_len + length txt)
     else (buf, write_len))"

text \<open>
  Reading \<open>len\<close> bytes into \<open>buf\<close>: every second read answers 0, which is the end of the file. The dump
  is made with the handle as the user data of the module.
\<close>

definition fs_read :: "printf \<Rightarrow> env \<Rightarrow> ptr \<Rightarrow> string \<Rightarrow> nat \<Rightarrow> fs_world \<Rightarrow> ((int \<times> string) \<times> fs_world) option" where
  "fs_read P E fh buf len w =
     (if fh = NULL then Some ((- ENOENT, buf), w)
      else do {
        cl \<leftarrow> fw_clients w fh;
        let m = cl_mod cl;
        let w1 = w\<lparr>fw_sys := (fw_sys w)\<lparr>s_errno := 0\<rparr>\<rparr>;
        if cl_read_all cl then Some ((0, buf), set_client fh (cl\<lparr>cl_read_all := False\<rparr>) w1)
        else do {
          d \<leftarrow> the_mod m w1;
          (r, texts, s) \<leftarrow> m_mod_dump P E m (upd_mod m (\<lambda>d. d\<lparr>md_userdata := fh\<rparr>) (fw_sys w1));
          let (buf', write_len) = fold (fs_logger len) texts (buf, 0);
          Some ((int (if write_len > len then len else write_len), buf'),
                set_client fh (cl\<lparr>cl_read_all := True\<rparr>)
                  (w1\<lparr>fw_sys := upd_mod m (\<lambda>x. x\<lparr>md_userdata := md_userdata d\<rparr>) s\<rparr>))
        }
      })"

datatype revents = POLLIN | POLLERR

definition fs_poll :: "ptr \<Rightarrow> ptr \<Rightarrow> fs_world \<Rightarrow> ((int \<times> revents option) \<times> fs_world) option" where
  "fs_poll fh ph w =
     (if fh = NULL then Some ((- ENOENT, None), w)
      else do {
        cl \<leftarrow> fw_clients w fh;
        if ph = NULL then Some ((0, None), w)
        else if cl_in_evt cl \<noteq> 0 then do {
          w1 \<leftarrow> pollhandle_destroy ph w;
          Some ((0, Some (if cl_in_evt cl = 1 then POLLIN else POLLERR)), set_client fh (cl\<lparr>cl_in_evt := 0\<rparr>) w1)
        }
        else Some ((0, None), set_client fh (cl\<lparr>cl_ph := ph\<rparr>) w)
      })"

datatype fs_cmd = M_MOD_FS_STATE | M_MOD_FS_STATS | OtherCmd
datatype fs_reply = NoReply | StateReply m_mod_states | StatsReply "(64 word \<times> 64 word \<times> 64 word \<times> 64 word) option"

definition fs_ioctl :: "env \<Rightarrow> ptr \<Rightarrow> bool \<Rightarrow> bool \<Rightarrow> fs_cmd \<Rightarrow> fs_world \<Rightarrow> (int \<times> fs_reply) option" where
  "fs_ioctl E fh compat_fl dir_fl cmd w =
     (if fh = NULL then Some (- ENOENT, NoReply)
      else do {
        cl \<leftarrow> fw_clients w fh;
        if compat_fl then Some (- ENOSYS, NoReply)
        else if dir_fl then Some (- EINVAL, NoReply)
        else (case cmd of
          M_MOD_FS_STATE \<Rightarrow> map_option (\<lambda>d. (0, StateReply (md_state d))) (the_mod (cl_mod cl) w)
        | M_MOD_FS_STATS \<Rightarrow> map_option (\<lambda>_. case m_mod_stats E (cl_mod cl) True (fw_sys w) of (r, st) \<Rightarrow> (r, StatsReply st))
            (the_mod (cl_mod cl) w)
        | OtherCmd \<Rightarrow> Some (- EINVAL, NoReply))
      })"

subsection \<open>Notifications from the library\<close>

definition wakeup_one :: "bool \<Rightarrow> ptr \<Rightarrow> fs_world \<Rightarrow> fs_world option" where
  "wakeup_one leaving p w = do {
     cl \<leftarrow> fw_clients w p;
     if cl_ph cl \<noteq> NULL then do {
       w1 \<leftarrow> pollhandle_destroy (cl_ph cl) (w\<lparr>fw_woken := cl_ph cl # fw_woken w\<rparr>);
       Some (set_client p (cl\<lparr>cl_in_evt := (if leaving then -1 else 1), cl_ph := NULL\<rparr>) w1)
     } else Some w
   }"

definition fs_wakeup_clients :: "env \<Rightarrow> ptr list \<Rightarrow> bool \<Rightarrow> fs_world \<Rightarrow> fs_world option" where
  "fs_wakeup_clients E clients leaving w = (case foreach_elems E clients (fw_sys w) of (ps, s) \<Rightarrow>
     fold_opt (wakeup_one leaving) ps (w\<lparr>fw_sys := s\<rparr>))"

definition fs_notify :: "env \<Rightarrow> mid \<Rightarrow> eid list \<Rightarrow> fs_world \<Rightarrow> fs_world option" where
  "fs_notify E m evts w =
     (if m = NULL then Some w
      else Option.bind (the_mod m w) (\<lambda>_. case fw_fs w m of None \<Rightarrow> Some w
      | Some clients \<Rightarrow> (case foreach_elems E evts (fw_sys w) of (es, s) \<Rightarrow>
          fold_opt (\<lambda>_. fs_wakeup_clients E clients False) es (w\<lparr>fw_sys := s\<rparr>))))"

definition fs_cleanup :: "env \<Rightarrow> mid \<Rightarrow> fs_world \<Rightarrow> fs_world option" where
  "fs_cleanup E m w = Option.bind (the_mod m w) (\<lambda>_. case fw_fs w m of None \<Rightarrow> Some w
     | Some clients \<Rightarrow> fs_wakeup_clients E clients True w)"

text \<open>The list is freed: its clients are destroyed, unless the iterator over them could not be allocated.\<close>

definition fs_ctx_stopped :: "env \<Rightarrow> mid \<Rightarrow> fs_world \<Rightarrow> fs_world option" where
  "fs_ctx_stopped E m w =
     (if m = NULL then Some w
      else Option.bind (the_mod m w) (\<lambda>_. case fw_fs w m of None \<Rightarrow> Some w
      | Some clients \<Rightarrow> (case foreach_elems E clients (fw_sys w) of (ps, s) \<Rightarrow>
          Option.bind (fold_opt (client_dtor E) ps (w\<lparr>fw_sys := s\<rparr>)) (set_fs m None))))"

subsection \<open>The file system of a context\<close>

text \<open>\<^verbatim>\<open>FS_PRIV\<close>.\<close>

definition FS_PRIV :: "(fs_ctx \<Rightarrow> fs_world \<Rightarrow> (int \<times> fs_world) option) \<Rightarrow> fs_world \<Rightarrow> (int \<times> fs_world) option" where
  "FS_PRIV k w = (case fw_ctx w of None \<Rightarrow> Some (- EINVAL, w) | Some f \<Rightarrow> k f w)"

definition fs_create :: "env \<Rightarrow> fs_world \<Rightarrow> int \<times> fs_world" where
  "fs_create E w = (case fs_alloc E w of (p, w1) \<Rightarrow>
     if p = NULL then (- ENOMEM, w1\<lparr>fw_ctx := None\<rparr>)
     else (0, w1\<lparr>fw_ctx := Some \<lparr>fx_root = None, fx_ops = None, fx_handler = NULL, fx_buf = NULL, fx_start = 0,
                                 fx_src = NULL\<rparr>\<rparr>))"

definition fs_start :: "env \<Rightarrow> fuse \<Rightarrow> fs_world \<Rightarrow> (int \<times> fs_world) option" where
  "fs_start E U = FS_PRIV (\<lambda>f w.
     if \<not> str_not_empty (fx_root f) then Some (0, w)
     else let err = u_mkdir U (the (fx_root f)) (fw_sys w) in
       if err \<noteq> 0 then Some (- err, w)
       else let h = u_new U (fw_sys w); f1 = f\<lparr>fx_handler := h\<rparr> in
         if h = NULL then Some (- ENOMEM, w\<lparr>fw_ctx := Some f1\<rparr>)
         else let f2 = f1\<lparr>fx_start := s_now (fw_sys w)\<rparr>; ret = u_mount U (fw_sys w) in
           if ret \<noteq> 0 then Some (ret, w\<lparr>fw_ctx := Some f2\<rparr>)
           else do {
             (src, s) \<leftarrow> register_ctx_src E M_SRC_TYPE_FD (KeyFd (u_fd U (fw_sys w))) (fw_sys w);
             Some (ret, w\<lparr>fw_sys := s, fw_ctx := Some (f2\<lparr>fx_src := src\<rparr>)\<rparr>)
           })"

text \<open>
  A request is received into the buffer of the context, which libfuse allocates when there is
  none and uses when there is one; then it is handled, by the functions above.
\<close>

definition fs_process :: "fuse \<Rightarrow> (fs_world \<Rightarrow> fs_world option) \<Rightarrow> fs_world \<Rightarrow> (int \<times> fs_world) option" where
  "fs_process U request = FS_PRIV (\<lambda>f w.
     if fx_buf f \<noteq> NULL \<and> fx_buf f \<in> set (fw_dead w) then None
     else let
       w1 = w\<lparr>fw_ctx := Some (f\<lparr>fx_buf := (if fx_buf f = NULL then u_buf U (fw_sys w) else fx_buf f)\<rparr>)\<rparr>;
       ret = u_receive U (fw_sys w)
     in if ret > 0 then map_option (Pair 0) (request w1) else Some (ret, w1))"

definition process_fs :: "fuse \<Rightarrow> (fs_world \<Rightarrow> fs_world option) \<Rightarrow> fs_world \<Rightarrow> fs_world option" where
  "process_fs U request w = map_option snd (fs_process U request w)"

text \<open>Memory of libfuse, released once; \<^verbatim>\<open>free(NULL)\<close> does nothing.\<close>

definition fuse_free :: "ptr \<Rightarrow> fs_world \<Rightarrow> fs_world option" where
  "fuse_free p w = (if p = NULL then Some w else if p \<in> set (fw_dead w) then None
     else Some (w\<lparr>fw_dead := p # fw_dead w\<rparr>))"

definition fs_stop :: "env \<Rightarrow> fs_world \<Rightarrow> (int \<times> fs_world) option" where
  "fs_stop E = FS_PRIV (\<lambda>f w.
     if \<not> str_not_empty (fx_root f) then Some (0, w)
     else do {
       (f1, s) \<leftarrow> (if fx_src f = NULL then Some (f, fw_sys w)
                 else do {
                   (r, s1) \<leftarrow> poll_set_new_evt E (fx_src f) RM (fw_sys w);
                   s2 \<leftarrow> src_unref E (fx_src f) s1;
                   Some (f\<lparr>fx_src := NULL\<rparr>, s2)
                 });
       w1 \<leftarrow> fuse_free (fx_buf f1) (w\<lparr>fw_sys := s, fw_ctx := Some f1\<rparr>);
       w2 \<leftarrow> fuse_free (fx_handler f1) w1;
       Some (0, w2)
     })"

definition fs_destroy :: "fs_world \<Rightarrow> (int \<times> fs_world) option" where
  "fs_destroy = FS_PRIV (\<lambda>f w. Some (0, w\<lparr>fw_ctx := None\<rparr>))"

text \<open>The copy of the path may fail to be allocated.\<close>

definition m_ctx_fs_set_root :: "env \<Rightarrow> string option \<Rightarrow> fs_world \<Rightarrow> (int \<times> fs_world) option" where
  "m_ctx_fs_set_root E path w =
     (if \<not> m_ctx (fw_sys w) then Some (- EPIPE, w)
      else if c_state (fw_sys w) \<noteq> M_CTX_IDLE then Some (- EPERM, w)
      else if \<not> str_not_empty path then Some (- EINVAL, w)
      else FS_PRIV (\<lambda>f w. case fs_alloc E w of (p, w1) \<Rightarrow>
        Some (0, w1\<lparr>fw_ctx := Some (f\<lparr>fx_root := if p = NULL then None else path\<rparr>)\<rparr>)) w)"

definition m_ctx_fs_set_ops :: "ptr \<Rightarrow> fs_world \<Rightarrow> (int \<times> fs_world) option" where
  "m_ctx_fs_set_ops ops w =
     (if \<not> m_ctx (fw_sys w) then Some (- EPIPE, w)
      else if c_state (fw_sys w) \<noteq> M_CTX_IDLE then Some (- EPERM, w)
      else if ops = NULL then Some (- EINVAL, w)
      else FS_PRIV (\<lambda>f w. Some (0, w\<lparr>fw_ctx := Some (f\<lparr>fx_ops := Some ops\<rparr>)\<rparr>)) w)"

end
