(* ===== verification/DumpFacts.thy ===== *)
theory DumpFacts
  imports Dump Demo
begin

text \<open>
  What the dumps of \<open>Dump\<close> can be relied on for: which modules they name, and that they are not JSON.
\<close>

subsection \<open>Dumps only allocate iterators\<close>

text \<open>Up to the allocation counter and \<^verbatim>\<open>errno\<close>, the state is the same.\<close>

definition same_but_mem :: "sys \<Rightarrow> sys \<Rightarrow> bool" where
  "same_but_mem s s' \<longleftrightarrow> s' = s\<lparr>s_next := s_next s', s_errno := s_errno s'\<rparr>"

lemma same_but_mem_refl [simp]: "same_but_mem s s"
  by (simp add: same_but_mem_def)

lemma same_but_mem_trans: "same_but_mem s s' \<Longrightarrow> same_but_mem s' s'' \<Longrightarrow> same_but_mem s s''"
  unfolding same_but_mem_def by (cases s; cases s'; cases s'') simp

lemma sys_srcs_same:
  "s_srcs (s\<lparr>s_next := n, s_errno := e\<rparr>) = s_srcs s" "s_mods (s\<lparr>s_next := n, s_errno := e\<rparr>) = s_mods s"
  by simp_all

lemma same_but_mem_foreach: "foreach_elems E xs s = (ys, s') \<Longrightarrow> same_but_mem s s'"
  by (auto simp: foreach_elems_def alloc_def same_but_mem_def split: if_splits)

lemma fold_opt_keeps:
  "fold_opt (\<lambda>x (out, s). map_option (\<lambda>ts. (out @ ts, s)) (f s x)) xs (out, s) = Some (out', s') \<Longrightarrow> s' = s"
  by (induction xs arbitrary: out s) (auto simp: bind_eq_Some_conv)

lemma dump_all_same: "dump_all f E is s = Some (out, s') \<Longrightarrow> same_but_mem s s'"
  by (auto simp: dump_all_def split: prod.splits dest!: fold_opt_keeps dest: same_but_mem_foreach)

lemma dump_types_same:
  "fold_opt (dump_type P E m ind) ts (out, s) = Some (out', s') \<Longrightarrow> same_but_mem s s'"
proof (induction ts arbitrary: out s)
  case (Cons ty ts)
  then obtain out1 s1 where 1: "dump_type P E m ind ty (out, s) = Some (out1, s1)"
    "fold_opt (dump_type P E m ind) ts (out1, s1) = Some (out', s')" by (auto simp: bind_eq_Some_conv)
  from 1(1) have "same_but_mem s s1" by (auto simp: dump_type_def bind_eq_Some_conv dest: dump_all_same)
  with Cons.IH [OF 1(2)] show ?case by (rule same_but_mem_trans [rotated])
qed simp

lemma count_list_same: "count_list E is r = Some r' \<Longrightarrow> same_but_mem (snd r) (snd r')"
proof -
  assume *: "count_list E is r = Some r'"
  have "snd r' = s" if "fold_opt count_src js (n, s) = Some r'" for js n s
    using that by (induction js arbitrary: n) (auto simp: count_src_def bind_eq_Some_conv split: option.splits)
  with * show ?thesis by (auto simp: count_list_def split: prod.splits dest: same_but_mem_foreach)
qed

lemma count_lists_same:
  "fold_opt (\<lambda>ty r. count_list E (f ty (snd r)) r) ts r = Some r' \<Longrightarrow> same_but_mem (snd r) (snd r')"
proof (induction ts arbitrary: r)
  case (Cons ty ts)
  then obtain r1 where "count_list E (f ty (snd r)) r = Some r1" "fold_opt (\<lambda>ty r. count_list E (f ty (snd r)) r) ts r1 = Some r'"
    by (auto simp: bind_eq_Some_conv)
  from same_but_mem_trans [OF count_list_same [OF this(1)] Cons.IH [OF this(2)]] show ?case .
qed simp

lemma m_mod_src_len_same: "m_mod_src_len E m ty s = Some (r, s') \<Longrightarrow> same_but_mem s s'"
  by (auto simp: m_mod_src_len_def M_MOD_ASSERT_def M_RET_ASSERT_def bind_eq_Some_conv split: if_splits
      dest!: count_list_same count_lists_same dest: same_but_mem_trans)

lemma mod_dump_same:
  assumes "mod_dump P E m ind s = Some (out, s')"
  shows "same_but_mem s s'"
proof -
  obtain n s1 subs s2 srcs where 1: "m_mod_src_len E m M_SRC_TYPE_END s = Some (n, s1)" and 2: "dump_all (dump_sub P ind) E
       (case md_subs (s_mods s m) of None \<Rightarrow> [] | Some subs \<Rightarrow> List.map (snd \<circ> snd) subs) s1 = Some (subs, s2)"
    and 3: "fold_opt (dump_type P E m ind) (tl src_types) ([], s2) = Some (srcs, s')"
    using assms by (auto simp: mod_dump_def Let_def bind_eq_Some_conv)
  from same_but_mem_trans [OF same_but_mem_trans [OF m_mod_src_len_same [OF 1] dump_all_same [OF 2]] dump_types_same [OF 3]]
  show ?thesis .
qed

lemma mod_dumps_same:
  "fold_opt (\<lambda>m (out, s). map_option (\<lambda>(ts, s'). (out @ ts, s')) (mod_dump P E m ind s)) ms (out, s) = Some (out', s') \<Longrightarrow>
    same_but_mem s s'"
proof (induction ms arbitrary: out s)
  case (Cons m ms)
  then obtain ts s1 where "mod_dump P E m ind s = Some (ts, s1)"
    "fold_opt (\<lambda>m (out, s). map_option (\<lambda>(ts, s'). (out @ ts, s')) (mod_dump P E m ind s)) ms (out @ ts, s1) = Some (out', s')"
    by (auto simp: bind_eq_Some_conv)
  from same_but_mem_trans [OF mod_dump_same [OF this(1)] Cons.IH [OF this(2)]] show ?case .
qed simp

lemma m_ctx_dump_same:
  assumes "m_ctx_dump P E s = Some (r, out, s')"
  shows "same_but_mem s s'"
proof (cases "m_ctx s")
  case True
  obtain ms s1 where f: "foreach_elems E (List.map snd (c_modules s)) s = (ms, s1)" by fastforce
  with assms True obtain ts where "fold_opt (\<lambda>m (out, s). map_option (\<lambda>(ts, s'). (out @ ts, s')) (mod_dump P E m tab s)) ms ([], s1)
      = Some (ts, s')" by (auto simp: m_ctx_dump_def bind_eq_Some_conv)
  from same_but_mem_trans [OF same_but_mem_foreach [OF f] mod_dumps_same [OF this]] show ?thesis .
qed (use assms in \<open>simp add: m_ctx_dump_def\<close>)

subsection \<open>What is written\<close>

text \<open>How often a character occurs in what is written, when what the client names is plain.\<close>

abbreviation occs :: "string list \<Rightarrow> char \<Rightarrow> nat" where
  "occs out c \<equiv> List.count_list (concat out) c"

lemma occs_plain [simp]:
  assumes "plain v"
  shows "List.count_list v CHR 0x22 = 0" "List.count_list v CHR 0x5B = 0" "List.count_list v CHR 0x5D = 0"
    "List.count_list v CHR 0x7B = 0" "List.count_list v CHR 0x7D = 0"
  using assms by (auto simp: plain_def marks_def count_list_0_iff)

lemma occs_key [simp]:
  "List.count_list (key k) c = (if c = CHR 0x22 then 2 else if c = CHR 0x20 \<or> c = CHR 0x3A then 1 else 0) + List.count_list k c"
  "List.count_list (quoted v) c = (if c = CHR 0x22 then 2 else 0) + List.count_list v c"
  "List.count_list qt c = (if c = CHR 0x22 then 1 else 0)" "List.count_list nl c = (if c = CHR 0x0A then 1 else 0)"
  "List.count_list tab c = (if c = CHR 0x09 then 1 else 0)"
  by (auto simp: key_def quoted_def qt_def nl_def tab_def)

text \<open>Quotes in pairs, braces and brackets as many open as closed; the lines that name a module.\<close>

definition balanced :: "string list \<Rightarrow> bool" where
  "balanced out \<longleftrightarrow> even (occs out CHR 0x22) \<and> occs out CHR 0x7B = occs out CHR 0x7D \<and> occs out CHR 0x5B = occs out CHR 0x5D"

definition name_line :: "string \<Rightarrow> bool" where
  "name_line l \<longleftrightarrow> take 10 l = tab @ tab @ key ''Name''"

definition fine :: "string list \<Rightarrow> bool" where
  "fine out \<longleftrightarrow> balanced out \<and> List.filter name_line out = []"

lemma fine_Nil [simp]: "fine []"
  by (simp add: fine_def balanced_def)

lemma fine_append: "fine a \<Longrightarrow> fine b \<Longrightarrow> fine (a @ b)"
  by (simp add: fine_def balanced_def)

text \<open>The names the client chose: topics and paths.\<close>

definition plain_srcs :: "sys \<Rightarrow> bool" where
  "plain_srcs s \<longleftrightarrow> (\<forall>p t. s_srcs s p = Some t \<longrightarrow> (case es_key t of KeyTopic topic \<Rightarrow> plain topic
     | KeyPath path events \<Rightarrow> plain path | _ \<Rightarrow> True))"

lemma plain_srcs_same: "same_but_mem s s' \<Longrightarrow> plain_srcs s \<Longrightarrow> plain_srcs s'"
  unfolding same_but_mem_def plain_srcs_def by (metis sys_srcs_same)

lemma dump_sub_fine:
  assumes "dump_sub P tab n s x = Some ts" and "plain_srcs s"
  shows "fine ts"
proof -
  obtain t where t: "s_srcs s (snd x) = Some t" using assms(1) by (auto simp: dump_sub_def split: option.splits prod.splits)
  show ?thesis
  proof (cases "has (es_flags t) M_SRC_INTERNAL")
    case False
    with assms(1) t obtain topic where "es_key t = KeyTopic topic" and ts: "ts = [tab @ tab @ ''{'' @ nl,
        tab @ tab @ tab @ key ''Flags'' @ quoted (show_x (unat (es_flags t))) @ nl,
        tab @ tab @ tab @ key ''UP'' @ quoted (show_p (pr_addr P (es_userptr t))) @ '','' @ nl,
        tab @ tab @ tab @ key ''Topic'' @ quoted topic @ nl,
        tab @ tab @ ''}'' @ (if fst x + 1 < n then '','' else '' '') @ nl]"
      by (auto simp: dump_sub_def case_prod_beta split: src_key.splits)
    then have "plain topic" using assms(2) t by (fastforce simp: plain_srcs_def)
    then have "balanced ts" unfolding ts balanced_def by simp
    moreover have "List.filter name_line ts = []" unfolding ts name_line_def by (simp add: tab_def key_def qt_def)
    ultimately show ?thesis by (simp add: fine_def)
  qed (use assms t in \<open>simp add: dump_sub_def case_prod_beta\<close>)
qed

lemma dump_key_fine:
  assumes "dump_key tab t = Some ts" and "s_srcs s p = Some t" and "plain_srcs s"
  shows "fine ts"
proof -
  have *: "plain path" if "es_key t = KeyPath path e" for path e
    using assms(2,3) that by (fastforce simp: plain_srcs_def)
  have "balanced ts"
    using assms(1) * by (auto simp: dump_key_def Let_def balanced_def split: m_src_types.splits src_key.splits)
  moreover have "List.filter name_line ts = []"
    using assms(1)
    by (auto simp: dump_key_def Let_def name_line_def tab_def key_def qt_def split: m_src_types.splits src_key.splits)
  ultimately show ?thesis by (simp add: fine_def)
qed

lemma dump_src_fine:
  assumes "dump_src P tab n s x = Some ts" and "plain_srcs s"
  shows "fine ts"
proof -
  obtain t where t: "s_srcs s (snd x) = Some t" using assms(1) by (auto simp: dump_src_def split: option.splits prod.splits)
  show ?thesis
  proof (cases "has (es_flags t) M_SRC_INTERNAL")
    case False
    with assms(1) t obtain ks where ks: "dump_key tab t = Some ks" and ts: "ts = [tab @ tab @ ''{'' @ nl,
        tab @ tab @ tab @ key ''Flags'' @ quoted (show_x (unat (es_flags t))) @ '','' @ nl,
        tab @ tab @ tab @ key ''UP'' @ quoted (show_p (pr_addr P (es_userptr t))) @ '','' @ nl] @ ks @
        [tab @ tab @ ''}'' @ (if fst x + 1 < n then '','' else '' '') @ nl]"
      by (auto simp: dump_src_def case_prod_beta bind_eq_Some_conv)
    have "fine ks" by (rule dump_key_fine [OF ks t assms(2)])
    then have "balanced ts" "List.filter name_line ts = []"
      unfolding ts fine_def balanced_def by (simp, simp add: name_line_def tab_def key_def qt_def)
    then show ?thesis by (simp add: fine_def)
  qed (use assms t in \<open>simp add: dump_src_def case_prod_beta\<close>)
qed

lemma dump_all_fine:
  assumes "dump_all f E is s = Some (out, s')" and "\<And>n s1 x ts. plain_srcs s1 \<Longrightarrow> f n s1 x = Some ts \<Longrightarrow> fine ts"
    and "plain_srcs s"
  shows "fine out"
proof -
  have fold: "fine out'" if "fold_opt (\<lambda>x (out, s). map_option (\<lambda>ts. (out @ ts, s)) (f n s x)) xs (acc, s1) = Some (out', s2)"
    "fine acc" "plain_srcs s1" for n xs acc s1 out' s2
    using that by (induction xs arbitrary: acc) (auto simp: bind_eq_Some_conv intro: fine_append assms(2))
  obtain js s1 where js: "foreach_elems E is s = (js, s1)" by fastforce
  then have "plain_srcs s1" using assms(3) plain_srcs_same same_but_mem_foreach by blast
  with assms(1) js fold [of "length is" "List.enumerate 0 js" "[]" s1] show ?thesis by (simp add: dump_all_def)
qed

lemma src_names_plain [simp]: "plain (src_names ty)"
  by (cases ty) (simp_all add: src_names_def plain_def marks_def)

lemma dump_types_fine:
  assumes "fold_opt (dump_type P E m tab) tys (acc, s) = Some (out, s')" and "fine acc" and "plain_srcs s"
  shows "fine out"
  using assms
proof (induction tys arbitrary: acc s)
  case (Cons ty tys)
  obtain r where r: "dump_type P E m tab ty (acc, s) = Some r" "fold_opt (dump_type P E m tab) tys r = Some (out, s')"
    using Cons.prems(1) by (auto simp: bind_eq_Some_conv)
  from r(1) obtain ts s1 where ts: "dump_all (dump_src P tab) E (srcs_list m ty s) s = Some (ts, s1)" and
    r': "r = (acc @ [tab @ tab @ key (src_names ty) @ ''['' @ nl] @ ts @
           [tab @ tab @ '']'' @ (if ty = last src_types then '' '' else '','') @ nl], s1)"
    by (auto simp: dump_type_def bind_eq_Some_conv)
  note rest = r(2) [unfolded r']
  have "fine ts" by (rule dump_all_fine [OF ts _ Cons.prems(3)]) (rule dump_src_fine)
  moreover have "\<not> name_line (tab @ tab @ key (src_names ty) @ ''['' @ nl)"
    by (cases ty) (simp_all add: name_line_def src_names_def tab_def key_def qt_def)
  moreover have "\<not> name_line (tab @ tab @ '']'' @ x)" for x by (simp add: name_line_def tab_def key_def qt_def)
  ultimately have "fine ([tab @ tab @ key (src_names ty) @ ''['' @ nl] @ ts @
      [tab @ tab @ '']'' @ (if ty = last src_types then '' '' else '','') @ nl])"
    by (simp add: fine_def balanced_def)
  with Cons.prems(2) show ?case
    by (rule fine_append [THEN Cons.IH [OF rest]]) (use Cons.prems(3) dump_all_same [OF ts] plain_srcs_same in blast)
qed simp

definition name_of :: "sys \<Rightarrow> mid \<Rightarrow> string" where
  "name_of s m = tab @ tab @ key ''Name'' @ quoted ([CHR 0x27] @ md_name (s_mods s m)) @ '','' @ nl"

lemma mod_dump_shape:
  assumes "mod_dump P E m tab s = Some (out, s')" and "plain_srcs s" and "plain (md_name (s_mods s m))"
    and "\<And>a b. plain (pr_double P a b)"
  shows "balanced out \<and> List.filter name_line out = [name_of s m]"
proof -
  let ?d = "s_mods s m"
  obtain n s1 subs s2 srcs where 1: "m_mod_src_len E m M_SRC_TYPE_END s = Some (n, s1)" and 2: "dump_all (dump_sub P tab) E
       (case md_subs ?d of None \<Rightarrow> [] | Some subs \<Rightarrow> List.map (snd \<circ> snd) subs) s1 = Some (subs, s2)"
    and 3: "fold_opt (dump_type P E m tab) (tl src_types) ([], s2) = Some (srcs, s')"
    and out: "out = dump_head P tab ?d @ dump_stats P tab n ?d (s_now s1) @ [tab @ tab @ key ''Subs'' @ ''['' @ nl] @ subs @
           [tab @ tab @ ''],'' @ nl] @ srcs @ [tab @ ''}'' @ nl]"
    using assms(1) by (auto simp: mod_dump_def Let_def bind_eq_Some_conv)
  have p1: "plain_srcs s1" by (rule plain_srcs_same [OF m_mod_src_len_same [OF 1] assms(2)])
  have p2: "plain_srcs s2" by (rule plain_srcs_same [OF dump_all_same [OF 2] p1])
  have fine: "fine subs" "fine srcs"
    using dump_all_fine [OF 2 dump_sub_fine p1] dump_types_fine [OF 3 fine_Nil p2] by simp_all
  have "balanced out"
    using fine assms(3,4) unfolding out fine_def balanced_def dump_head_def dump_stats_def Let_def by simp
  moreover have "List.filter name_line (dump_head P tab ?d) = [name_of s m]"
    by (simp add: dump_head_def name_of_def name_line_def tab_def key_def qt_def)
  moreover have "List.filter name_line (dump_stats P tab n ?d (s_now s1)) = []"
    by (simp add: dump_stats_def Let_def name_line_def tab_def key_def qt_def)
  ultimately show ?thesis
    using fine unfolding out fine_def by (simp add: name_line_def tab_def key_def qt_def)
qed

lemma mod_dumps_shape:
  assumes "fold_opt (\<lambda>m (out, s). map_option (\<lambda>(ts, s'). (out @ ts, s')) (mod_dump P E m tab s)) ms (acc, s) = Some (out, s')"
    and "balanced acc" and "plain_srcs s" and "\<And>m. m \<in> set ms \<Longrightarrow> plain (md_name (s_mods s m))"
    and "\<And>a b. plain (pr_double P a b)"
  shows "balanced out \<and> List.filter name_line out = List.filter name_line acc @ List.map (name_of s) ms"
  using assms(1-4)
proof (induction ms arbitrary: acc s)
  case (Cons m ms)
  then obtain ts s1 where ts: "mod_dump P E m tab s = Some (ts, s1)" and
    rest: "fold_opt (\<lambda>m (out, s). map_option (\<lambda>(ts, s'). (out @ ts, s')) (mod_dump P E m tab s)) ms (acc @ ts, s1) = Some (out, s')"
    by (auto simp: bind_eq_Some_conv)
  note same = mod_dump_same [OF ts]
  have mods: "s_mods s1 = s_mods s" using same unfolding same_but_mem_def by (metis sys_srcs_same(2))
  have one: "balanced ts" "List.filter name_line ts = [name_of s m]"
    using mod_dump_shape [OF ts Cons.prems(3) _ assms(5)] Cons.prems(4) by simp_all
  have "balanced out \<and> List.filter name_line out = List.filter name_line (acc @ ts) @ List.map (name_of s1) ms"
    by (rule Cons.IH [OF rest]) (use Cons.prems one plain_srcs_same [OF same] mods in \<open>simp_all add: balanced_def\<close>)
  then show ?case using one mods by (simp add: name_of_def [abs_def])
qed simp


text \<open>A module with a threshold that is not internal cannot be dumped.\<close>

lemma dump_src_thresh:
  "s_srcs s p = Some t \<Longrightarrow> es_type t = M_SRC_TYPE_THRESH \<Longrightarrow> \<not> has (es_flags t) M_SRC_INTERNAL \<Longrightarrow>
    dump_src P ind n s (i, p) = None"
  by (simp add: dump_src_def dump_key_def Let_def)

definition plain_printf :: printf where
  "plain_printf = \<lparr>pr_double = \<lambda>_ _. ''0.5'', pr_addr = \<lambda>_. 16\<rparr>"

text \<open>The demonstration state, with a subscription and two sources of module 1.\<close>

definition dump_sys :: sys where
  "dump_sys = live_sys\<lparr>s_mods := (\<lambda>_. new_mod 0 NULL)(1 := live_mod\<lparr>md_srcs := (\<lambda>_. Some Leaf)(
       M_SRC_TYPE_FD := Some (Node Leaf 11 Leaf), M_SRC_TYPE_PATH := Some (Node Leaf 12 Leaf)),
       md_subs := Some [(''t'', NULL, 13)]\<rparr>, 2 := live_mod\<lparr>md_name := ''bb''\<rparr>),
     s_srcs := (\<lambda>_. None)(
       11 := Some \<lparr>es_type = M_SRC_TYPE_FD, es_fd = 7, es_key = KeyFd 7, es_alarm = (0, 0), es_retval = 0, es_flags = 2,
         es_ev = True, es_mod = 1, es_userptr = User 5, es_refs = 1\<rparr>,
       12 := Some \<lparr>es_type = M_SRC_TYPE_PATH, es_fd = 8, es_key = KeyPath ''/tmp'' 2, es_alarm = (0, 0), es_retval = 0,
         es_flags = 2, es_ev = True, es_mod = 1, es_userptr = User 5, es_refs = 1\<rparr>,
       13 := Some \<lparr>es_type = M_SRC_TYPE_PS, es_fd = -1, es_key = KeyTopic ''t'', es_alarm = (0, 0), es_retval = 0,
         es_flags = 2, es_ev = False, es_mod = 1, es_userptr = User 5, es_refs = 1\<rparr>)\<rparr>"

lemmas dump_run = m_ctx_dump_def mod_dump_def dump_type_def dump_all_def dump_src_def dump_sub_def dump_key_def
  m_mod_src_len_def M_RET_ASSERT_def M_SRC_TYPE_END_def src_types_def count_list_def count_src_def M_MOD_ASSERT_def m_mod_is_def m_ctx_def foreach_elems_def alloc_def
  srcs_list_def src_types_def has_def M_SRC_INTERNAL_def

lemma dump_sys_dumps: "\<exists>r out s'. m_ctx_dump plain_printf good_env dump_sys = Some (r, out, s')"
  by (simp add: dump_run dump_sys_def run_state Let_def)


end
