(* ===== verification/FsFacts.thy ===== *)
theory FsFacts
  imports Fs DumpFacts
begin

text \<open>
  What the file system of \<^verbatim>\<open>fs.c\<close> keeps: clients in the list of their module, references of
  modules, poll handles; what a reader gets; and where it goes wrong.
\<close>

subsection \<open>Histories of requests and notifications\<close>

text \<open>
  What may happen while a context loops and when the loop ends: requests of libfuse, and what the library
  tells the file system: events for a module, a module deregistered, and \<^verbatim>\<open>fs_ctx_stopped\<close> for a
  module once the loop is over.
\<close>

datatype fs_op = FsOpen string | FsRelease ptr | FsPoll ptr ptr | FsIoctl ptr bool bool fs_cmd
  | FsNotify mid "eid list" | FsCleanup mid | FsStopped mid

text \<open>
  The side of libfuse, which knows nothing of clients: the handles that are open, with the path they were
  opened by, the poll handles it made, and whether requests are still served: they are received
  by the loop, so that there is none after the first \<^verbatim>\<open>fs_ctx_stopped\<close>. A handle is open from the
  \<^verbatim>\<open>fs_open\<close> that returned it to its one \<^verbatim>\<open>fs_release\<close>; a poll handle is new when it is passed.
\<close>

record fuse_side =
  fu_open :: "(ptr \<times> string) list"
  fu_seen :: "ptr list"
  fu_serving :: bool

definition fuse_new :: fuse_side where
  "fuse_new = \<lparr>fu_open = [], fu_seen = [], fu_serving = True\<rparr>"

definition is_open :: "ptr \<Rightarrow> fuse_side \<Rightarrow> bool" where
  "is_open fh f \<longleftrightarrow> fu_serving f \<and> map_of (fu_open f) fh \<noteq> None"

text \<open>\<open>held\<close>: the references to a module that are not those of clients; the library tells of modules that have one.\<close>

fun fs_asks :: "(mid \<Rightarrow> nat) \<Rightarrow> fs_op \<Rightarrow> fuse_side \<Rightarrow> bool" where
  "fs_asks held (FsOpen path) f \<longleftrightarrow> fu_serving f"
| "fs_asks held (FsRelease fh) f \<longleftrightarrow> is_open fh f"
| "fs_asks held (FsPoll fh ph) f \<longleftrightarrow> is_open fh f \<and> (ph = NULL \<or> ph \<notin> set (fu_seen f))"
| "fs_asks held (FsIoctl fh compat_fl dir_fl cmd) f \<longleftrightarrow> is_open fh f"
| "fs_asks held (FsNotify m evts) f \<longleftrightarrow> m = NULL \<or> held m > 0"
| "fs_asks held (FsCleanup m) f \<longleftrightarrow> held m > 0"
| "fs_asks held (FsStopped m) f \<longleftrightarrow> m = NULL \<or> held m > 0"

fun fs_do :: "env \<Rightarrow> fs_op \<Rightarrow> fuse_side \<times> fs_world \<Rightarrow> (fuse_side \<times> fs_world) option" where
  "fs_do E (FsOpen path) (f, w) = map_option (\<lambda>((r, fh), w').
     (if r = 0 then f\<lparr>fu_open := (fh, path) # fu_open f\<rparr> else f, w')) (fs_open E path w)"
| "fs_do E (FsRelease fh) (f, w) = map_option (\<lambda>(r, w').
     (f\<lparr>fu_open := List.filter (\<lambda>(h, _). h \<noteq> fh) (fu_open f)\<rparr>, w')) (fs_release E fh w)"
| "fs_do E (FsPoll fh ph) (f, w) = map_option (\<lambda>(r, w'). (f\<lparr>fu_seen := ph # fu_seen f\<rparr>, w')) (fs_poll fh ph w)"
| "fs_do E (FsIoctl fh compat_fl dir_fl cmd) (f, w) = map_option (\<lambda>_. (f, w)) (fs_ioctl E fh compat_fl dir_fl cmd w)"
| "fs_do E (FsNotify m evts) (f, w) = map_option (Pair f) (fs_notify E m evts w)"
| "fs_do E (FsCleanup m) (f, w) = map_option (Pair f) (fs_cleanup E m w)"
| "fs_do E (FsStopped m) (f, w) = map_option (Pair (f\<lparr>fu_serving := False\<rparr>)) (fs_ctx_stopped E m w)"

text \<open>A history, undefined as soon as one of its steps is; and whether all it asks may be asked.\<close>

primrec fs_run :: "env \<Rightarrow> fs_op list \<Rightarrow> fuse_side \<times> fs_world \<Rightarrow> (fuse_side \<times> fs_world) option" where
  "fs_run E [] fw = Some fw"
| "fs_run E (x # xs) fw = Option.bind (fs_do E x fw) (fs_run E xs)"

primrec fs_legal :: "env \<Rightarrow> (mid \<Rightarrow> nat) \<Rightarrow> fs_op list \<Rightarrow> fuse_side \<times> fs_world \<Rightarrow> bool" where
  "fs_legal E held [] fw = True"
| "fs_legal E held (x # xs) fw \<longleftrightarrow> fs_asks held x (fst fw) \<and>
     (case fs_do E x fw of None \<Rightarrow> True | Some fw' \<Rightarrow> fs_legal E held xs fw')"

subsection \<open>The invariant\<close>

definition lists_ok :: "(mid \<Rightarrow> nat) \<Rightarrow> fs_world \<Rightarrow> bool" where
  "lists_ok held w \<longleftrightarrow> (\<forall>m cs. fw_fs w m = Some cs \<longrightarrow> held m > 0 \<and> distinct cs \<and>
     (\<forall>p\<in>set cs. \<exists>cl. fw_clients w p = Some cl \<and> cl_mod cl = m))"

definition clients_ok :: "fs_world \<Rightarrow> bool" where
  "clients_ok w \<longleftrightarrow> (\<forall>p cl. fw_clients w p = Some cl \<longrightarrow> p \<noteq> NULL \<and> p \<le> s_next (fw_sys w) \<and>
     (\<exists>cs. fw_fs w (cl_mod cl) = Some cs \<and> p \<in> set cs))"

definition refs_ok :: "(mid \<Rightarrow> nat) \<Rightarrow> fs_world \<Rightarrow> bool" where
  "refs_ok held w \<longleftrightarrow> (\<forall>m. fw_refs w m = held m + (case fw_fs w m of None \<Rightarrow> 0 | Some cs \<Rightarrow> length cs))"

definition handles_ok :: "fs_world \<Rightarrow> bool" where
  "handles_ok w \<longleftrightarrow> distinct (fw_gone w) \<and>
     (\<forall>p cl. fw_clients w p = Some cl \<longrightarrow> cl_ph cl \<noteq> NULL \<longrightarrow> cl_ph cl \<notin> set (fw_gone w) \<and>
        (\<forall>q cl'. fw_clients w q = Some cl' \<longrightarrow> cl_ph cl' = cl_ph cl \<longrightarrow> q = p))"

definition fs_ok :: "(mid \<Rightarrow> nat) \<Rightarrow> fs_world \<Rightarrow> bool" where
  "fs_ok held w \<longleftrightarrow> lists_ok held w \<and> clients_ok w \<and> refs_ok held w \<and> handles_ok w \<and>
     (\<forall>m \<in> snd ` set (c_modules (fw_sys w)). held m > 0)"

lemmas fs_ok_defs = fs_ok_def lists_ok_def clients_ok_def refs_ok_def handles_ok_def

lemma fs_listed:
  assumes "fs_ok held w" and "fw_fs w m = Some cs"
  shows "held m > 0" and "distinct cs" and "p \<in> set cs \<Longrightarrow> fw_clients w p = Some cl \<Longrightarrow> cl_mod cl = m"
    and "p \<in> set cs \<Longrightarrow> \<exists>cl. fw_clients w p = Some cl"
proof -
  have *: "held m > 0 \<and> distinct cs \<and> (\<forall>p\<in>set cs. \<exists>cl. fw_clients w p = Some cl \<and> cl_mod cl = m)"
    using assms unfolding fs_ok_def lists_ok_def by blast
  then show "held m > 0" "distinct cs" by simp_all
  show "p \<in> set cs \<Longrightarrow> \<exists>cl. fw_clients w p = Some cl" using * by blast
  show "p \<in> set cs \<Longrightarrow> fw_clients w p = Some cl \<Longrightarrow> cl_mod cl = m" using * by (metis option.inject)
qed

lemma fs_client:
  assumes "fs_ok held w" and "fw_clients w p = Some cl"
  shows "p \<noteq> NULL" and "p \<le> s_next (fw_sys w)" and "\<exists>cs. fw_fs w (cl_mod cl) = Some cs \<and> p \<in> set cs"
  using assms unfolding fs_ok_def clients_ok_def by blast+

lemma fs_ok_live: "fs_ok held w \<Longrightarrow> held m > 0 \<Longrightarrow> the_mod m w = Some (s_mods (fw_sys w) m)"
  by (simp add: fs_ok_def refs_ok_def the_mod_def)

text \<open>Only the table and the allocation counter of the core matter.\<close>

lemma fs_ok_sys:
  assumes "fs_ok held w" and "c_modules s = c_modules (fw_sys w)" and "s_next (fw_sys w) \<le> s_next s"
  shows "fs_ok held (w\<lparr>fw_sys := s\<rparr>)"
  using assms by (fastforce simp: fs_ok_defs)

lemma fs_alloc_works:
  "(\<And>n. e_mem E n) \<Longrightarrow> fs_alloc E w = (Suc (s_next (fw_sys w)), w\<lparr>fw_sys := (fw_sys w)\<lparr>s_next := Suc (s_next (fw_sys w))\<rparr>\<rparr>)"
  by (simp add: fs_alloc_def alloc_def)

lemma foreach_next:
  assumes "\<And>n. e_mem E n"
  obtains k where "foreach_elems E xs s = (xs, s\<lparr>s_next := k\<rparr>)" and "s_next s \<le> k"
proof (cases "xs = []")
  case True
  then show ?thesis using that [of "s_next s"] by (simp add: foreach_elems_def)
next
  case False
  then show ?thesis using that [of "Suc (s_next s)"] assms by (simp add: foreach_elems_def alloc_def)
qed

subsection \<open>Clients come and go\<close>

definition drop_client :: "ptr \<Rightarrow> fs_client \<Rightarrow> fs_world \<Rightarrow> fs_world" where
  "drop_client p cl w = w\<lparr>fw_refs := (fw_refs w)(cl_mod cl := fw_refs w (cl_mod cl) - 1),
     fw_clients := (fw_clients w)(p := None),
     fw_gone := (if cl_ph cl \<noteq> NULL then cl_ph cl # fw_gone w else fw_gone w)\<rparr>"

lemma client_dtor_drops:
  assumes "fs_ok held w" and "fw_clients w p = Some cl"
  shows "client_dtor E p (w\<lparr>fw_fs := f\<rparr>) = Some ((drop_client p cl w)\<lparr>fw_fs := f\<rparr>)"
proof -
  obtain cs where cs: "fw_fs w (cl_mod cl) = Some cs" "p \<in> set cs" using fs_client(3) [OF assms] by blast
  then have "held (cl_mod cl) > 0" "length cs > 0" using fs_listed(1) [OF assms(1)] by auto
  moreover have "fw_refs w (cl_mod cl) = held (cl_mod cl) + length cs" using assms(1) cs(1) by (simp add: fs_ok_def refs_ok_def)
  ultimately have "fw_refs w (cl_mod cl) > 1" by linarith
  moreover have "cl_ph cl \<noteq> NULL \<Longrightarrow> cl_ph cl \<notin> set (fw_gone w)" using assms by (auto simp: fs_ok_def handles_ok_def)
  ultimately show ?thesis
    using assms(2) by (auto simp: client_dtor_def pollhandle_destroy_def unref_mod_def the_mod_def drop_client_def)
qed

lemma drop_client_ok:
  assumes "fs_ok held w" and "fw_clients w p = Some cl" and "fw_fs w m = Some cs" and "p \<in> set cs"
  shows "fs_ok held ((drop_client p cl w)\<lparr>fw_fs := (fw_fs w)(m := Some (remove1 p cs))\<rparr>)"
proof -
  let ?w = "(drop_client p cl w)\<lparr>fw_fs := (fw_fs w)(m := Some (remove1 p cs))\<rparr>"
  have ok: "lists_ok held w" "clients_ok w" "refs_ok held w" "handles_ok w"
    "\<forall>m \<in> snd ` set (c_modules (fw_sys w)). held m > 0"
    using assms(1) by (simp_all add: fs_ok_def)
  have m: "cl_mod cl = m" and cs: "distinct cs" and h: "held m > 0" using fs_listed [OF assms(1,3)] assms(2,4) by blast+
  have "lists_ok held ?w"
    unfolding lists_ok_def
  proof (intro allI impI)
    fix m' cs'
    assume *: "fw_fs ?w m' = Some cs'"
    have sub: "\<exists>c. fw_clients w q = Some c \<and> cl_mod c = k" if "fw_fs w k = Some ds" "q \<in> set ds" for k ds q
      using ok(1) that unfolding lists_ok_def by blast
    show "held m' > 0 \<and> distinct cs' \<and> (\<forall>q\<in>set cs'. \<exists>c. fw_clients ?w q = Some c \<and> cl_mod c = m')"
    proof (cases "m' = m")
      case True
      with * have "cs' = remove1 p cs" by simp
      with True cs h sub [OF assms(3)] show ?thesis by (auto simp: drop_client_def)
    next
      case False
      with * have f: "fw_fs w m' = Some cs'" by simp
      then have "p \<notin> set cs'" using fs_listed(3) [OF assms(1) f _ assms(2)] m False by blast
      then show ?thesis using fs_listed(1,2) [OF assms(1) f] sub [OF f] by (auto simp: drop_client_def)
    qed
  qed
  moreover have "clients_ok ?w" using ok(2) assms(3) cs by (fastforce simp: clients_ok_def drop_client_def)
  moreover obtain n where "length cs = Suc n" using assms(4) by (cases cs) auto
  then have "refs_ok held ?w"
    using ok(3) assms(3,4) m by (auto simp: refs_ok_def drop_client_def length_remove1)
  moreover have "handles_ok ?w" using ok(4) assms(2) by (auto simp: handles_ok_def drop_client_def)
  ultimately show ?thesis using ok(5) by (simp add: fs_ok_def drop_client_def)
qed

text \<open>Opening adds a client at the head of the list of its module.\<close>

definition opened :: "mid \<Rightarrow> ptr \<Rightarrow> ptr list \<Rightarrow> nat \<Rightarrow> fs_world \<Rightarrow> fs_world" where
  "opened m cl cs k w = w\<lparr>fw_sys := (fw_sys w)\<lparr>s_next := k\<rparr>,
      fw_refs := (fw_refs w)(m := fw_refs w m + 1),
      fw_clients := (fw_clients w)(cl := Some \<lparr>cl_mod = m, cl_ph = NULL, cl_in_evt = 0, cl_read_all = False\<rparr>),
      fw_fs := (fw_fs w)(m := Some (cl # cs))\<rparr>"

lemma fs_open_ok:
  assumes ok: "fs_ok held w" and mem: "\<And>n. e_mem E n"
  shows "(\<exists>r. r \<noteq> 0 \<and> fs_open E path w = Some ((r, NULL), w)) \<or>
    (\<exists>m cl cs k. map_of (c_modules (fw_sys w)) (tl path) = Some m \<and>
       fs_open E path w = Some ((0, cl), opened m cl cs k w) \<and> fs_ok held (opened m cl cs k w))"
proof (cases "path = [] \<or> map_of (c_modules (fw_sys w)) (tl path) = None")
  case True
  then show ?thesis by (auto simp: fs_open_def)
next
  case False
  then obtain m where m: "map_of (c_modules (fw_sys w)) (tl path) = Some m" and path: "path \<noteq> []" by auto
  then have held: "held m > 0" using ok map_of_SomeD by (fastforce simp: fs_ok_def)
  define cl where "cl = Suc (s_next (fw_sys w))"
  define cs where "cs = (case fw_fs w m of None \<Rightarrow> [] | Some cs \<Rightarrow> cs)"
  have fresh: "fw_clients w cl = None" using fs_client(2) [OF ok, of cl] by (cases "fw_clients w cl") (auto simp: cl_def)
  have new: "cl \<notin> set cs"
  proof (cases "fw_fs w m")
    case (Some x)
    with fs_listed(4) [OF ok Some, of cl] fresh show ?thesis by (auto simp: cs_def)
  qed (simp add: cs_def)
  have live: "fw_refs w m > 0" using ok held by (simp add: fs_ok_def refs_ok_def)
  obtain k where k: "s_next (fw_sys w) < k" and w': "fs_open E path w = Some ((0, cl), opened m cl cs k w)"
    using that [of "if fw_fs w m = None then s_next (fw_sys w) + 4 else s_next (fw_sys w) + 2"] path m live
    by (cases "fw_fs w m")
       (auto simp: fs_open_def fs_alloc_works [OF mem] open_fs_def the_mod_def set_fs_def ref_mod_def set_client_def cl_def cs_def
         opened_def)
  let ?w = "w\<lparr>fw_sys := (fw_sys w)\<lparr>s_next := k\<rparr>,
      fw_refs := (fw_refs w)(m := fw_refs w m + 1),
      fw_clients := (fw_clients w)(cl := Some \<lparr>cl_mod = m, cl_ph = NULL, cl_in_evt = 0, cl_read_all = False\<rparr>),
      fw_fs := (fw_fs w)(m := Some (cl # cs))\<rparr>"
  have lists: "lists_ok held ?w"
    unfolding lists_ok_def
  proof (intro allI impI)
    fix m' cs'
    assume *: "fw_fs ?w m' = Some cs'"
    show "held m' > 0 \<and> distinct cs' \<and> (\<forall>p\<in>set cs'. \<exists>c. fw_clients ?w p = Some c \<and> cl_mod c = m')"
    proof (cases "m' = m")
      case True
      have "distinct cs \<and> (\<forall>p\<in>set cs. \<exists>c. fw_clients w p = Some c \<and> cl_mod c = m)"
        using ok by (auto simp: cs_def fs_ok_def lists_ok_def split: option.splits)
      with True * held new show ?thesis by auto
    next
      case False
      with * have f: "fw_fs w m' = Some cs'" by simp
      then have "cl \<notin> set cs'" using fs_listed(4) [OF ok f, of cl] fresh by auto
      moreover have "held m' > 0 \<and> distinct cs' \<and> (\<forall>p\<in>set cs'. \<exists>c. fw_clients w p = Some c \<and> cl_mod c = m')"
        using ok f unfolding fs_ok_def lists_ok_def by blast
      ultimately show ?thesis by (auto simp: fun_upd_def)
    qed
  qed
  have clients: "clients_ok ?w"
    unfolding clients_ok_def
  proof (intro allI impI)
    fix p c
    assume *: "fw_clients ?w p = Some c"
    show "p \<noteq> NULL \<and> p \<le> s_next (fw_sys ?w) \<and> (\<exists>cs. fw_fs ?w (cl_mod c) = Some cs \<and> p \<in> set cs)"
    proof (cases "p = cl")
      case True
      with * k show ?thesis by (auto simp: cl_def)
    next
      case False
      with * have f: "fw_clients w p = Some c" by simp
      from fs_client [OF ok f] k show ?thesis by (auto simp: cs_def)
    qed
  qed
  have "refs_ok held ?w" using ok by (auto simp: fs_ok_def refs_ok_def cs_def split: option.splits)
  moreover have "handles_ok ?w" using ok fresh by (auto simp: fs_ok_def handles_ok_def)
  ultimately have "fs_ok held ?w" using lists clients ok by (auto simp: fs_ok_def)
  then show ?thesis using w' m unfolding opened_def by blast
qed

text \<open>
  What serving and notifying do to the clients there are: none is made, each stays with its module
  and keeps its poll handle or gives it up, and only poll handles of clients are destroyed.
\<close>

definition tame :: "fs_world \<Rightarrow> fs_world \<Rightarrow> bool" where
  "tame w w' \<longleftrightarrow> (\<forall>p cl'. fw_clients w' p = Some cl' \<longrightarrow> (\<exists>cl. fw_clients w p = Some cl \<and> cl_mod cl' = cl_mod cl \<and>
       (cl_ph cl' = NULL \<or> cl_ph cl' = cl_ph cl))) \<and>
     (\<forall>ph \<in> set (fw_gone w'). ph \<in> set (fw_gone w) \<or> (\<exists>p cl. fw_clients w p = Some cl \<and> cl_ph cl = ph \<and> ph \<noteq> NULL))"

lemma tame_refl: "reflp tame"
  by (auto simp: tame_def intro: reflpI)

lemma tame_trans: "transp tame"
proof (rule transpI)
  fix u v w
  assume uv: "tame u v" and vw: "tame v w"
  have "\<exists>cl. fw_clients u p = Some cl \<and> cl_mod cl' = cl_mod cl \<and> (cl_ph cl' = NULL \<or> cl_ph cl' = cl_ph cl)"
    if c: "fw_clients w p = Some cl'" for p cl'
  proof -
    obtain d where d: "fw_clients v p = Some d" "cl_mod cl' = cl_mod d" "cl_ph cl' = NULL \<or> cl_ph cl' = cl_ph d"
      using vw c unfolding tame_def by blast
    then obtain cl where "fw_clients u p = Some cl" "cl_mod d = cl_mod cl" "cl_ph d = NULL \<or> cl_ph d = cl_ph cl"
      using uv unfolding tame_def by blast
    with d show ?thesis by auto
  qed
  moreover have "ph \<in> set (fw_gone u) \<or> (\<exists>p cl. fw_clients u p = Some cl \<and> cl_ph cl = ph \<and> ph \<noteq> NULL)"
    if "ph \<in> set (fw_gone w)" for ph
  proof (cases "ph \<in> set (fw_gone v)")
    case True
    with uv show ?thesis unfolding tame_def by blast
  next
    case False
    with that vw obtain p d where d: "fw_clients v p = Some d" "cl_ph d = ph" "ph \<noteq> NULL" unfolding tame_def by blast
    with uv obtain cl where "fw_clients u p = Some cl" "cl_ph d = NULL \<or> cl_ph d = cl_ph cl" unfolding tame_def by blast
    with d show ?thesis by auto
  qed
  ultimately show "tame u w" unfolding tame_def by blast
qed

lemma unref_mod_fields: "unref_mod E m w = Some w' \<Longrightarrow> fw_clients w' = fw_clients w \<and> fw_gone w' = fw_gone w"
  by (auto simp: unref_mod_def bind_eq_Some_conv split: if_splits)

lemma client_dtor_tame: "client_dtor E p w = Some w' \<Longrightarrow> tame w w'"
proof -
  assume d: "client_dtor E p w = Some w'"
  then obtain cl w1 w2 where cl: "fw_clients w p = Some cl"
    and w1: "(if cl_ph cl \<noteq> NULL then pollhandle_destroy (cl_ph cl) w else Some w) = Some w1"
    and w2: "unref_mod E (cl_mod cl) w1 = Some w2" and w': "w' = w2\<lparr>fw_clients := (fw_clients w2)(p := None)\<rparr>"
    by (auto simp: client_dtor_def bind_eq_Some_conv)
  have "fw_clients w1 = fw_clients w" "set (fw_gone w1) \<subseteq> set (fw_gone w) \<union> ({cl_ph cl} - {NULL})"
    using w1 by (auto simp: pollhandle_destroy_def split: if_splits)
  moreover have "fw_clients w2 = fw_clients w1" "fw_gone w2 = fw_gone w1" using unref_mod_fields [OF w2] by simp_all
  ultimately have "fw_clients w' = (fw_clients w)(p := None)" "set (fw_gone w') \<subseteq> set (fw_gone w) \<union> ({cl_ph cl} - {NULL})"
    by (simp_all add: w')
  with cl show "tame w w'" unfolding tame_def by auto
qed

lemma fs_release_ok:
  assumes ok: "fs_ok held w" and "fw_clients w fh = Some cl"
  shows "\<exists>r w'. fs_release E fh w = Some (r, w') \<and> fs_ok held w' \<and> tame w w' \<and>
    fw_clients w' = (fw_clients w)(fh := None) \<and> fw_sys w' = fw_sys w"
proof -
  obtain cs where cs: "fw_fs w (cl_mod cl) = Some cs" "fh \<in> set cs" using fs_client(3) [OF assms] by blast
  let ?m = "cl_mod cl" and ?cs = "remove1 fh cs"
  let ?w = "(drop_client fh cl w)\<lparr>fw_fs := (fw_fs w)(?m := Some ?cs)\<rparr>"
  have held: "held ?m > 0" using fs_listed(1) [OF ok cs(1)] .
  have w: "fs_ok held ?w" by (rule drop_client_ok [OF ok assms(2) cs])
  have fields: "fw_clients (?w\<lparr>fw_fs := x\<rparr>) = (fw_clients w)(fh := None)" "fw_sys (?w\<lparr>fw_fs := x\<rparr>) = fw_sys w"
    "tame w (?w\<lparr>fw_fs := x\<rparr>)" for x
    using assms(2) by (auto simp: drop_client_def tame_def)
  have same: "?w = ?w\<lparr>fw_fs := (fw_fs w)(?m := Some ?cs)\<rparr>" by simp
  have "fw_refs w ?m > 0" using ok held by (simp add: fs_ok_def refs_ok_def)
  then have rel: "fs_release E fh w = (if ?cs = [] then map_option (Pair 0) (set_fs ?m None ?w) else Some (0, ?w))"
    using fs_client(1) [OF assms] assms(2) cs client_dtor_drops [OF assms, of E "(fw_fs w)(?m := Some ?cs)"]
    by (simp add: fs_release_def the_mod_def Let_def)
  show ?thesis
  proof (cases "?cs = []")
    case False
    with rel w fields [of "(fw_fs w)(?m := Some ?cs)"] show ?thesis unfolding same [symmetric] by simp
  next
    case True
    have "set_fs ?m None ?w = Some (?w\<lparr>fw_fs := (fw_fs w)(?m := None)\<rparr>)"
      using fs_ok_live [OF w held] by (simp add: set_fs_def)
    moreover have "fs_ok held (?w\<lparr>fw_fs := (fw_fs w)(?m := None)\<rparr>)"
      using w True by (auto simp: fs_ok_defs split: if_splits)
    ultimately show ?thesis using rel True fields [of "(fw_fs w)(?m := None)"] by simp
  qed
qed

text \<open>A client changes: its module stays, its poll handle is given up, replaced or kept.\<close>

lemma set_client_ok:
  assumes ok: "fs_ok held w" and cl: "fw_clients w p = Some cl" and "cl_mod cl' = cl_mod cl"
    and "handles_ok (set_client p cl' w')"
    and "fw_sys w' = fw_sys w" "fw_refs w' = fw_refs w" "fw_fs w' = fw_fs w" "fw_clients w' = fw_clients w"
  shows "fs_ok held (set_client p cl' w')"
proof -
  have "lists_ok held (set_client p cl' w')"
    unfolding lists_ok_def
  proof (intro allI impI)
    fix m cs
    assume "fw_fs (set_client p cl' w') m = Some cs"
    then have f: "fw_fs w m = Some cs" by (simp add: set_client_def assms(7))
    have "\<exists>c. fw_clients (set_client p cl' w') q = Some c \<and> cl_mod c = m" if q: "q \<in> set cs" for q
    proof (cases "q = p")
      case True
      with fs_listed(3) [OF ok f _ cl] q assms(3) show ?thesis by (simp add: set_client_def)
    next
      case False
      obtain c where c: "fw_clients w q = Some c" using fs_listed(4) [OF ok f q] by blast
      with fs_listed(3) [OF ok f q c] False show ?thesis by (simp add: set_client_def assms(8))
    qed
    then show "held m > 0 \<and> distinct cs \<and> (\<forall>q\<in>set cs. \<exists>c. fw_clients (set_client p cl' w') q = Some c \<and> cl_mod c = m)"
      using fs_listed(1,2) [OF ok f] by blast
  qed
  moreover have "clients_ok (set_client p cl' w')"
    using fs_client [OF ok] cl assms(3,5,7,8) by (auto simp: clients_ok_def set_client_def split: if_splits)
  moreover have "refs_ok held (set_client p cl' w')"
    using ok assms(6,7) by (simp add: fs_ok_def refs_ok_def set_client_def)
  ultimately show ?thesis using ok assms(4,5) by (simp add: fs_ok_def set_client_def)
qed

lemma fs_handles:
  assumes "fs_ok held w" and "fw_clients w p = Some cl" and "cl_ph cl \<noteq> NULL"
  shows "cl_ph cl \<notin> set (fw_gone w)" and "fw_clients w q = Some cl' \<Longrightarrow> cl_ph cl' = cl_ph cl \<Longrightarrow> q = p"
    and "distinct (fw_gone w)"
  using assms unfolding fs_ok_def handles_ok_def by blast+

lemma fs_poll_ok:
  assumes ok: "fs_ok held w" and cl: "fw_clients w fh = Some cl"
    and new: "ph \<noteq> NULL \<Longrightarrow> ph \<notin> set (fw_gone w) \<and> (\<forall>q c. fw_clients w q = Some c \<longrightarrow> cl_ph c \<noteq> ph)"
  shows "\<exists>r w' cl'. fs_poll fh ph w = Some (r, w') \<and> fs_ok held w' \<and> fw_sys w' = fw_sys w \<and>
    fw_clients w' = (fw_clients w)(fh := Some cl') \<and> cl_mod cl' = cl_mod cl \<and> cl_ph cl' \<in> {cl_ph cl, ph} \<and>
    set (fw_gone w') \<subseteq> insert ph (set (fw_gone w))"
proof -
  have fresh: "cl_ph c \<noteq> ph" if "fw_clients w q = Some c" "ph \<noteq> NULL" for q c using new that by blast
  have h: "distinct (fw_gone w)" using ok by (simp add: fs_ok_def handles_ok_def)
  consider (none) "ph = NULL" | (evt) "ph \<noteq> NULL" "cl_in_evt cl \<noteq> 0" | (wait) "ph \<noteq> NULL" "cl_in_evt cl = 0" by blast
  then show ?thesis
  proof cases
    case none
    then show ?thesis using ok cl fs_client(1) [OF ok cl]
      by (intro exI [of _ "(0, None)"] exI [of _ w] exI [of _ cl]) (auto simp: fs_poll_def)
  next
    case evt
    let ?w = "w\<lparr>fw_gone := ph # fw_gone w\<rparr>"
    have "handles_ok (set_client fh (cl\<lparr>cl_in_evt := 0\<rparr>) ?w)"
      using ok fresh [OF _ evt(1)] new [OF evt(1)] cl h unfolding fs_ok_def handles_ok_def set_client_def
      by (auto split: if_splits)
    then have "fs_ok held (set_client fh (cl\<lparr>cl_in_evt := 0\<rparr>) ?w)" by (intro set_client_ok [OF ok cl]) simp_all
    then show ?thesis using evt cl new [OF evt(1)] fs_client(1) [OF ok cl]
      by (intro exI [of _ "(0, Some (if cl_in_evt cl = 1 then POLLIN else POLLERR))"]
            exI [of _ "set_client fh (cl\<lparr>cl_in_evt := 0\<rparr>) ?w"] exI [of _ "cl\<lparr>cl_in_evt := 0\<rparr>"])
         (auto simp: fs_poll_def pollhandle_destroy_def set_client_def)
  next
    case wait
    have "handles_ok (set_client fh (cl\<lparr>cl_ph := ph\<rparr>) w)"
      using ok fresh [OF _ wait(1)] new [OF wait(1)] cl h unfolding fs_ok_def handles_ok_def set_client_def
      by (auto split: if_splits)
    then have "fs_ok held (set_client fh (cl\<lparr>cl_ph := ph\<rparr>) w)" by (intro set_client_ok [OF ok cl]) simp_all
    then show ?thesis using wait cl fs_client(1) [OF ok cl]
      by (intro exI [of _ "(0, None)"] exI [of _ "set_client fh (cl\<lparr>cl_ph := ph\<rparr>) w"] exI [of _ "cl\<lparr>cl_ph := ph\<rparr>"])
         (auto simp: fs_poll_def set_client_def)
  qed
qed

text \<open>Waking clients up keeps them all.\<close>

definition woken :: "fs_world \<Rightarrow> fs_world \<Rightarrow> bool" where
  "woken w w' \<longleftrightarrow> tame w w' \<and> dom (fw_clients w') = dom (fw_clients w) \<and> c_modules (fw_sys w') = c_modules (fw_sys w)"

lemma woken_order: "reflp woken" "transp woken"
  using reflpD [OF tame_refl] transpD [OF tame_trans] by (auto simp: woken_def intro!: reflpI transpI)

lemma wakeup_one_woken: "wakeup_one leaving p w = Some w' \<Longrightarrow> woken w w'"
  by (fastforce simp: wakeup_one_def pollhandle_destroy_def set_client_def woken_def tame_def bind_eq_Some_conv split: if_splits)

lemma woken_sys: "c_modules s = c_modules (fw_sys w) \<Longrightarrow> woken w (w\<lparr>fw_sys := s\<rparr>)"
  by (auto simp: woken_def tame_def)

lemma fs_wakeup_clients_woken: "fs_wakeup_clients E cs leaving w = Some w' \<Longrightarrow> woken w w'"
proof -
  assume w: "fs_wakeup_clients E cs leaving w = Some w'"
  let ?s = "snd (foreach_elems E cs (fw_sys w))"
  have "woken w (w\<lparr>fw_sys := ?s\<rparr>)" by (rule woken_sys) simp
  moreover have "fold_opt (wakeup_one leaving) (fst (foreach_elems E cs (fw_sys w))) (w\<lparr>fw_sys := ?s\<rparr>) = Some w'"
    using w by (simp add: fs_wakeup_clients_def case_prod_beta)
  then have "woken (w\<lparr>fw_sys := ?s\<rparr>) w'" by (rule fold_opt_rel [OF _ woken_order, rotated]) (rule wakeup_one_woken)
  ultimately show "woken w w'" by (rule transpD [OF woken_order(2)])
qed

lemma wakeup_one_ok:
  assumes ok: "fs_ok held w" and cl: "fw_clients w p = Some cl"
  shows "\<exists>w'. wakeup_one leaving p w = Some w' \<and> fs_ok held w' \<and> fw_fs w' = fw_fs w \<and> fw_refs w' = fw_refs w"
proof (cases "cl_ph cl = NULL")
  case True
  then show ?thesis using ok cl by (simp add: wakeup_one_def)
next
  case False
  let ?w = "w\<lparr>fw_woken := cl_ph cl # fw_woken w, fw_gone := cl_ph cl # fw_gone w\<rparr>"
  let ?cl = "cl\<lparr>cl_in_evt := (if leaving then -1 else 1), cl_ph := NULL\<rparr>"
  note h = fs_handles [OF ok cl False]
  have "handles_ok (set_client p ?cl ?w)"
    unfolding handles_ok_def
  proof (intro conjI allI impI)
    show "distinct (fw_gone (set_client p ?cl ?w))" using h(1,3) by (simp add: set_client_def)
    fix q c
    assume q: "fw_clients (set_client p ?cl ?w) q = Some c" and n: "cl_ph c \<noteq> NULL"
    then have qp: "q \<noteq> p" by (auto simp: set_client_def)
    with q have q: "fw_clients w q = Some c" by (simp add: set_client_def)
    note hq = fs_handles [OF ok q n]
    have "cl_ph c \<noteq> cl_ph cl" using h(2) [OF q] qp by blast
    then show "cl_ph c \<notin> set (fw_gone (set_client p ?cl ?w))" using hq(1) by (simp add: set_client_def)
    fix r c'
    assume r: "fw_clients (set_client p ?cl ?w) r = Some c'" and e: "cl_ph c' = cl_ph c"
    then have "r \<noteq> p" using n by (auto simp: set_client_def)
    with r have "fw_clients w r = Some c'" by (simp add: set_client_def)
    from hq(2) [OF this e] show "r = q" .
  qed
  then have "fs_ok held (set_client p ?cl ?w)" by (intro set_client_ok [OF ok cl]) simp_all
  moreover have "wakeup_one leaving p w = Some (set_client p ?cl ?w)"
    using False cl h(1) by (simp add: wakeup_one_def pollhandle_destroy_def)
  ultimately show ?thesis by (simp add: set_client_def)
qed

lemma wakeup_all_ok:
  assumes "fs_ok held w" and "fw_fs w m = Some cs" and "set ps \<subseteq> set cs"
  shows "\<exists>w'. fold_opt (wakeup_one leaving) ps w = Some w' \<and> fs_ok held w' \<and> fw_fs w' = fw_fs w \<and> fw_refs w' = fw_refs w"
  using assms
proof (induction ps arbitrary: w)
  case (Cons p ps)
  obtain cl where "fw_clients w p = Some cl" using fs_listed(4) [OF Cons.prems(1,2), of p] Cons.prems(3) by auto
  from wakeup_one_ok [OF Cons.prems(1) this] obtain w1 where w1: "wakeup_one leaving p w = Some w1" "fs_ok held w1"
    "fw_fs w1 = fw_fs w" "fw_refs w1 = fw_refs w" by blast
  with Cons.IH [of w1] Cons.prems show ?case by auto
qed simp

lemma fs_wakeup_clients_ok:
  assumes ok: "fs_ok held w" and "fw_fs w m = Some cs" and mem: "\<And>n. e_mem E n"
  shows "\<exists>w'. fs_wakeup_clients E cs leaving w = Some w' \<and> fs_ok held w' \<and> fw_fs w' = fw_fs w \<and> fw_refs w' = fw_refs w"
proof -
  obtain k where k: "foreach_elems E cs (fw_sys w) = (cs, (fw_sys w)\<lparr>s_next := k\<rparr>)" "s_next (fw_sys w) \<le> k"
    by (rule foreach_next [OF mem])
  have "fs_ok held (w\<lparr>fw_sys := (fw_sys w)\<lparr>s_next := k\<rparr>\<rparr>)" by (rule fs_ok_sys [OF ok]) (simp_all add: k)
  from wakeup_all_ok [OF this, of m cs cs leaving] assms(2) k show ?thesis by (auto simp: fs_wakeup_clients_def)
qed

lemma fs_notify_ok:
  assumes ok: "fs_ok held w" and "m = NULL \<or> fw_refs w m > 0" and mem: "\<And>n. e_mem E n"
  shows "\<exists>w'. fs_notify E m evts w = Some w' \<and> fs_ok held w' \<and> woken w w'"
proof (cases "m = NULL \<or> fw_fs w m = None")
  case True
  then show ?thesis using ok assms(2) reflpD [OF woken_order(1)] by (auto simp: fs_notify_def the_mod_def)
next
  case False
  then obtain cs where cs: "fw_fs w m = Some cs" and m: "m \<noteq> NULL" by auto
  obtain k where k: "foreach_elems E evts (fw_sys w) = (evts, (fw_sys w)\<lparr>s_next := k\<rparr>)" "s_next (fw_sys w) \<le> k"
    by (rule foreach_next [OF mem])
  have "fs_ok held (w\<lparr>fw_sys := (fw_sys w)\<lparr>s_next := k\<rparr>\<rparr>)" by (rule fs_ok_sys [OF ok]) (simp_all add: k)
  moreover have "fw_fs (w\<lparr>fw_sys := (fw_sys w)\<lparr>s_next := k\<rparr>\<rparr>) m = Some cs" using cs by simp
  moreover have "\<exists>w'. fold_opt (\<lambda>_. fs_wakeup_clients E cs False) es v = Some w' \<and> fs_ok held w'"
    if "fs_ok held v" "fw_fs v m = Some cs" for es :: "eid list" and v
    using that
  proof (induction es arbitrary: v)
    case (Cons e es)
    from fs_wakeup_clients_ok [OF Cons.prems mem, of False] Cons.IH Cons.prems(2) show ?case by fastforce
  qed simp
  ultimately obtain w' where w': "fold_opt (\<lambda>_. fs_wakeup_clients E cs False) evts
      (w\<lparr>fw_sys := (fw_sys w)\<lparr>s_next := k\<rparr>\<rparr>) = Some w'" "fs_ok held w'" by blast
  have "woken (w\<lparr>fw_sys := (fw_sys w)\<lparr>s_next := k\<rparr>\<rparr>) w'"
    by (rule fold_opt_rel [OF _ woken_order w'(1)]) (rule fs_wakeup_clients_woken)
  with woken_sys have "woken w w'" by (rule transpD [OF woken_order(2)]) simp
  then show ?thesis using cs m assms(2) k w' by (simp add: fs_notify_def the_mod_def)
qed

lemma fs_cleanup_ok:
  assumes ok: "fs_ok held w" and "fw_refs w m > 0" and mem: "\<And>n. e_mem E n"
  shows "\<exists>w'. fs_cleanup E m w = Some w' \<and> fs_ok held w' \<and> woken w w'"
proof (cases "fw_fs w m")
  case None
  then show ?thesis using ok assms(2) reflpD [OF woken_order(1)] by (simp add: fs_cleanup_def the_mod_def)
next
  case (Some cs)
  from fs_wakeup_clients_ok [OF ok Some mem, of True] Some assms(2) show ?thesis
    by (auto simp: fs_cleanup_def the_mod_def fs_wakeup_clients_woken)
qed

text \<open>Destroying the clients of a list one by one: the list as it would be is kept in the invariant.\<close>

lemma drop_all_ok:
  "fs_ok held (w\<lparr>fw_fs := (fw_fs w)(m := Some ps)\<rparr>) \<Longrightarrow>
    \<exists>w'. fold_opt (client_dtor E) ps w = Some w' \<and> fs_ok held (w'\<lparr>fw_fs := (fw_fs w)(m := Some [])\<rparr>) \<and> fw_fs w' = fw_fs w"
proof (induction ps arbitrary: w)
  case Nil
  then show ?case by simp
next
  case (Cons p ps)
  let ?v = "w\<lparr>fw_fs := (fw_fs w)(m := Some (p # ps))\<rparr>"
  have m: "fw_fs ?v m = Some (p # ps)" by simp
  obtain cl where cl: "fw_clients ?v p = Some cl" using fs_listed(4) [OF Cons.prems m, of p] by auto
  have d: "client_dtor E p w = Some (drop_client p cl w)"
    using client_dtor_drops [OF Cons.prems cl, of E "fw_fs w"] by (simp add: drop_client_def)
  have "fs_ok held ((drop_client p cl w)\<lparr>fw_fs := (fw_fs w)(m := Some ps)\<rparr>)"
    using drop_client_ok [OF Cons.prems cl m] by (cases "cl_ph cl = NULL") (simp_all add: drop_client_def)
  moreover have f: "fw_fs (drop_client p cl w) = fw_fs w" by (simp add: drop_client_def)
  ultimately have "fs_ok held ((drop_client p cl w)\<lparr>fw_fs := (fw_fs (drop_client p cl w))(m := Some ps)\<rparr>)"
    by (simp only: f)
  note Cons.IH [OF this, unfolded f]
  with d show ?case by (simp only: fold_opt.simps Option.bind.simps)
qed

lemma fs_ctx_stopped_ok:
  assumes ok: "fs_ok held w" and "m = NULL \<or> fw_refs w m > 0" and mem: "\<And>n. e_mem E n"
  shows "\<exists>w'. fs_ctx_stopped E m w = Some w' \<and> fs_ok held w' \<and> tame w w' \<and>
    (m \<noteq> NULL \<longrightarrow> (\<forall>p cl. fw_clients w' p = Some cl \<longrightarrow> cl_mod cl \<noteq> m))"
proof (cases "m = NULL \<or> fw_fs w m = None")
  case True
  then have "m \<noteq> NULL \<Longrightarrow> fw_clients w p = Some cl \<Longrightarrow> cl_mod cl \<noteq> m" for p cl using fs_client(3) [OF ok] by force
  then show ?thesis using True ok assms(2) reflpD [OF tame_refl] by (auto simp: fs_ctx_stopped_def the_mod_def)
next
  case False
  then obtain cs where cs: "fw_fs w m = Some cs" and m: "m \<noteq> NULL" by auto
  have held: "held m > 0" by (rule fs_listed(1) [OF ok cs])
  obtain k where k: "foreach_elems E cs (fw_sys w) = (cs, (fw_sys w)\<lparr>s_next := k\<rparr>)" "s_next (fw_sys w) \<le> k"
    by (rule foreach_next [OF mem])
  let ?w = "w\<lparr>fw_sys := (fw_sys w)\<lparr>s_next := k\<rparr>\<rparr>"
  have "fs_ok held ?w" by (rule fs_ok_sys [OF ok]) (simp_all add: k)
  moreover have "?w\<lparr>fw_fs := (fw_fs ?w)(m := Some cs)\<rparr> = ?w" using cs by (simp add: fun_upd_idem)
  ultimately have "fs_ok held (?w\<lparr>fw_fs := (fw_fs ?w)(m := Some cs)\<rparr>)" by metis
  from drop_all_ok [OF this] obtain w' where w': "fold_opt (client_dtor E) cs ?w = Some w'"
    "fs_ok held (w'\<lparr>fw_fs := (fw_fs w)(m := Some [])\<rparr>)" "fw_fs w' = fw_fs w" by auto
  have "set_fs m None w' = Some (w'\<lparr>fw_fs := (fw_fs w)(m := None)\<rparr>)"
    using fs_ok_live [OF w'(2) held] w'(3) by (simp add: set_fs_def the_mod_def split: if_splits)
  moreover have ok': "fs_ok held (w'\<lparr>fw_fs := (fw_fs w)(m := None)\<rparr>)"
    using w'(2) by (auto simp: fs_ok_defs split: if_splits)
  moreover have "cl_mod cl \<noteq> m" if "fw_clients w' p = Some cl" for p cl using fs_client(3) [OF ok', of p cl] that by auto
  moreover have "tame ?w w'" by (rule fold_opt_rel [OF _ tame_refl tame_trans w'(1)]) (rule client_dtor_tame)
  then have "tame w (w'\<lparr>fw_fs := (fw_fs w)(m := None)\<rparr>)" by (simp add: tame_def)
  ultimately show ?thesis using cs m assms(2) k w'(1) by (simp add: fs_ctx_stopped_def the_mod_def)
qed

subsection \<open>Both sides together\<close>

text \<open>The module that a handle was opened for, as libfuse knows it: by the path and the table \<open>mods\<close>.\<close>

definition handle_mod :: "(string \<times> mid) list \<Rightarrow> fuse_side \<Rightarrow> ptr \<Rightarrow> mid option" where
  "handle_mod mods f fh = Option.bind (map_of (fu_open f) fh) (\<lambda>path. map_of mods (tl path))"

definition session_ok :: "(string \<times> mid) list \<Rightarrow> (mid \<Rightarrow> nat) \<Rightarrow> fuse_side \<Rightarrow> fs_world \<Rightarrow> bool" where
  "session_ok mods held f w \<longleftrightarrow> fs_ok held w \<and> set (fw_gone w) \<subseteq> set (fu_seen f) \<and>
     (\<forall>p cl. fw_clients w p = Some cl \<longrightarrow> cl_ph cl \<noteq> NULL \<longrightarrow> cl_ph cl \<in> set (fu_seen f)) \<and>
     (fu_serving f \<longrightarrow> c_modules (fw_sys w) = mods \<and> (\<forall>p. map_option cl_mod (fw_clients w p) = handle_mod mods f p) \<and>
        (\<forall>p path. map_of (fu_open f) p = Some path \<longrightarrow> map_of mods (tl path) \<noteq> None))"

lemma session_open:
  assumes "session_ok mods held f w" and "is_open fh f"
  obtains cl where "fw_clients w fh = Some cl" and "handle_mod mods f fh = Some (cl_mod cl)"
proof -
  obtain path m where "map_of (fu_open f) fh = Some path" "map_of mods (tl path) = Some m" and s: "fu_serving f"
    using assms by (fastforce simp: session_ok_def is_open_def)
  then have h: "handle_mod mods f fh = Some m" by (simp add: handle_mod_def)
  moreover have "map_option cl_mod (fw_clients w fh) = handle_mod mods f fh" using assms(1) s by (simp add: session_ok_def)
  ultimately show ?thesis using that by (cases "fw_clients w fh") simp_all
qed

lemma session_tame:
  assumes "session_ok mods held f w" and "tame w w'" and "fs_ok held w'"
  shows "set (fw_gone w') \<subseteq> set (fu_seen f)" and "fw_clients w' p = Some cl \<Longrightarrow> cl_ph cl \<noteq> NULL \<Longrightarrow> cl_ph cl \<in> set (fu_seen f)"
proof -
  have seen: "cl_ph c \<in> set (fu_seen f)" if "fw_clients w q = Some c" "cl_ph c \<noteq> NULL" for q c
    using assms(1) that by (auto simp: session_ok_def)
  have gone: "set (fw_gone w) \<subseteq> set (fu_seen f)" using assms(1) by (simp add: session_ok_def)
  show "set (fw_gone w') \<subseteq> set (fu_seen f)" using assms(2) seen gone unfolding tame_def by blast
  show "cl_ph cl \<in> set (fu_seen f)" if p: "fw_clients w' p = Some cl" "cl_ph cl \<noteq> NULL"
  proof -
    obtain c where "fw_clients w p = Some c" "cl_ph cl = NULL \<or> cl_ph cl = cl_ph c" using assms(2) p(1) unfolding tame_def by blast
    with seen p(2) show ?thesis by metis
  qed
qed

lemma session_woken:
  assumes "session_ok mods held f w" and "woken w w'" and "fs_ok held w'"
  shows "session_ok mods held f w'"
proof -
  have t: "tame w w'" "dom (fw_clients w') = dom (fw_clients w)" "c_modules (fw_sys w') = c_modules (fw_sys w)"
    using assms(2) by (simp_all add: woken_def)
  have "map_option cl_mod (fw_clients w' p) = map_option cl_mod (fw_clients w p)" for p
  proof (cases "fw_clients w' p")
    case None
    then have "p \<notin> dom (fw_clients w)" using t(2) by blast
    with None show ?thesis by (simp add: domIff)
  next
    case (Some cl')
    with t(1) obtain cl where "fw_clients w p = Some cl" "cl_mod cl' = cl_mod cl" unfolding tame_def by blast
    with Some show ?thesis by simp
  qed
  with session_tame [OF assms(1) t(1) assms(3)] assms(1,3) t(3) show ?thesis by (simp add: session_ok_def)
qed

lemma map_of_others: "map_of (List.filter (\<lambda>(h, _). h \<noteq> k) xs) = (map_of xs)(k := None)"
  by (induction xs) (auto simp: fun_eq_iff)

lemma session_opened:
  assumes "session_ok mods held f w" and "fs_ok held (opened m cl cs k w)" and "fu_serving f" and "map_of mods (tl path) = Some m"
  shows "session_ok mods held (f\<lparr>fu_open := (cl, path) # fu_open f\<rparr>) (opened m cl cs k w)"
  using assms by (auto simp: session_ok_def opened_def handle_mod_def)

lemma session_released:
  assumes "session_ok mods held f w" and "fs_ok held w'" and "tame w w'" and "fw_sys w' = fw_sys w"
    and "fw_clients w' = (fw_clients w)(fh := None)"
  shows "session_ok mods held (f\<lparr>fu_open := List.filter (\<lambda>(h, _). h \<noteq> fh) (fu_open f)\<rparr>) w'"
  using assms session_tame [OF assms(1,3,2)] unfolding session_ok_def handle_mod_def
  by (simp add: map_of_others)

lemma session_polled:
  assumes "session_ok mods held f w" and "fs_ok held w'" and "fw_sys w' = fw_sys w" and "fw_clients w fh = Some cl"
    and "fw_clients w' = (fw_clients w)(fh := Some cl')" and "cl_mod cl' = cl_mod cl" and "cl_ph cl' \<in> {cl_ph cl, ph}"
    and "set (fw_gone w') \<subseteq> insert ph (set (fw_gone w))"
  shows "session_ok mods held (f\<lparr>fu_seen := ph # fu_seen f\<rparr>) w'"
proof -
  have "map_option cl_mod (fw_clients w' p) = map_option cl_mod (fw_clients w p)" for p using assms(4-6) by simp
  moreover have "cl_ph c \<in> set (ph # fu_seen f)" if "fw_clients w' p = Some c" "cl_ph c \<noteq> NULL" for p c
    using assms(1,4,5,7) that by (cases "p = fh") (auto simp: session_ok_def)
  moreover have "set (fw_gone w') \<subseteq> set (ph # fu_seen f)" using assms(1,8) by (auto simp: session_ok_def)
  ultimately show ?thesis using assms(1-3) by (simp add: session_ok_def handle_mod_def)
qed

lemma session_do:
  assumes ok: "session_ok mods held f w" and asks: "fs_asks held x f" and mem: "\<And>n. e_mem E n"
  shows "\<exists>f' w'. fs_do E x (f, w) = Some (f', w') \<and> session_ok mods held f' w'"
proof -
  have fok: "fs_ok held w" using ok by (simp add: session_ok_def)
  then have live: "held m > 0 \<Longrightarrow> fw_refs w m > 0" for m by (simp add: fs_ok_def refs_ok_def)
  show ?thesis
  proof (cases x)
    case (FsOpen path)
    with asks ok have s: "fu_serving f" "c_modules (fw_sys w) = mods" by (simp_all add: session_ok_def)
    from fs_open_ok [OF fok mem, of path] s session_opened [OF ok _ s(1)] ok show ?thesis
      unfolding FsOpen by (elim disjE exE conjE) simp_all
  next
    case (FsRelease fh)
    with asks have "is_open fh f" by simp
    then obtain cl where "fw_clients w fh = Some cl" by (rule session_open [OF ok])
    from fs_release_ok [OF fok this, of E] obtain r w' where w': "fs_release E fh w = Some (r, w')" "fs_ok held w'" "tame w w'"
      "fw_clients w' = (fw_clients w)(fh := None)" "fw_sys w' = fw_sys w" by blast
    with session_released [OF ok w'(2,3,5,4)] FsRelease show ?thesis by simp
  next
    case (FsPoll fh ph)
    with asks have o: "is_open fh f" "ph = NULL \<or> ph \<notin> set (fu_seen f)" by simp_all
    obtain cl where cl: "fw_clients w fh = Some cl" by (rule session_open [OF ok o(1)])
    have "ph \<notin> set (fw_gone w) \<and> (\<forall>q c. fw_clients w q = Some c \<longrightarrow> cl_ph c \<noteq> ph)" if "ph \<noteq> NULL"
      using ok o(2) that unfolding session_ok_def by blast
    from fs_poll_ok [OF fok cl this] obtain r w' cl' where w': "fs_poll fh ph w = Some (r, w')" "fs_ok held w'"
      "fw_sys w' = fw_sys w" "fw_clients w' = (fw_clients w)(fh := Some cl')" "cl_mod cl' = cl_mod cl"
      "cl_ph cl' \<in> {cl_ph cl, ph}" "set (fw_gone w') \<subseteq> insert ph (set (fw_gone w))" by blast
    with session_polled [OF ok w'(2,3) cl w'(4-7)] FsPoll show ?thesis by simp
  next
    case (FsIoctl fh compat_fl dir_fl cmd)
    with asks have "is_open fh f" by simp
    then obtain cl where cl: "fw_clients w fh = Some cl" by (rule session_open [OF ok])
    obtain cs where "fw_fs w (cl_mod cl) = Some cs" using fs_client(3) [OF fok cl] by blast
    then have "held (cl_mod cl) > 0" by (rule fs_listed(1) [OF fok])
    then have "fs_ioctl E fh compat_fl dir_fl cmd w \<noteq> None"
      using fs_client(1) [OF fok cl] cl fs_ok_live [OF fok] by (cases cmd) (simp_all add: fs_ioctl_def)
    with FsIoctl ok show ?thesis by auto
  next
    case (FsNotify m evts)
    then show ?thesis using fs_notify_ok [OF fok _ mem, of m evts] asks live [of m] session_woken [OF ok] by auto
  next
    case (FsCleanup m)
    then show ?thesis using fs_cleanup_ok [OF fok _ mem, of m] asks live [of m] session_woken [OF ok] by auto
  next
    case (FsStopped m)
    then obtain w' where w': "fs_ctx_stopped E m w = Some w'" "fs_ok held w'" "tame w w'"
      using fs_ctx_stopped_ok [OF fok _ mem, of m] asks live [of m] by auto
    with FsStopped session_tame [OF ok w'(3,2)] show ?thesis by (auto simp: session_ok_def)
  qed
qed

lemma session_run:
  assumes "session_ok mods held f w" and "\<And>n. e_mem E n" and "fs_legal E held xs (f, w)"
  shows "\<exists>f' w'. fs_run E xs (f, w) = Some (f', w') \<and> session_ok mods held f' w'"
  using assms(1,3)
proof (induction xs arbitrary: f w)
  case (Cons x xs)
  then have "fs_asks held x f" by simp
  from session_do [OF Cons.prems(1) this assms(2)] obtain f1 w1 where
    1: "fs_do E x (f, w) = Some (f1, w1)" "session_ok mods held f1 w1" by blast
  with Cons.prems(2) have "fs_legal E held xs (f1, w1)" by simp
  from Cons.IH [OF 1(2) this] 1(1) show ?case by simp
qed simp

subsection \<open>From the first request on\<close>

definition fs_fresh :: "(mid \<Rightarrow> nat) \<Rightarrow> fs_world \<Rightarrow> bool" where
  "fs_fresh held w \<longleftrightarrow> fw_clients w = (\<lambda>_. None) \<and> fw_fs w = (\<lambda>_. None) \<and> fw_gone w = [] \<and> fw_refs w = held \<and>
     (\<forall>m \<in> snd ` set (c_modules (fw_sys w)). held m > 0)"

lemma fs_fresh_ok: "fs_fresh held w \<Longrightarrow> fs_ok held w"
  by (simp add: fs_fresh_def fs_ok_defs)

text \<open>The clients of a module are those of its list, so that its references can be counted.\<close>

lemma fs_ok_refs:
  assumes "fs_ok held w"
  shows "fw_refs w m = held m + card {p. \<exists>cl. fw_clients w p = Some cl \<and> cl_mod cl = m}"
proof -
  have r: "fw_refs w m = held m + (case fw_fs w m of None \<Rightarrow> 0 | Some cs \<Rightarrow> length cs)"
    using assms by (simp add: fs_ok_def refs_ok_def)
  show ?thesis
  proof (cases "fw_fs w m")
    case None
    have "{p. \<exists>cl. fw_clients w p = Some cl \<and> cl_mod cl = m} = {}"
      using fs_client(3) [OF assms] None by force
    then have "card {p. \<exists>cl. fw_clients w p = Some cl \<and> cl_mod cl = m} = 0" by (simp only: card.empty)
    with r None show ?thesis by simp
  next
    case (Some cs)
    have "{p. \<exists>cl. fw_clients w p = Some cl \<and> cl_mod cl = m} = set cs"
      using fs_client(3) [OF assms] fs_listed(3,4) [OF assms Some] Some by fastforce
    then show ?thesis using r Some fs_listed(2) [OF assms Some] by (simp add: distinct_card)
  qed
qed


text \<open>A world with the modules of the demonstration state, and a module of it with one open handle.\<close>

definition fresh_world :: fs_world where
  "fresh_world = \<lparr>fw_sys = live_sys, fw_ctx = None, fw_refs = (\<lambda>_. 0)(1 := 2, 2 := 1), fw_fs = \<lambda>_. None,
     fw_clients = \<lambda>_. None, fw_woken = [], fw_gone = [], fw_dead = []\<rparr>"

definition a_session :: "fs_op list" where
  "a_session = [FsOpen ''/a'', FsPoll 10 30, FsNotify 1 [5], FsIoctl 10 False False M_MOD_FS_STATE, FsPoll 10 31,
     FsOpen ''/bb'', FsRelease 10]"


text \<open>
  Why requests end with the loop: \<^verbatim>\<open>fs_ctx_stopped\<close> destroys the clients of handles that libfuse still has open.
  \<^verbatim>\<open>loop_stop\<close> unmounts right after, which closes them without a request.
\<close>

lemma fs_stopped_then_release:
  assumes "fs_ok held w" and "\<And>n. e_mem E n" and "fw_clients w fh = Some cl" and "cl_mod cl \<noteq> NULL"
    and "fs_ctx_stopped E (cl_mod cl) w = Some w'"
  shows "fs_release E fh w' = None"
proof -
  obtain cs where "fw_fs w (cl_mod cl) = Some cs" using fs_client(3) [OF assms(1,3)] by blast
  then have "held (cl_mod cl) > 0" by (rule fs_listed(1) [OF assms(1)])
  then have "fw_refs w (cl_mod cl) > 0" using assms(1) by (simp add: fs_ok_def refs_ok_def)
  with fs_ctx_stopped_ok [OF assms(1) _ assms(2), of "cl_mod cl"] assms(4,5) have "tame w w'"
    "\<forall>p c. fw_clients w' p = Some c \<longrightarrow> cl_mod c \<noteq> cl_mod cl" by auto
  then have "fw_clients w' fh = None" using assms(3) unfolding tame_def by (cases "fw_clients w' fh") fastforce+
  then show ?thesis using fs_client(1) [OF assms(1,3)] by (simp add: fs_release_def)
qed

subsection \<open>The last handle of a module that is gone\<close>

text \<open>
  C35. A handle keeps its module alive, but releasing it when nothing else does is undefined: the
  destructor of the client gives up the last reference, and \<^verbatim>\<open>fs_release\<close> then clears \<^verbatim>\<open>mod->fs\<close> in the
  memory that was just freed.
\<close>

theorem fs_release_last:
  assumes "fh \<noteq> NULL" and "fw_clients w fh = Some cl" and "fw_fs w (cl_mod cl) = Some [fh]" and "fw_refs w (cl_mod cl) = 1"
  shows "fs_release E fh w = None"
proof -
  have "client_dtor E fh (w\<lparr>fw_fs := (fw_fs w)(cl_mod cl := Some [])\<rparr>) = Some w1 \<Longrightarrow> fw_refs w1 (cl_mod cl) = 0" for w1
    using assms(2,4) by (auto simp: client_dtor_def pollhandle_destroy_def unref_mod_def the_mod_def bind_eq_Some_conv split: if_splits)
  then have "Option.bind (client_dtor E fh (w\<lparr>fw_fs := (fw_fs w)(cl_mod cl := Some [])\<rparr>))
      (\<lambda>w1. map_option (Pair 0) (set_fs (cl_mod cl) None w1)) = None"
    by (cases "client_dtor E fh (w\<lparr>fw_fs := (fw_fs w)(cl_mod cl := Some [])\<rparr>)") (simp_all add: set_fs_def the_mod_def)
  then show ?thesis using assms by (simp add: fs_release_def the_mod_def Let_def)
qed

text \<open>The module was deregistered while its file was open.\<close>

definition orphan_world :: fs_world where
  "orphan_world = fresh_world\<lparr>fw_refs := (\<lambda>_. 0)(1 := 1), fw_fs := (\<lambda>_. None)(1 := Some [10]),
     fw_clients := (\<lambda>_. None)(10 := Some \<lparr>cl_mod = 1, cl_ph = NULL, cl_in_evt = 0, cl_read_all = False\<rparr>)\<rparr>"

theorem fs_release_last_witness: "fs_release good_env 10 orphan_world = None"
  by (rule fs_release_last [where cl = "\<lparr>cl_mod = 1, cl_ph = NULL, cl_in_evt = 0, cl_read_all = False\<rparr>"])
    (simp_all add: orphan_world_def)

subsection \<open>What a reader gets\<close>

text \<open>The buffer after some texts: what fits of them, ended by a NUL where they do not.\<close>

definition logged :: "nat \<Rightarrow> string \<Rightarrow> string \<Rightarrow> string \<times> nat \<Rightarrow> bool" where
  "logged len buf old = (\<lambda>(b, n). length b = length buf \<and> drop len b = drop len buf \<and>
     (if length old < len then n = length old \<and> take n b = old
      else n \<ge> len \<and> (len > 0 \<longrightarrow> take len b = take (len - 1) old @ [CHR 0x00])))"

lemma fs_logger_logged:
  assumes "logged len buf old (b, n)" and "len \<le> length buf"
  shows "logged len buf (old @ t) (fs_logger len t (b, n))"
proof (cases "n < len")
  case False
  with assms(1) have "\<not> length old < len" by (auto simp: logged_def)
  with False assms show ?thesis by (simp add: logged_def fs_logger_def)
next
  case True
  with assms(1) have n: "length old < len" "n = length old" "take n b = old" "length b = length buf" "drop len b = drop len buf"
    by (auto simp: logged_def split: if_splits)
  define out where "out = take (len - n - 1) t @ [CHR 0x00]"
  define b' where "b' = take n b @ out @ drop (n + length out) b"
  have step: "fs_logger len t (b, n) = (b', n + length t)"
    using True by (simp add: fs_logger_def out_def b'_def Let_def)
  have l: "n + length out \<le> len" "length out \<le> length t + 1" using True by (auto simp: out_def)
  have len: "length b' = length buf" using n l assms(2) by (simp add: b'_def)
  have "drop len b' = drop len buf"
    using n l assms(2) by (simp add: b'_def min_def)
  moreover have "take (n + length t) b' = old @ t" if "n + length t < len"
    using that n by (simp add: b'_def out_def)
  moreover have "take len b' = take (len - 1) (old @ t) @ [CHR 0x00]" if "\<not> n + length t < len"
    using that n True assms(2) by (simp add: b'_def out_def)
  ultimately show ?thesis using len n(2) step by (simp add: logged_def)
qed

lemma fold_fs_logger:
  "logged len buf old x \<Longrightarrow> len \<le> length buf \<Longrightarrow> logged len buf (old @ concat ts) (fold (fs_logger len) ts x)"
proof (induction ts arbitrary: old x)
  case (Cons t ts)
  have "logged len buf (old @ t) (fs_logger len t x)" using fs_logger_logged [of len buf old "fst x" "snd x" t] Cons.prems by simp
  from Cons.IH [OF this Cons.prems(2)] show ?case by simp
qed simp

text \<open>
  C37. A read gives the dump of the module, as far as the buffer goes, and never writes past the length
  it was given; a dump that does not fit loses its last byte to a NUL though the length says it is text. The
  read after it answers 0, the end of the file.
\<close>

theorem fs_read_dump:
  assumes "fh \<noteq> NULL" and "fw_clients w fh = Some cl" and "\<not> cl_read_all cl" and "fw_refs w (cl_mod cl) > 0"
    and "m_mod_dump P E (cl_mod cl)
      (upd_mod (cl_mod cl) (\<lambda>d. d\<lparr>md_userdata := fh\<rparr>) ((fw_sys w)\<lparr>s_errno := 0\<rparr>)) = Some (r, texts, s)"
    and "len \<le> length buf"
  shows "\<exists>buf' w' w''. fs_read P E fh buf len w = Some ((int (min len (length (concat texts))), buf'), w') \<and>
    length buf' = length buf \<and> drop len buf' = drop len buf \<and>
    take len buf' = (if length (concat texts) < len then concat texts @ drop (length (concat texts)) (take len buf')
      else if len = 0 then [] else take (len - 1) (concat texts) @ [CHR 0x00]) \<and>
    fs_read P E fh buf' len w' = Some ((0, buf'), w'')"
proof -
  obtain b n where bn: "fold (fs_logger len) texts (buf, 0) = (b, n)" by fastforce
  have "logged len buf [] (buf, 0)" by (simp add: logged_def)
  from fold_fs_logger [OF this assms(6), of texts] have log: "logged len buf (concat texts) (b, n)" by (simp add: bn)
  then have n: "(if n > len then len else n) = min len (length (concat texts))"
    by (auto simp: logged_def min_def split: if_splits)
  let ?w = "set_client fh (cl\<lparr>cl_read_all := True\<rparr>) (w\<lparr>fw_sys := upd_mod (cl_mod cl)
    (\<lambda>x. x\<lparr>md_userdata := md_userdata (s_mods (fw_sys w) (cl_mod cl))\<rparr>) s\<rparr>)"
  have 1: "fs_read P E fh buf len w = Some ((int (min len (length (concat texts))), b), ?w)"
    using assms bn n by (simp add: fs_read_def the_mod_def Let_def set_client_def)
  have 2: "fs_read P E fh b len ?w = Some ((0, b), set_client fh (cl\<lparr>cl_read_all := False\<rparr>)
      (?w\<lparr>fw_sys := (fw_sys ?w)\<lparr>s_errno := 0\<rparr>\<rparr>))"
    using assms(1) by (simp add: fs_read_def set_client_def Let_def)
  have "take len b = concat texts @ drop (length (concat texts)) (take len b)" if "length (concat texts) < len"
    using that log append_take_drop_id [of "length (concat texts)" "take len b"]
    by (auto simp: logged_def min_def)
  then have "take len b = (if length (concat texts) < len then concat texts @ drop (length (concat texts)) (take len b)
      else if len = 0 then [] else take (len - 1) (concat texts) @ [CHR 0x00])"
    using log by (auto simp: logged_def)
  with 1 2 log show ?thesis unfolding logged_def by blast
qed

text \<open>Module 1 of the state that was dumped before, with an open handle.\<close>

definition dump_world :: fs_world where
  "dump_world = orphan_world\<lparr>fw_sys := dump_sys\<rparr>"

lemma dump_world_dumps:
  "\<exists>r texts s. m_mod_dump plain_printf good_env 1 (upd_mod 1 (\<lambda>d. d\<lparr>md_userdata := 10\<rparr>) (dump_sys\<lparr>s_errno := 0\<rparr>)) =
    Some (r, texts, s)"
  by (simp add: m_mod_dump_def dump_run dump_sys_def run_state upd_mod_def Let_def)

theorem fs_read_dump_witness:
  "\<exists>n buf' w' w''. fs_read plain_printf good_env 10 (replicate 64 CHR 0x00) 64 dump_world = Some ((int n, buf'), w') \<and>
    n \<le> 64 \<and> length buf' = 64 \<and> fs_read plain_printf good_env 10 buf' 64 w' = Some ((0, buf'), w'')"
proof -
  let ?cl = "\<lparr>cl_mod = 1, cl_ph = NULL, cl_in_evt = 0, cl_read_all = False\<rparr>"
  obtain r texts s where d: "m_mod_dump plain_printf good_env (cl_mod ?cl)
      (upd_mod (cl_mod ?cl) (\<lambda>d. d\<lparr>md_userdata := 10\<rparr>) ((fw_sys dump_world)\<lparr>s_errno := 0\<rparr>)) = Some (r, texts, s)"
    using dump_world_dumps by (auto simp: dump_world_def)
  have cl: "fw_clients dump_world 10 = Some ?cl" "fw_refs dump_world (cl_mod ?cl) > 0"
    by (simp_all add: dump_world_def orphan_world_def)
  from fs_read_dump [OF _ cl(1) _ cl(2) d, of 64 "replicate 64 CHR 0x00"] show ?thesis
    by (auto simp: min_def split: if_splits)
qed

subsection \<open>A second loop\<close>

lemma fuse_free_frees: "p \<noteq> NULL \<Longrightarrow> fuse_free p w = Some w' \<Longrightarrow> p \<in> set (fw_dead w') \<and> fw_ctx w' = fw_ctx w"
  by (auto simp: fuse_free_def split: if_splits)

lemma fuse_free_keeps: "fuse_free p w = Some w' \<Longrightarrow> set (fw_dead w) \<subseteq> set (fw_dead w') \<and> fw_ctx w' = fw_ctx w"
  by (auto simp: fuse_free_def split: if_splits)

lemma fs_stop_dead:
  assumes "fw_ctx w = Some f" and "str_not_empty (fx_root f)" and "fx_buf f \<noteq> NULL" and "fs_stop E w = Some (r, w1)"
  shows "\<exists>f1. fw_ctx w1 = Some f1 \<and> fx_root f1 = fx_root f \<and> fx_buf f1 = fx_buf f \<and> fx_buf f \<in> set (fw_dead w1) \<and>
    fx_buf f \<notin> set (fw_dead w)"
proof -
  obtain f1 u v where f1: "fx_root f1 = fx_root f" "fx_buf f1 = fx_buf f" and u: "fw_ctx u = Some f1" "fw_dead u = fw_dead w"
    and v: "fuse_free (fx_buf f1) u = Some v" "fuse_free (fx_handler f1) v = Some w1"
  proof (cases "fx_src f = NULL")
    case True
    with assms that [of f "w\<lparr>fw_ctx := Some f\<rparr>"] show ?thesis
      by (auto simp: fs_stop_def FS_PRIV_def bind_eq_Some_conv)
  next
    case False
    with assms obtain s v where "fuse_free (fx_buf f) (w\<lparr>fw_sys := s, fw_ctx := Some (f\<lparr>fx_src := NULL\<rparr>)\<rparr>) = Some v"
      "fuse_free (fx_handler f) v = Some w1"
      by (auto simp: fs_stop_def FS_PRIV_def bind_eq_Some_conv)
    then show ?thesis by (intro that [of "f\<lparr>fx_src := NULL\<rparr>"]) simp_all
  qed
  have "fx_buf f \<notin> set (fw_dead w)" using v(1) f1(2) u(2) assms(3) by (auto simp: fuse_free_def split: if_splits)
  with fuse_free_frees [OF _ v(1)] fuse_free_keeps [OF v(2)] f1 u assms(3) show ?thesis by auto
qed

lemma fs_start_dead:
  assumes "fs_start E U w = Some (r, w1)" and "fw_ctx w = Some f"
  shows "\<exists>f1. fw_ctx w1 = Some f1 \<and> fx_root f1 = fx_root f \<and> fx_buf f1 = fx_buf f \<and> fw_dead w1 = fw_dead w"
  using assms by (auto simp: fs_start_def FS_PRIV_def Let_def bind_eq_Some_conv split: if_splits)

text \<open>
  C36. A context with a file system cannot loop twice once it has served a request: stopping releases
  the buffer of requests but keeps its address, so that in the next loop the first request is
  received into freed memory, and stopping frees it again.
\<close>

theorem fs_second_loop:
  assumes "fw_ctx w = Some f" and "str_not_empty (fx_root f)" and "fx_buf f \<noteq> NULL"
    and "fs_stop E w = Some (r, w1)" and "fs_start E U w1 = Some (r', w2)"
  shows "fs_process U request w2 = None \<and> fs_stop E w2 = None"
proof -
  obtain f1 where f1: "fw_ctx w1 = Some f1" "fx_root f1 = fx_root f" "fx_buf f1 = fx_buf f" "fx_buf f \<in> set (fw_dead w1)"
    using fs_stop_dead [OF assms(1-4)] by blast
  obtain f2 where f2: "fw_ctx w2 = Some f2" "fx_root f2 = fx_root f" "fx_buf f2 = fx_buf f" "fx_buf f \<in> set (fw_dead w2)"
    using fs_start_dead [OF assms(5) f1(1)] f1 by metis
  have "fs_process U request w2 = None" using f2 assms(3) by (simp add: fs_process_def FS_PRIV_def)
  moreover have "fs_stop E w2 = None"
    using fs_stop_dead [OF f2(1), of E] f2 assms(2,3) by (cases "fs_stop E w2") auto
  ultimately show ?thesis ..
qed

definition good_fuse :: fuse where
  "good_fuse = \<lparr>u_mkdir = \<lambda>_ _. 0, u_new = \<lambda>_. 41, u_mount = \<lambda>_. 0, u_fd = \<lambda>_. 9, u_receive = \<lambda>_. 1, u_buf = \<lambda>_. 51\<rparr>"

definition served_world :: fs_world where
  "served_world = fresh_world\<lparr>fw_ctx := Some \<lparr>fx_root = Some ''/tmp/fs'', fx_ops = None, fx_handler = 40, fx_buf = 50,
     fx_start = 0, fx_src = NULL\<rparr>\<rparr>"

lemma served_twice: "\<exists>r w1 r' w2. fs_stop good_env served_world = Some (r, w1) \<and> fs_start good_env good_fuse w1 = Some (r', w2)"
  by (simp add: fs_stop_def fs_start_def FS_PRIV_def served_world_def fresh_world_def fuse_free_def good_fuse_def Let_def
      register_ctx_src_def run_defs)

theorem fs_second_loop_witness:
  "\<exists>w1 w2. fs_stop good_env served_world = Some w1 \<and> fs_start good_env good_fuse (snd w1) = Some w2 \<and>
    fs_process good_fuse Some (snd w2) = None \<and> fs_stop good_env (snd w2) = None"
proof -
  obtain r w1 r' w2 where w: "fs_stop good_env served_world = Some (r, w1)" "fs_start good_env good_fuse w1 = Some (r', w2)"
    using served_twice by blast
  from fs_second_loop [OF _ _ _ w, of _ Some] have "fs_process good_fuse Some w2 = None \<and> fs_stop good_env w2 = None"
    by (simp add: served_world_def str_not_empty_def)
  with w show ?thesis by force
qed

end
