(* ===== verification/Log.thy ===== *)
theory Log
  imports Core Format
begin

text \<open>
  The library's own logging, \<^verbatim>\<open>utils/log.c\<close> and \<^verbatim>\<open>utils/log.h\<close>: the table of functions that the macros
  \<^verbatim>\<open>M_DEBUG\<close> ... \<^verbatim>\<open>M_ERR\<close> call, as \<^verbatim>\<open>libmodule_log_init\<close> fills it from the environment before \<^verbatim>\<open>main\<close>. \<^verbatim>\<open>getenv\<close>
  and \<^verbatim>\<open>fopen\<close> are parameters.
\<close>

datatype m_logger_level = ERR | WARN | INFO | DEBUG
datatype m_logger_context = MEM | STRUCTS | THPOOL | CORE | OTHER

definition lvl_names :: "string list" where
  "lvl_names = [''ERR'', ''WARN'', ''INFO'', ''DEBUG'']"

definition ctx_names :: "(m_logger_context \<times> string) list" where
  "ctx_names = [(MEM, ''MEM''), (STRUCTS, ''STRUCTS''), (THPOOL, ''THPOOL''), (CORE, ''CORE''), (OTHER, ''OTHER'')]"

text \<open>The enumeration's values.\<close>

fun level_no :: "m_logger_level \<Rightarrow> int" where
  "level_no ERR = 0"
| "level_no WARN = 1"
| "level_no INFO = 2"
| "level_no DEBUG = 3"

text \<open>An entry of the table: the null pointer of a global, the function that does nothing, or one that prints.\<close>

datatype log_fn = Unset | Noop | Prints m_logger_level

record m_logger =
  lg_fn :: "m_logger_level \<Rightarrow> m_logger_context \<Rightarrow> log_fn"
  lg_file :: ptr

definition no_logger :: m_logger where
  "no_logger = \<lparr>lg_fn = \<lambda>_ _. Unset, lg_file = NULL\<rparr>"

definition set_fn :: "m_logger_level \<Rightarrow> m_logger_context \<Rightarrow> log_fn \<Rightarrow> m_logger \<Rightarrow> m_logger" where
  "set_fn lvl i f L = L\<lparr>lg_fn := (lg_fn L)(lvl := (lg_fn L lvl)(i := f))\<rparr>"

subsection \<open>A line\<close>

datatype log_out = Stdout | Stderr | LogFile ptr

definition libmodule_log :: "m_logger_level \<Rightarrow> m_logger \<Rightarrow> string \<Rightarrow> int \<Rightarrow> string \<Rightarrow> log_out \<times> string" where
  "libmodule_log lvl L caller lineno msg =
     (if lg_file L \<noteq> NULL then LogFile (lg_file L) else if level_no lvl \<ge> level_no INFO then Stdout else Stderr,
      ''| '' @ take 1 (lvl_names ! nat (level_no lvl)) @ '' | '' @ caller @ '':'' @ show_d lineno @ '' | '' @ msg)"

text \<open>A macro such as \<^verbatim>\<open>M_DEBUG\<close>: a call through the table, undefined before it is filled.\<close>

definition log_call :: "m_logger_level \<Rightarrow> m_logger_context \<Rightarrow> m_logger \<Rightarrow> string \<Rightarrow> int \<Rightarrow> string \<Rightarrow>
    (log_out \<times> string) option option" where
  "log_call lvl i L caller lineno msg = (case lg_fn L lvl i of Unset \<Rightarrow> None
     | Noop \<Rightarrow> Some None
     | Prints l \<Rightarrow> Some (Some (libmodule_log l L caller lineno msg)))"

subsection \<open>Levels from the environment\<close>

definition lower :: "char \<Rightarrow> nat" where
  "lower c = (let n = of_char c in if 65 \<le> n \<and> n \<le> 90 then n + 32 else n)"

text \<open>\<^verbatim>\<open>strcasecmp(a, b) == 0\<close>.\<close>

definition strcaseeq :: "string \<Rightarrow> string \<Rightarrow> bool" where
  "strcaseeq a b \<longleftrightarrow> List.map lower a = List.map lower b"

text \<open>
  The bound of the loop is the number of names, tested with \<open>\<le>\<close>: a string that is none of them is
  compared with what lies behind the array.
\<close>

function find_level_loop :: "string \<Rightarrow> nat \<Rightarrow> int option" where
  "find_level_loop level_str i =
     (if i \<le> length lvl_names then
        (if i < length lvl_names then
           (if strcaseeq level_str (lvl_names ! i) then Some (int i) else find_level_loop level_str (Suc i))
         else None)
      else Some (-1))"
  by pat_completeness auto
termination
  by (relation "measure (\<lambda>(_, i). Suc (length lvl_names) - i)") auto

declare find_level_loop.simps [simp del]

definition find_level :: "string \<Rightarrow> int option" where
  "find_level level_str = find_level_loop level_str 0"

text \<open>The \<^verbatim>\<open>switch\<close>, whose cases fall through.\<close>

definition switch_level :: "int \<Rightarrow> m_logger_context \<Rightarrow> m_logger \<Rightarrow> m_logger" where
  "switch_level log_level i L = (let
       L1 = (if log_level = level_no DEBUG then set_fn DEBUG i (Prints DEBUG) L else L);
       L2 = (if log_level = level_no DEBUG \<or> log_level = level_no INFO then set_fn INFO i (Prints INFO) L1 else L1);
       L3 = (if log_level = level_no DEBUG \<or> log_level = level_no INFO \<or> log_level = level_no WARN
             then set_fn WARN i (Prints WARN) L2 else L2)
     in set_fn ERR i (Prints ERR) L3)"

definition noop_all :: "m_logger_context \<Rightarrow> m_logger \<Rightarrow> m_logger" where
  "noop_all i L = set_fn ERR i Noop (set_fn WARN i Noop (set_fn INFO i Noop (set_fn DEBUG i Noop L)))"

text \<open>The first loop, which also notes the contexts with a level of their own.\<close>

definition init_ctx_level :: "(string \<Rightarrow> string option) \<Rightarrow> m_logger_context \<times> string \<Rightarrow>
    m_logger \<times> m_logger_context list \<Rightarrow> (m_logger \<times> m_logger_context list) option" where
  "init_ctx_level getenv = (\<lambda>(i, name) (L, log_set).
     case getenv (''LIBMODULE_LOG_'' @ name) of
       None \<Rightarrow> Some (switch_level (level_no ERR) i (noop_all i L), log_set)
     | Some log_env \<Rightarrow> (case find_level log_env of
         None \<Rightarrow> None
       | Some log_level \<Rightarrow>
           if log_level \<noteq> -1 then Some (switch_level log_level i (noop_all i L), i # log_set)
           else Some (switch_level (level_no ERR) i (noop_all i L), log_set)))"

definition init_global_level :: "(string \<Rightarrow> string option) \<Rightarrow> m_logger \<times> m_logger_context list \<Rightarrow> m_logger option" where
  "init_global_level getenv = (\<lambda>(L, log_set). do {
     log_level \<leftarrow> (case getenv ''LIBMODULE_LOG'' of
         None \<Rightarrow> Some (level_no ERR)
       | Some log_env \<Rightarrow> map_option (\<lambda>l. if l = -1 then level_no ERR else l) (find_level log_env));
     Some (fold (\<lambda>(i, name) L. if i \<notin> set log_set then switch_level log_level i L else L) ctx_names L)
   })"

definition libmodule_log_init :: "(string \<Rightarrow> string option) \<Rightarrow> (string \<Rightarrow> ptr) \<Rightarrow> m_logger \<Rightarrow> m_logger option" where
  "libmodule_log_init getenv fopen L = do {
     x \<leftarrow> fold_opt (init_ctx_level getenv) ctx_names (L, []);
     L1 \<leftarrow> init_global_level getenv x;
     Some (case getenv ''LIBMODULE_LOG_OUTPUT'' of None \<Rightarrow> L1 | Some log_file_path \<Rightarrow> L1\<lparr>lg_file := fopen log_file_path\<rparr>)
   }"

text \<open>At exit: what is closed.\<close>

definition libmodule_log_deinit :: "m_logger \<Rightarrow> ptr list" where
  "libmodule_log_deinit L = (if lg_file L \<noteq> NULL then [lg_file L] else [])"

subsection \<open>What the table holds\<close>

text \<open>The reference: a level by its name, and the level of a context, its own before that of all before \<open>ERR\<close>.\<close>

definition named_level :: "string \<Rightarrow> m_logger_level option" where
  "named_level v = List.find (\<lambda>l. strcaseeq v (lvl_names ! nat (level_no l))) [ERR, WARN, INFO, DEBUG]"

definition ctx_name :: "m_logger_context \<Rightarrow> string" where
  "ctx_name i = the (map_of ctx_names i)"

definition chosen_level :: "(string \<Rightarrow> string option) \<Rightarrow> m_logger_context \<Rightarrow> m_logger_level" where
  "chosen_level getenv i = (case getenv (''LIBMODULE_LOG_'' @ ctx_name i) of
       Some v \<Rightarrow> the (named_level v)
     | None \<Rightarrow> (case getenv ''LIBMODULE_LOG'' of Some v \<Rightarrow> the (named_level v) | None \<Rightarrow> ERR))"

definition known_var :: "(string \<Rightarrow> string option) \<Rightarrow> string \<Rightarrow> bool" where
  "known_var getenv x \<longleftrightarrow> (case getenv x of None \<Rightarrow> True | Some v \<Rightarrow> named_level v \<noteq> None)"

definition known_vars :: "(string \<Rightarrow> string option) \<Rightarrow> bool" where
  "known_vars getenv \<longleftrightarrow> known_var getenv ''LIBMODULE_LOG'' \<and> (\<forall>(i, name)\<in>set ctx_names. known_var getenv (''LIBMODULE_LOG_'' @ name))"

lemma find_level_named: "find_level v = map_option level_no (named_level v)"
  by (simp add: find_level_def named_level_def find_level_loop.simps lvl_names_def eval_nat_numeral)

text \<open>The \<^verbatim>\<open>switch\<close> turns on exactly the functions up to the level.\<close>

lemma switch_level_fn:
  "lg_fn (switch_level (level_no l) i L) k j = (if j = i \<and> level_no k \<le> level_no l then Prints k else lg_fn L k j)"
  by (cases l; cases k) (auto simp: switch_level_def set_fn_def)

lemma noop_all_fn: "lg_fn (noop_all i L) k j = (if j = i then Noop else lg_fn L k j)"
  by (cases k) (auto simp: noop_all_def set_fn_def)

lemma switch_err_fn:
  "lg_fn (switch_level 0 i L) k j = (if j = i \<and> k = ERR then Prints ERR else lg_fn L k j)"
  using switch_level_fn [of ERR i L k j] by (cases k) auto

lemma lg_file_kept [simp]: "lg_file (switch_level l i L) = lg_file L" "lg_file (noop_all i L) = lg_file L"
  by (simp_all add: switch_level_def noop_all_def set_fn_def Let_def)

text \<open>The first loop context by context.\<close>

lemma level_no_not_minus [simp]: "level_no l \<noteq> -1"
  by (cases l) simp_all

lemma init_ctx_level_spec:
  "init_ctx_level getenv (i, name) (L, set') =
    (case getenv (''LIBMODULE_LOG_'' @ name) of
       None \<Rightarrow> Some (switch_level 0 i (noop_all i L), set')
     | Some v \<Rightarrow> map_option (\<lambda>l. (switch_level (level_no l) i (noop_all i L), i # set')) (named_level v))"
  by (simp add: init_ctx_level_def find_level_named split: option.split)

definition own_level :: "(string \<Rightarrow> string option) \<Rightarrow> string \<Rightarrow> m_logger_level" where
  "own_level getenv name = (case getenv (''LIBMODULE_LOG_'' @ name) of None \<Rightarrow> ERR | Some v \<Rightarrow> the (named_level v))"

lemma init_ctx_level_unknown:
  "\<not> known_var getenv (''LIBMODULE_LOG_'' @ name) \<Longrightarrow> init_ctx_level getenv (i, name) x = None"
  by (cases x) (auto simp: init_ctx_level_spec known_var_def split: option.splits)

lemma init_ctx_level_known:
  assumes "known_var getenv (''LIBMODULE_LOG_'' @ name)"
  shows "\<exists>L' S'. init_ctx_level getenv (i, name) (L, S) = Some (L', S') \<and> lg_file L' = lg_file L \<and>
    set S' = (if getenv (''LIBMODULE_LOG_'' @ name) = None then set S else insert i (set S)) \<and>
    (\<forall>k j. lg_fn L' k j = (if j \<noteq> i then lg_fn L k j
      else if level_no k \<le> level_no (own_level getenv name) then Prints k else Noop))"
proof (cases "getenv (''LIBMODULE_LOG_'' @ name)")
  case None
  have "level_no k \<le> 0 \<longleftrightarrow> k = ERR" for k by (cases k) simp_all
  with None show ?thesis by (simp add: init_ctx_level_spec own_level_def switch_err_fn noop_all_fn)
next
  case (Some v)
  with assms obtain l where "named_level v = Some l" by (auto simp: known_var_def)
  with Some show ?thesis by (simp add: init_ctx_level_spec own_level_def switch_level_fn noop_all_fn)
qed

lemma init_ctx_levels:
  assumes "distinct (List.map fst xs)" and "\<forall>(i, name)\<in>set xs. known_var getenv (''LIBMODULE_LOG_'' @ name)"
  shows "\<exists>L' S'. fold_opt (init_ctx_level getenv) xs (L, S) = Some (L', S') \<and> lg_file L' = lg_file L \<and>
    (\<forall>j. j \<in> set S' \<longleftrightarrow> j \<in> set S \<or> (\<exists>name. map_of xs j = Some name \<and> getenv (''LIBMODULE_LOG_'' @ name) \<noteq> None)) \<and>
    (\<forall>k j. lg_fn L' k j = (case map_of xs j of None \<Rightarrow> lg_fn L k j
      | Some name \<Rightarrow> if level_no k \<le> level_no (own_level getenv name) then Prints k else Noop))"
  using assms
proof (induction xs arbitrary: L S)
  case (Cons x xs)
  obtain i name where x: "x = (i, name)" by (cases x)
  with Cons.prems have "known_var getenv (''LIBMODULE_LOG_'' @ name)" by simp
  then obtain L1 S1 where 1: "init_ctx_level getenv (i, name) (L, S) = Some (L1, S1)" "lg_file L1 = lg_file L"
    "set S1 = (if getenv (''LIBMODULE_LOG_'' @ name) = None then set S else insert i (set S))"
    "\<And>k j. lg_fn L1 k j = (if j \<noteq> i then lg_fn L k j
      else if level_no k \<le> level_no (own_level getenv name) then Prints k else Noop)"
    using init_ctx_level_known by blast
  have "distinct (List.map fst xs)" "\<forall>(i, name)\<in>set xs. known_var getenv (''LIBMODULE_LOG_'' @ name)"
    using Cons.prems by simp_all
  from Cons.IH [OF this, of L1 S1] obtain L' S' where 2: "fold_opt (init_ctx_level getenv) xs (L1, S1) = Some (L', S')"
    "lg_file L' = lg_file L1"
    "\<And>j. j \<in> set S' \<longleftrightarrow> j \<in> set S1 \<or> (\<exists>name. map_of xs j = Some name \<and> getenv (''LIBMODULE_LOG_'' @ name) \<noteq> None)"
    "\<And>k j. lg_fn L' k j = (case map_of xs j of None \<Rightarrow> lg_fn L1 k j
      | Some name \<Rightarrow> if level_no k \<le> level_no (own_level getenv name) then Prints k else Noop)" by blast
  have new: "map_of xs i = None" using Cons.prems(1) x by (simp add: map_of_eq_None_iff)
  have "j \<in> set S' \<longleftrightarrow> j \<in> set S \<or> (\<exists>name. map_of (x # xs) j = Some name \<and> getenv (''LIBMODULE_LOG_'' @ name) \<noteq> None)" for j
    using 2(3) [of j] 1(3) new x by (cases "j = i") auto
  moreover have "lg_fn L' k j = (case map_of (x # xs) j of None \<Rightarrow> lg_fn L k j
      | Some name \<Rightarrow> if level_no k \<le> level_no (own_level getenv name) then Prints k else Noop)" for k j
    using 2(4) [of k j] 1(4) [of k j] new x by (cases "j = i") (auto split: option.splits)
  ultimately show ?case using 1(1,2) 2(1,2) x by simp
qed simp

lemma init_ctx_levels_unknown:
  "\<exists>(i, name)\<in>set xs. \<not> known_var getenv (''LIBMODULE_LOG_'' @ name) \<Longrightarrow> fold_opt (init_ctx_level getenv) xs x = None"
proof (induction xs arbitrary: x)
  case (Cons y ys)
  obtain i name where y: "y = (i, name)" by (cases y)
  show ?case
  proof (cases "known_var getenv (''LIBMODULE_LOG_'' @ name)")
    case False
    then show ?thesis by (simp add: y init_ctx_level_unknown)
  next
    case True
    with Cons.prems y have "\<exists>(i, name)\<in>set ys. \<not> known_var getenv (''LIBMODULE_LOG_'' @ name)" by auto
    from Cons.IH [OF this] show ?thesis by (simp split: Option.bind_split)
  qed
qed simp

lemma global_fold_fn:
  "lg_fn (fold (\<lambda>(i, name) L. if i \<notin> S then switch_level (level_no l) i L else L) xs L) k j =
    (if j \<in> fst ` set xs \<and> j \<notin> S \<and> level_no k \<le> level_no l then Prints k else lg_fn L k j)"
  by (induction xs arbitrary: L) (auto simp: switch_level_fn)

lemma global_fold_file:
  "lg_file (fold (\<lambda>(i, name) L. if i \<notin> S then switch_level l i L else L) xs L) = lg_file L"
  by (induction xs arbitrary: L) auto

lemma ctx_names_all [simp]: "i \<in> fst ` set ctx_names" "map_of ctx_names i = Some (ctx_name i)" "distinct (List.map fst ctx_names)"
  by (cases i; simp add: ctx_names_def ctx_name_def) (cases i; simp add: ctx_names_def ctx_name_def)+

definition global_level :: "(string \<Rightarrow> string option) \<Rightarrow> m_logger_level" where
  "global_level getenv = (case getenv ''LIBMODULE_LOG'' of None \<Rightarrow> ERR | Some v \<Rightarrow> the (named_level v))"

lemma init_global_level_spec:
  "init_global_level getenv (L, S) = (if known_var getenv ''LIBMODULE_LOG''
     then Some (fold (\<lambda>(i, name) L. if i \<notin> set S then switch_level (level_no (global_level getenv)) i L else L) ctx_names L)
     else None)"
proof -
  have "(case getenv ''LIBMODULE_LOG'' of None \<Rightarrow> Some (level_no ERR)
      | Some log_env \<Rightarrow> map_option (\<lambda>l. if l = -1 then level_no ERR else l) (find_level log_env)) =
    (if known_var getenv ''LIBMODULE_LOG'' then Some (level_no (global_level getenv)) else None)"
    by (auto simp: known_var_def global_level_def find_level_named split: option.split) (metis level_no_not_minus)
  then show ?thesis by (simp add: init_global_level_def)
qed

text \<open>
  C39. The environment decides what is logged. If each of the variables that are set names a level, a
  context logs at the levels up to its own variable's, or else the common one's, or else errors
  only, and the other entries do nothing; a variable that names none makes the search read past
  the names.
\<close>

theorem log_init:
  "libmodule_log_init getenv fopen L =
    (if known_vars getenv
     then Some \<lparr>lg_fn = \<lambda>k i. if level_no k \<le> level_no (chosen_level getenv i) then Prints k else Noop,
                lg_file = (case getenv ''LIBMODULE_LOG_OUTPUT'' of None \<Rightarrow> lg_file L | Some path \<Rightarrow> fopen path)\<rparr>
     else None)"
proof (cases "\<forall>(i, name)\<in>set ctx_names. known_var getenv (''LIBMODULE_LOG_'' @ name)")
  case False
  then have "\<exists>(i, name)\<in>set ctx_names. \<not> known_var getenv (''LIBMODULE_LOG_'' @ name)" by auto
  from init_ctx_levels_unknown [OF this] False show ?thesis by (simp add: libmodule_log_init_def known_vars_def)
next
  case True
  from init_ctx_levels [OF ctx_names_all(3) True, of L "[]"] obtain L1 S1 where
    1: "fold_opt (init_ctx_level getenv) ctx_names (L, []) = Some (L1, S1)" "lg_file L1 = lg_file L"
    "\<And>j. j \<in> set S1 \<longleftrightarrow> getenv (''LIBMODULE_LOG_'' @ ctx_name j) \<noteq> None"
    "\<And>k j. lg_fn L1 k j = (if level_no k \<le> level_no (own_level getenv (ctx_name j)) then Prints k else Noop)"
    by auto
  have err: "level_no k \<le> 0 \<Longrightarrow> level_no k \<le> level_no l" for k l by (cases l) simp_all
  have fn: "(if k \<notin> set S1 \<and> level_no j \<le> level_no (global_level getenv) then Prints j else lg_fn L1 j k) =
      (if level_no j \<le> level_no (chosen_level getenv k) then Prints j else Noop)" for j k
    using 1(3) [of k] 1(4) [of j k] err [of j "global_level getenv"]
    by (auto simp: own_level_def chosen_level_def global_level_def split: option.splits)
  let ?L = "fold (\<lambda>(i, name) L. if i \<notin> set S1 then switch_level (level_no (global_level getenv)) i L else L) ctx_names L1"
  have "lg_fn ?L = (\<lambda>j k. if level_no j \<le> level_no (chosen_level getenv k) then Prints j else Noop)"
    by (intro ext) (simp only: global_fold_fn ctx_names_all simp_thms fn)
  moreover have "lg_file ?L = lg_file L" by (simp add: global_fold_file 1(2))
  ultimately show ?thesis
    using 1(1) True by (auto simp: libmodule_log_init_def init_global_level_spec known_vars_def split: option.split)
qed

end
