(* ===== verification/Kqueue.thy ===== *)
theory Kqueue
  imports Core
begin

text \<open>
  The plugin that polls with kqueue on BSD and macOS, \<^verbatim>\<open>poll/kqueue.c\<close>. A source has its \<^verbatim>\<open>struct kevent\<close>
  instead of epoll data; the state adds these, the counter that numbers timers and the changes submitted to
  the kernel, latest first, to that of the core. The kernel is a parameter, as are the values of the
  platform's constants; \<open>None\<close> for \<open>k_absolute\<close> is a platform without absolute timers.
\<close>

subsection \<open>State\<close>

datatype kfilter = EVFILT_NONE | EVFILT_READ | EVFILT_TIMER | EVFILT_SIGNAL | EVFILT_VNODE | EVFILT_PROC | EVFILT_USER
datatype kflag = EV_ADD | EV_DELETE | EV_ONESHOT | EV_ERROR

record kevent =
  kv_ident :: int
  kv_filter :: kfilter
  kv_flags :: "kflag list"
  kv_fflags :: "32 word"
  kv_data :: "64 word"
  kv_udata :: sid

record kq_world =
  kq_sys :: sys
  kq_fd :: int
  kq_ev :: "sid \<Rightarrow> kevent option"
  kq_timer_ids :: int
  kq_pevents :: "kevent list option"
  kq_calls :: "kevent list"

record kernel =
  k_kqueue :: "sys \<Rightarrow> int"
  k_kevent :: "kevent \<Rightarrow> kq_world \<Rightarrow> int"
  k_wait :: "int \<Rightarrow> kq_world \<Rightarrow> int \<times> kevent list"
  k_open :: "string \<Rightarrow> kq_world \<Rightarrow> int"
  k_absolute :: "32 word option"
  k_nseconds :: "32 word"
  k_ffnop :: "32 word"
  k_trigger :: "32 word"

text \<open>What \<^verbatim>\<open>calloc\<close> leaves, and \<^verbatim>\<open>EV_SET\<close>.\<close>

definition zero_kevent :: kevent where
  "zero_kevent = \<lparr>kv_ident = 0, kv_filter = EVFILT_NONE, kv_flags = [], kv_fflags = 0, kv_data = 0, kv_udata = NULL\<rparr>"

definition EV_SET :: "sid \<Rightarrow> int \<Rightarrow> kfilter \<Rightarrow> kflag list \<Rightarrow> 32 word \<Rightarrow> 64 word \<Rightarrow> sid \<Rightarrow> kq_world \<Rightarrow> kq_world" where
  "EV_SET i ident filt fl fflags dat udata w =
     w\<lparr>kq_ev := (kq_ev w)(i := Some \<lparr>kv_ident = ident, kv_filter = filt, kv_flags = fl, kv_fflags = fflags,
                                     kv_data = dat, kv_udata = udata\<rparr>)\<rparr>"

abbreviation (input) EBADF :: int where "EBADF \<equiv> 9"

subsection \<open>Adding and removing a source\<close>

text \<open>
  The \<^verbatim>\<open>switch\<close>: it fills the change, and ends the call early when a path cannot be opened. A timer takes
  the next number, and a path is opened, when they are added and when they are removed.
  Counting past \<^verbatim>\<open>INT_MAX\<close> is undefined.
\<close>

definition kq_set_key :: "kernel \<Rightarrow> sid \<Rightarrow> ev_src \<Rightarrow> kflag list \<Rightarrow> kq_world \<Rightarrow> (int \<times> kq_world) option" where
  "kq_set_key K i t f w = (case (es_type t, es_key t) of
     (M_SRC_TYPE_PS, _) \<Rightarrow> Some (0, EV_SET i (es_fd t) EVFILT_READ f 0 0 i w)
   | (M_SRC_TYPE_FD, _) \<Rightarrow> Some (0, EV_SET i (es_fd t) EVFILT_READ f 0 0 i w)
   | (M_SRC_TYPE_TMR, KeyTmr (clock, ns)) \<Rightarrow>
       (let fl = (case k_absolute K of None \<Rightarrow> 0 | Some note \<Rightarrow> if has (es_flags t) M_SRC_TMR_ABSOLUTE then note else 0)
        in if kq_timer_ids w \<ge> 2 ^ 31 - 1 then None
           else Some (0, EV_SET i (kq_timer_ids w) EVFILT_TIMER f (or fl (k_nseconds K)) ns i
                           (w\<lparr>kq_timer_ids := kq_timer_ids w + 1\<rparr>)))
   | (M_SRC_TYPE_SGN, KeySgn signo) \<Rightarrow> Some (0, EV_SET i (sint signo) EVFILT_SIGNAL f 0 0 i w)
   | (M_SRC_TYPE_PATH, KeyPath path events) \<Rightarrow>
       (let fd = k_open K path w; w1 = w\<lparr>kq_sys := set_src i (t\<lparr>es_fd := fd\<rparr>) (kq_sys w)\<rparr>
        in if fd \<noteq> -1 then Some (0, EV_SET i fd EVFILT_VNODE f events 0 i w1) else Some (- EBADF, w1))
   | (M_SRC_TYPE_PID, KeyPid pid events) \<Rightarrow> Some (0, EV_SET i pid EVFILT_PROC f events 0 i w)
   | (M_SRC_TYPE_TASK, _) \<Rightarrow> Some (0, EV_SET i (int i) EVFILT_USER f (k_ffnop K) 0 i w)
   | (M_SRC_TYPE_THRESH, _) \<Rightarrow> Some (0, EV_SET i (int i) EVFILT_USER f (k_ffnop K) 0 i w)
   | _ \<Rightarrow> None)"

text \<open>The change goes to the kernel, whose result is not looked at for standard input.\<close>

definition kq_submit :: "kernel \<Rightarrow> sid \<Rightarrow> kq_world \<Rightarrow> (int \<times> kq_world) option" where
  "kq_submit K i w = (case kq_ev w i of None \<Rightarrow> None
     | Some ev \<Rightarrow> Some (k_kevent K ev w, w\<lparr>kq_calls := ev # kq_calls w\<rparr>))"

definition kq_set_new_evt :: "kernel \<Rightarrow> env \<Rightarrow> sid \<Rightarrow> op_type \<Rightarrow> kq_world \<Rightarrow> (int \<times> kq_world) option" where
  "kq_set_new_evt K E i op w = (case s_srcs (kq_sys w) i of None \<Rightarrow> None | Some t0 \<Rightarrow>
     if kq_ev w i = None \<and> op = RM then Some (0, w)
     else case (if kq_ev w i = None then alloc E (kq_sys w) else (i, kq_sys w)) of (p, s1) \<Rightarrow>
       if p = NULL then Some (- ENOMEM, w\<lparr>kq_sys := s1\<rparr>)
       else do {
         let w1 = w\<lparr>kq_sys := s1, kq_ev := (kq_ev w)(i := Some (case kq_ev w i of None \<Rightarrow> zero_kevent | Some ev \<Rightarrow> ev))\<rparr>;
         let f = (if op = ADD then EV_ADD else EV_DELETE) # (if has (es_flags t0) M_SRC_ONESHOT then [EV_ONESHOT] else []);
         (err, w2) \<leftarrow> kq_set_key K i t0 f w1;
         if err \<noteq> 0 then Some (err, w2)
         else do {
           (r, w3) \<leftarrow> kq_submit K i w2;
           t \<leftarrow> s_srcs (kq_sys w3) i;
           let ret = (if es_type t = M_SRC_TYPE_FD \<and> es_fd t = 0 then 0 else r);
           if op = RM then
             (let w4 = w3\<lparr>kq_ev := (kq_ev w3)(i := None)\<rparr> in
               if es_type t = M_SRC_TYPE_PATH
               then Some (ret, w4\<lparr>kq_sys := close_fd (es_fd t) (set_src i (t\<lparr>es_fd := -1\<rparr>) (kq_sys w4))\<rparr>)
               else Some (ret, w4))
           else Some (ret, w3)
         }
       })"

subsection \<open>The rest of the plugin\<close>

text \<open>A queue that cannot be made is not noticed.\<close>

definition kq_create :: "kernel \<Rightarrow> env \<Rightarrow> kq_world \<Rightarrow> int \<times> kq_world" where
  "kq_create K E w = (case alloc E (kq_sys w) of (priv, s1) \<Rightarrow>
     if priv = NULL then (- ENOMEM, w\<lparr>kq_sys := s1\<lparr>c_priv := False\<rparr>\<rparr>)
     else (0, w\<lparr>kq_sys := s1\<lparr>c_priv := True\<rparr>, kq_fd := k_kqueue K s1, kq_pevents := None\<rparr>))"

definition kq_init :: "env \<Rightarrow> kq_world \<Rightarrow> int \<times> kq_world" where
  "kq_init E w = (case alloc E (kq_sys w) of (pevents, s1) \<Rightarrow>
     if pevents = NULL then (- ENOMEM, w\<lparr>kq_sys := s1, kq_pevents := None\<rparr>)
     else (0, w\<lparr>kq_sys := s1, kq_pevents := Some []\<rparr>))"

definition kq_wait :: "kernel \<Rightarrow> int \<Rightarrow> kq_world \<Rightarrow> int \<times> kq_world" where
  "kq_wait K timeout w = (case k_wait K timeout w of (r, evs) \<Rightarrow> (r, w\<lparr>kq_pevents := map_option (\<lambda>_. evs) (kq_pevents w)\<rparr>))"

definition kq_evt :: "nat \<Rightarrow> kq_world \<Rightarrow> kevent option" where
  "kq_evt idx w = (case kq_pevents w of None \<Rightarrow> None | Some evs \<Rightarrow> if idx < length evs then Some (evs ! idx) else None)"

definition kq_recv :: "nat \<Rightarrow> kq_world \<Rightarrow> sid option" where
  "kq_recv idx w = map_option (\<lambda>ev. if EV_ERROR \<in> set (kv_flags ev) then NULL else kv_udata ev) (kq_evt idx w)"

definition kq_consume_sgn :: "nat \<Rightarrow> kq_world \<Rightarrow> int" where "kq_consume_sgn idx w = 0"
definition kq_consume_tmr :: "nat \<Rightarrow> kq_world \<Rightarrow> int" where "kq_consume_tmr idx w = 0"
definition kq_consume_thresh :: "nat \<Rightarrow> kq_world \<Rightarrow> int" where "kq_consume_thresh idx w = 0"

definition kq_consume_pt :: "nat \<Rightarrow> kq_world \<Rightarrow> (int \<times> 32 word) option" where
  "kq_consume_pt idx w = map_option (\<lambda>ev. (0, kv_fflags ev)) (kq_evt idx w)"

definition kq_consume_pid :: "nat \<Rightarrow> kq_world \<Rightarrow> (int \<times> 32 word) option" where
  "kq_consume_pid idx w = map_option (\<lambda>ev. (0, kv_fflags ev)) (kq_evt idx w)"

definition kq_consume_task :: "ev_src \<Rightarrow> int \<times> int" where
  "kq_consume_task t = (0, es_retval t)"

definition kq_get_fd :: "kq_world \<Rightarrow> int" where
  "kq_get_fd w = kq_fd w"

definition kq_clear :: "kq_world \<Rightarrow> kq_world option" where
  "kq_clear w = (if \<not> c_priv (kq_sys w) then None else Some (w\<lparr>kq_pevents := None\<rparr>))"

definition kq_destroy :: "kq_world \<Rightarrow> kq_world option" where
  "kq_destroy w = map_option (\<lambda>w1. w1\<lparr>kq_sys := close_fd (kq_fd w1) (kq_sys w1)\<rparr>) (kq_clear w)"

definition kq_notify_userevent :: "kernel \<Rightarrow> sid \<Rightarrow> kq_world \<Rightarrow> (int \<times> kq_world) option" where
  "kq_notify_userevent K i w = (if kq_ev w i = None then None
     else kq_submit K i (EV_SET i (int i) EVFILT_USER [] (or (k_ffnop K) (k_trigger K)) 0 i w))"

end
