(* ===== verification/KqueueFacts.thy ===== *)
theory KqueueFacts
  imports Kqueue Demo
begin

text \<open>What is submitted to the kernel for timers and paths with the plugin of \<^verbatim>\<open>kqueue.c\<close>.\<close>

subsection \<open>Changes that name nothing\<close>

datatype kq_op = KqSet sid op_type | KqNotify sid

fun kq_do :: "kernel \<Rightarrow> env \<Rightarrow> kq_op \<Rightarrow> kq_world \<Rightarrow> kq_world option" where
  "kq_do K E (KqSet i op) w = map_option snd (kq_set_new_evt K E i op w)"
| "kq_do K E (KqNotify i) w = map_option snd (kq_notify_userevent K i w)"

definition timers :: "kq_world \<Rightarrow> int list" where
  "timers w = List.map kv_ident (filter (\<lambda>ev. kv_filter ev = EVFILT_TIMER) (kq_calls w))"

text \<open>
  No number is used twice, and none beyond the counter. What a source has between calls may be a change
  of a timer, but it is filled anew before it is submitted again.
\<close>

definition timers_ok :: "kq_world \<Rightarrow> bool" where
  "timers_ok w \<longleftrightarrow> distinct (timers w) \<and> (\<forall>n\<in>set (timers w). n < kq_timer_ids w)"

lemma kq_submit_timers:
  assumes "kq_submit K i w = Some (r, w')"
  shows "timers w' = (case kq_ev w i of None \<Rightarrow> timers w
      | Some ev \<Rightarrow> if kv_filter ev = EVFILT_TIMER then kv_ident ev # timers w else timers w)"
    and "kq_timer_ids w' = kq_timer_ids w"
  using assms by (auto simp: kq_submit_def timers_def split: option.splits)

lemma kq_set_key_timers:
  assumes "kq_set_key K i t f w = Some (err, w')"
  shows "timers w' = timers w" and "kq_timer_ids w \<le> kq_timer_ids w'"
    and "err = 0 \<Longrightarrow> \<exists>ev. kq_ev w' i = Some ev \<and> (kv_filter ev = EVFILT_TIMER \<longrightarrow>
      kv_ident ev = kq_timer_ids w \<and> kq_timer_ids w' = kq_timer_ids w + 1)"
  using assms
  by (auto simp: kq_set_key_def EV_SET_def timers_def Let_def split: m_src_types.splits src_key.splits if_splits)

lemma timers_ok_submit:
  assumes "timers_ok w" and "kq_set_key K i t f w = Some (0, w1)" and "kq_submit K i w1 = Some (r, w2)"
  shows "timers_ok w2"
proof -
  obtain ev where ev: "kq_ev w1 i = Some ev" "kv_filter ev = EVFILT_TIMER \<longrightarrow>
      kv_ident ev = kq_timer_ids w \<and> kq_timer_ids w1 = kq_timer_ids w + 1"
    using kq_set_key_timers(3) [OF assms(2)] by blast
  show ?thesis
    using assms(1) ev kq_submit_timers [OF assms(3)] kq_set_key_timers(1,2) [OF assms(2)]
    by (auto simp: timers_ok_def)
qed

lemma timers_ok_cong: "timers_ok w \<Longrightarrow> kq_calls w' = kq_calls w \<Longrightarrow> kq_timer_ids w' = kq_timer_ids w \<Longrightarrow> timers_ok w'"
  by (simp add: timers_ok_def timers_def)

lemma timers_ok_key:
  assumes "timers_ok w" and "kq_set_key K i t f w = Some (err, w1)"
  shows "timers_ok w1"
  using assms(1) kq_set_key_timers(1,2) [OF assms(2)] by (auto simp: timers_ok_def)

lemma timers_ok_set:
  assumes "timers_ok w" and "kq_set_new_evt K E i op w = Some (r, w')"
  shows "timers_ok w'"
proof -
  obtain t0 where t0: "s_srcs (kq_sys w) i = Some t0" using assms(2) by (auto simp: kq_set_new_evt_def split: option.splits)
  obtain p s1 where p: "(if kq_ev w i = None then alloc E (kq_sys w) else (i, kq_sys w)) = (p, s1)" by fastforce
  show ?thesis
  proof (cases "kq_ev w i = None \<and> op = RM \<or> p = NULL")
    case True
    then have "w' = w \<or> w' = w\<lparr>kq_sys := s1\<rparr>" using assms(2) t0 p by (auto simp: kq_set_new_evt_def split: if_splits)
    then show ?thesis by (auto intro: timers_ok_cong [OF assms(1)])
  next
    case False
    define w1 where "w1 = w\<lparr>kq_sys := s1, kq_ev := (kq_ev w)(i := Some (case kq_ev w i of None \<Rightarrow> zero_kevent | Some ev \<Rightarrow> ev))\<rparr>"
    define f where "f = (if op = ADD then EV_ADD else EV_DELETE) # (if has (es_flags t0) M_SRC_ONESHOT then [EV_ONESHOT] else [])"
    have ok: "timers_ok w1" by (rule timers_ok_cong [OF assms(1)]) (simp_all add: w1_def)
    from assms(2) t0 p False obtain err w2 where w2: "kq_set_key K i t0 f w1 = Some (err, w2)"
      and rest: "(if err \<noteq> 0 then Some (err, w2) else do {
           (r, w3) \<leftarrow> kq_submit K i w2;
           t \<leftarrow> s_srcs (kq_sys w3) i;
           let ret = (if es_type t = M_SRC_TYPE_FD \<and> es_fd t = 0 then 0 else r);
           if op = RM then
             (let w4 = w3\<lparr>kq_ev := (kq_ev w3)(i := None)\<rparr> in
               if es_type t = M_SRC_TYPE_PATH
               then Some (ret, w4\<lparr>kq_sys := close_fd (es_fd t) (set_src i (t\<lparr>es_fd := -1\<rparr>) (kq_sys w4))\<rparr>)
               else Some (ret, w4))
           else Some (ret, w3)
         }) = Some (r, w')"
      unfolding kq_set_new_evt_def w1_def [symmetric]
      by (auto simp: Let_def w1_def f_def bind_eq_Some_conv split: if_splits)
    show ?thesis
    proof (cases "err = 0")
      case False
      with rest show ?thesis using timers_ok_key [OF ok w2] by simp
    next
      case True
      with rest obtain r3 w3 where w3: "kq_submit K i w2 = Some (r3, w3)"
        and w': "kq_calls w' = kq_calls w3" "kq_timer_ids w' = kq_timer_ids w3"
        by (auto simp: Let_def bind_eq_Some_conv split: if_splits)
      from timers_ok_submit [OF ok w2 [unfolded True] w3] w' show ?thesis by (rule timers_ok_cong)
    qed
  qed
qed

lemma timers_ok_do:
  assumes "timers_ok w" and "kq_do K E x w = Some w'"
  shows "timers_ok w'"
proof (cases x)
  case (KqSet i op)
  with assms timers_ok_set [OF assms(1)] show ?thesis by auto
next
  case (KqNotify i)
  with assms show ?thesis
    by (auto simp: kq_notify_userevent_def kq_submit_def EV_SET_def timers_ok_def timers_def split: if_splits)
qed

lemma timers_ok_run: "timers_ok w \<Longrightarrow> fold_opt (kq_do K E) xs w = Some w' \<Longrightarrow> timers_ok w'"
  by (induction xs arbitrary: w) (auto simp: bind_eq_Some_conv intro: timers_ok_do)

lemma distinct_map_filter_eq:
  "distinct (List.map f (filter P xs)) \<Longrightarrow> x \<in> set xs \<Longrightarrow> y \<in> set xs \<Longrightarrow> P x \<Longrightarrow> P y \<Longrightarrow> f x = f y \<Longrightarrow> x = y"
  by (auto simp: distinct_map inj_on_def)

text \<open>
  C40. With kqueue a timer that was armed is never disarmed: removing it takes a new number as well, so in any
  history of calls no deletion of a timer names one that was added.
\<close>

theorem kq_timer_never_deleted:
  assumes "fold_opt (kq_do K E) xs w = Some w'" and "kq_calls w = []"
    and "ev \<in> set (kq_calls w')" and "kv_filter ev = EVFILT_TIMER" and "EV_DELETE \<in> set (kv_flags ev)"
    and "ev' \<in> set (kq_calls w')" and "kv_filter ev' = EVFILT_TIMER" and "EV_DELETE \<notin> set (kv_flags ev')"
  shows "kv_ident ev \<noteq> kv_ident ev'"
proof -
  have "timers_ok w" using assms(2) by (simp add: timers_ok_def timers_def)
  then have "timers_ok w'" using assms(1) by (rule timers_ok_run)
  then have "distinct (List.map kv_ident (filter (\<lambda>ev. kv_filter ev = EVFILT_TIMER) (kq_calls w')))"
    by (simp add: timers_ok_def timers_def)
  from distinct_map_filter_eq [OF this assms(3,6,4,7)] assms(5,8) show ?thesis by auto
qed

text \<open>A timer, and a path whose file has another descriptor each time it is opened.\<close>

definition a_timer :: ev_src where
  "a_timer = \<lparr>es_type = M_SRC_TYPE_TMR, es_fd = -1, es_key = KeyTmr (1, 1000), es_alarm = (0, 0), es_retval = 0,
     es_flags = 0, es_ev = False, es_mod = 1, es_userptr = User NULL, es_refs = 1\<rparr>"

definition a_kernel :: kernel where
  "a_kernel = \<lparr>k_kqueue = \<lambda>_. 3, k_kevent = \<lambda>_ _. 0, k_wait = \<lambda>_ _. (0, []), k_open = \<lambda>_ w. 10 + int (length (kq_calls w)),
     k_absolute = Some 8, k_nseconds = 4, k_ffnop = 0, k_trigger = 0x01000000\<rparr>"

definition kq_start :: kq_world where
  "kq_start = \<lparr>kq_sys = live_sys\<lparr>s_srcs := (\<lambda>_. None)(5 := Some a_timer)\<rparr>, kq_fd = 3, kq_ev = \<lambda>_. None, kq_timer_ids = 1,
     kq_pevents = None, kq_calls = []\<rparr>"

lemmas kq_run_defs = kq_set_new_evt_def kq_set_key_def kq_submit_def EV_SET_def kq_start_def a_kernel_def a_timer_def
  zero_kevent_def set_src_def close_fd_def has_def alloc_def run_flags

lemma kq_start_run:
  "\<exists>w'. fold_opt (kq_do a_kernel good_env) [KqSet 5 ADD, KqSet 5 RM] kq_start = Some w' \<and>
    kq_calls w' = [\<lparr>kv_ident = 2, kv_filter = EVFILT_TIMER, kv_flags = [EV_DELETE], kv_fflags = 4, kv_data = 1000, kv_udata = 5\<rparr>,
      \<lparr>kv_ident = 1, kv_filter = EVFILT_TIMER, kv_flags = [EV_ADD], kv_fflags = 4, kv_data = 1000, kv_udata = 5\<rparr>]"
  by (simp add: kq_run_defs Let_def live_sys_def new_sys_def)

theorem kq_timer_never_deleted_witness:
  "\<exists>w' ev ev'. fold_opt (kq_do a_kernel good_env) [KqSet 5 ADD, KqSet 5 RM] kq_start = Some w' \<and>
    kq_calls w' = [ev, ev'] \<and> EV_DELETE \<in> set (kv_flags ev) \<and> EV_ADD \<in> set (kv_flags ev') \<and>
    kv_udata ev = kv_udata ev' \<and> kv_ident ev \<noteq> kv_ident ev'"
proof -
  obtain w' ev ev' where w: "fold_opt (kq_do a_kernel good_env) [KqSet 5 ADD, KqSet 5 RM] kq_start = Some w'"
    "kq_calls w' = [ev, ev']" and ev: "kv_filter ev = EVFILT_TIMER" "kv_flags ev = [EV_DELETE]" "kv_filter ev' = EVFILT_TIMER"
    "kv_flags ev' = [EV_ADD]" "kv_udata ev = kv_udata ev'"
    using kq_start_run by auto
  have "kv_ident ev \<noteq> kv_ident ev'"
    by (rule kq_timer_never_deleted [OF w(1)]) (simp_all add: w(2) ev kq_start_def)
  with w ev show ?thesis by auto
qed

text \<open>
  A path is opened again to be removed: the deletion names the second descriptor, which is closed, and the
  first one stays open.
\<close>

definition a_path :: ev_src where
  "a_path = a_timer\<lparr>es_type := M_SRC_TYPE_PATH, es_key := KeyPath ''/tmp'' 2\<rparr>"

lemma kq_path_reopened:
  "\<exists>w'. fold_opt (kq_do a_kernel good_env) [KqSet 5 ADD, KqSet 5 RM]
      (kq_start\<lparr>kq_sys := live_sys\<lparr>s_srcs := (\<lambda>_. None)(5 := Some a_path)\<rparr>\<rparr>) = Some w' \<and>
    List.map kv_ident (kq_calls w') = [11, 10] \<and> s_closed (kq_sys w') = [11]"
  by (simp add: kq_run_defs a_path_def Let_def live_sys_def new_sys_def)

end
