(* ===== verification/Uring.thy ===== *)
theory Uring
  imports Src
begin

text \<open>
  The plugin that polls with io_uring, \<^verbatim>\<open>poll/uring.c\<close>. liburing is a parameter: what its functions return. What
  the plugin asks of it is recorded, latest first. A source has the address of its submission entry
  instead of epoll data.
\<close>

datatype ur_call = QueueInit | GetSqe ptr | PollAdd ptr int | SetData ptr sid | PollRemove ptr sid | Submit | CqeSeen ptr
  | QueueExit

record ur_world =
  ur_sys :: sys
  ur_ring_fd :: int
  ur_sqe :: "sid \<Rightarrow> ptr"
  ur_cqe :: ptr
  ur_calls :: "ur_call list"

record uring =
  u_queue_init :: "sys \<Rightarrow> int \<times> int"
  u_get_sqe :: "ur_world \<Rightarrow> ptr"
  u_wait_cqe :: "int \<Rightarrow> ur_world \<Rightarrow> int \<times> ptr"
  u_get_data :: "ptr \<Rightarrow> ur_world \<Rightarrow> sid"

definition ur_call :: "ur_call \<Rightarrow> ur_world \<Rightarrow> ur_world" where
  "ur_call c w = w\<lparr>ur_calls := c # ur_calls w\<rparr>"

definition ur_create :: "uring \<Rightarrow> env \<Rightarrow> ur_world \<Rightarrow> int \<times> ur_world" where
  "ur_create U E w = (case alloc E (ur_sys w) of (priv, s1) \<Rightarrow>
     if priv = NULL then (- ENOMEM, w\<lparr>ur_sys := s1\<lparr>c_priv := False\<rparr>\<rparr>)
     else case u_queue_init U s1 of (r, fd) \<Rightarrow>
       (r, ur_call QueueInit (w\<lparr>ur_sys := s1\<lparr>c_priv := True\<rparr>, ur_ring_fd := fd\<rparr>)))"

text \<open>
  Adding takes an entry when the source has none; removing writes into the entry that the source has, and
  forgets it. The descriptor made for a source is closed.
\<close>

definition ur_set_new_evt :: "uring \<Rightarrow> env \<Rightarrow> sid \<Rightarrow> op_type \<Rightarrow> ur_world \<Rightarrow> (int \<times> ur_world) option" where
  "ur_set_new_evt U E i op w = (case s_srcs (ur_sys w) i of None \<Rightarrow> None | Some t0 \<Rightarrow>
     if ur_sqe w i = NULL \<and> op = RM then Some (0, w)
     else let
       sqe = (if ur_sqe w i = NULL then u_get_sqe U w else ur_sqe w i);
       w1 = (if ur_sqe w i = NULL then ur_call (GetSqe sqe) (w\<lparr>ur_sqe := (ur_sqe w)(i := sqe)\<rparr>) else w)
     in if sqe = NULL then Some (- ENOMEM, w1)
     else let
       t = (if op = ADD \<and> es_fd t0 = -1 then create_priv_fd E t0 (ur_sys w1) else t0);
       w2 = w1\<lparr>ur_sys := set_src i t (ur_sys w1)\<rparr>;
       fd = es_fd t
     in
       if fd = -1 then Some (-1, w2)
       else if op = ADD then Some (0, ur_call (SetData sqe i) (ur_call (PollAdd sqe fd) w2))
       else let w3 = (ur_call (PollRemove sqe i) w2)\<lparr>ur_sqe := (ur_sqe w2)(i := NULL)\<rparr> in
         if es_type t \<notin> {M_SRC_TYPE_PS, M_SRC_TYPE_FD}
         then Some (0, w3\<lparr>ur_sys := set_src i (t\<lparr>es_fd := -1\<rparr>) (close_fd fd (ur_sys w3))\<rparr>)
         else Some (0, w3))"

definition ur_init :: "ur_world \<Rightarrow> int" where "ur_init w = 0"

definition ur_wait :: "uring \<Rightarrow> int \<Rightarrow> ur_world \<Rightarrow> int \<times> ur_world" where
  "ur_wait U timeout w = (let w1 = ur_call Submit w in case u_wait_cqe U timeout w1 of (ret, cqe) \<Rightarrow>
     (if ret = 0 then 1 else ret, w1\<lparr>ur_cqe := cqe\<rparr>))"

text \<open>A source is armed for one event, and armed again when it is received.\<close>

definition ur_recv :: "uring \<Rightarrow> env \<Rightarrow> ur_world \<Rightarrow> (sid \<times> ur_world) option" where
  "ur_recv U E w = (let udata = u_get_data U (ur_cqe w) w; w1 = ur_call (CqeSeen (ur_cqe w)) w in
     if udata \<noteq> NULL
     then map_option (\<lambda>(r, w2). (udata, w2)) (ur_set_new_evt U E udata ADD (w1\<lparr>ur_sqe := (ur_sqe w1)(udata := NULL)\<rparr>))
     else Some (udata, w1))"

definition ur_get_fd :: "ur_world \<Rightarrow> int" where "ur_get_fd w = ur_ring_fd w"
definition ur_clear :: "ur_world \<Rightarrow> int" where "ur_clear w = 0"

definition ur_destroy :: "ur_world \<Rightarrow> ur_world option" where
  "ur_destroy w = (if \<not> c_priv (ur_sys w) then None else Some (ur_call QueueExit w))"

subsection \<open>A removal that is not submitted\<close>

text \<open>
  The last use of an entry before \<open>cs\<close> is latest: taken from the ring, and nothing submitted since.
\<close>

definition pending :: "ptr \<Rightarrow> ur_call list \<Rightarrow> bool" where
  "pending sqe cs \<longleftrightarrow> GetSqe sqe \<in> set (takeWhile (\<lambda>c. c \<noteq> Submit) cs)"

text \<open>
  A source that was added, and waited for, is removed through an entry of the ring that the kernel has been
  given already: the removal is not among what is submitted next, and the source goes on being polled.
\<close>

lemma ur_remove_not_pending:
  assumes "ur_sqe w i \<noteq> NULL" and "s_srcs (ur_sys w) i = Some t" and "es_fd t \<noteq> -1" and "ur_wait U n w = (r, w1)"
  shows "\<exists>w2. ur_set_new_evt U E i RM w1 = Some (0, w2) \<and> ur_calls w2 = PollRemove (ur_sqe w i) i # Submit # ur_calls w \<and>
    \<not> pending (ur_sqe w i) (ur_calls w2)"
proof -
  have w1: "ur_sqe w1 = ur_sqe w" "ur_sys w1 = ur_sys w" "ur_calls w1 = Submit # ur_calls w"
    using assms(4) by (auto simp: ur_wait_def ur_call_def Let_def split: prod.splits)
  show ?thesis using assms(1-3) w1 by (simp add: ur_set_new_evt_def ur_call_def pending_def Let_def)
qed

end
