(* ===== verification/Spec2Isabelle.thy ===== *)
theory Spec2Isabelle
  imports LStack LList LQueue MemRef HMapFacts BstWalk BstTree Running Members ThPoolOwner FsFacts DumpFacts Log KqueueFacts Uring
begin

text \<open>
  libmodule is a C library for actors: modules with callbacks live in the context of a thread, register
  sources of events (descriptors, timers, signals, paths, processes, tasks, thresholds), send each other
  messages, and are run by the loop of the context, which polls the sources and hands events over.
  This development models the library's own code under \<^verbatim>\<open>src/Lib\<close> function by function, and proves what its
  parts promise each other, or that they do not keep it.

  \<^bold>\<open>Parts and how they interact.\<close>
  \<^verbatim>\<open>structs\<close> holds the containers: stack, list and queue of linked nodes, a hash map with open addressing, a
  binary search tree with parent pointers. \<^verbatim>\<open>mem\<close> counts references to objects whose header lies before the
  pointer the client has. \<^verbatim>\<open>core\<close> is the library: \<^verbatim>\<open>mod.c\<close> (modules), \<^verbatim>\<open>src.c\<close> (sources, kept in one tree per type),
  \<^verbatim>\<open>poll\<close> (plugins that wait), \<^verbatim>\<open>ps.c\<close> (messages through the pipe of a module), \<^verbatim>\<open>evts.c\<close> (events, batches, stash),
  \<^verbatim>\<open>ctx.c\<close> (the context, its table of modules and its loop), \<^verbatim>\<open>fs\<close> (a FUSE file system with a file per module).
  \<^verbatim>\<open>thpool\<close> runs tasks on threads. \<^verbatim>\<open>utils\<close> has the log. The core uses the containers by their contracts, and
  calls the client back from the midst of its operations; the client may call any public function there.

  \<^bold>\<open>Conventions.\<close>
  A function of the source is a definition of its name (with a prefix where two files share one, and without
  \<^verbatim>\<open>static\<close> and \<^verbatim>\<open>inline\<close>). A call that dereferences is a partial function: \<open>None\<close> is undefined behaviour or a loop
  that does not end, so that \<open>Some\<close> states memory safety and termination. Status codes are the
  C ones. Machine integers that may wrap are words. Allocations, system calls, libfuse, liburing and the
  callbacks of the client are parameters: arguments of the containers, the records \<open>env\<close>, \<open>hooks\<close>, \<open>fuse\<close>, \<open>kernel\<close>,
  \<open>uring\<close> of the rest. Macros that return early (\<^verbatim>\<open>M_MOD_ASSERT\<close>, \<^verbatim>\<open>M_MOD_CONSUME_TOKEN\<close>, ...) take the rest
  of the function as an argument.

  \<^bold>\<open>Theories.\<close>
  \<^item> \<open>Prelude\<close>: pointers, status codes, destructors, iteration with a callback. \<open>Itr\<close>: \<^verbatim>\<open>m_itr_foreach\<close> and the
    contract \<open>iterable\<close> of an iterator. \<open>Chain\<close>: nodes linked in a store. \<open>Contracts\<close>: \<open>container\<close>, \<open>lifo\<close>, \<open>fifo\<close>,
    \<open>assoc_map\<close>, what any history of calls on such a container returns. \<open>Ordered\<close>: \<open>comparator\<close>, \<open>ordered_set\<close>.
  \<^item> \<open>LStack\<close>, \<open>LList\<close>, \<open>LQueue\<close>: \<^verbatim>\<open>stack.c\<close>, \<^verbatim>\<open>list.c\<close>, \<^verbatim>\<open>queue.c\<close>. A state is a record with the store of nodes, the
    head, the length and the destructor. The stack is a \<open>lifo\<close>, the queue a \<open>fifo\<close>, all three are \<open>iterable\<close>: their
    histories return what those of an ideal list return; removing in a loop removes what was asked for,
    save at the end of a queue, whose tail it loses.
  \<^item> \<open>MemRef\<close>: \<^verbatim>\<open>mem.c\<close> over 64-bit addresses and bytes: layout, alignment, overflow of the size,
    life of an object under any history of references.
  \<^item> \<open>HMap\<close>: \<^verbatim>\<open>map.c\<close> with its hash, growth and back-shift; \<open>HMapFacts\<close>: well-formed tables, the contract \<open>assoc_map\<close>.
  \<^item> \<open>Bst\<close>: \<^verbatim>\<open>bst.c\<close>; \<open>BstFacts\<close>: insertion, removal and lookup, the contract \<open>ordered_set\<close>; \<open>BstWalk\<close>: iterator,
    traversals, clearing, \<open>iterable\<close> and \<open>comparator\<close>; \<open>BstTree\<close>: the functional tree that \<^verbatim>\<open>bst.c\<close> refines for every comparator,
    which is what the core uses.
  \<^item> \<open>Core\<close>: the state \<open>sys\<close> of the core (context, modules, sources, events, clock, descriptors closed) and the guards.
    \<open>Src\<close>: \<^verbatim>\<open>src.c\<close>, \<^verbatim>\<open>epoll.c\<close>, \<^verbatim>\<open>cmn_linux.c\<close>. \<open>Ps\<close>: \<^verbatim>\<open>ps.c\<close>. \<open>Evts\<close>: \<^verbatim>\<open>evts.c\<close> and \<^verbatim>\<open>push_evt\<close>. \<open>Mod\<close>: \<^verbatim>\<open>mod.c\<close>.
    \<open>Ctx\<close>: \<^verbatim>\<open>ctx.c\<close>. \<open>Client\<close>: the public functions as calls, clients whose callbacks are scripts of calls, histories.
  \<^item> \<open>Calm\<close>: what the operations without callbacks leave alone. \<open>Demo\<close>: a machine and a state to try calls on.
    \<open>Running\<close>: the contract \<open>client\<close> of callbacks (start and event callbacks call anything, evaluation and stop
    callbacks only what leaves the states of modules alone), and the count of running modules under any such client.
    \<open>Messages\<close>: who gets a message. \<open>Members\<close>: registration, the token bucket.
  \<^item> \<open>Format\<close>, \<open>Dump\<close>, \<open>DumpFacts\<close>: the dumps of modules and contexts as the texts written: which modules
    they name, what nests and why it is not JSON.
    \<open>Log\<close>: \<^verbatim>\<open>log.c\<close>, the table of log functions against its reference. \<open>Entry\<close>: \<^verbatim>\<open>module_dtor\<close>, loggers, \<^verbatim>\<open>main.c\<close>, \<^verbatim>\<open>mod_easy.h\<close>.
  \<^item> \<open>Fs\<close>: \<^verbatim>\<open>fs.c\<close>, over a state that counts the references of modules; \<open>FsFacts\<close>: histories of requests by
    libfuse's protocol, which keeps its own list of open handles, and notifications; what a reader gets, the two ways in which it uses freed memory.
  \<^item> \<open>Kqueue\<close>, \<open>KqueueFacts\<close>, \<open>Uring\<close>: \<^verbatim>\<open>kqueue.c\<close> and \<^verbatim>\<open>uring.c\<close>, with what they submit to the kernel on record.
  \<^item> \<open>ThPool\<close>: \<^verbatim>\<open>thpool.c\<close> as a step relation over places of threads and callers; \<open>ThPoolFacts\<close>: exclusion, each task
    at exactly one place, how many threads there are, a lock leaked by a failed \<^verbatim>\<open>pthread_create\<close>; \<open>ThPoolOwner\<close>: a pool with one caller, freeing it, no lost wake-up.

  \<^bold>\<open>Interfaces.\<close>
  A locale states each contract, its consequences are proved once, and an interpretation in the theory of the
  provider discharges it on the model of the code: \<open>stk\<close>, \<open>que\<close>, \<open>hmp\<close>, \<open>bst\<close> for the containers,
  \<open>stk_itr\<close>, \<open>que_itr\<close>, \<open>lst_itr\<close>, \<open>bst_itr\<close> for iterators, \<open>ptr_order\<close> for the default comparator,
  \<open>script\<close> for clients.

  \<^bold>\<open>Bounds and fuel.\<close>
  Loops that follow pointers, and the loop of the context, are partial functions without fuel. Callbacks nest
  up to the depth of a script, which is any number; a deeper nesting is left undefined, so that
  a property of all depths is one of all such clients. The history of a map is proved for up to 128 keys, where no
  insertion can fail for lack of room; single operations for any well-formed table. Threads of the pool interleave at
  the granularity of what they do under the lock or without it.

  \<^bold>\<open>Not modelled.\<close>
  Calls of one context from several threads, and messages between modules of two contexts (\<^verbatim>\<open>m_mod_ps_tell\<close> refuses them); calls of the library by the
  client's logger; the reference counts of contexts, and those of modules outside the file
  system; the bodies of logging calls in the core (\<^verbatim>\<open>M_DEBUG\<close> and the like), which have no effect; \<^verbatim>\<open>make_key\<close>; the
  selection by \<^verbatim>\<open>_Generic\<close> in \<^verbatim>\<open>itr.h\<close>, which is resolved by the compiler; the owner and time fields of \<^verbatim>\<open>fs_getattr\<close>. In the
  core a map is an association list in table order, whose growth may fail (\<open>e_grow\<close>): an iteration that removes from a table
  whose cluster wraps around is followed in \<open>HMap\<close> only. Samples and tests are programs of the client.
\<close>

end
